(* ===== verification/Prelude.thy ===== *)
theory Prelude
  imports Main "HOL-Library.Word" "HOL-Library.Code_Target_Nat"
begin

text \<open>
  Shared vocabulary of the development: Rust's \<open>Result\<close> as a sum type, saturating and checked
  machine arithmetic on \<open>nat\<close>, and the operations on \<open>str\<close> that the extractor uses.

  A Rust \<open>&str\<close> or \<open>&[u8]\<close> is a \<^typ>\<open>string\<close>, the list of its UTF-8 bytes (an Isabelle
  \<^typ>\<open>char\<close> is one byte). \<open>length\<close> is therefore Rust's \<open>len\<close>, and searching, splitting
  and comparing at ASCII patterns is byte-wise, which is what Rust does because UTF-8 never
  contains an ASCII byte inside another character. \<open>char::is_whitespace\<close> is the Unicode
  \<open>White_Space\<close> property, written out on the encoded bytes in \<open>ws_len\<close>.
\<close>

named_theorems extractor_simps \<open>unfolding rules shared by the component proofs\<close>
named_theorems wf_intros \<open>introduction rules for the invariants of the components\<close>

section \<open>Results\<close>

type_synonym ('e, 'a) res = "'e + 'a"

abbreviation Err :: "'e \<Rightarrow> ('e, 'a) res" where
  "Err \<equiv> Inl"

abbreviation Ok :: "'a \<Rightarrow> ('e, 'a) res" where
  "Ok \<equiv> Inr"

definition rbind :: "('e, 'a) res \<Rightarrow> ('a \<Rightarrow> ('e, 'b) res) \<Rightarrow> ('e, 'b) res" where
  "rbind m f = (case m of Inl e \<Rightarrow> Inl e | Inr x \<Rightarrow> f x)"

definition map_err :: "('e \<Rightarrow> 'f) \<Rightarrow> ('e, 'a) res \<Rightarrow> ('f, 'a) res" where
  "map_err g m = (case m of Inl e \<Rightarrow> Inl (g e) | Inr x \<Rightarrow> Inr x)"

definition ok_or :: "'e \<Rightarrow> 'a option \<Rightarrow> ('e, 'a) res" where
  "ok_or e v = (case v of None \<Rightarrow> Inl e | Some x \<Rightarrow> Inr x)"

definition is_ok :: "('e, 'a) res \<Rightarrow> bool" where
  "is_ok m = (case m of Inl _ \<Rightarrow> False | Inr _ \<Rightarrow> True)"

definition guard :: "bool \<Rightarrow> 'e \<Rightarrow> ('e, unit) res" where
  "guard b e = (if b then Inr () else Inl e)"

lemma rbind_simps [simp]:
  "rbind (Inl e) f = Inl e"
  "rbind (Inr x) f = f x"
  by (simp_all add: rbind_def)

lemma rbind_Ok_iff [simp]: "rbind m f = Inr y \<longleftrightarrow> (\<exists>x. m = Inr x \<and> f x = Inr y)"
  by (cases m) auto

lemma rbind_Err_iff [simp]:
  "rbind m f = Inl e \<longleftrightarrow> m = Inl e \<or> (\<exists>x. m = Inr x \<and> f x = Inl e)"
  by (cases m) auto

lemma map_err_simps [simp]:
  "map_err g (Inl e) = Inl (g e)"
  "map_err g (Inr x) = Inr x"
  by (simp_all add: map_err_def)

lemma map_err_iff [simp]:
  "map_err g m = Inr x \<longleftrightarrow> m = Inr x"
  "map_err g m = Inl f \<longleftrightarrow> (\<exists>e. m = Inl e \<and> f = g e)"
  by (cases m; auto)+

lemma ok_or_simps [simp]:
  "ok_or e None = Inl e"
  "ok_or e (Some x) = Inr x"
  "ok_or e v = Inr y \<longleftrightarrow> v = Some y"
  "ok_or e v = Inl f \<longleftrightarrow> v = None \<and> f = e"
  by (auto simp: ok_or_def split: option.splits)

lemma is_ok_simps [simp]:
  "is_ok (Inr x)"
  "\<not> is_ok (Inl e)"
  by (simp_all add: is_ok_def)

lemma is_ok_iff: "is_ok m \<longleftrightarrow> (\<exists>x. m = Inr x)"
  by (cases m) auto

lemma guard_simps [simp]:
  "guard True e = Inr ()"
  "guard False e = Inl e"
  "guard b e = Inr u \<longleftrightarrow> b"
  "guard b e = Inl f \<longleftrightarrow> \<not> b \<and> f = e"
  by (auto simp: guard_def)

text \<open>\<open>run_all step s qs\<close>: the answers of a stateful operation to a sequence of requests, and the
  state after them.\<close>

fun run_all :: "('s \<Rightarrow> 'q \<Rightarrow> 'r \<times> 's) \<Rightarrow> 's \<Rightarrow> 'q list \<Rightarrow> 'r list \<times> 's" where
  "run_all step s [] = ([], s)"
| "run_all step s (q # qs) =
     (let (r, s') = step s q; (rs, s'') = run_all step s' qs in (r # rs, s''))"

section \<open>Machine integers\<close>

definition u16_max :: nat where "u16_max = 65535"
definition u32_max :: nat where "u32_max = 4294967295"
definition u64_max :: nat where "u64_max = 18446744073709551615"
definition usize_max :: nat where "usize_max = 18446744073709551615"
definition i64_max :: nat where "i64_max = 9223372036854775807"
definition i32_max :: nat where "i32_max = 2147483647"

lemmas int_limits = u16_max_def u32_max_def u64_max_def usize_max_def i64_max_def i32_max_def

definition sat_add :: "nat \<Rightarrow> nat \<Rightarrow> nat \<Rightarrow> nat" where
  "sat_add m a b = min m (a + b)"

definition sat_mul :: "nat \<Rightarrow> nat \<Rightarrow> nat \<Rightarrow> nat" where
  "sat_mul m a b = min m (a * b)"

definition checked_add :: "nat \<Rightarrow> nat \<Rightarrow> nat \<Rightarrow> nat option" where
  "checked_add m a b = (if a + b \<le> m then Some (a + b) else None)"

definition try_from :: "nat \<Rightarrow> nat \<Rightarrow> nat option" where
  "try_from m a = (if a \<le> m then Some a else None)"

lemma checked_add_Some [simp]: "checked_add m a b = Some c \<longleftrightarrow> c = a + b \<and> a + b \<le> m"
  by (auto simp: checked_add_def)

lemma checked_add_None [simp]: "checked_add m a b = None \<longleftrightarrow> m < a + b"
  by (auto simp: checked_add_def)

lemma try_from_Some [simp]: "try_from m a = Some b \<longleftrightarrow> b = a \<and> a \<le> m"
  by (auto simp: try_from_def)

lemma try_from_None [simp]: "try_from m a = None \<longleftrightarrow> m < a"
  by (auto simp: try_from_def)

lemma sat_add_exact: "a + b \<le> m \<Longrightarrow> sat_add m a b = a + b"
  by (simp add: sat_add_def)

lemma sat_add_bound [simp]: "sat_add m a b \<le> m"
  by (simp add: sat_add_def)

section \<open>Strings\<close>

definition starts_with :: "string \<Rightarrow> string \<Rightarrow> bool" where
  "starts_with p s = (take (length p) s = p)"

definition ends_with :: "string \<Rightarrow> string \<Rightarrow> bool" where
  "ends_with p s = (length p \<le> length s \<and> drop (length s - length p) s = p)"

definition strip_prefix :: "string \<Rightarrow> string \<Rightarrow> string option" where
  "strip_prefix p s = (if starts_with p s then Some (drop (length p) s) else None)"

definition strip_suffix :: "string \<Rightarrow> string \<Rightarrow> string option" where
  "strip_suffix p s = (if ends_with p s then Some (take (length s - length p) s) else None)"

text \<open>\<open>split_once p s\<close>: the text before and after the first occurrence of \<open>p\<close>. A Rust
  \<open>find\<close> followed by slicing at the offset is the same pair.\<close>

fun split_once :: "string \<Rightarrow> string \<Rightarrow> (string \<times> string) option" where
  "split_once p [] = (if p = [] then Some ([], []) else None)"
| "split_once p (c # cs) =
     (if starts_with p (c # cs) then Some ([], drop (length p) (c # cs))
      else map_option (\<lambda>(a, b). (c # a, b)) (split_once p cs))"

definition contains_str :: "string \<Rightarrow> string \<Rightarrow> bool" where
  "contains_str p s = (split_once p s \<noteq> None)"

text \<open>Rust's \<open>split\<close> on a set of ASCII characters: always at least one piece.\<close>

fun split_on :: "(char \<Rightarrow> bool) \<Rightarrow> string \<Rightarrow> string list" where
  "split_on d [] = [[]]"
| "split_on d (c # cs) =
     (if d c then [] # split_on d cs
      else (case split_on d cs of [] \<Rightarrow> [[c]] | w # ws \<Rightarrow> (c # w) # ws))"

fun join_with :: "string \<Rightarrow> string list \<Rightarrow> string" where
  "join_with sep [] = []"
| "join_with sep [w] = w"
| "join_with sep (w # ws) = w @ sep @ join_with sep ws"

definition byte_of :: "char \<Rightarrow> nat" where
  "byte_of c = of_char c"

definition is_ascii_digit :: "char \<Rightarrow> bool" where
  "is_ascii_digit c = (48 \<le> byte_of c \<and> byte_of c \<le> 57)"

definition is_ascii_alphanumeric :: "char \<Rightarrow> bool" where
  "is_ascii_alphanumeric c =
     (is_ascii_digit c \<or> (65 \<le> byte_of c \<and> byte_of c \<le> 90) \<or> (97 \<le> byte_of c \<and> byte_of c \<le> 122))"

definition ascii_lower :: "char \<Rightarrow> char" where
  "ascii_lower c = (if 65 \<le> byte_of c \<and> byte_of c \<le> 90 then char_of (byte_of c + 32) else c)"

definition to_ascii_lowercase :: "string \<Rightarrow> string" where
  "to_ascii_lowercase s = map ascii_lower s"

definition eq_ignore_ascii_case :: "string \<Rightarrow> string \<Rightarrow> bool" where
  "eq_ignore_ascii_case a b = (to_ascii_lowercase a = to_ascii_lowercase b)"

subsection \<open>Unicode white space\<close>

text \<open>\<open>ws_len s\<close> is the number of bytes of the white-space character that \<open>s\<close> begins with,
  0 when it begins with none: U+0009 to U+000D, U+0020, U+0085, U+00A0, U+1680, U+2000 to
  U+200A, U+2028, U+2029, U+202F, U+205F and U+3000.\<close>

definition ws_len :: "string \<Rightarrow> nat" where
  "ws_len s =
     (case map byte_of (take 3 s) of
        [] \<Rightarrow> 0
      | a # r \<Rightarrow>
          if (9 \<le> a \<and> a \<le> 13) \<or> a = 32 then 1
          else (case r of
              [] \<Rightarrow> 0
            | b # r' \<Rightarrow>
                if a = 194 \<and> (b = 133 \<or> b = 160) then 2
                else (case r' of
                    [] \<Rightarrow> 0
                  | c # _ \<Rightarrow>
                      if (a = 225 \<and> b = 154 \<and> c = 128)
                         \<or> (a = 226 \<and> b = 128 \<and> (128 \<le> c \<and> c \<le> 138 \<or> c = 168 \<or> c = 169 \<or> c = 175))
                         \<or> (a = 226 \<and> b = 129 \<and> c = 159)
                         \<or> (a = 227 \<and> b = 128 \<and> c = 128)
                      then 3 else 0)))"

function ws_split :: "string \<Rightarrow> string list" where
  "ws_split [] = [[]]"
| "ws_split (c # cs) =
     (let n = ws_len (c # cs)
      in if n = 0 then (case ws_split cs of [] \<Rightarrow> [[c]] | w # ws \<Rightarrow> (c # w) # ws)
         else [] # ws_split (drop (n - 1) cs))"
  by pat_completeness auto
termination
  by (relation "measure length") auto

definition split_whitespace :: "string \<Rightarrow> string list" where
  "split_whitespace s = filter (\<lambda>w. w \<noteq> []) (ws_split s)"

function trim_start :: "string \<Rightarrow> string" where
  "trim_start [] = []"
| "trim_start (c # cs) =
     (let n = ws_len (c # cs) in if n = 0 then c # cs else trim_start (drop (n - 1) cs))"
  by pat_completeness auto
termination
  by (relation "measure length") auto

definition all_whitespace :: "string \<Rightarrow> bool" where
  "all_whitespace s = (trim_start s = [])"

fun trim_end :: "string \<Rightarrow> string" where
  "trim_end [] = []"
| "trim_end (c # cs) = (if all_whitespace (c # cs) then [] else c # trim_end cs)"

definition trim :: "string \<Rightarrow> string" where
  "trim s = trim_end (trim_start s)"

text \<open>\<open>chars().count()\<close>: every byte that is not a UTF-8 continuation byte starts a character.\<close>

definition char_count :: "string \<Rightarrow> nat" where
  "char_count s = length (filter (\<lambda>c. \<not> (128 \<le> byte_of c \<and> byte_of c < 192)) s)"

subsection \<open>Numbers in text\<close>

definition digit_value :: "char \<Rightarrow> nat" where
  "digit_value c = byte_of c - 48"

definition digits_value :: "string \<Rightarrow> nat" where
  "digits_value s = foldl (\<lambda>acc c. 10 * acc + digit_value c) 0 s"

text \<open>\<open>str::parse\<close> for an unsigned type: an optional plus sign, at least one ASCII digit and
  nothing else, and no value above the type's maximum.\<close>

definition parse_unsigned :: "nat \<Rightarrow> string \<Rightarrow> nat option" where
  "parse_unsigned m s =
     (let ds = (case s of c # cs \<Rightarrow> if c = CHR ''+'' then cs else s | [] \<Rightarrow> s)
      in if ds \<noteq> [] \<and> list_all is_ascii_digit ds \<and> digits_value ds \<le> m
         then Some (digits_value ds) else None)"

definition hex_digit :: "nat \<Rightarrow> char" where
  "hex_digit n = (if n < 10 then char_of (48 + n) else char_of (87 + n))"

text \<open>\<open>write!(output, "{byte:02x}")\<close> over a byte slice.\<close>

definition hex_string :: "8 word list \<Rightarrow> string" where
  "hex_string bs = concat (map (\<lambda>b. [hex_digit (unat b div 16), hex_digit (unat b mod 16)]) bs)"

subsection \<open>Lemmas\<close>

lemma starts_with_append [simp]: "starts_with p (p @ s)"
  by (simp add: starts_with_def)

lemma starts_with_iff: "starts_with p s \<longleftrightarrow> (\<exists>r. s = p @ r)"
  unfolding starts_with_def by (metis append_take_drop_id append_eq_conv_conj)

lemma ends_with_iff: "ends_with p s \<longleftrightarrow> (\<exists>r. s = r @ p)"
  unfolding ends_with_def by (metis append_take_drop_id append_eq_conv_conj diff_diff_cancel
      length_append length_drop le_add2 diff_add_inverse2)

lemma strip_suffix_Some: "strip_suffix p s = Some r \<longleftrightarrow> s = r @ p"
proof
  assume "strip_suffix p s = Some r"
  then show "s = r @ p"
    by (auto simp: strip_suffix_def ends_with_def split: if_splits)
      (metis append_take_drop_id)
qed (auto simp: strip_suffix_def ends_with_def)

lemma split_once_Some: "split_once p s = Some (a, b) \<Longrightarrow> s = a @ p @ b"
proof (induction p s arbitrary: a b rule: split_once.induct)
  case (2 p c cs)
  show ?case
  proof (cases "starts_with p (c # cs)")
    case True
    with "2.prems" show ?thesis
      by (auto simp: starts_with_iff)
  next
    case False
    with "2.prems" obtain a' where "split_once p cs = Some (a', b)" "a = c # a'"
      by auto
    with "2.IH" False show ?thesis by auto
  qed
qed (auto split: if_splits)

lemma split_once_shorter: "split_once p s = Some (a, b) \<Longrightarrow> p \<noteq> [] \<Longrightarrow> length b < length s"
  by (drule split_once_Some) (cases p, auto)

lemma split_on_not_Nil [simp]: "split_on d s \<noteq> []"
  by (induction s) (auto split: list.splits)

lemma join_split_on: "join_with [sep] (split_on (\<lambda>c. c = sep) s) = s"
proof (induction s)
  case (Cons c s)
  obtain w ws where ws: "split_on (\<lambda>c. c = sep) s = w # ws"
    by (meson neq_Nil_conv split_on_not_Nil)
  with Cons.IH show ?case
    by (cases ws) auto
qed simp

lemma split_on_no_sep: "w \<in> set (split_on d s) \<Longrightarrow> \<forall>c\<in>set w. \<not> d c"
proof (induction s arbitrary: w)
  case (Cons a s)
  then show ?case
    by (cases "split_on d s") (fastforce split: if_splits)+
qed auto

lemma split_on_word: "\<forall>c\<in>set w. \<not> d c \<Longrightarrow> split_on d w = [w]"
  by (induction w) auto

lemma split_on_append_sep:
  "\<forall>c\<in>set w. \<not> d c \<Longrightarrow> d sep \<Longrightarrow> split_on d (w @ sep # s) = w # split_on d s"
  by (induction w) auto

lemma split_on_join:
  "ws \<noteq> [] \<Longrightarrow> \<forall>w\<in>set ws. \<forall>c\<in>set w. \<not> d c \<Longrightarrow> d sep \<Longrightarrow>
   split_on d (join_with [sep] ws) = ws"
proof (induction ws)
  case (Cons w ws)
  show ?case
  proof (cases ws)
    case Nil
    with Cons.prems show ?thesis by (simp add: split_on_word)
  next
    case (Cons v vs)
    with Cons.IH Cons.prems show ?thesis by (simp add: split_on_append_sep)
  qed
qed simp

lemma byte_of_bound [simp]: "byte_of c < 256"
proof -
  have "of_char c mod (256 :: nat) = of_char c" by (rule of_char_mod_256)
  then show ?thesis unfolding byte_of_def by (metis mod_less_divisor zero_less_numeral)
qed

lemma length_to_ascii_lowercase [simp]: "length (to_ascii_lowercase s) = length s"
  by (simp add: to_ascii_lowercase_def)

lemma eq_ignore_ascii_case_refl [simp]: "eq_ignore_ascii_case s s"
  by (simp add: eq_ignore_ascii_case_def)

lemma length_hex_string [simp]: "length (hex_string bs) = 2 * length bs"
  by (induction bs) (auto simp: hex_string_def)

section \<open>Arithmetic on blocks of addresses and masks\<close>

unbundle bit_operations_syntax

lemma octet_bound [simp]: "unat (x :: 8 word) < 256"
  using unsigned_less [where w = x and 'a = nat] by simp

lemma pair_eq_iff: "b < k \<Longrightarrow> a * k + b = n \<longleftrightarrow> a = n div k \<and> b = n mod (k :: nat)"
  by (metis add.commute div_mult_mod_eq div_mult_self3 div_less add.right_neutral mod_less mod_mult_self3 not_less0)

lemma div_range: "0 < k \<Longrightarrow> x div k = m \<longleftrightarrow> k * m \<le> x \<and> x < k * Suc m" for k :: nat
  by (metis dividend_less_times_div div_nat_eqI mult.commute mult_Suc_right times_div_less_eq_dividend nonzero_mult_div_cancel_left add.commute less_not_refl2 mult_Suc)

lemma and_high_mask: 
  fixes w c :: "16 word"
  assumes "c AND mask n = 0"
  shows "w AND NOT (mask n) = c \<longleftrightarrow> unat w div 2 ^ n = unat c div 2 ^ n"
proof -
  have "w AND NOT (mask n) = c \<longleftrightarrow> drop_bit n w = drop_bit n c"
  proof
    assume "w AND NOT (mask n) = c"
    moreover have "drop_bit n (w AND NOT (mask n)) = drop_bit n w"
      by (auto simp: bit_eq_iff bit_simps dest: bit_imp_le_length)
    ultimately show "drop_bit n w = drop_bit n c" by simp
  next
    assume a: "drop_bit n w = drop_bit n c"
    have b: "\<not> bit c i" if "i < n" for i
      using assms that by (metis and_zero_eq bit_and_iff bit_mask_iff bit_0_eq bot_apply bot_bool_def bit_imp_le_length not_le possible_bit_word)
    have c: "bit w i = bit c i" if "n \<le> i" for i
    proof -
      have "bit (drop_bit n w) (i - n) = bit (drop_bit n c) (i - n)" using a by simp
      with that show ?thesis by (simp add: bit_drop_bit_eq)
    qed
    show "w AND NOT (mask n) = c"
    proof (rule bit_word_eqI)
      fix i assume "i < LENGTH(16)"
      then show "bit (w AND NOT (mask n)) i = bit c i"
        by (cases "i < n") (simp_all add: bit_simps b c)
    qed
  qed
  also have "\<dots> \<longleftrightarrow> unat (drop_bit n w) = unat (drop_bit n c)" by (rule word_unat_eq_iff)
  finally show ?thesis by (simp only: unat_drop_bit_eq) (simp only: drop_bit_eq_div)
qed

end
