(* ===== verification/UrlRouting.thy ===== *)
theory UrlRouting
  imports Prelude
begin

text \<open>
  The crate \<open>url-routing\<close>: URL normalization before DNS, source classification, the destination
  address policy and the validating DNS resolver.

  The \<open>url\<close> crate is not part of the repository. A value of type \<^typ>\<open>'u\<close> stands for its
  \<open>Url\<close> and the record \<open>url_api\<close> for the methods the code calls on it; every definition that
  uses them takes the record as an argument. \<open>sha256\<close> stands for the hash of the crate \<open>sha2\<close>.
  Addresses are the standard library's: four octets or eight 16-bit segments.
\<close>

unbundle bit_operations_syntax

section \<open>Data\<close>

type_synonym ipv4_addr = "8 word \<times> 8 word \<times> 8 word \<times> 8 word"
type_synonym ipv6_addr =
  "16 word \<times> 16 word \<times> 16 word \<times> 16 word \<times> 16 word \<times> 16 word \<times> 16 word \<times> 16 word"

datatype ip_addr = V4 ipv4_addr | V6 ipv6_addr

type_synonym socket_addr = "ip_addr \<times> 16 word"

datatype host = Domain string | Ipv4 ipv4_addr | Ipv6 ipv6_addr

record 'u url_api =
  u_parse :: "string \<Rightarrow> 'u option"
  u_as_str :: "'u \<Rightarrow> string"
  u_scheme :: "'u \<Rightarrow> string"
  u_username :: "'u \<Rightarrow> string"
  u_password :: "'u \<Rightarrow> string option"
  u_host :: "'u \<Rightarrow> host option"
  u_host_str :: "'u \<Rightarrow> string option"
  u_port :: "'u \<Rightarrow> 16 word option"
  u_port_or_known_default :: "'u \<Rightarrow> 16 word option"
  u_path :: "'u \<Rightarrow> string"
  u_query :: "'u \<Rightarrow> string option"
  u_query_pairs :: "'u \<Rightarrow> (string \<times> string) list"
  u_set_fragment :: "'u \<Rightarrow> string option \<Rightarrow> 'u"
  u_set_query :: "'u \<Rightarrow> string option \<Rightarrow> 'u"
  u_set_path :: "'u \<Rightarrow> string \<Rightarrow> 'u"
  u_join :: "'u \<Rightarrow> string \<Rightarrow> 'u option"
  form_key :: "string \<Rightarrow> string option"

record routing_policy =
  max_url_length :: nat
  allowed_ports :: "16 word list"

record 'u normalized_url =
  original :: string
  normalized :: 'u
  routing_fingerprint :: string

datatype source_route =
    GitHub | X | Instagram | Threads | Reddit | HackerNews | YouTube | Pdf | GenericWeb

datatype address_block_class =
    Unspecified | Loopback | Private | Shared | LinkLocal | Documentation | Benchmarking
  | Multicast | Reserved | Metadata

datatype resolution_error = Dns | Empty | Policy address_block_class

datatype url_error =
    TooLong | Invalid | UnsupportedScheme | MissingHost | UserInformation | PortZero | PortDenied
  | AmbiguousNumericHost

definition default_routing_policy :: routing_policy where
  "default_routing_policy = \<lparr>max_url_length = 8192, allowed_ports = [80, 443]\<rparr>"

section \<open>Normalization\<close>

definition raw_host :: "string \<Rightarrow> string option" where
  "raw_host input =
     (case split_once ''://'' input of
        None \<Rightarrow> None
      | Some (_, after_scheme) \<Rightarrow>
          let authority = hd (split_on (\<lambda>c. c \<in> {CHR ''/'', CHR ''?'', CHR ''#''}) after_scheme);
              host_port = last (split_on (\<lambda>c. c = CHR ''@'') authority)
          in if starts_with ''['' host_port then None
             else Some (hd (split_on (\<lambda>c. c = CHR '':'') host_port)))"

definition numeric_host_is_ambiguous :: "'u url_api \<Rightarrow> string \<Rightarrow> 'u \<Rightarrow> bool" where
  "numeric_host_is_ambiguous api input parsed =
     (case u_host api parsed of
        Some (Ipv4 _) \<Rightarrow>
          (case (raw_host input, u_host_str api parsed) of
             (Some raw, Some canonical) \<Rightarrow> \<not> eq_ignore_ascii_case raw canonical
           | _ \<Rightarrow> True)
      | _ \<Rightarrow> False)"

definition is_tracking_pair :: "'u url_api \<Rightarrow> string \<Rightarrow> bool" where
  "is_tracking_pair api pair =
     (let raw_key = (case split_once ''='' pair of None \<Rightarrow> pair | Some (key, _) \<Rightarrow> key)
      in case form_key api raw_key of
           None \<Rightarrow> False
         | Some key \<Rightarrow>
             key \<in> set [''utm_source'', ''utm_medium'', ''utm_campaign'', ''utm_term'',
                        ''utm_content'', ''gclid'', ''fbclid''])"

definition remove_tracking_query :: "'u url_api \<Rightarrow> 'u \<Rightarrow> 'u" where
  "remove_tracking_query api u =
     (case u_query api u of
        None \<Rightarrow> u
      | Some query \<Rightarrow>
          let retained = join_with ''&''
                (filter (\<lambda>pair. \<not> is_tracking_pair api pair) (split_on (\<lambda>c. c = CHR ''&'') query))
          in if retained = [] then u_set_query api u None else u_set_query api u (Some retained))"

definition fingerprint :: "(string \<Rightarrow> 8 word list) \<Rightarrow> string \<Rightarrow> string" where
  "fingerprint sha256 value = hex_string (sha256 value)"

definition normalize ::
  "'u url_api \<Rightarrow> (string \<Rightarrow> 8 word list) \<Rightarrow> string \<Rightarrow> routing_policy
   \<Rightarrow> (url_error, 'u normalized_url) res" where
  "normalize api sha256 input policy =
     (if length input > max_url_length policy then Err TooLong
      else if \<not> contains_str ''://'' input then Err MissingHost
      else case u_parse api input of
        None \<Rightarrow> Err Invalid
      | Some n \<Rightarrow>
          if u_scheme api n \<notin> {''http'', ''https''} then Err UnsupportedScheme
          else if u_host api n = None then Err MissingHost
          else if u_username api n \<noteq> [] \<or> u_password api n \<noteq> None then Err UserInformation
          else if u_port api n = Some 0 then Err PortZero
          else case u_port_or_known_default api n of
            None \<Rightarrow> Err PortDenied
          | Some port \<Rightarrow>
              if port \<notin> set (allowed_ports policy) then Err PortDenied
              else if numeric_host_is_ambiguous api input n then Err AmbiguousNumericHost
              else let n' = remove_tracking_query api (u_set_fragment api n None)
                   in Ok \<lparr>original = input, normalized = n',
                          routing_fingerprint = fingerprint sha256 (u_as_str api n')\<rparr>)"

section \<open>Classification\<close>

definition host_matches :: "string \<Rightarrow> string \<Rightarrow> bool" where
  "host_matches host base =
     (host = base \<or>
      (case strip_suffix base host of None \<Rightarrow> False | Some prefix \<Rightarrow> ends_with ''.'' prefix))"

definition classify :: "'u url_api \<Rightarrow> 'u normalized_url \<Rightarrow> source_route" where
  "classify api url =
     (case u_host_str api (normalized url) of
        None \<Rightarrow> GenericWeb
      | Some host \<Rightarrow>
          if host_matches host ''github.com'' then GitHub
          else if host_matches host ''x.com'' \<or> host_matches host ''twitter.com'' then X
          else if host_matches host ''instagram.com'' then Instagram
          else if host_matches host ''threads.net'' then Threads
          else if host_matches host ''reddit.com'' \<or> host_matches host ''redd.it'' then Reddit
          else if host_matches host ''news.ycombinator.com'' then HackerNews
          else if host_matches host ''youtube.com'' \<or> host_matches host ''youtu.be''
                  \<or> host_matches host ''youtube-nocookie.com'' then YouTube
          else if ends_with ''.pdf'' (to_ascii_lowercase (u_path api (normalized url))) then Pdf
          else GenericWeb)"

section \<open>Destination address policy\<close>

text \<open>The standard library's predicates on addresses.\<close>

fun v4_is_unspecified :: "ipv4_addr \<Rightarrow> bool" where
  "v4_is_unspecified (a, b, c, d) = (a = 0 \<and> b = 0 \<and> c = 0 \<and> d = 0)"

fun v4_is_loopback :: "ipv4_addr \<Rightarrow> bool" where
  "v4_is_loopback (a, b, c, d) = (a = 127)"

fun v6_is_unspecified :: "ipv6_addr \<Rightarrow> bool" where
  "v6_is_unspecified (a, b, c, d, e, f, g, h) =
     (a = 0 \<and> b = 0 \<and> c = 0 \<and> d = 0 \<and> e = 0 \<and> f = 0 \<and> g = 0 \<and> h = 0)"

fun v6_is_loopback :: "ipv6_addr \<Rightarrow> bool" where
  "v6_is_loopback (a, b, c, d, e, f, g, h) =
     (a = 0 \<and> b = 0 \<and> c = 0 \<and> d = 0 \<and> e = 0 \<and> f = 0 \<and> g = 0 \<and> h = 1)"

fun to_ipv4_mapped :: "ipv6_addr \<Rightarrow> ipv4_addr option" where
  "to_ipv4_mapped (a, b, c, d, e, f, g, h) =
     (if a = 0 \<and> b = 0 \<and> c = 0 \<and> d = 0 \<and> e = 0 \<and> f = 0xffff
      then Some (ucast (drop_bit 8 g), ucast g, ucast (drop_bit 8 h), ucast h)
      else None)"

fun blocked_ipv4 :: "ipv4_addr \<Rightarrow> address_block_class option" where
  "blocked_ipv4 (first, second, third, fourth) =
     (if v4_is_unspecified (first, second, third, fourth) then Some Unspecified
      else if v4_is_loopback (first, second, third, fourth) then Some Loopback
      else if (first = 169 \<and> second = 254 \<and> third = 169 \<and> fourth = 254)
              \<or> (first = 169 \<and> second = 254 \<and> third = 170 \<and> fourth = 2) then Some Metadata
      else if first = 10 \<or> (first = 172 \<and> 16 \<le> second \<and> second \<le> 31)
              \<or> (first = 192 \<and> second = 168) then Some Private
      else if first = 100 \<and> 64 \<le> second \<and> second \<le> 127 then Some Shared
      else if first = 169 \<and> second = 254 then Some LinkLocal
      else if (first = 192 \<and> second = 0 \<and> third = 2)
              \<or> (first = 198 \<and> second = 51 \<and> third = 100)
              \<or> (first = 203 \<and> second = 0 \<and> third = 113) then Some Documentation
      else if first = 198 \<and> (second = 18 \<or> second = 19) then Some Benchmarking
      else if 224 \<le> first \<and> first \<le> 239 then Some Multicast
      else if first = 0 \<or> first \<ge> 240 \<or> (first = 192 \<and> second = 0 \<and> third = 0)
              \<or> (first = 192 \<and> second = 88 \<and> third = 99) then Some Reserved
      else None)"

fun is_reserved_ipv6 :: "ipv6_addr \<Rightarrow> bool" where
  "is_reserved_ipv6 (first, second, third, fourth, fifth, sixth, _, _) =
     (let discard_only = first = 0x0100 \<and> second = 0 \<and> third = 0 \<and> fourth = 0 \<and> fifth = 0
                         \<and> sixth = 0;
          nat64_well_known = first = 0x0064 \<and> second = 0xff9b \<and> third = 0 \<and> fourth = 0
                             \<and> fifth = 0 \<and> sixth = 0;
          nat64_local = first = 0x0064 \<and> second = 0xff9b \<and> third = 1;
          transition = (first = 0x2001
                        \<and> (second = 0 \<or> second AND 0xfff0 = 0x0010 \<or> second AND 0xfff0 = 0x0020))
                       \<or> first = 0x2002;
          site_local = first AND 0xffc0 = 0xfec0;
          outside_global_unicast = first AND 0xe000 \<noteq> 0x2000
      in discard_only \<or> nat64_well_known \<or> nat64_local \<or> transition \<or> site_local
         \<or> outside_global_unicast)"

definition blocked_ipv6 :: "ipv6_addr \<Rightarrow> address_block_class option" where
  "blocked_ipv6 address =
     (case to_ipv4_mapped address of
        Some mapped \<Rightarrow> blocked_ipv4 mapped
      | None \<Rightarrow>
          (case address of (first, second, third, fourth, fifth, sixth, seventh, eighth) \<Rightarrow>
             if v6_is_unspecified address then Some Unspecified
             else if v6_is_loopback address then Some Loopback
             else if first = 0xfd00 \<and> second = 0x0ec2 \<and> third = 0 \<and> fourth = 0 \<and> fifth = 0
                     \<and> sixth = 0 \<and> seventh = 0 \<and> eighth = 0x0254 then Some Metadata
             else if first AND 0xfe00 = 0xfc00 then Some Private
             else if first AND 0xffc0 = 0xfe80 then Some LinkLocal
             else if first AND 0xff00 = 0xff00 then Some Multicast
             else if (first = 0x2001 \<and> second = 0x0db8) \<or> first AND 0xfff0 = 0x3ff0
             then Some Documentation
             else if first = 0x2001 \<and> second = 0x0002 \<and> third = 0 then Some Benchmarking
             else if is_reserved_ipv6 address then Some Reserved
             else None))"

definition validate_address :: "ip_addr \<Rightarrow> (address_block_class, unit) res" where
  "validate_address address =
     (let cls = (case address of V4 a \<Rightarrow> blocked_ipv4 a | V6 a \<Rightarrow> blocked_ipv6 a)
      in case cls of Some c \<Rightarrow> Err c | None \<Rightarrow> Ok ())"

section \<open>The validating resolver\<close>

fun first_denied :: "socket_addr list \<Rightarrow> address_block_class option" where
  "first_denied [] = None"
| "first_denied ((ip, _) # rest) =
     (case validate_address ip of Inl c \<Rightarrow> Some c | Inr _ \<Rightarrow> first_denied rest)"

definition resolve_host ::
  "(string \<Rightarrow> (unit, socket_addr list) res) \<Rightarrow> string \<Rightarrow> (resolution_error, socket_addr list) res"
where
  "resolve_host lookup host =
     (case lookup host of
        Inl _ \<Rightarrow> Err Dns
      | Inr addresses \<Rightarrow>
          if addresses = [] then Err Empty
          else case first_denied addresses of
            Some c \<Rightarrow> Err (Policy c)
          | None \<Rightarrow> Ok addresses)"

section \<open>Reference policy: address blocks in CIDR notation\<close>

text \<open>The special-purpose IPv4 blocks, as network and prefix length, independent of the order of
  the tests in the code.\<close>

definition v4_value :: "ipv4_addr \<Rightarrow> nat" where
  "v4_value a = (case a of (p, q, r, t) \<Rightarrow>
     ((unat p * 256 + unat q) * 256 + unat r) * 256 + unat t)"

definition in_cidr :: "nat \<Rightarrow> nat \<times> nat \<Rightarrow> bool" where
  "in_cidr v block = (case block of (network, len) \<Rightarrow> v div 2 ^ (32 - len) = network div 2 ^ (32 - len))"

definition special_v4_blocks :: "(nat \<times> nat) list" where
  "special_v4_blocks =
     map (\<lambda>(a, len). (v4_value a, len))
       [((0, 0, 0, 0), 8), ((10, 0, 0, 0), 8), ((100, 64, 0, 0), 10), ((127, 0, 0, 0), 8),
        ((169, 254, 0, 0), 16), ((172, 16, 0, 0), 12), ((192, 0, 0, 0), 24), ((192, 0, 2, 0), 24),
        ((192, 88, 99, 0), 24), ((192, 168, 0, 0), 16), ((198, 18, 0, 0), 15),
        ((198, 51, 100, 0), 24), ((203, 0, 113, 0), 24), ((224, 0, 0, 0), 4), ((240, 0, 0, 0), 4)]"

text \<open>The addresses outside every special-purpose block of IPv6 that the code names: global unicast
  (\<open>2000::/3\<close>) less Teredo, ORCHID, ORCHIDv2, documentation, benchmarking and 6to4.\<close>

fun public_v6 :: "ipv6_addr \<Rightarrow> bool" where
  "public_v6 (a, b, c, _, _, _, _, _) =
     (unat a div 2 ^ 13 = 1
      \<and> \<not> (a = 0x2001 \<and> (b = 0 \<or> unat b div 16 = 1 \<or> unat b div 16 = 2 \<or> b = 0x0db8))
      \<and> \<not> (a = 0x2001 \<and> b = 2 \<and> c = 0)
      \<and> a \<noteq> 0x2002
      \<and> unat a div 16 \<noteq> 0x3ff)"

section \<open>Lemmas\<close>

lemma v4_value_simp [simp]:
  "v4_value (p, q, r, t) = ((unat p * 256 + unat q) * 256 + unat r) * 256 + unat t"
  by (simp add: v4_value_def)

lemma octets_div:
  fixes p q r t :: nat
  assumes "q < 256" "r < 256" "t < 256"
  shows "(((p * 256 + q) * 256 + r) * 256 + t) div 256 = (p * 256 + q) * 256 + r"
    and "(((p * 256 + q) * 256 + r) * 256 + t) div 65536 = p * 256 + q"
    and "(((p * 256 + q) * 256 + r) * 256 + t) div 131072 = p * 128 + q div 2"
    and "(((p * 256 + q) * 256 + r) * 256 + t) div 1048576 = p * 16 + q div 16"
    and "(((p * 256 + q) * 256 + r) * 256 + t) div 4194304 = p * 4 + q div 64"
    and "(((p * 256 + q) * 256 + r) * 256 + t) div 16777216 = p"
    and "(((p * 256 + q) * 256 + r) * 256 + t) div 268435456 = p div 16"
proof -
  show "(((p * 256 + q) * 256 + r) * 256 + t) div 256 = (p * 256 + q) * 256 + r" using assms by simp
  have 1: "(((p * 256 + q) * 256 + r) * 256 + t) div (256*256) = p * 256 + q" using assms
    by (simp add: div_mult2_eq)
  then show "(((p * 256 + q) * 256 + r) * 256 + t) div 65536 = p * 256 + q" by simp
  have "(((p * 256 + q) * 256 + r) * 256 + t) div ((256*256) * 2) = (p * 256 + q) div 2"
    using 1 by (simp only: div_mult2_eq)
  also have "... = p * 128 + q div 2" by simp
  finally show "(((p * 256 + q) * 256 + r) * 256 + t) div 131072 = p * 128 + q div 2" by simp
  have "(((p * 256 + q) * 256 + r) * 256 + t) div ((256*256) * 16) = (p * 256 + q) div 16"
    using 1 by (simp only: div_mult2_eq)
  also have "... = p * 16 + q div 16" by simp
  finally show "(((p * 256 + q) * 256 + r) * 256 + t) div 1048576 = p * 16 + q div 16" by simp
  have "(((p * 256 + q) * 256 + r) * 256 + t) div ((256*256) * 64) = (p * 256 + q) div 64"
    using 1 by (simp only: div_mult2_eq)
  also have "... = p * 4 + q div 64" by simp
  finally show "(((p * 256 + q) * 256 + r) * 256 + t) div 4194304 = p * 4 + q div 64" by simp
  have 2: "(((p * 256 + q) * 256 + r) * 256 + t) div ((256*256) * 256) = p"
    using 1 assms by (simp add: div_mult2_eq)
  then show "(((p * 256 + q) * 256 + r) * 256 + t) div 16777216 = p" by simp
  have "(((p * 256 + q) * 256 + r) * 256 + t) div ((256*256*256) * 16) = p div 16"
    using 2 by (simp only: div_mult2_eq)
  then show "(((p * 256 + q) * 256 + r) * 256 + t) div 268435456 = p div 16" by simp
qed

lemma cidr_div:
  fixes p q r t :: "8 word"
  shows "in_cidr (v4_value (p, q, r, t)) (n, 4) \<longleftrightarrow> unat p div 16 = n div 268435456"
    and "in_cidr (v4_value (p, q, r, t)) (n, 8) \<longleftrightarrow> unat p = n div 16777216"
    and "in_cidr (v4_value (p, q, r, t)) (n, 10) \<longleftrightarrow> unat p * 4 + unat q div 64 = n div 4194304"
    and "in_cidr (v4_value (p, q, r, t)) (n, 12) \<longleftrightarrow> unat p * 16 + unat q div 16 = n div 1048576"
    and "in_cidr (v4_value (p, q, r, t)) (n, 15) \<longleftrightarrow> unat p * 128 + unat q div 2 = n div 131072"
    and "in_cidr (v4_value (p, q, r, t)) (n, 16) \<longleftrightarrow> unat p * 256 + unat q = n div 65536"
    and "in_cidr (v4_value (p, q, r, t)) (n, 24) \<longleftrightarrow> (unat p * 256 + unat q) * 256 + unat r = n div 256"
proof -
  note d = octets_div [OF octet_bound [of q] octet_bound [of r] octet_bound [of t], of "unat p"]
  have e: "(2::nat) ^ (32 - 4) = 268435456" "(2::nat) ^ (32 - 8) = 16777216" "(2::nat) ^ (32 - 10) = 4194304"
    "(2::nat) ^ (32 - 12) = 1048576" "(2::nat) ^ (32 - 15) = 131072" "(2::nat) ^ (32 - 16) = 65536" "(2::nat) ^ (32 - 24) = 256"
    by simp_all
  show "in_cidr (v4_value (p, q, r, t)) (n, 4) \<longleftrightarrow> unat p div 16 = n div 268435456"
   "in_cidr (v4_value (p, q, r, t)) (n, 8) \<longleftrightarrow> unat p = n div 16777216"
    "in_cidr (v4_value (p, q, r, t)) (n, 10) \<longleftrightarrow> unat p * 4 + unat q div 64 = n div 4194304"
    "in_cidr (v4_value (p, q, r, t)) (n, 12) \<longleftrightarrow> unat p * 16 + unat q div 16 = n div 1048576"
     "in_cidr (v4_value (p, q, r, t)) (n, 15) \<longleftrightarrow> unat p * 128 + unat q div 2 = n div 131072"
     "in_cidr (v4_value (p, q, r, t)) (n, 16) \<longleftrightarrow> unat p * 256 + unat q = n div 65536"
     "in_cidr (v4_value (p, q, r, t)) (n, 24) \<longleftrightarrow> (unat p * 256 + unat q) * 256 + unat r = n div 256"
    by (simp_all only: in_cidr_def prod.case v4_value_simp d e)
qed

lemma nat_pairs:
  fixes a b c :: nat
  shows "b < 256 \<Longrightarrow> a * 4 + b div 64 = 401 \<longleftrightarrow> a = 100 \<and> 64 \<le> b \<and> b \<le> 127"
    and "b < 256 \<Longrightarrow> a * 16 + b div 16 = 2753 \<longleftrightarrow> a = 172 \<and> 16 \<le> b \<and> b \<le> 31"
    and "b < 256 \<Longrightarrow> a * 128 + b div 2 = 25353 \<longleftrightarrow> a = 198 \<and> (b = 18 \<or> b = 19)"
    and "a < 256 \<Longrightarrow> a div 16 = 14 \<longleftrightarrow> 224 \<le> a \<and> a \<le> 239"
    and "a < 256 \<Longrightarrow> a div 16 = 15 \<longleftrightarrow> 240 \<le> a"
  by (auto simp: pair_eq_iff div_range)

lemma if_Some_None: "(if c then Some x else y) = None \<longleftrightarrow> \<not> c \<and> y = None"
  by simp

lemma special_v4_blocks_iff:
  "(\<exists>b\<in>set special_v4_blocks. in_cidr (v4_value (p, q, r, t)) b) \<longleftrightarrow>
     p = 0 \<or> p = 10 \<or> (p = 100 \<and> 64 \<le> q \<and> q \<le> 127) \<or> p = 127 \<or> (p = 169 \<and> q = 254)
     \<or> (p = 172 \<and> 16 \<le> q \<and> q \<le> 31) \<or> (p = 192 \<and> q = 0 \<and> r = 0) \<or> (p = 192 \<and> q = 0 \<and> r = 2)
     \<or> (p = 192 \<and> q = 88 \<and> r = 99) \<or> (p = 192 \<and> q = 168) \<or> (p = 198 \<and> (q = 18 \<or> q = 19))
     \<or> (p = 198 \<and> q = 51 \<and> r = 100) \<or> (p = 203 \<and> q = 0 \<and> r = 113)
     \<or> (224 \<le> p \<and> p \<le> 239) \<or> 240 \<le> p"
proof -
  have pairs: "unat p * 256 + unat q = n \<longleftrightarrow> unat p = n div 256 \<and> unat q = n mod 256" 
   "(unat p * 256 + unat q) * 256 + unat r = n \<longleftrightarrow> unat p = n div 256 div 256 \<and> unat q = n div 256 mod 256 \<and> unat r = n mod 256" for n
    by (simp_all only: pair_eq_iff octet_bound conj_assoc)
  show ?thesis
  unfolding special_v4_blocks_def
  by (simp only: list.map list.set ball_simps bex_simps prod.case cidr_div pairs)
     (simp add: octet_bound nat_pairs word_unat_eq_iff word_le_nat_alt)
qed

lemma blocked_ipv4_cidr:
  "blocked_ipv4 (p, q, r, t) = None \<longleftrightarrow>
     \<not> (\<exists>b\<in>set special_v4_blocks. in_cidr (v4_value (p, q, r, t)) b)"
  unfolding special_v4_blocks_iff
  by (simp only: blocked_ipv4.simps v4_is_unspecified.simps v4_is_loopback.simps if_Some_None) argo

lemma segment_masks: "(0xe000 :: 16 word) = NOT (mask 13)" "(0xfff0 :: 16 word) = NOT (mask 4)"
 "(0xffc0 :: 16 word) = NOT (mask 6)" "(0xff00 :: 16 word) = NOT (mask 8)" "(0xfe00 :: 16 word) = NOT (mask 9)"
  by (simp_all add: mask_eq_exp_minus_1)

lemma high_masks:
  fixes w :: "16 word"
  shows "w AND 0xe000 = 0x2000 \<longleftrightarrow> unat w div 2 ^ 13 = 1"
    and "w AND 0xfff0 = 0x3ff0 \<longleftrightarrow> unat w div 16 = 0x3ff"
    and "w AND 0xfff0 = 0x0010 \<longleftrightarrow> unat w div 16 = 1"
    and "w AND 0xfff0 = 0x0020 \<longleftrightarrow> unat w div 16 = 2"
    and "w AND 0xffc0 = 0xfec0 \<longleftrightarrow> unat w div 64 = 0x3fb"
    and "w AND 0xffc0 = 0xfe80 \<longleftrightarrow> unat w div 64 = 0x3fa"
    and "w AND 0xff00 = 0xff00 \<longleftrightarrow> unat w div 256 = 0xff"
    and "w AND 0xfe00 = 0xfc00 \<longleftrightarrow> unat w div 512 = 0x7e"
  unfolding segment_masks
  subgoal by (subst and_high_mask) (simp_all add: mask_eq_exp_minus_1)
  subgoal by (subst and_high_mask) (simp_all add: mask_eq_exp_minus_1)
  subgoal by (subst and_high_mask) (simp_all add: mask_eq_exp_minus_1)
  subgoal by (subst and_high_mask) (simp_all add: mask_eq_exp_minus_1)
  subgoal by (subst and_high_mask) (simp_all add: mask_eq_exp_minus_1)
  subgoal by (subst and_high_mask) (simp_all add: mask_eq_exp_minus_1)
  subgoal by (subst and_high_mask) (simp_all add: mask_eq_exp_minus_1)
  subgoal by (subst and_high_mask) (simp_all add: mask_eq_exp_minus_1)
  done

lemma global_unicast:
  fixes p :: "16 word"
  assumes "unat p div 2 ^ 13 = 1"
  shows "p \<noteq> 0" "p \<noteq> 0xfd00" "p \<noteq> 0x0100" "p \<noteq> 0x0064"
    "unat p div 512 \<noteq> 0x7e" "unat p div 64 \<noteq> 0x3fa" "unat p div 64 \<noteq> 0x3fb" "unat p div 256 \<noteq> 0xff"
  using assms by (simp_all add: word_unat_eq_iff div_range)

lemma public_v6_iff:
  assumes "to_ipv4_mapped (p, q, r, s, t, u, v, w) = None"
  shows "blocked_ipv6 (p, q, r, s, t, u, v, w) = None \<longleftrightarrow> public_v6 (p, q, r, s, t, u, v, w)"
proof (cases "unat p div 2 ^ 13 = 1")
  case True
  show ?thesis
    unfolding blocked_ipv6_def assms option.case
    by (simp only: prod.case public_v6.simps is_reserved_ipv6.simps Let_def high_masks v6_is_unspecified.simps v6_is_loopback.simps
      global_unicast [OF True] True) auto
next
  case False
  then have "is_reserved_ipv6 (p, q, r, s, t, u, v, w)"
    by (simp only: is_reserved_ipv6.simps Let_def high_masks) simp
  with False show ?thesis
    unfolding blocked_ipv6_def assms option.case prod.case public_v6.simps
    by (simp only: simp_thms if_True option.distinct split: if_split)
qed


lemma blocked_ipv4_None:
  "blocked_ipv4 a = None \<longleftrightarrow> \<not> (\<exists>b\<in>set special_v4_blocks. in_cidr (v4_value a) b)"
  by (cases a) (simp only: blocked_ipv4_cidr)

section \<open>Laws of the URL library\<close>

text \<open>What normalization relies on: the setters of the fragment and of the query leave the other
  parts of a URL alone, and a query made of bytes that already stood in a query is stored as it is
  (the setter percent-encodes only bytes that no stored query contains).\<close>

definition url_laws :: "'u url_api \<Rightarrow> bool" where
  "url_laws api \<longleftrightarrow>
     (\<forall>u f. let v = u_set_fragment api u f in
        u_scheme api v = u_scheme api u \<and> u_username api v = u_username api u
        \<and> u_password api v = u_password api u \<and> u_host api v = u_host api u
        \<and> u_host_str api v = u_host_str api u
        \<and> u_port_or_known_default api v = u_port_or_known_default api u
        \<and> u_path api v = u_path api u \<and> u_query api v = u_query api u)
     \<and> (\<forall>u q. let v = u_set_query api u q in
        u_scheme api v = u_scheme api u \<and> u_username api v = u_username api u
        \<and> u_password api v = u_password api u \<and> u_host api v = u_host api u
        \<and> u_host_str api v = u_host_str api u
        \<and> u_port_or_known_default api v = u_port_or_known_default api u
        \<and> u_path api v = u_path api u)
     \<and> (\<forall>u. u_query api (u_set_query api u None) = None)
     \<and> (\<forall>u q r. u_query api u = Some q \<and> set r \<subseteq> set q \<longrightarrow>
          u_query api (u_set_query api u (Some r)) = Some r)"

text \<open>A small instance of the interface (domain names only, no user information, no explicit
  port), used to evaluate the definitions on concrete URLs.\<close>

record sample_url =
  s_scheme :: string
  s_host :: string
  s_path :: string
  s_query :: "string option"
  s_fragment :: "string option"

definition cut :: "string \<Rightarrow> string \<Rightarrow> string \<times> string option" where
  "cut p s = (case split_once p s of None \<Rightarrow> (s, None) | Some (a, b) \<Rightarrow> (a, Some b))"

definition sample_parse :: "string \<Rightarrow> sample_url option" where
  "sample_parse input =
     (case split_once ''://'' input of
        None \<Rightarrow> None
      | Some (scheme, rest) \<Rightarrow>
          let (r1, f) = cut ''#'' rest; (r2, q) = cut ''?'' r1; (h, p) = cut ''/'' r2
          in if h = [] then None
             else Some \<lparr>s_scheme = scheme, s_host = h,
                        s_path = ''/'' @ (case p of None \<Rightarrow> [] | Some x \<Rightarrow> x), s_query = q,
                        s_fragment = f\<rparr>)"

definition sample_text :: "sample_url \<Rightarrow> string" where
  "sample_text u = s_scheme u @ ''://'' @ s_host u @ s_path u
     @ (case s_query u of None \<Rightarrow> [] | Some q \<Rightarrow> ''?'' @ q)
     @ (case s_fragment u of None \<Rightarrow> [] | Some f \<Rightarrow> ''#'' @ f)"

definition sample_port :: "sample_url \<Rightarrow> 16 word option" where
  "sample_port u = (if s_scheme u = ''https'' then Some 443 else if s_scheme u = ''http'' then Some 80
                    else None)"

definition sample_api :: "sample_url url_api" where
  "sample_api =
     \<lparr>u_parse = sample_parse, u_as_str = sample_text, u_scheme = s_scheme,
      u_username = (\<lambda>_. []), u_password = (\<lambda>_. None), u_host = (\<lambda>u. Some (Domain (s_host u))),
      u_host_str = (\<lambda>u. Some (s_host u)), u_port = (\<lambda>_. None),
      u_port_or_known_default = sample_port, u_path = s_path, u_query = s_query,
      u_query_pairs = (\<lambda>u. case s_query u of None \<Rightarrow> [] | Some q \<Rightarrow>
        map (\<lambda>pair. case cut ''='' pair of (k, v) \<Rightarrow> (k, case v of None \<Rightarrow> [] | Some x \<Rightarrow> x))
          (filter (\<lambda>pair. pair \<noteq> []) (split_on (\<lambda>c. c = CHR ''&'') q))),
      u_set_fragment = (\<lambda>u f. u\<lparr>s_fragment := f\<rparr>), u_set_query = (\<lambda>u q. u\<lparr>s_query := q\<rparr>),
      u_set_path = (\<lambda>u p. u\<lparr>s_path := p\<rparr>),
      u_join = (\<lambda>u t. if contains_str ''://'' t then sample_parse t
                       else if starts_with ''/'' t
                       then Some (u\<lparr>s_path := t, s_query := None, s_fragment := None\<rparr>) else None),
      form_key = (\<lambda>k. if k = [] then None else Some k)\<rparr>"

lemma sample_url_laws: "url_laws sample_api"
  by (simp add: url_laws_def sample_api_def sample_port_def)

definition sample_sha256 :: "string \<Rightarrow> 8 word list" where
  "sample_sha256 s = replicate 31 0 @ [of_nat (length s)]"

section \<open>Properties\<close>

lemma host_matches_iff: "host_matches h b \<longleftrightarrow> h = b \<or> (\<exists>sub. h = sub @ ''.'' @ b)"
proof (cases "strip_suffix b h")
  case None
  then have "h \<noteq> r @ b" for r
    using strip_suffix_Some [of b h r] by simp
  from this [of "sub @ ''.''" for sub] None show ?thesis
    by (simp add: host_matches_def)
next
  case (Some prefix)
  then have "h = prefix @ b"
    by (simp add: strip_suffix_Some)
  with Some show ?thesis
    by (auto simp: host_matches_def ends_with_iff)
qed

text \<open>The classes of the denied addresses of a DNS answer, in its order.\<close>

definition denied_classes :: "socket_addr list \<Rightarrow> address_block_class list" where
  "denied_classes as =
     List.map_filter (\<lambda>a. case validate_address (fst a) of Inl c \<Rightarrow> Some c | Inr _ \<Rightarrow> None) as"

lemma first_denied_eq:
  "first_denied as = (case denied_classes as of [] \<Rightarrow> None | c # _ \<Rightarrow> Some c)"
  by (induction as rule: first_denied.induct)
    (auto simp: denied_classes_def map_filter_simps split: sum.split)

lemma denied_classes_Nil:
  "denied_classes as = [] \<longleftrightarrow> (\<forall>a\<in>set as. validate_address (fst a) = Ok ())"
  by (induction as) (auto simp: denied_classes_def map_filter_simps split: sum.split)

text \<open>C20. The destination policy for IPv4 is exactly a table of special-purpose networks: an IPv4
  address is refused if and only if it lies in one of the fifteen CIDR blocks of
  \<open>special_v4_blocks\<close>, whatever the order of the tests in \<open>blocked_ipv4\<close>.\<close>

theorem ipv4_policy_is_cidr_table:
  "validate_address (V4 a) = Ok () \<longleftrightarrow> \<not> (\<exists>b\<in>set special_v4_blocks. in_cidr (v4_value a) b)"
  by (cases "blocked_ipv4 a") (use blocked_ipv4_None [of a] in \<open>auto simp: validate_address_def\<close>)

text \<open>C21. The destination policy for IPv6: an address is accepted if and only if it is an
  IPv4-mapped address whose embedded IPv4 address is accepted, or it is a global unicast address
  outside the transition, documentation and benchmarking ranges.\<close>

theorem ipv6_policy_is_public_unicast:
  "validate_address (V6 a) = Ok () \<longleftrightarrow>
     (case to_ipv4_mapped a of
        Some mapped \<Rightarrow> \<not> (\<exists>b\<in>set special_v4_blocks. in_cidr (v4_value mapped) b)
      | None \<Rightarrow> public_v6 a)"
proof -
  obtain p q r s t u v w where a: "a = (p, q, r, s, t, u, v, w)"
    by (metis surj_pair)
  have "validate_address (V6 a) = Ok () \<longleftrightarrow> blocked_ipv6 a = None"
    by (simp add: validate_address_def split: option.splits)
  moreover have "blocked_ipv6 a = None \<longleftrightarrow> public_v6 a" if "to_ipv4_mapped a = None"
    using public_v6_iff that unfolding a .
  moreover have "blocked_ipv6 a = blocked_ipv4 m" if "to_ipv4_mapped a = Some m" for m
    using that by (simp add: blocked_ipv6_def)
  ultimately show ?thesis
    by (cases "to_ipv4_mapped a") (auto simp: blocked_ipv4_None)
qed

text \<open>The validating resolver is all or nothing. It returns the complete answer exactly when the
  lookup succeeded with at least one address and every address passes the destination policy;
  otherwise one denied address refuses the whole answer, with the class of the first denied
  address of the answer and nothing else of it.\<close>

theorem resolve_host_all_or_nothing:
  "resolve_host lookup h =
     (case lookup h of
        Inl _ \<Rightarrow> Err Dns
      | Inr as \<Rightarrow>
          if as = [] then Err Empty
          else if list_all (\<lambda>a. validate_address (fst a) = Ok ()) as then Ok as
          else Err (Policy (hd (denied_classes as))))"
  unfolding resolve_host_def first_denied_eq list_all_iff denied_classes_Nil [symmetric]
  by (simp split: sum.split list.split)

lemma resolve_host_Ok:
  "resolve_host lookup h = Ok as \<longleftrightarrow>
     lookup h = Ok as \<and> as \<noteq> [] \<and> list_all (\<lambda>a. validate_address (fst a) = Ok ()) as"
  unfolding resolve_host_def first_denied_eq list_all_iff denied_classes_Nil [symmetric]
  by (auto split: sum.split list.split if_splits)

lemma remove_tracking_keeps:
  assumes "url_laws api"
  shows "u_scheme api (remove_tracking_query api u) = u_scheme api u"
    and "u_username api (remove_tracking_query api u) = u_username api u"
    and "u_password api (remove_tracking_query api u) = u_password api u"
    and "u_host api (remove_tracking_query api u) = u_host api u"
    and "u_port_or_known_default api (remove_tracking_query api u) = u_port_or_known_default api u"
  using assms
  by (auto simp: remove_tracking_query_def url_laws_def Let_def split: option.split)

text \<open>The \<open>&\<close>-separated pieces of the query of a URL, none when it has no query.\<close>

definition query_pieces :: "'u url_api \<Rightarrow> 'u \<Rightarrow> string list" where
  "query_pieces api u =
     (case u_query api u of None \<Rightarrow> [] | Some q \<Rightarrow> split_on (\<lambda>c. c = CHR ''&'') q)"

lemma join_with_chars: "set (join_with [sep] ws) \<subseteq> {sep} \<union> (\<Union>w\<in>set ws. set w)"
  by (induction "[sep]" ws rule: join_with.induct) auto

lemma split_on_chars: "w \<in> set (split_on d s) \<Longrightarrow> set w \<subseteq> set s"
proof (induction s arbitrary: w)
  case (Cons a s)
  obtain v vs where "split_on d s = v # vs"
    by (meson neq_Nil_conv split_on_not_Nil)
  with Cons show ?case
    by (fastforce split: if_splits)
qed simp

lemma join_with_filter_chars:
  "set (join_with [sep] (filter P (split_on (\<lambda>c. c = sep) s))) \<subseteq> set s"
proof (cases "sep \<in> set s")
  case True
  have "\<Union> (set ` set (split_on (\<lambda>c. c = sep) s)) \<subseteq> set s"
    using split_on_chars by fastforce
  with True join_with_chars [of sep "filter P (split_on (\<lambda>c. c = sep) s)"] show ?thesis
    by auto
next
  case False
  then have "split_on (\<lambda>c. c = sep) s = [s]"
    by (auto intro: split_on_word)
  then show ?thesis by simp
qed

lemma remove_tracking_pieces:
  assumes "url_laws api"
    and "retained = filter (\<lambda>p. \<not> is_tracking_pair api p) (query_pieces api u)"
  shows "query_pieces api (remove_tracking_query api u) =
     (if retained = [[]] then [] else retained)"
proof (cases "u_query api u")
  case None
  with assms show ?thesis by (simp add: query_pieces_def remove_tracking_query_def)
next
  case (Some q)
  let ?ps = "split_on (\<lambda>c. c = CHR ''&'') q"
  have r: "retained = filter (\<lambda>p. \<not> is_tracking_pair api p) ?ps"
    using assms(2) Some by (simp add: query_pieces_def)
  have nosep: "\<forall>w\<in>set retained. \<forall>c\<in>set w. \<not> c = CHR ''&''"
    using split_on_no_sep [of _ "\<lambda>c. c = CHR ''&''" q] by (auto simp: r)
  have empty: "join_with ''&'' retained = [] \<longleftrightarrow> retained = [] \<or> retained = [[]]"
    by (cases "(''&'', retained)" rule: join_with.cases) auto
  show ?thesis
  proof (cases "join_with ''&'' retained = []")
    case True
    with assms(1) Some empty show ?thesis
      by (auto simp: query_pieces_def remove_tracking_query_def r [symmetric] url_laws_def)
  next
    case False
    have "set (join_with ''&'' retained) \<subseteq> set q"
      unfolding r by (rule join_with_filter_chars)
    with assms(1) Some have
      "u_query api (u_set_query api u (Some (join_with ''&'' retained))) = Some (join_with ''&'' retained)"
      by (simp add: url_laws_def)
    moreover have "split_on (\<lambda>c. c = CHR ''&'') (join_with ''&'' retained) = retained"
      using False nosep empty by (intro split_on_join) auto
    ultimately show ?thesis
      using False Some empty by (simp add: query_pieces_def remove_tracking_query_def r [symmetric])
  qed
qed

text \<open>C22. What a normalized URL guarantees. When \<open>normalize\<close> accepts an input, the input is at most
  \<open>max_url_length\<close> bytes long and is kept unchanged as \<open>original\<close>; the routing URL is HTTP or HTTPS,
  has a host, carries no user name and no password, and its port is on the allowlist; the
  fingerprint is the hash of the routing URL in hexadecimal; and the pieces of its query are exactly
  the non-tracking pieces of the parsed query, in their order.\<close>

theorem normalize_guarantees:
  assumes laws: "url_laws api" and ok: "normalize api sha256 input policy = Ok n"
  shows "original n = input \<and> length input \<le> max_url_length policy
    \<and> u_scheme api (normalized n) \<in> {''http'', ''https''}
    \<and> u_host api (normalized n) \<noteq> None
    \<and> u_username api (normalized n) = [] \<and> u_password api (normalized n) = None
    \<and> (\<exists>port. u_port_or_known_default api (normalized n) = Some port
               \<and> port \<in> set (allowed_ports policy))
    \<and> routing_fingerprint n = hex_string (sha256 (u_as_str api (normalized n)))
    \<and> (\<exists>parsed. u_parse api input = Some parsed
         \<and> query_pieces api (normalized n) =
             (let kept = filter (\<lambda>p. \<not> is_tracking_pair api p) (query_pieces api parsed)
              in if kept = [[]] then [] else kept))"
proof -
  from ok obtain parsed port where p:
    "u_parse api input = Some parsed" "u_scheme api parsed \<in> {''http'', ''https''}"
    "u_host api parsed \<noteq> None" "u_username api parsed = []" "u_password api parsed = None"
    "u_port_or_known_default api parsed = Some port" "port \<in> set (allowed_ports policy)"
    "length input \<le> max_url_length policy"
    and n: "n = \<lparr>original = input, normalized = remove_tracking_query api (u_set_fragment api parsed None),
       routing_fingerprint =
         fingerprint sha256 (u_as_str api (remove_tracking_query api (u_set_fragment api parsed None)))\<rparr>"
    by (auto simp: normalize_def Let_def split: if_splits option.splits)
  have "query_pieces api (u_set_fragment api parsed None) = query_pieces api parsed"
    using laws by (simp add: query_pieces_def url_laws_def Let_def)
  moreover have frag: "u_scheme api (u_set_fragment api parsed None) = u_scheme api parsed"
    "u_username api (u_set_fragment api parsed None) = u_username api parsed"
    "u_password api (u_set_fragment api parsed None) = u_password api parsed"
    "u_host api (u_set_fragment api parsed None) = u_host api parsed"
    "u_port_or_known_default api (u_set_fragment api parsed None) = u_port_or_known_default api parsed"
    using laws by (simp_all add: url_laws_def Let_def)
  ultimately show ?thesis
    using p by (simp add: n remove_tracking_keeps [OF laws] frag remove_tracking_pieces [OF laws refl]
        fingerprint_def Let_def)
qed

theorem normalize_guarantees_witness:
  "\<exists>n. normalize sample_api sample_sha256 ''https://a.io/p?utm_source=x&q=1#f'' default_routing_policy = Ok n
     \<and> query_pieces sample_api (normalized n) = [''q=1'']"
proof -
  have "is_ok (normalize sample_api sample_sha256 ''https://a.io/p?utm_source=x&q=1#f'' default_routing_policy)"
    by code_simp
  then obtain n where n:
    "normalize sample_api sample_sha256 ''https://a.io/p?utm_source=x&q=1#f'' default_routing_policy = Ok n"
    by (auto simp: is_ok_iff)
  have "(case u_parse sample_api ''https://a.io/p?utm_source=x&q=1#f'' of None \<Rightarrow> False | Some parsed \<Rightarrow>
     filter (\<lambda>p. \<not> is_tracking_pair sample_api p) (query_pieces sample_api parsed) = [''q=1''])"
    by code_simp
  with normalize_guarantees [OF sample_url_laws n] n show ?thesis
    by (auto simp: Let_def)
qed

lemma ends_with_comparable:
  "ends_with a s \<Longrightarrow> ends_with b s \<Longrightarrow> ends_with a b \<or> ends_with b a"
  unfolding ends_with_iff by (metis append_eq_append_conv2)

lemma host_matches_ends_with: "host_matches h b \<Longrightarrow> ends_with b h"
  unfolding host_matches_iff ends_with_iff by (metis append.assoc append_Nil)

text \<open>The domains each adapter owns.\<close>

fun route_domains :: "source_route \<Rightarrow> string list" where
  "route_domains GitHub = [''github.com'']"
| "route_domains X = [''x.com'', ''twitter.com'']"
| "route_domains Instagram = [''instagram.com'']"
| "route_domains Threads = [''threads.net'']"
| "route_domains Reddit = [''reddit.com'', ''redd.it'']"
| "route_domains HackerNews = [''news.ycombinator.com'']"
| "route_domains YouTube = [''youtube.com'', ''youtu.be'', ''youtube-nocookie.com'']"
| "route_domains Pdf = []"
| "route_domains GenericWeb = []"

definition all_routes :: "source_route list" where
  "all_routes = [GitHub, X, Instagram, Threads, Reddit, HackerNews, YouTube, Pdf, GenericWeb]"

lemma all_routes: "r \<in> set all_routes"
  by (cases r) (simp_all add: all_routes_def)

lemma route_domains_separate:
  "list_all (\<lambda>r. list_all (\<lambda>r'. r = r' \<or>
     list_all (\<lambda>b. list_all (\<lambda>b'. \<not> ends_with b b') (route_domains r')) (route_domains r))
     all_routes) all_routes"
  by code_simp

definition owned_by :: "string \<Rightarrow> source_route \<Rightarrow> bool" where
  "owned_by h r = list_ex (host_matches h) (route_domains r)"

lemma owned_by_unique:
  assumes "owned_by h r" "owned_by h r'"
  shows "r = r'"
proof (rule ccontr)
  assume "r \<noteq> r'"
  have sep: "\<not> ends_with b b'"
    if "b \<in> set (route_domains s)" "b' \<in> set (route_domains s')" "s \<noteq> s'" for b b' s s'
    using that route_domains_separate all_routes by (simp add: list_all_iff) blast
  from assms obtain b b' where b: "b \<in> set (route_domains r)" "b' \<in> set (route_domains r')"
    "host_matches h b" "host_matches h b'"
    by (auto simp: owned_by_def list_ex_iff)
  then have "ends_with b b' \<or> ends_with b' b"
    using ends_with_comparable host_matches_ends_with by metis
  with sep b(1,2) \<open>r \<noteq> r'\<close> show False
    by (metis)
qed

lemma classify_owned:
  assumes "u_host_str api (normalized url) = Some h"
  shows "classify api url =
    (if owned_by h GitHub then GitHub else if owned_by h X then X
     else if owned_by h Instagram then Instagram else if owned_by h Threads then Threads
     else if owned_by h Reddit then Reddit else if owned_by h HackerNews then HackerNews
     else if owned_by h YouTube then YouTube
     else if ends_with ''.pdf'' (to_ascii_lowercase (u_path api (normalized url))) then Pdf
     else GenericWeb)"
  using assms by (simp add: classify_def owned_by_def)

text \<open>Source ownership is decided at domain-label boundaries and independently of the order of
  the tests: a URL is classified to an adapter that owns domains if and only if its host is one of
  those domains or a subdomain of one (labels, a dot, the domain). In particular a host that only
  ends in the same letters is not taken for the domain, and no host belongs to two adapters.\<close>

theorem classify_iff_owned:
  assumes "u_host_str api (normalized url) = Some h" and "route_domains r \<noteq> []"
  shows "classify api url = r \<longleftrightarrow> (\<exists>b\<in>set (route_domains r). h = b \<or> (\<exists>sub. h = sub @ ''.'' @ b))"
proof -
  have "classify api url = r \<longleftrightarrow> owned_by h r"
    using owned_by_unique [of h] assms(2) unfolding classify_owned [of api url, OF assms(1)]
    by (cases r) (auto split: if_splits)
  then show ?thesis
    by (simp add: owned_by_def list_ex_iff host_matches_iff)
qed

theorem classify_iff_owned_witness:
  "classify sample_api \<lparr>original = [], normalized = \<lparr>s_scheme = ''https'', s_host = ''m.youtube.com'',
     s_path = ''/a.PDF'', s_query = None, s_fragment = None\<rparr>, routing_fingerprint = []\<rparr> = YouTube"
  by (subst classify_iff_owned [of _ _ "''m.youtube.com''"]) (auto simp: sample_api_def)

end
