(* ===== verification/Config.thy ===== *)
theory Config
  imports UrlRouting
begin

text \<open>
  Process configuration, \<open>crates/core/src/config.rs\<close>: the typed configuration, its built-in values
  and the startup validation. Unsigned fields are \<^typ>\<open>nat\<close>, signed ones \<^typ>\<open>int\<close>, ports and the
  retry and redirect bounds (\<open>u16\<close>) are 16-bit words; paths are texts. Reading the environment is
  the job of the crate \<open>figment\<close>: \<open>load_from\<close> takes what it extracts. Whether a text is a valid
  tracing filter (crate \<open>tracing_subscriber\<close>) is a parameter, and URLs are those of the crate
  \<open>url\<close> as in \<open>UrlRouting\<close>. Every field is named after its configuration key.
\<close>

section \<open>Data\<close>

definition ENV_PREFIX :: string where "ENV_PREFIX = ''RATATOSKR__''"
definition FIXED_CAPTURE_DURABLE :: string where
  "FIXED_CAPTURE_DURABLE = ''ratatoskr_extractor_capture''"
definition DEFAULT_MAX_EVENT_BYTES :: nat where "DEFAULT_MAX_EVENT_BYTES = 8000000"
definition in_MAX_EVENT_BYTES_RANGE :: "nat \<Rightarrow> bool" where
  "in_MAX_EVENT_BYTES_RANGE n \<longleftrightarrow> 65536 \<le> n \<and> n \<le> 8388608"

record admin_config =
  admin_bind :: socket_addr

record blob_config =
  blobs_root :: string
  blobs_telegram_root :: string

record database_config =
  database_url :: string
  database_max_connections :: nat
  database_acquire_timeout_ms :: nat

record bus_config =
  bus_url :: string
  bus_nkey_seed_path :: "string option"
  bus_durable_name :: string
  bus_poll_interval_ms :: nat
  bus_outbox_batch_size :: int
  bus_worker_lease_seconds :: int
  bus_provision_topology :: bool
  bus_max_event_bytes :: nat

record parser_config =
  parser_max_input_bytes :: nat
  parser_max_dom_nodes :: nat

record render_config =
  render_enabled :: bool
  render_navigation_timeout_ms :: nat
  render_total_timeout_ms :: nat
  render_max_dom_bytes :: nat
  render_allowed_hosts :: "string list"
  render_max_escalations_per_day :: nat
  render_worker_blobs_root :: string

record providers_config =
  providers_max_input_bytes :: nat
  providers_max_blocks :: nat

record pdf_config =
  pdf_max_input_bytes :: nat
  pdf_max_pages :: nat
  pdf_max_text_bytes :: nat

record youtube_transcript_config =
  transcript_languages :: "string list"

record youtube_media_config =
  media_enabled :: bool
  media_max_item_bytes :: nat
  media_total_budget_bytes :: nat
  media_retention_hours :: nat
  media_timeout_secs :: nat
  media_max_height :: nat
  media_binary_path :: string

record youtube_config =
  youtube_transcript :: youtube_transcript_config
  youtube_media :: youtube_media_config

record fetch_config =
  fetch_max_url_length :: nat
  fetch_allowed_ports :: "16 word list"
  fetch_connect_timeout_ms :: nat
  fetch_first_byte_timeout_ms :: nat
  fetch_read_idle_timeout_ms :: nat
  fetch_total_timeout_ms :: nat
  fetch_max_wire_bytes :: nat
  fetch_max_decoded_bytes :: nat
  fetch_max_redirects :: "16 word"
  fetch_max_retries :: "16 word"
  fetch_global_concurrency :: nat
  fetch_per_host_concurrency :: nat
  fetch_per_host_min_interval_ms :: nat

record shutdown_config =
  shutdown_grace_seconds :: nat

datatype log_format = Json | Pretty

record 'u otlp_config =
  otlp_endpoint :: 'u
  otlp_timeout_seconds :: nat

record 'u telemetry_config =
  telemetry_log_format :: log_format
  telemetry_log_filter :: string
  telemetry_otlp :: "'u otlp_config option"

record 'u extractor_config =
  admin :: admin_config
  blobs :: blob_config
  database :: database_config
  bus :: bus_config
  fetch :: fetch_config
  parser :: parser_config
  pdf :: pdf_config
  providers :: providers_config
  render :: render_config
  shutdown :: shutdown_config
  telemetry :: "'u telemetry_config"
  youtube :: youtube_config

text \<open>One problem: the configuration key and the rule it violates, never the value.\<close>

record config_violation =
  key :: string
  rule :: string

datatype 's config_error = Source 's | InvalidConfig "config_violation list"

section \<open>Built-in values\<close>

definition built_in :: "string \<Rightarrow> 'u extractor_config" where
  "built_in blob_root =
     \<lparr>admin = \<lparr>admin_bind = (V4 (127, 0, 0, 1), 9088)\<rparr>,
      blobs = \<lparr>blobs_root = blob_root,
               blobs_telegram_root = ''/mnt/nvme/ratatoskr/blobs/ratatoskr-telegram''\<rparr>,
      database = \<lparr>database_url = [], database_max_connections = 10,
                  database_acquire_timeout_ms = 5000\<rparr>,
      bus = \<lparr>bus_url = ''nats://127.0.0.1:4222'', bus_nkey_seed_path = None,
             bus_durable_name = ''ratatoskr_extractor_capture'', bus_poll_interval_ms = 100,
             bus_outbox_batch_size = 32, bus_worker_lease_seconds = 60,
             bus_provision_topology = False, bus_max_event_bytes = DEFAULT_MAX_EVENT_BYTES\<rparr>,
      fetch = \<lparr>fetch_max_url_length = 8192, fetch_allowed_ports = [80, 443],
               fetch_connect_timeout_ms = 5000, fetch_first_byte_timeout_ms = 10000,
               fetch_read_idle_timeout_ms = 10000, fetch_total_timeout_ms = 30000,
               fetch_max_wire_bytes = 25 * 1024 * 1024, fetch_max_decoded_bytes = 50 * 1024 * 1024,
               fetch_max_redirects = 10, fetch_max_retries = 2, fetch_global_concurrency = 64,
               fetch_per_host_concurrency = 8, fetch_per_host_min_interval_ms = 0\<rparr>,
      parser = \<lparr>parser_max_input_bytes = 50 * 1024 * 1024, parser_max_dom_nodes = 250000\<rparr>,
      pdf = \<lparr>pdf_max_input_bytes = 50 * 1024 * 1024, pdf_max_pages = 1000,
             pdf_max_text_bytes = 8 * 1024 * 1024\<rparr>,
      providers = \<lparr>providers_max_input_bytes = 8 * 1024 * 1024, providers_max_blocks = 2000\<rparr>,
      render = \<lparr>render_enabled = False, render_navigation_timeout_ms = 15000,
                render_total_timeout_ms = 45000, render_max_dom_bytes = 8 * 1024 * 1024,
                render_allowed_hosts = [], render_max_escalations_per_day = 500,
                render_worker_blobs_root = ''/var/lib/ratatoskr-browser-worker/blobs''\<rparr>,
      shutdown = \<lparr>shutdown_grace_seconds = 25\<rparr>,
      telemetry = \<lparr>telemetry_log_format = Json,
                   telemetry_log_filter = ''info,tower_http=info,hyper=warn,h2=warn'',
                   telemetry_otlp = None\<rparr>,
      youtube = \<lparr>youtube_transcript = \<lparr>transcript_languages = [''en'']\<rparr>,
                 youtube_media = \<lparr>media_enabled = False,
                   media_max_item_bytes = 2 * 1024 * 1024 * 1024,
                   media_total_budget_bytes = 8 * 1024 * 1024 * 1024, media_retention_hours = 24,
                   media_timeout_secs = 900, media_max_height = 1080,
                   media_binary_path = ''yt-dlp''\<rparr>\<rparr>\<rparr>"

section \<open>Validation\<close>

definition require :: "bool \<Rightarrow> string \<Rightarrow> string \<Rightarrow> config_violation list \<Rightarrow> config_violation list" where
  "require valid k r violations = (if valid then violations else violations @ [\<lparr>key = k, rule = r\<rparr>])"

definition require_all ::
  "(bool \<times> string) list \<Rightarrow> string \<Rightarrow> config_violation list \<Rightarrow> config_violation list" where
  "require_all checks r violations = fold (\<lambda>(valid, k). require valid k r) checks violations"

definition is_absolute :: "string \<Rightarrow> bool" where
  "is_absolute p = starts_with ''/'' p"

definition validate_database :: "database_config \<Rightarrow> config_violation list \<Rightarrow> config_violation list" where
  "validate_database c vs =
     (let url = database_url c;
          vs = require (starts_with ''postgres://'' url \<or> starts_with ''postgresql://'' url)
                 ''database.url'' ''must be a PostgreSQL URL'' vs;
          vs = require (1 \<le> database_max_connections c \<and> database_max_connections c \<le> 100)
                 ''database.max_connections'' ''must be between 1 and 100'' vs
      in require (database_acquire_timeout_ms c > 0) ''database.acquire_timeout_ms''
           ''must be greater than zero'' vs)"

definition lease_ms :: "bus_config \<Rightarrow> nat" where
  "lease_ms c = (if bus_worker_lease_seconds c < 0 then 0
                 else sat_mul u64_max (nat (bus_worker_lease_seconds c)) 1000)"

definition validate_bus ::
  "'u url_api \<Rightarrow> bus_config \<Rightarrow> nat \<Rightarrow> config_violation list \<Rightarrow> config_violation list" where
  "validate_bus api c fetch_timeout_ms vs =
     (let valid_url = (case u_parse api (bus_url c) of
            None \<Rightarrow> False
          | Some url \<Rightarrow> u_scheme api url \<in> {''nats'', ''tls''} \<and> u_username api url = []
                        \<and> u_password api url = None);
          vs = require valid_url ''bus.url'' ''must be a credential-free nats or tls URL'' vs;
          vs = require (bus_durable_name c \<noteq> [] \<and> length (bus_durable_name c) \<le> 64)
                 ''bus.durable_name'' ''must contain 1 to 64 bytes'' vs;
          vs = require (\<not> (bus_provision_topology c \<and> bus_nkey_seed_path c \<noteq> None))
                 ''bus.provision_topology''
                 ''must not be enabled together with bus.nkey_seed_path'' vs;
          vs = require (bus_provision_topology c \<or> bus_durable_name c = FIXED_CAPTURE_DURABLE)
                 ''bus.durable_name''
                 ''must be the Edge-provisioned durable unless bus.provision_topology is enabled'' vs;
          vs = require_all
                 [(bus_poll_interval_ms c > 0, ''bus.poll_interval_ms''),
                  (1 \<le> bus_outbox_batch_size c \<and> bus_outbox_batch_size c \<le> 1000,
                   ''bus.outbox_batch_size''),
                  (1 \<le> bus_worker_lease_seconds c \<and> bus_worker_lease_seconds c \<le> 3600,
                   ''bus.worker_lease_seconds''),
                  (in_MAX_EVENT_BYTES_RANGE (bus_max_event_bytes c), ''bus.max_event_bytes'')]
                 ''must be within its finite range'' vs
      in require (lease_ms c > fetch_timeout_ms) ''bus.worker_lease_seconds''
           ''must exceed fetch.total_timeout_ms'' vs)"

definition validate_fetch :: "fetch_config \<Rightarrow> config_violation list \<Rightarrow> config_violation list" where
  "validate_fetch c vs =
     (let vs = require (fetch_max_url_length c > 0) ''fetch.max_url_length''
                 ''must be greater than zero'' vs;
          vs = require (fetch_allowed_ports c \<noteq> [] \<and> list_all (\<lambda>port. port \<noteq> 0) (fetch_allowed_ports c))
                 ''fetch.allowed_ports'' ''must contain only non-zero ports'' vs;
          vs = require_all
                 [(fetch_connect_timeout_ms c > 0, ''fetch.connect_timeout_ms''),
                  (fetch_first_byte_timeout_ms c > 0, ''fetch.first_byte_timeout_ms''),
                  (fetch_read_idle_timeout_ms c > 0, ''fetch.read_idle_timeout_ms''),
                  (fetch_total_timeout_ms c > 0, ''fetch.total_timeout_ms''),
                  (fetch_max_wire_bytes c > 0, ''fetch.max_wire_bytes''),
                  (fetch_max_decoded_bytes c > 0, ''fetch.max_decoded_bytes''),
                  (fetch_max_redirects c > 0, ''fetch.max_redirects''),
                  (fetch_max_retries c > 0, ''fetch.max_retries''),
                  (fetch_global_concurrency c > 0, ''fetch.global_concurrency''),
                  (fetch_per_host_concurrency c > 0, ''fetch.per_host_concurrency'')]
                 ''must be greater than zero'' vs;
          vs = require (fetch_per_host_concurrency c \<le> fetch_global_concurrency c)
                 ''fetch.per_host_concurrency'' ''must not exceed global concurrency'' vs
      in require (fetch_max_decoded_bytes c \<ge> fetch_max_wire_bytes c) ''fetch.max_decoded_bytes''
           ''must not be smaller than the wire-byte limit'' vs)"

definition validate_render :: "render_config \<Rightarrow> config_violation list \<Rightarrow> config_violation list" where
  "validate_render c vs =
     (let vs = require_all
                 [(render_navigation_timeout_ms c > 0, ''render.navigation_timeout_ms''),
                  (render_total_timeout_ms c > 0, ''render.total_timeout_ms''),
                  (render_max_dom_bytes c > 0, ''render.max_dom_bytes'')]
                 ''must be greater than zero'' vs
      in require (\<not> render_enabled c \<or> render_max_escalations_per_day c > 0)
           ''render.max_escalations_per_day''
           ''must be greater than zero when rendering is enabled'' vs)"

definition validate_youtube :: "youtube_config \<Rightarrow> config_violation list \<Rightarrow> config_violation list" where
  "validate_youtube c vs =
     (let vs = require (transcript_languages (youtube_transcript c) \<noteq> [])
                 ''youtube.transcript.languages'' ''must contain at least one language code'' vs;
          m = youtube_media c;
          vs = require_all
                 [(media_max_item_bytes m > 0, ''youtube.media.max_item_bytes''),
                  (media_total_budget_bytes m > 0, ''youtube.media.total_budget_bytes''),
                  (media_retention_hours m > 0, ''youtube.media.retention_hours''),
                  (media_timeout_secs m > 0, ''youtube.media.timeout_secs'')]
                 ''must be greater than zero'' vs
      in require (media_total_budget_bytes m \<ge> media_max_item_bytes m)
           ''youtube.media.total_budget_bytes'' ''must not be smaller than the per-item limit'' vs)"

definition validate :: "'u url_api \<Rightarrow> (string \<Rightarrow> bool) \<Rightarrow> 'u extractor_config \<Rightarrow> config_violation list" where
  "validate api filter_ok c =
     (let vs = require (snd (admin_bind (admin c)) \<noteq> 0) ''admin.bind'' ''must use a non-zero port'' [];
          vs = require_all
                 [(is_absolute (blobs_root (blobs c)), ''blobs.root''),
                  (is_absolute (blobs_telegram_root (blobs c)), ''blobs.telegram_root'')]
                 ''must be an absolute path'' vs;
          vs = validate_database (database c) vs;
          vs = validate_bus api (bus c) (fetch_total_timeout_ms (fetch c)) vs;
          vs = validate_fetch (fetch c) vs;
          vs = validate_render (render c) vs;
          vs = validate_youtube (youtube c) vs;
          vs = require_all
                 [(parser_max_input_bytes (parser c) > 0, ''parser.max_input_bytes''),
                  (parser_max_dom_nodes (parser c) > 0, ''parser.max_dom_nodes'')]
                 ''must be greater than zero'' vs;
          vs = require (shutdown_grace_seconds (shutdown c) > 0) ''shutdown.grace_seconds''
                 ''must be greater than zero'' vs;
          vs = require (filter_ok (telemetry_log_filter (telemetry c))) ''telemetry.log_filter''
                 ''must be a valid tracing filter'' vs
      in case telemetry_otlp (telemetry c) of
           None \<Rightarrow> vs
         | Some otlp \<Rightarrow>
             (let vs = require (u_scheme api (otlp_endpoint otlp) \<in> {''http'', ''https''})
                         ''telemetry.otlp.endpoint'' ''must use http or https'' vs
              in require (otlp_timeout_seconds otlp > 0) ''telemetry.otlp.timeout_seconds''
                   ''must be greater than zero'' vs))"

definition load_from ::
  "'u url_api \<Rightarrow> (string \<Rightarrow> bool) \<Rightarrow> ('s, 'u extractor_config) res
   \<Rightarrow> ('s config_error, 'u extractor_config) res" where
  "load_from api filter_ok extracted =
     (case extracted of
        Inl e \<Rightarrow> Err (Source e)
      | Inr config \<Rightarrow>
          (let violations = validate api filter_ok config
           in if violations = [] then Ok config else Err (InvalidConfig violations)))"

definition exit_code :: "'s config_error \<Rightarrow> nat" where
  "exit_code e = 78"

section \<open>The startup report\<close>

definition ascii_upper :: "char \<Rightarrow> char" where
  "ascii_upper c = (if 97 \<le> byte_of c \<and> byte_of c \<le> 122 then char_of (byte_of c - 32) else c)"

text \<open>Every key is an ASCII text, on which \<open>to_uppercase\<close> is the ASCII one.\<close>

definition environment_key :: "string \<Rightarrow> string" where
  "environment_key k =
     ENV_PREFIX @ map ascii_upper (concat (map (\<lambda>c. if c = CHR ''.'' then ''__'' else [c]) k))"

definition newline :: char where "newline = char_of (10 :: nat)"

definition violation_lines :: "config_violation \<Rightarrow> string" where
  "violation_lines v =
     ''  '' @ key v @ [newline] @ ''      '' @ environment_key (key v) @ [newline]
     @ ''      '' @ rule v @ [newline]"

definition report_invalid :: "(nat \<Rightarrow> string) \<Rightarrow> config_violation list \<Rightarrow> string" where
  "report_invalid show_nat violations =
     ''ratatoskr-extractor: refusing to start; '' @ show_nat (length violations)
     @ '' configuration problem(s).'' @ [newline]
     @ concat (map violation_lines violations)
     @ ''Supplied values are never echoed.'' @ [newline]"

text \<open>What \<open>figment\<close> reports for the sources it could not read: the path of the key and the kind of the problem;
  \<open>'v\<close> is what it carries besides names, such as the value it found. Keys come from the environment, so
  \<open>to_uppercase\<close> is the one on all of Unicode, the parameter \<open>upper\<close>.\<close>

datatype 'v figment_kind = UnknownField string 'v | MissingField string | OtherKind 'v

record 'v figment_error =
  fe_path :: "string list"
  fe_kind :: "'v figment_kind"

definition error_key :: "'v figment_error \<Rightarrow> string" where
  "error_key e =
     (let path = join_with ''.'' (fe_path e) in
      case fe_kind e of
        MissingField name \<Rightarrow> if path = [] then name else path @ ''.'' @ name
      | k \<Rightarrow> if path \<noteq> [] then path
             else (case k of UnknownField name _ \<Rightarrow> name | _ \<Rightarrow> ''(unknown configuration key)''))"

definition error_reason :: "'v figment_error \<Rightarrow> string" where
  "error_reason e =
     (case fe_kind e of
        UnknownField _ _ \<Rightarrow> ''is not a configuration key of this process''
      | MissingField _ \<Rightarrow> ''is required and was not supplied''
      | _ \<Rightarrow> ''could not be read as the type of this field'')"

definition problem_lines :: "(string \<Rightarrow> string) \<Rightarrow> 'v figment_error \<Rightarrow> string" where
  "problem_lines upper e =
     ''  '' @ error_key e @ [newline]
     @ ''      '' @ ENV_PREFIX @ upper (concat (map (\<lambda>c. if c = CHR ''.'' then ''__'' else [c]) (error_key e))) @ [newline]
     @ ''      '' @ error_reason e @ [newline]"

definition report_source :: "(string \<Rightarrow> string) \<Rightarrow> 'v figment_error list \<Rightarrow> string" where
  "report_source upper problems =
     ''ratatoskr-extractor: refusing to start; configuration could not be read.'' @ [newline]
     @ concat (map (problem_lines upper) problems)
     @ ''Supplied values are never echoed.'' @ [newline]"

definition config_report :: "(string \<Rightarrow> string) \<Rightarrow> (nat \<Rightarrow> string) \<Rightarrow> 'v figment_error list config_error \<Rightarrow> string" where
  "config_report upper show_nat e =
     (case e of
        Source problems \<Rightarrow> report_source upper problems
      | InvalidConfig violations \<Rightarrow> report_invalid show_nat violations)"

text \<open>\<open>extract\<close> is \<open>figment\<close>: the built-in values with the environment merged over them.\<close>

definition load_config ::
  "'u url_api \<Rightarrow> (string \<Rightarrow> bool)
   \<Rightarrow> ('u extractor_config \<Rightarrow> 'e \<Rightarrow> ('v figment_error list, 'u extractor_config) res) \<Rightarrow> 'e
   \<Rightarrow> ('v figment_error list config_error, 'u extractor_config) res" where
  "load_config api filter_ok extract_with environment = load_from api filter_ok (extract_with (built_in []) environment)"


section \<open>Properties\<close>

lemma require_Nil [simp]: "require v k r vs = [] \<longleftrightarrow> v \<and> vs = []"
  by (simp add: require_def)

lemma require_all_simps [simp]:
  "require_all [] r vs = vs"
  "require_all ((v, k) # cs) r vs = require_all cs r (require v k r vs)"
  by (simp_all add: require_all_def)

lemmas validate_parts = validate_database_def validate_bus_def validate_fetch_def
  validate_render_def validate_youtube_def Let_def

lemma accepted_is_valid:
  assumes "load_from api filter_ok extracted = Ok c"
  shows "extracted = Ok c" "validate_bus api (bus c) (fetch_total_timeout_ms (fetch c)) [] = []"
    "validate_fetch (fetch c) [] = []" "validate_render (render c) [] = []" "validate_youtube (youtube c) [] = []"
proof -
  from assms show "extracted = Ok c" by (auto simp: load_from_def Let_def split: sum.splits if_splits)
  from assms have "validate api filter_ok c = []"
    by (auto simp: load_from_def Let_def split: sum.splits if_splits)
  then show "validate_bus api (bus c) (fetch_total_timeout_ms (fetch c)) [] = []"
    "validate_fetch (fetch c) [] = []" "validate_render (render c) [] = []" "validate_youtube (youtube c) [] = []"
    by (simp_all add: validate_def validate_parts split: option.splits)
qed

lemma accepted_lease:
  assumes "load_from api filter_ok extracted = Ok c"
  shows "1 \<le> bus_worker_lease_seconds (bus c)" "bus_worker_lease_seconds (bus c) \<le> 3600"
    "fetch_total_timeout_ms (fetch c) < nat (bus_worker_lease_seconds (bus c)) * 1000"
proof -
  have "1 \<le> bus_worker_lease_seconds (bus c)" "bus_worker_lease_seconds (bus c) \<le> 3600"
    "fetch_total_timeout_ms (fetch c) < lease_ms (bus c)"
    using accepted_is_valid(2) [OF assms] by (simp_all add: validate_bus_def Let_def)
  then show "1 \<le> bus_worker_lease_seconds (bus c)" "bus_worker_lease_seconds (bus c) \<le> 3600"
    "fetch_total_timeout_ms (fetch c) < nat (bus_worker_lease_seconds (bus c)) * 1000"
    by (simp_all add: lease_ms_def sat_mul_def u64_max_def)
qed

text \<open>The startup invariants the rest of the service relies on. When a configuration is accepted,
  a worker lease is longer than the whole-fetch deadline and at most an hour; the decoded limit is not
  below the wire limit and both are positive; the per-host concurrency is positive and not above the
  global one; no allowed port is zero; retries, redirects and all fetch timeouts are positive; one
  archived media item fits its total budget; rendering, when enabled, has a positive daily budget; the
  event size limit lies between 64 KiB and 8 MiB; and the durable is the provisioned one unless the
  process provisions the broker itself, which it does only without credentials.\<close>

theorem accepted_config_invariants:
  assumes "load_from api filter_ok extracted = Ok c"
  shows "extracted = Ok c
    \<and> fetch_total_timeout_ms (fetch c) < nat (bus_worker_lease_seconds (bus c)) * 1000
    \<and> bus_worker_lease_seconds (bus c) \<le> 3600
    \<and> 0 < fetch_max_wire_bytes (fetch c)
    \<and> fetch_max_wire_bytes (fetch c) \<le> fetch_max_decoded_bytes (fetch c)
    \<and> 0 < fetch_per_host_concurrency (fetch c)
    \<and> fetch_per_host_concurrency (fetch c) \<le> fetch_global_concurrency (fetch c)
    \<and> fetch_allowed_ports (fetch c) \<noteq> [] \<and> 0 \<notin> set (fetch_allowed_ports (fetch c))
    \<and> 0 < fetch_max_retries (fetch c) \<and> 0 < fetch_max_redirects (fetch c)
    \<and> 0 < fetch_read_idle_timeout_ms (fetch c) \<and> 0 < fetch_first_byte_timeout_ms (fetch c)
    \<and> media_max_item_bytes (youtube_media (youtube c)) \<le> media_total_budget_bytes (youtube_media (youtube c))
    \<and> (render_enabled (render c) \<longrightarrow> 0 < render_max_escalations_per_day (render c))
    \<and> 65536 \<le> bus_max_event_bytes (bus c) \<and> bus_max_event_bytes (bus c) \<le> 8388608
    \<and> (bus_provision_topology (bus c) \<longrightarrow> bus_nkey_seed_path (bus c) = None)
    \<and> (\<not> bus_provision_topology (bus c) \<longrightarrow> bus_durable_name (bus c) = FIXED_CAPTURE_DURABLE)"
  using accepted_is_valid [OF assms] accepted_lease [OF assms]
  by (simp add: validate_fetch_def validate_render_def validate_youtube_def validate_bus_def Let_def
      list_all_iff in_MAX_EVENT_BYTES_RANGE_def) (metis word_gt_0)

definition postgres_config :: "sample_url extractor_config" where
  "postgres_config =
     (let c = built_in ''/var/blobs''
      in c\<lparr>database := (database c)\<lparr>database_url := ''postgres://db/x''\<rparr>\<rparr>)"

theorem accepted_config_invariants_witness:
  "load_from sample_api (\<lambda>_. True) (Ok postgres_config :: (unit, _) res) = Ok postgres_config
   \<and> fetch_total_timeout_ms (fetch postgres_config)
       < nat (bus_worker_lease_seconds (bus postgres_config)) * 1000"
proof -
  have "load_from sample_api (\<lambda>_. True) (Ok postgres_config :: (unit, _) res) = Ok postgres_config"
    by code_simp
  with accepted_config_invariants [OF this] show ?thesis by blast
qed

text \<open>The built-in configuration is complete except for what only a deployment can supply. With
  built-in values the only problems the validation reports are a blob root that is not absolute and
  the missing database URL; all other sections are valid, in particular every limit is finite.\<close>

theorem built_in_needs_only_deployment_values:
  assumes "u_parse api ''nats://127.0.0.1:4222'' = Some u" "u_scheme api u = ''nats''"
    "u_username api u = []" "u_password api u = None"
    and "filter_ok ''info,tower_http=info,hyper=warn,h2=warn''"
  shows "validate api filter_ok (built_in root) =
    (if is_absolute root then [] else [\<lparr>key = ''blobs.root'', rule = ''must be an absolute path''\<rparr>])
    @ [\<lparr>key = ''database.url'', rule = ''must be a PostgreSQL URL''\<rparr>]"
  using assms
  by (simp add: validate_def built_in_def validate_parts require_def lease_ms_def
      sat_mul_def u64_max_def in_MAX_EVENT_BYTES_RANGE_def DEFAULT_MAX_EVENT_BYTES_def
      FIXED_CAPTURE_DURABLE_def starts_with_def is_absolute_def [of "CHR 0x2F # _"])

theorem built_in_needs_only_deployment_values_witness:
  "validate sample_api (\<lambda>_. True) (built_in []) =
     [\<lparr>key = ''blobs.root'', rule = ''must be an absolute path''\<rparr>,
      \<lparr>key = ''database.url'', rule = ''must be a PostgreSQL URL''\<rparr>]"
proof -
  have "sample_parse ''nats://127.0.0.1:4222'' =
      Some \<lparr>s_scheme = ''nats'', s_host = ''127.0.0.1:4222'', s_path = ''/'', s_query = None, s_fragment = None\<rparr>"
    by code_simp
  then show ?thesis
    using built_in_needs_only_deployment_values [of sample_api _ "\<lambda>_. True" "[]"]
    by (simp add: sample_api_def is_absolute_def starts_with_def)
qed

text \<open>The report keeps its promise: it is the same whatever values the sources had, and for a configuration
  that was read it names keys and rules only.\<close>

definition with_values :: "('v \<Rightarrow> 'w) \<Rightarrow> 'v figment_error \<Rightarrow> 'w figment_error" where
  "with_values f e = \<lparr>fe_path = fe_path e, fe_kind = map_figment_kind f (fe_kind e)\<rparr>"

lemma report_never_echoes_values:
  "config_report upper show_nat (Source (map (with_values f) problems)) = config_report upper show_nat (Source problems)"
proof -
  have "problem_lines upper (with_values f e) = problem_lines upper e" for e
    by (cases "fe_kind e") (simp_all add: problem_lines_def error_key_def error_reason_def with_values_def Let_def)
  then show ?thesis by (simp add: config_report_def report_source_def comp_def)
qed

end
