(* ===== verification/BlobStore.thy ===== *)
theory BlobStore
  imports Prelude
begin

text \<open>
  The content-addressed store of raw artifacts, \<open>crates/blob-store/src/lib.rs\<close>.

  The file system is a map from paths to nodes. A path is the list of its components; every text
  that the code joins to a path is a single component (\<open>sha256\<close>, \<open>staging\<close>, a file name, the
  first two characters of a digest and its rest). A hard link copies the file: no operation writes to a
  file after it was linked, so sharing cannot be told from a copy. Every point at which the code performs I/O can
  fail: \<open>io_faults\<close> says which of them do and with which \<open>ErrorKind\<close>; a fault-free operation then
  behaves as the file system says. The parsers of the crate \<open>ratatoskr_identifiers\<close> and the hash of
  \<open>sha2\<close> are the fields of \<open>store_env\<close>. An operation returns its result and the file system it
  leaves, also when it fails.
\<close>

section \<open>Data\<close>

datatype node = RegFile string | Directory

type_synonym path = "string list"
type_synonym fs = "path \<rightharpoonup> node"

datatype io_kind = NotFound | AlreadyExists | OtherIo

datatype io_point =
    AtCreateStagingDir | AtCreateStagingFile | AtWriteChunk nat | AtFlush | AtSyncAll
  | AtCreateParentDir | AtHardLink | AtRemoveStaging | AtMetadata | AtOpenTarget | AtReadTarget nat
  | AtRemoveTarget | AtOpenDir | AtNextEntry nat | AtRemoveEntry nat

text \<open>\<open>fault p\<close> is the failure of the operation at \<open>p\<close>, if it fails; \<open>short_read k\<close> bounds the
  number of bytes the \<open>k\<close>-th \<open>read\<close> returns.\<close>

record io_faults =
  fault :: "io_point \<Rightarrow> io_kind option"
  short_read :: "nat \<Rightarrow> nat"

datatype blob_store_error =
    Unavailable | Io io_kind | StreamFailed | LengthOverflow | InvalidMediaType | InvalidIdentity
  | Collision | Missing | Mismatch | WrongOwner | UnsupportedAlgorithm

datatype digest_algorithm = Sha256 | OtherAlgorithm

record blob_ref =
  owner_service :: string
  digest_algorithm :: digest_algorithm
  digest_hex :: string
  media_type :: string
  length_bytes :: nat

record store_env =
  sha256 :: "string \<Rightarrow> 8 word list"
  parse_owner :: "string \<Rightarrow> string option"
  parse_media_type :: "string \<Rightarrow> string option"
  parse_digest_hex :: "string \<Rightarrow> string option"

record blob_store =
  root :: path
  owner :: string

section \<open>The file system\<close>

definition proper_ancestors :: "path \<Rightarrow> path list" where
  "proper_ancestors p = map (\<lambda>n. take n p) [0..<length p]"

definition is_reg_file :: "node option \<Rightarrow> bool" where
  "is_reg_file n = (case n of Some (RegFile _) \<Rightarrow> True | _ \<Rightarrow> False)"

definition fs_create_dir_all :: "path \<Rightarrow> fs \<Rightarrow> (io_kind, fs) res" where
  "fs_create_dir_all p fs =
     (if list_ex (\<lambda>q. is_reg_file (fs q)) (p # proper_ancestors p) then Err OtherIo
      else Ok (foldr (\<lambda>q m. m(q \<mapsto> Directory)) (p # proper_ancestors p) fs))"

definition fs_create_file :: "path \<Rightarrow> fs \<Rightarrow> (io_kind, fs) res" where
  "fs_create_file p fs =
     (if fs p = Some Directory then Err OtherIo
      else if fs (butlast p) \<noteq> Some Directory then Err NotFound
      else Ok (fs(p \<mapsto> RegFile [])))"

definition fs_append :: "path \<Rightarrow> string \<Rightarrow> fs \<Rightarrow> fs" where
  "fs_append p chunk fs =
     (case fs p of Some (RegFile b) \<Rightarrow> fs(p \<mapsto> RegFile (b @ chunk)) | _ \<Rightarrow> fs)"

definition fs_remove_file :: "path \<Rightarrow> fs \<Rightarrow> (io_kind, fs) res" where
  "fs_remove_file p fs =
     (case fs p of
        None \<Rightarrow> Err NotFound
      | Some Directory \<Rightarrow> Err OtherIo
      | Some (RegFile _) \<Rightarrow> Ok (fs(p := None)))"

definition fs_hard_link :: "path \<Rightarrow> path \<Rightarrow> fs \<Rightarrow> (io_kind, fs) res" where
  "fs_hard_link src dst fs =
     (if fs dst \<noteq> None then Err AlreadyExists
      else case fs src of
        Some (RegFile b) \<Rightarrow>
          if fs (butlast dst) = Some Directory then Ok (fs(dst \<mapsto> RegFile b)) else Err NotFound
      | Some Directory \<Rightarrow> Err OtherIo
      | None \<Rightarrow> Err NotFound)"

definition fs_open :: "path \<Rightarrow> fs \<Rightarrow> (io_kind, string) res" where
  "fs_open p fs =
     (case fs p of
        None \<Rightarrow> Err NotFound
      | Some Directory \<Rightarrow> Err OtherIo
      | Some (RegFile b) \<Rightarrow> Ok b)"

text \<open>One fallible call: the injected failure, else what the file system does.\<close>

definition io_at :: "io_faults \<Rightarrow> io_point \<Rightarrow> (io_kind, 'a) res \<Rightarrow> (io_kind, 'a) res" where
  "io_at io p r = (case fault io p of Some e \<Rightarrow> Err e | None \<Rightarrow> r)"

text \<open>\<open>let _ = tokio::fs::remove_file(..).await\<close>: a failure is ignored.\<close>

definition remove_quietly :: "io_faults \<Rightarrow> path \<Rightarrow> fs \<Rightarrow> fs" where
  "remove_quietly io p fs =
     (case io_at io AtRemoveStaging (fs_remove_file p fs) of Inl _ \<Rightarrow> fs | Inr fs' \<Rightarrow> fs')"

section \<open>Operations\<close>

definition OWNER :: string where
  "OWNER = ''ratatoskr-extractor''"

definition new :: "path \<Rightarrow> blob_store" where
  "new r = \<lparr>root = r, owner = OWNER\<rparr>"

definition with_owner :: "store_env \<Rightarrow> blob_store \<Rightarrow> string \<Rightarrow> (blob_store_error, blob_store) res" where
  "with_owner env s name =
     (case parse_owner env name of None \<Rightarrow> Err InvalidIdentity | Some _ \<Rightarrow> Ok (s\<lparr>owner := name\<rparr>))"

definition staging_dir :: "blob_store \<Rightarrow> path" where
  "staging_dir s = root s @ [''staging'']"

definition staging_path :: "blob_store \<Rightarrow> string \<Rightarrow> path" where
  "staging_path s uuid = staging_dir s @ [''ratatoskr-extractor-'' @ uuid @ ''.part'']"

definition is_stale_part :: "string \<Rightarrow> bool" where
  "is_stale_part name \<longleftrightarrow> starts_with ''ratatoskr-extractor-'' name \<and> ends_with ''.part'' name"

text \<open>The loop over the open directory: \<open>entries\<close> are the names it yields. Asking for the next entry can fail
  before every name and also where the directory ends.\<close>

fun remove_stale :: "io_faults \<Rightarrow> blob_store \<Rightarrow> nat \<Rightarrow> string list \<Rightarrow> fs \<Rightarrow> (blob_store_error, unit) res \<times> fs"
where
  "remove_stale io s k [] fs =
     (case fault io (AtNextEntry k) of Some e \<Rightarrow> (Err (Io e), fs) | None \<Rightarrow> (Ok (), fs))"
| "remove_stale io s k (name # rest) fs =
     (case fault io (AtNextEntry k) of
        Some e \<Rightarrow> (Err (Io e), fs)
      | None \<Rightarrow>
          if is_stale_part name
          then (case io_at io (AtRemoveEntry k) (fs_remove_file (staging_dir s @ [name]) fs) of
                  Inl e \<Rightarrow> (Err (Io e), fs)
                | Inr fs' \<Rightarrow> remove_stale io s (Suc k) rest fs')
          else remove_stale io s (Suc k) rest fs)"

definition prepare :: "io_faults \<Rightarrow> blob_store \<Rightarrow> string list \<Rightarrow> fs \<Rightarrow> (blob_store_error, unit) res \<times> fs"
where
  "prepare io s entries fs =
     (case io_at io AtCreateStagingDir (fs_create_dir_all (staging_dir s) fs) of
        Inl e \<Rightarrow> (Err (Io e), fs)
      | Inr fs1 \<Rightarrow>
          (case fault io AtOpenDir of
             Some e \<Rightarrow> (Err (Io e), fs1)
           | None \<Rightarrow> remove_stale io s 0 entries fs1))"

text \<open>The write loop of \<open>store\<close>: the byte count and what was fed to the hasher.\<close>

fun write_stream ::
  "io_faults \<Rightarrow> path \<Rightarrow> nat \<Rightarrow> (unit, string) res list \<Rightarrow> nat \<Rightarrow> string \<Rightarrow> fs
   \<Rightarrow> (blob_store_error, nat \<times> string) res \<times> fs" where
  "write_stream io staging k [] len hashed fs = (Ok (len, hashed), fs)"
| "write_stream io staging k (item # rest) len hashed fs =
     (case item of
        Inl _ \<Rightarrow> (Err StreamFailed, remove_quietly io staging fs)
      | Inr chunk \<Rightarrow>
          (case try_from u64_max (length chunk) of
             None \<Rightarrow> (Err LengthOverflow, fs)
           | Some n \<Rightarrow>
               (case checked_add u64_max len n of
                  None \<Rightarrow> (Err LengthOverflow, fs)
                | Some len' \<Rightarrow>
                    (case fault io (AtWriteChunk k) of
                       Some e \<Rightarrow> (Err (Io e), remove_quietly io staging fs)
                     | None \<Rightarrow>
                         write_stream io staging (Suc k) rest len' (hashed @ chunk)
                           (fs_append staging chunk fs)))))"

definition is_char_boundary :: "string \<Rightarrow> nat \<Rightarrow> bool" where
  "is_char_boundary s i =
     (i = length s \<or> (i < length s \<and> \<not> (128 \<le> byte_of (s ! i) \<and> byte_of (s ! i) < 192)))"

definition path_for_digest :: "blob_store \<Rightarrow> string \<Rightarrow> (blob_store_error, path) res" where
  "path_for_digest s digest =
     (if is_char_boundary digest 2
      then Ok (root s @ [''sha256'', take 2 digest, drop 2 digest])
      else Err (Io OtherIo))"

text \<open>The read loop of \<open>verify_file\<close> with its buffer of 8192 bytes.\<close>

definition read_size :: "io_faults \<Rightarrow> nat \<Rightarrow> string \<Rightarrow> nat" where
  "read_size io k content = min (length content) (min 8192 (max 1 (short_read io k)))"

lemma read_size_0 [simp]: "read_size io k content = 0 \<longleftrightarrow> content = []"
  by (auto simp: read_size_def min_def max_def)

lemma read_size_pos: "content \<noteq> [] \<Longrightarrow> 0 < read_size io k content"
  by (rule gr0I) simp

lemma read_size_le [simp]: "read_size io k content \<le> length content"
  by (simp add: read_size_def)

function read_all ::
  "io_faults \<Rightarrow> nat \<Rightarrow> string \<Rightarrow> nat \<Rightarrow> string \<Rightarrow> (blob_store_error, nat \<times> string) res" where
  "read_all io k content len hashed =
     (case fault io (AtReadTarget k) of
        Some e \<Rightarrow> Err (Io e)
      | None \<Rightarrow>
          let read = read_size io k content
          in if read = 0 then Ok (len, hashed)
             else case checked_add u64_max len read of
               None \<Rightarrow> Err LengthOverflow
             | Some len' \<Rightarrow> read_all io (Suc k) (drop read content) len' (hashed @ take read content))"
  by pat_completeness auto
termination
  by (relation "measure (\<lambda>(_, _, content, _, _). length content)") 
    (auto intro!: diff_less read_size_pos)

declare read_all.simps [simp del]

definition verify_file ::
  "store_env \<Rightarrow> io_faults \<Rightarrow> path \<Rightarrow> string \<Rightarrow> nat \<Rightarrow> fs \<Rightarrow> (blob_store_error, unit) res" where
  "verify_file env io p expected_digest expected_length fs =
     (case io_at io AtOpenTarget (fs_open p fs) of
        Inl e \<Rightarrow> Err (Io e)
      | Inr content \<Rightarrow>
          rbind (read_all io 0 content 0 []) (\<lambda>(len, hashed).
            if len = expected_length \<and> hex_string (sha256 env hashed) = expected_digest
            then Ok () else Err Collision))"

definition publish ::
  "store_env \<Rightarrow> io_faults \<Rightarrow> path \<Rightarrow> path \<Rightarrow> string \<Rightarrow> nat \<Rightarrow> fs \<Rightarrow> (blob_store_error, unit) res \<times> fs" where
  "publish env io staging target digest_text len fs =
     (case io_at io AtHardLink (fs_hard_link staging target fs) of
        Inr fs' \<Rightarrow>
          (case io_at io AtRemoveStaging (fs_remove_file staging fs') of
             Inl e \<Rightarrow> (Err (Io e), fs')
           | Inr fs'' \<Rightarrow> (Ok (), fs''))
      | Inl AlreadyExists \<Rightarrow>
          (verify_file env io target digest_text len fs, remove_quietly io staging fs)
      | Inl e \<Rightarrow> (Err (Io e), remove_quietly io staging fs))"

definition store ::
  "store_env \<Rightarrow> io_faults \<Rightarrow> blob_store \<Rightarrow> string \<Rightarrow> string \<Rightarrow> (unit, string) res list \<Rightarrow> fs
   \<Rightarrow> (blob_store_error, blob_ref) res \<times> fs" where
  "store env io s uuid media stream fs =
     (case parse_owner env (owner s) of
        None \<Rightarrow> (Err InvalidIdentity, fs)
      | Some own \<Rightarrow>
     (case parse_media_type env media of
        None \<Rightarrow> (Err InvalidMediaType, fs)
      | Some mt \<Rightarrow>
     (case io_at io AtCreateStagingDir (fs_create_dir_all (staging_dir s) fs) of
        Inl e \<Rightarrow> (Err (Io e), fs)
      | Inr fs1 \<Rightarrow>
     (case io_at io AtCreateStagingFile (fs_create_file (staging_path s uuid) fs1) of
        Inl e \<Rightarrow> (Err (Io e), fs1)
      | Inr fs2 \<Rightarrow>
     (case write_stream io (staging_path s uuid) 0 stream 0 [] fs2 of
        (Inl e, fs3) \<Rightarrow> (Err e, fs3)
      | (Inr (len, hashed), fs3) \<Rightarrow>
     (case fault io AtFlush of Some e \<Rightarrow> (Err (Io e), fs3) | None \<Rightarrow>
     (case fault io AtSyncAll of Some e \<Rightarrow> (Err (Io e), fs3) | None \<Rightarrow>
     (let digest_text = hex_string (sha256 env hashed) in
      case parse_digest_hex env digest_text of
        None \<Rightarrow> (Err InvalidIdentity, fs3)
      | Some digest \<Rightarrow>
     (case path_for_digest s digest_text of
        Inl e \<Rightarrow> (Err e, fs3)
      | Inr target \<Rightarrow>
     (case io_at io AtCreateParentDir (fs_create_dir_all (butlast target) fs3) of
        Inl e \<Rightarrow> (Err (Io e), fs3)
      | Inr fs4 \<Rightarrow>
     (case publish env io (staging_path s uuid) target digest_text len fs4 of
        (Inl e, fs5) \<Rightarrow> (Err e, fs5)
      | (Inr _, fs5) \<Rightarrow>
          (Ok \<lparr>owner_service = own, digest_algorithm = Sha256, digest_hex = digest,
               media_type = mt, length_bytes = len\<rparr>, fs5))))))))))))"

text \<open>How many times \<open>store\<close> polls its stream: once per item it takes and once more for the end of the
  stream, and not at all when it fails before the write loop.\<close>

fun stream_polls :: "io_faults \<Rightarrow> nat \<Rightarrow> (unit, string) res list \<Rightarrow> nat \<Rightarrow> nat" where
  "stream_polls io k [] len = 1"
| "stream_polls io k (item # rest) len =
     (case item of
        Inl _ \<Rightarrow> 1
      | Inr chunk \<Rightarrow>
          if len + length chunk > u64_max \<or> fault io (AtWriteChunk k) \<noteq> None then 1
          else Suc (stream_polls io (Suc k) rest (len + length chunk)))"

definition store_polls ::
  "store_env \<Rightarrow> io_faults \<Rightarrow> blob_store \<Rightarrow> string \<Rightarrow> string \<Rightarrow> (unit, string) res list \<Rightarrow> fs \<Rightarrow> nat" where
  "store_polls env io s uuid media stream fs =
     (if parse_owner env (owner s) = None \<or> parse_media_type env media = None then 0
      else case io_at io AtCreateStagingDir (fs_create_dir_all (staging_dir s) fs) of
        Inl _ \<Rightarrow> 0
      | Inr fs1 \<Rightarrow>
          (case io_at io AtCreateStagingFile (fs_create_file (staging_path s uuid) fs1) of
             Inl _ \<Rightarrow> 0
           | Inr _ \<Rightarrow> stream_polls io 0 stream 0))"

definition resolve :: "blob_store \<Rightarrow> blob_ref \<Rightarrow> (blob_store_error, path) res" where
  "resolve s reference = path_for_digest s (digest_hex reference)"

definition verify ::
  "store_env \<Rightarrow> io_faults \<Rightarrow> blob_store \<Rightarrow> blob_ref \<Rightarrow> fs \<Rightarrow> (blob_store_error, path) res" where
  "verify env io s reference fs =
     (if owner_service reference \<noteq> owner s then Err WrongOwner
      else if digest_algorithm reference \<noteq> Sha256 then Err UnsupportedAlgorithm
      else if parse_media_type env (media_type reference) = None then Err Mismatch
      else case resolve s reference of
        Inl e \<Rightarrow> Err e
      | Inr p \<Rightarrow>
          (case io_at io AtMetadata (ok_or NotFound (fs p)) of
             Inl NotFound \<Rightarrow> Err Missing
           | Inl e \<Rightarrow> Err (Io e)
           | Inr Directory \<Rightarrow> Err Mismatch
           | Inr (RegFile _) \<Rightarrow>
               (case verify_file env io p (digest_hex reference) (length_bytes reference) fs of
                  Inr _ \<Rightarrow> Ok p
                | Inl Collision \<Rightarrow> Err Mismatch
                | Inl e \<Rightarrow> Err e)))"

definition remove_digest ::
  "io_faults \<Rightarrow> blob_store \<Rightarrow> string \<Rightarrow> fs \<Rightarrow> (blob_store_error, unit) res \<times> fs" where
  "remove_digest io s digest fs =
     (case path_for_digest s digest of
        Inl e \<Rightarrow> (Err e, fs)
      | Inr p \<Rightarrow>
          (case io_at io AtRemoveTarget (fs_remove_file p fs) of
             Inr fs' \<Rightarrow> (Ok (), fs')
           | Inl NotFound \<Rightarrow> (Ok (), fs)
           | Inl e \<Rightarrow> (Err (Io e), fs)))"

section \<open>Frame conditions\<close>

text \<open>\<open>same_files P fs fs'\<close>: outside \<open>P\<close> the two states have the same regular files (directories may
  have been created).\<close>

definition same_files :: "path set \<Rightarrow> fs \<Rightarrow> fs \<Rightarrow> bool" where
  "same_files P fs fs' \<longleftrightarrow>
     (\<forall>q b. q \<notin> P \<longrightarrow> (fs' q = Some (RegFile b) \<longleftrightarrow> fs q = Some (RegFile b)))"

lemma same_files_refl [simp, intro]: "same_files P fs fs"
  by (simp add: same_files_def)

lemma same_files_trans: "same_files P a b \<Longrightarrow> same_files P b c \<Longrightarrow> same_files P a c"
  by (simp add: same_files_def)

lemma same_files_mono: "same_files P a b \<Longrightarrow> P \<subseteq> Q \<Longrightarrow> same_files Q a b"
  by (auto simp: same_files_def)

lemma same_filesD: "same_files P a b \<Longrightarrow> q \<notin> P \<Longrightarrow> b q = Some (RegFile x) \<longleftrightarrow> a q = Some (RegFile x)"
  by (simp add: same_files_def)

named_theorems fs_frames \<open>what each file system operation leaves alone\<close>

lemma io_at_Ok [simp]: "io_at io p r = Ok x \<longleftrightarrow> fault io p = None \<and> r = Ok x"
  by (simp add: io_at_def split: option.splits)

lemma io_at_no_fault [simp]: "fault io p = None \<Longrightarrow> io_at io p r = r"
  by (simp add: io_at_def)

lemma is_reg_file_RegFile [simp]: "is_reg_file (Some (RegFile b))"
  by (simp add: is_reg_file_def)

lemma make_dirs:
  "foldr (\<lambda>q m. m(q \<mapsto> Directory)) ps fs q = (if q \<in> set ps then Some Directory else fs q)"
  by (induction ps) auto

lemma create_dir_all_frame [fs_frames]:
  "fs_create_dir_all p fs = Ok fs' \<Longrightarrow> same_files P fs fs'"
  unfolding fs_create_dir_all_def same_files_def list_ex_iff
  by (auto simp: make_dirs simp del: foldr.simps set_simps split: if_splits)
    (metis is_reg_file_RegFile)+

lemma create_file_frame [fs_frames]:
  "fs_create_file p fs = Ok fs' \<Longrightarrow> p \<in> P \<Longrightarrow> same_files P fs fs'"
  by (auto simp: fs_create_file_def same_files_def split: if_splits)

lemma append_frame [fs_frames]: "p \<in> P \<Longrightarrow> same_files P fs (fs_append p c fs)"
  by (auto simp: fs_append_def same_files_def split: option.split node.split)

lemma remove_file_frame [fs_frames]:
  "fs_remove_file p fs = Ok fs' \<Longrightarrow> p \<in> P \<Longrightarrow> same_files P fs fs'"
  by (auto simp: fs_remove_file_def same_files_def split: option.splits node.splits if_splits)

lemma remove_quietly_frame [fs_frames]: "p \<in> P \<Longrightarrow> same_files P fs (remove_quietly io p fs)"
  by (auto simp: remove_quietly_def intro: remove_file_frame split: sum.split)

lemma hard_link_frame [fs_frames]:
  "fs_hard_link a b fs = Ok fs' \<Longrightarrow> b \<in> P \<Longrightarrow> same_files P fs fs'"
  by (auto simp: fs_hard_link_def same_files_def split: if_splits option.splits node.splits)

lemma write_stream_frame [fs_frames]:
  "p \<in> P \<Longrightarrow> same_files P fs (snd (write_stream io p k items len h fs))"
proof (induction items arbitrary: k len h fs)
  case (Cons item rest)
  note step = same_files_trans [OF append_frame Cons.IH]
  show ?case
    using Cons.prems
    by (auto simp: split: sum.split option.split intro: remove_quietly_frame step)
qed simp

section \<open>The write and read loops\<close>

lemma write_stream_Ok:
  "write_stream io p k items len h fs = (Ok (len', h'), fs') \<Longrightarrow> fs p = Some (RegFile c) \<Longrightarrow>
   \<exists>chunks. items = map Inr chunks \<and> len' = len + length (concat chunks) \<and> h' = h @ concat chunks
     \<and> fs' p = Some (RegFile (c @ concat chunks)) \<and> (len \<le> u64_max \<longrightarrow> len' \<le> u64_max)"
proof (induction items arbitrary: k len h fs c)
  case (Cons item rest)
  from Cons.prems(1) obtain chunk where item: "item = Inr chunk"
    and fit: "len + length chunk \<le> u64_max"
    and rec: "write_stream io p (Suc k) rest (len + length chunk) (h @ chunk) (fs_append p chunk fs)
      = (Ok (len', h'), fs')"
    by (auto split: sum.splits option.splits)
  have "fs_append p chunk fs p = Some (RegFile (c @ chunk))"
    using Cons.prems(2) by (simp add: fs_append_def)
  from Cons.IH [OF rec this] obtain chunks where "rest = map Inr chunks"
    "len' = len + length chunk + length (concat chunks)" "h' = (h @ chunk) @ concat chunks"
    "fs' p = Some (RegFile ((c @ chunk) @ concat chunks))" "len' \<le> u64_max"
    using fit by blast
  with item show ?case
    by (intro exI [of _ "chunk # chunks"]) simp
qed auto

lemma read_all_Nil:
  "read_all io k [] len h =
     (case fault io (AtReadTarget k) of Some e \<Rightarrow> Err (Io e) | None \<Rightarrow> Ok (len, h))"
  by (subst read_all.simps) (simp add: read_size_def split: option.split)

lemma read_all_step:
  assumes "content \<noteq> []"
  obtains n where "0 < n" "n \<le> length content"
    "read_all io k content len h =
       (case fault io (AtReadTarget k) of
          Some e \<Rightarrow> Err (Io e)
        | None \<Rightarrow>
            if len + n \<le> u64_max
            then read_all io (Suc k) (drop n content) (len + n) (h @ take n content)
            else Err LengthOverflow)"
proof
  show "0 < read_size io k content" "read_size io k content \<le> length content"
    using assms by (simp_all add: read_size_pos)
  show "read_all io k content len h =
       (case fault io (AtReadTarget k) of
          Some e \<Rightarrow> Err (Io e)
        | None \<Rightarrow>
            if len + read_size io k content \<le> u64_max
            then read_all io (Suc k) (drop (read_size io k content) content)
                   (len + read_size io k content) (h @ take (read_size io k content) content)
            else Err LengthOverflow)"
    using assms by (subst read_all.simps) (simp add: Let_def checked_add_def split: option.split)
qed

lemma read_all_Ok:
  "read_all io k content len h = Ok (len', h') \<Longrightarrow> len' = len + length content \<and> h' = h @ content"
proof (induction "length content" arbitrary: k content len h rule: less_induct)
  case less
  show ?case
  proof (cases "content = []")
    case True
    with less.prems show ?thesis by (simp add: read_all_Nil split: option.splits)
  next
    case False
    obtain n where n: "0 < n" "n \<le> length content"
      and step: "read_all io k content len h =
       (case fault io (AtReadTarget k) of
          Some e \<Rightarrow> Err (Io e)
        | None \<Rightarrow>
            if len + n \<le> u64_max
            then read_all io (Suc k) (drop n content) (len + n) (h @ take n content)
            else Err LengthOverflow)"
      by (rule read_all_step [OF False])
    with less.prems have
      "read_all io (Suc k) (drop n content) (len + n) (h @ take n content) = Ok (len', h')"
      by (simp split: option.splits if_splits)
    from less.hyps [OF _ this] n show ?thesis by simp
  qed
qed

definition no_faults :: "io_faults \<Rightarrow> bool" where
  "no_faults io \<longleftrightarrow> fault io = (\<lambda>_. None)"

lemma read_all_total:
  assumes "no_faults io" and "len + length content \<le> u64_max"
  shows "read_all io k content len h = Ok (len + length content, h @ content)"
  using assms(2)
proof (induction "length content" arbitrary: k content len h rule: less_induct)
  case less
  show ?case
  proof (cases "content = []")
    case True
    with assms(1) show ?thesis by (simp add: read_all_Nil no_faults_def)
  next
    case False
    obtain n where n: "0 < n" "n \<le> length content" and
      "read_all io k content len h =
         (if len + n \<le> u64_max
          then read_all io (Suc k) (drop n content) (len + n) (h @ take n content)
          else Err LengthOverflow)"
      using read_all_step [OF False, of io k len h] assms(1) by (auto simp: no_faults_def)
    with less.hyps [of "drop n content" "len + n" "Suc k" "h @ take n content"] less.prems show ?thesis
      by simp
  qed
qed

lemma verify_file_Ok:
  "verify_file env io p d n fs = Ok u \<Longrightarrow>
   \<exists>c. fs p = Some (RegFile c) \<and> length c = n \<and> hex_string (sha256 env c) = d"
  by (auto simp: verify_file_def fs_open_def split: sum.splits option.splits node.splits if_splits
      dest!: read_all_Ok)

lemma verify_file_complete:
  assumes "no_faults io" "fs p = Some (RegFile c)" "length c \<le> u64_max"
  shows "verify_file env io p d n fs =
    (if length c = n \<and> hex_string (sha256 env c) = d then Ok () else Err Collision)"
  using assms read_all_total [OF assms(1), of 0 c 0 "[]"]
  by (simp add: verify_file_def fs_open_def io_at_def no_faults_def)

section \<open>Storing\<close>

lemma path_for_digest_Ok:
  "path_for_digest s d = Ok p \<longleftrightarrow> is_char_boundary d 2 \<and> p = root s @ [''sha256'', take 2 d, drop 2 d]"
  by (auto simp: path_for_digest_def)

lemma path_for_digest_inj:
  assumes "path_for_digest s d = Ok p" "path_for_digest s d' = Ok p"
  shows "d = d'"
proof -
  from assms have "take 2 d = take 2 d'" "drop 2 d = drop 2 d'"
    by (simp_all add: path_for_digest_Ok)
  then show ?thesis by (metis append_take_drop_id)
qed

lemma staging_not_target [simp]:
  "path_for_digest s d = Ok p \<Longrightarrow> staging_path s uuid \<noteq> p"
  "path_for_digest s d = Ok p \<Longrightarrow> staging_dir s @ [name] \<noteq> p"
  by (auto simp: path_for_digest_Ok staging_path_def staging_dir_def)

lemma publish_Ok:
  assumes "publish env io staging target d len fs = (Ok u, fs')" and "staging \<noteq> target"
    and "fs staging = Some (RegFile c)"
  shows "(fs target = None \<and> fs' target = Some (RegFile c))
    \<or> (\<exists>c'. fs target = Some (RegFile c') \<and> fs' target = Some (RegFile c') \<and> length c' = len
            \<and> hex_string (sha256 env c') = d)"
proof (cases "io_at io AtHardLink (fs_hard_link staging target fs)")
  case (Inr fs1)
  with assms have "fs target = None" "fs1 = fs(target \<mapsto> RegFile c)"
    by (auto simp: fs_hard_link_def split: if_splits)
  with Inr assms show ?thesis
    by (auto simp: publish_def io_at_def fs_remove_file_def split: sum.splits option.splits)
next
  case (Inl e)
  with assms(1) have e: "e = AlreadyExists" and v: "verify_file env io target d len fs = Ok ()"
    and fs': "fs' = remove_quietly io staging fs"
    by (auto simp: publish_def split: io_kind.splits)
  have "same_files {staging} fs fs'"
    unfolding fs' by (rule remove_quietly_frame) simp
  from same_filesD [OF this, of target] verify_file_Ok [OF v] assms(2) show ?thesis
    by auto
qed

lemma publish_frame:
  assumes "publish env io staging target d len fs = (r, fs')"
  shows "same_files {staging, target} fs fs'"
    and "fs target = Some (RegFile b) \<Longrightarrow> staging \<noteq> target \<Longrightarrow> fs' target = Some (RegFile b)"
    and "fs staging = Some (RegFile c) \<Longrightarrow> staging \<noteq> target \<Longrightarrow>
         fs' target = Some (RegFile b') \<Longrightarrow> fs target = Some (RegFile b') \<or> b' = c"
proof -
  have quiet: "same_files {staging} fs (remove_quietly io staging fs)"
    by (rule remove_quietly_frame) simp
  note rm = remove_file_frame [where P = "{staging, target}" and p = staging]
  show "same_files {staging, target} fs fs'"
    using assms same_files_mono [OF quiet, of "{staging, target}"]
    by (auto simp: publish_def split: sum.splits io_kind.splits
        intro: same_files_trans [OF hard_link_frame rm] hard_link_frame)
  show "fs' target = Some (RegFile b)" if "fs target = Some (RegFile b)" "staging \<noteq> target"
    using assms that same_filesD [OF quiet, of target b]
    by (auto simp: publish_def fs_hard_link_def split: sum.splits io_kind.splits)
  show "fs target = Some (RegFile b') \<or> b' = c"
    if "fs staging = Some (RegFile c)" "staging \<noteq> target" "fs' target = Some (RegFile b')"
    using assms that same_filesD [OF quiet, of target b']
    by (auto simp: publish_def fs_hard_link_def fs_remove_file_def
        split: sum.splits io_kind.splits if_splits)
qed

text \<open>What any call of \<open>store\<close> may do to the regular files other than its own staging file: none
  is changed or removed, and a new one stands at the path of its own digest.\<close>

definition only_adds :: "store_env \<Rightarrow> blob_store \<Rightarrow> path \<Rightarrow> fs \<Rightarrow> fs \<Rightarrow> bool" where
  "only_adds env s staging fs fs' \<longleftrightarrow>
     (\<forall>q b. q \<noteq> staging \<longrightarrow>
        (fs q = Some (RegFile b) \<longrightarrow> fs' q = Some (RegFile b))
        \<and> (fs' q = Some (RegFile b) \<longrightarrow>
             fs q = Some (RegFile b) \<or> path_for_digest s (hex_string (sha256 env b)) = Ok q))"

lemma same_files_only_adds: "same_files {staging} fs fs' \<Longrightarrow> only_adds env s staging fs fs'"
  by (simp add: same_files_def only_adds_def)

lemma create_file_content:
  "fs_create_file p fs = Ok fs' \<Longrightarrow> fs' p = Some (RegFile [])"
  by (auto simp: fs_create_file_def split: if_splits)

lemma create_dir_all_keeps:
  "fs_create_dir_all p fs = Ok fs' \<Longrightarrow> fs q = Some (RegFile b) \<Longrightarrow> fs' q = Some (RegFile b)"
  using create_dir_all_frame [of p fs fs' "{}"] by (simp add: same_files_def)

text \<open>The two halves of \<open>store\<close>: everything up to the synced staging file, and publishing it.\<close>

lemma publish_only_adds:
  assumes pub: "publish env io (staging_path s uuid) p (hex_string (sha256 env c)) len fs = (r, fs')"
    and p: "path_for_digest s (hex_string (sha256 env c)) = Ok p"
    and st: "fs (staging_path s uuid) = Some (RegFile c)"
  shows "only_adds env s (staging_path s uuid) fs fs'"
proof -
  note fr = publish_frame [OF pub]
  show ?thesis
    unfolding only_adds_def
  proof (intro allI impI conjI)
    fix q b assume q: "q \<noteq> staging_path s uuid"
    show "fs' q = Some (RegFile b)" if "fs q = Some (RegFile b)"
      using that q fr(2) same_filesD [OF fr(1), of q b] by (cases "q = p") auto
    show "fs q = Some (RegFile b) \<or> path_for_digest s (hex_string (sha256 env b)) = Ok q"
      if "fs' q = Some (RegFile b)"
    proof (cases "q = p")
      case False
      with that q same_filesD [OF fr(1), of q b] show ?thesis by auto
    next
      case True
      with fr(3) [OF st] that q p show ?thesis by auto
    qed
  qed
qed

text \<open>How far a call of \<open>store\<close> got.\<close>

lemma store_stages:
  assumes "store env io s uuid media items fs = (r, fs')"
  obtains (early) e where "r = Err e" "same_files {staging_path s uuid} fs fs'"
  | (published) own mt chunks digest p fs4 u where
      "items = map Inr chunks" "length (concat chunks) \<le> u64_max"
      "parse_owner env (owner s) = Some own" "parse_media_type env media = Some mt"
      "parse_digest_hex env (hex_string (sha256 env (concat chunks))) = Some digest"
      "path_for_digest s (hex_string (sha256 env (concat chunks))) = Ok p"
      "same_files {staging_path s uuid} fs fs4"
      "fs4 (staging_path s uuid) = Some (RegFile (concat chunks))"
      "publish env io (staging_path s uuid) p (hex_string (sha256 env (concat chunks)))
         (length (concat chunks)) fs4 = (u, fs')"
      "r = (case u of Inl e \<Rightarrow> Err e | Inr _ \<Rightarrow>
         Ok \<lparr>owner_service = own, digest_algorithm = Sha256, digest_hex = digest, media_type = mt,
             length_bytes = length (concat chunks)\<rparr>)"
proof (cases "\<exists>e. r = Err e \<and> same_files {staging_path s uuid} fs fs'")
  case True
  with early show ?thesis by blast
next
  case late: False
  let ?st = "staging_path s uuid"
  have refl: "same_files {?st} fs fs" by simp
  obtain own mt where own: "parse_owner env (owner s) = Some own" and mt: "parse_media_type env media = Some mt"
    using late assms by (cases "parse_owner env (owner s)"; cases "parse_media_type env media")
      (auto simp: store_def)
  obtain fs1 where fs1: "io_at io AtCreateStagingDir (fs_create_dir_all (staging_dir s) fs) = Ok fs1"
    using late assms own mt
    by (cases "io_at io AtCreateStagingDir (fs_create_dir_all (staging_dir s) fs)") (auto simp: store_def)
  have k1: "same_files {?st} fs fs1"
    using fs1 by (auto intro: create_dir_all_frame)
  obtain fs2 where fs2: "io_at io AtCreateStagingFile (fs_create_file ?st fs1) = Ok fs2"
    using late assms own mt fs1 k1
    by (cases "io_at io AtCreateStagingFile (fs_create_file ?st fs1)") (auto simp: store_def)
  have k2: "same_files {?st} fs fs2"
    using fs2 by (auto intro: same_files_trans [OF k1] create_file_frame)
  obtain w fs3 where w: "write_stream io ?st 0 items 0 [] fs2 = (w, fs3)" by fastforce
  have k3: "same_files {?st} fs fs3"
    using write_stream_frame [of ?st "{?st}" fs2 io 0 items 0 "[]"] same_files_trans [OF k2] w by simp
  note so_far = late assms own mt fs1 fs2 w k3
  obtain len hashed where ok: "w = Ok (len, hashed)"
    using so_far by (cases w) (auto simp: store_def)
  have "fs2 ?st = Some (RegFile [])"
    using fs2 by (auto intro: create_file_content)
  from write_stream_Ok [OF w [unfolded ok] this] obtain chunks where chunks:
    "items = map Inr chunks" "len = length (concat chunks)" "hashed = concat chunks"
    "fs3 ?st = Some (RegFile (concat chunks))" "len \<le> u64_max"
    by auto
  obtain digest p where d: "parse_digest_hex env (hex_string (sha256 env hashed)) = Some digest"
    and p: "path_for_digest s (hex_string (sha256 env hashed)) = Ok p"
    using so_far ok
    by (cases "parse_digest_hex env (hex_string (sha256 env hashed))";
        cases "path_for_digest s (hex_string (sha256 env hashed))")
      (auto simp: store_def Let_def split: option.splits)
  obtain fs4 where fs4: "io_at io AtCreateParentDir (fs_create_dir_all (butlast p) fs3) = Ok fs4"
    using so_far ok d p
    by (cases "io_at io AtCreateParentDir (fs_create_dir_all (butlast p) fs3)")
      (auto simp: store_def Let_def split: option.splits)
  have k4: "same_files {?st} fs fs4" "fs4 ?st = Some (RegFile (concat chunks))"
    using fs4 chunks by (auto intro: same_files_trans [OF k3] create_dir_all_frame create_dir_all_keeps)
  obtain u fs5 where u: "publish env io ?st p (hex_string (sha256 env hashed)) len fs4 = (u, fs5)"
    by fastforce
  have "fs' = fs5 \<and> r = (case u of Inl e \<Rightarrow> Err e | Inr _ \<Rightarrow>
         Ok \<lparr>owner_service = own, digest_algorithm = Sha256, digest_hex = digest, media_type = mt,
             length_bytes = len\<rparr>)"
    using so_far ok d p fs4 u
    by (cases u) (auto simp: store_def Let_def split: option.splits)
  then show ?thesis
    unfolding chunks(2)
    using own mt chunks d p k4 u by (intro published [of chunks own mt digest p fs4 u]) simp_all
qed

section \<open>The contract of a content-addressed store\<close>

text \<open>What the extractor relies on when it keeps a reference: a reference that \<open>put\<close> returned
  stands for bytes with the digest of what was put, every later \<open>put\<close> keeps them, and a lookup
  never returns bytes with another digest.\<close>

locale content_store =
  fixes put :: "'s \<Rightarrow> 'q \<Rightarrow> 'r option \<times> 's"
    and lookup :: "'s \<Rightarrow> 'r \<Rightarrow> string option"
    and digest :: "string \<Rightarrow> 'd"
    and addr :: "'r \<Rightarrow> 'd"
    and body :: "'q \<Rightarrow> string"
    and inv :: "'s \<Rightarrow> bool"
  assumes put_inv: "inv s \<Longrightarrow> inv (snd (put s q))"
    and put_addr: "inv s \<Longrightarrow> put s q = (Some r, s') \<Longrightarrow> addr r = digest (body q) \<and> lookup s' r \<noteq> None"
    and put_keeps: "lookup s r = Some b \<Longrightarrow> lookup (snd (put s q)) r = Some b"
    and lookup_sound: "inv s \<Longrightarrow> lookup s r = Some b \<Longrightarrow> digest b = addr r"
begin

lemma puts_keeps: "lookup s r = Some b \<Longrightarrow> lookup (snd (run_all put s qs)) r = Some b"
proof (induction qs arbitrary: s)
  case (Cons q qs)
  from put_keeps [OF Cons.prems, of q] show ?case
    by (auto simp: Let_def split: prod.splits dest: Cons.IH)
qed simp

lemma puts_retained:
  "inv s \<Longrightarrow> run_all put s qs = (rs, s') \<Longrightarrow>
   inv s' \<and> length rs = length qs
   \<and> (\<forall>i r. i < length qs \<longrightarrow> rs ! i = Some r \<longrightarrow>
        (\<exists>b. lookup s' r = Some b \<and> digest b = digest (body (qs ! i))))"
proof (induction qs arbitrary: s rs)
  case (Cons q qs)
  obtain r s1 where p: "put s q = (r, s1)" by fastforce
  obtain rs1 where ps: "run_all put s1 qs = (rs1, s')" and rs: "rs = r # rs1"
    using Cons.prems(2) p by (auto simp: Let_def split: prod.splits)
  have "inv s1" using put_inv [OF Cons.prems(1), of q] p by simp
  note IH = Cons.IH [OF this ps]
  have first: "\<exists>b. lookup s' x = Some b \<and> digest b = digest (body q)" if "r = Some x" for x
    using put_addr [OF Cons.prems(1), of q x s1] p that puts_keeps [of s1 x _ qs] ps
      lookup_sound [of s' x] IH by fastforce
  show ?case
    using IH first by (auto simp: rs nth_Cons split: nat.split)
qed simp

end

section \<open>Properties\<close>

definition content_addressed :: "store_env \<Rightarrow> blob_store \<Rightarrow> fs \<Rightarrow> bool" where
  "content_addressed env s fs \<longleftrightarrow>
     (\<forall>d p b. path_for_digest s d = Ok p \<longrightarrow> fs p = Some (RegFile b) \<longrightarrow>
        d = hex_string (sha256 env b))"

lemma content_addressed_only_adds:
  assumes "content_addressed env s fs" "only_adds env s st fs fs'"
    and "\<forall>d. path_for_digest s d \<noteq> Ok st"
  shows "content_addressed env s fs'"
  unfolding content_addressed_def
proof (intro allI impI)
  fix d p b assume p: "path_for_digest s d = Ok p" and b: "fs' p = Some (RegFile b)"
  with assms have "fs p = Some (RegFile b) \<or> path_for_digest s (hex_string (sha256 env b)) = Ok p"
    unfolding only_adds_def by metis
  with assms(1) p path_for_digest_inj show "d = hex_string (sha256 env b)"
    unfolding content_addressed_def by blast
qed

lemma content_addressed_same_files:
  "content_addressed env s fs \<Longrightarrow> same_files P fs fs' \<Longrightarrow>
   (\<forall>d p b. path_for_digest s d = Ok p \<longrightarrow> p \<in> P \<longrightarrow> fs' p = Some (RegFile b) \<longrightarrow> fs p = Some (RegFile b)) \<Longrightarrow>
   content_addressed env s fs'"
  unfolding content_addressed_def same_files_def by metis

lemma store_only_adds:
  assumes "store env io s uuid media items fs = (r, fs')"
  shows "only_adds env s (staging_path s uuid) fs fs'"
  using assms
proof (cases rule: store_stages)
  case (early e)
  then show ?thesis by (intro same_files_only_adds)
next
  case (published own mt chunks digest p fs4 u)
  have "only_adds env s (staging_path s uuid) fs4 fs'"
    using published by (intro publish_only_adds)
  with published(7) show ?thesis
    unfolding only_adds_def same_files_def by auto
qed

lemma store_content_addressed:
  "content_addressed env s fs \<Longrightarrow> store env io s uuid media items fs = (r, fs') \<Longrightarrow>
   content_addressed env s fs'"
  by (erule content_addressed_only_adds, rule store_only_adds)
    (auto dest: staging_not_target(1))

lemma remove_stale_frame:
  "remove_stale io s k names fs = (r, fs') \<Longrightarrow> same_files ((\<lambda>n. staging_dir s @ [n]) ` set names) fs fs'"
proof (induction names arbitrary: k fs)
  case (Cons name rest)
  let ?P = "(\<lambda>n. staging_dir s @ [n]) ` set (name # rest)"
  have rest: "same_files ?P a fs'" if "remove_stale io s (Suc k) rest a = (r, fs')" for a
    by (rule same_files_mono [OF Cons.IH [OF that]]) auto
  show ?case
  proof (cases "fault io (AtNextEntry k) = None \<and> is_stale_part name")
    case True
    then show ?thesis
      using Cons.prems rest remove_file_frame [of "staging_dir s @ [name]" fs _ ?P]
      by (auto split: sum.splits intro: same_files_trans)
  next
    case False
    with Cons.prems rest show ?thesis
      by (auto split: option.splits if_splits)
  qed
qed (simp split: option.splits)

lemma prepare_frame:
  "prepare io s names fs = (r, fs') \<Longrightarrow> same_files ((\<lambda>n. staging_dir s @ [n]) ` set names) fs fs'"
  by (auto simp: prepare_def split: sum.splits option.splits
      intro: create_dir_all_frame same_files_trans [OF create_dir_all_frame remove_stale_frame])

lemma prepare_content_addressed:
  "content_addressed env s fs \<Longrightarrow> prepare io s names fs = (r, fs') \<Longrightarrow> content_addressed env s fs'"
  by (erule content_addressed_same_files, erule prepare_frame) (auto dest: staging_not_target(2))

lemma remove_digest_content_addressed:
  "content_addressed env s fs \<Longrightarrow> remove_digest io s d fs = (r, fs') \<Longrightarrow> content_addressed env s fs'"
  by (auto simp: remove_digest_def content_addressed_def fs_remove_file_def io_at_def
      split: sum.splits io_kind.splits option.splits node.splits if_splits)

text \<open>The operations on the store as a step relation: any call, with any arguments and any I/O
  faults, whatever it returns.\<close>

inductive blob_step :: "store_env \<Rightarrow> blob_store \<Rightarrow> fs \<Rightarrow> fs \<Rightarrow> bool" for env s where
  step_store: "store env io s uuid media items fs = (r, fs') \<Longrightarrow> blob_step env s fs fs'"
| step_prepare: "prepare io s names fs = (u, fs') \<Longrightarrow> blob_step env s fs fs'"
| step_remove: "remove_digest io s d fs = (u, fs') \<Longrightarrow> blob_step env s fs fs'"

lemma blob_step_content_addressed:
  "blob_step env s fs fs' \<Longrightarrow> content_addressed env s fs \<Longrightarrow> content_addressed env s fs'"
  by (induction rule: blob_step.induct)
    (blast intro: store_content_addressed prepare_content_addressed remove_digest_content_addressed)+

text \<open>C23. The store stays content-addressed. From an empty file system, after any sequence of
  \<open>store\<close>, \<open>prepare\<close> and \<open>remove_digest\<close> calls with any I/O failures at any point, a regular file at
  the path of a digest hashes to that digest: no partial, mixed or mislabelled artifact ever becomes
  visible under a digest path.\<close>

theorem store_always_content_addressed:
  assumes "(blob_step env s)\<^sup>*\<^sup>* Map.empty fs" and "path_for_digest s d = Ok p"
    and "fs p = Some (RegFile b)"
  shows "d = hex_string (sha256 env b)"
proof -
  have "content_addressed env s fs"
    using assms(1)
    by (induction rule: rtranclp_induct)
      (auto simp: content_addressed_def [of _ _ Map.empty] intro: blob_step_content_addressed)
  with assms(2,3) show ?thesis
    by (simp add: content_addressed_def)
qed

definition sample_env :: store_env where
  "sample_env = \<lparr>sha256 = (\<lambda>b. replicate 31 7 @ [of_nat (length b)]), parse_owner = Some,
     parse_media_type = Some, parse_digest_hex = Some\<rparr>"

definition calm_io :: io_faults where
  "calm_io = \<lparr>fault = (\<lambda>_. None), short_read = (\<lambda>_. 8192)\<rparr>"

definition sample_store :: blob_store where
  "sample_store = new [''blobs'']"

definition sample_stored :: "(blob_store_error, blob_ref) res \<times> fs" where
  "sample_stored = store sample_env calm_io sample_store ''u1'' ''text/html''
     [Inr ''ab'', Inr ''c''] Map.empty"

lemma sample_stored_file:
  "snd sample_stored [''blobs'', ''sha256'', ''07'', concat (replicate 30 ''07'') @ ''03''] =
     Some (RegFile ''abc'')"
  by code_simp

lemma sample_stored_ok: "is_ok (fst sample_stored)"
  by code_simp

theorem store_always_content_addressed_witness:
  "snd sample_stored [''blobs'', ''sha256'', ''07'', concat (replicate 30 ''07'') @ ''03''] =
     Some (RegFile ''abc'')
   \<and> concat (replicate 31 ''07'') @ ''03'' = hex_string (sha256 sample_env ''abc'')"
proof -
  have "blob_step sample_env sample_store Map.empty (snd sample_stored)"
    by (rule step_store [of _ calm_io _ "''u1''" "''text/html''" "[Inr ''ab'', Inr ''c'']" _ "fst sample_stored"])
      (simp add: sample_stored_def)
  then have "(blob_step sample_env sample_store)\<^sup>*\<^sup>* Map.empty (snd sample_stored)"
    by blast
  moreover have "path_for_digest sample_store (concat (replicate 31 ''07'') @ ''03'') =
      Ok [''blobs'', ''sha256'', ''07'', concat (replicate 30 ''07'') @ ''03'']"
    by code_simp
  ultimately show ?thesis
    using store_always_content_addressed sample_stored_file by blast
qed

text \<open>What a successful \<open>store\<close> leaves behind.\<close>

lemma store_Ok:
  assumes "store env io s uuid media items fs = (Ok r, fs')"
  obtains chunks p c where "items = map Inr chunks" "length_bytes r = length (concat chunks)"
    "parse_digest_hex env (hex_string (sha256 env (concat chunks))) = Some (digest_hex r)"
    "parse_owner env (owner s) = Some (owner_service r)" "digest_algorithm r = Sha256"
    "parse_media_type env media = Some (media_type r)"
    "path_for_digest s (hex_string (sha256 env (concat chunks))) = Ok p"
    "fs' p = Some (RegFile c)" "length c = length (concat chunks)" "length c \<le> u64_max"
    "hex_string (sha256 env c) = hex_string (sha256 env (concat chunks))"
    "fs p = None \<Longrightarrow> c = concat chunks"
  using assms
proof (cases rule: store_stages)
  case (published own mt chunks digest p fs4 u)
  have ne: "staging_path s uuid \<noteq> p"
    using published(6) by (rule staging_not_target)
  from published(10) obtain v where u: "u = Ok v"
    by (cases u) auto
  note pub = publish_Ok [OF published(9) [unfolded u] ne published(8)]
  then obtain c where c: "fs' p = Some (RegFile c)" "length c = length (concat chunks)"
    "hex_string (sha256 env c) = hex_string (sha256 env (concat chunks))"
    by fastforce
  have "c = concat chunks" if "fs p = None"
    using pub c(1) that ne same_filesD [OF published(7), of p c] by auto
  with c published u that [of chunks p c] show ?thesis
    by simp
qed auto

lemma stored_blob_verifies:
  assumes ok: "store env io s uuid media items fs = (Ok r, fs')"
    and owner: "parse_owner env (owner s) = Some (owner s)"
    and media: "\<forall>m m'. parse_media_type env m = Some m' \<longrightarrow> parse_media_type env m' \<noteq> None"
    and hex: "\<forall>d d'. parse_digest_hex env d = Some d' \<longrightarrow> d' = d"
    and calm: "no_faults io'"
  shows "\<exists>chunks p c. items = map Inr chunks \<and> length_bytes r = length (concat chunks)
    \<and> digest_hex r = hex_string (sha256 env (concat chunks))
    \<and> verify env io' s r fs' = Ok p \<and> fs' p = Some (RegFile c)
    \<and> length c = length (concat chunks) \<and> hex_string (sha256 env c) = digest_hex r
    \<and> (fs p = None \<longrightarrow> c = concat chunks)"
  using ok
proof (cases rule: store_Ok)
  case (1 chunks p c)
  then have hexr: "digest_hex r = hex_string (sha256 env (concat chunks))"
    using hex by blast
  have p: "path_for_digest s (digest_hex r) = Ok p"
    unfolding hexr by (rule 1)
  have "verify_file env io' p (digest_hex r) (length_bytes r) fs' = Ok ()"
    using verify_file_complete [OF calm, of fs' p c env "digest_hex r" "length_bytes r"] 1 hexr by simp
  moreover have "owner_service r = owner s" "parse_media_type env (media_type r) \<noteq> None"
    using 1 owner media by auto
  ultimately have "verify env io' s r fs' = Ok p"
    using 1 calm by (simp add: verify_def resolve_def p no_faults_def)
  with 1 hexr show ?thesis by metis
qed

text \<open>Store, then verify. When \<open>store\<close> succeeds, whatever faults it met on the way, the
  reference it returns names the bytes that were streamed: every item of the stream was a chunk, the
  recorded length is the total length, the digest is the hash of the concatenation, and a later
  fault-free \<open>verify\<close> of that reference succeeds and finds at the returned path a file with that
  length and hash, which is the streamed content itself when the digest was not stored before.\<close>

theorem store_then_verify:
  assumes ok: "store env io s uuid media items fs = (Ok r, fs')"
    and owner: "parse_owner env (owner s) = Some (owner s)"
    and media: "\<forall>m m'. parse_media_type env m = Some m' \<longrightarrow> parse_media_type env m' \<noteq> None"
    and hex: "\<forall>d d'. parse_digest_hex env d = Some d' \<longrightarrow> d' = d"
    and calm: "no_faults io'"
  shows "\<exists>chunks p c. items = map Inr chunks \<and> length_bytes r = length (concat chunks)
    \<and> digest_hex r = hex_string (sha256 env (concat chunks))
    \<and> verify env io' s r fs' = Ok p \<and> fs' p = Some (RegFile c)
    \<and> length c = length (concat chunks) \<and> hex_string (sha256 env c) = digest_hex r
    \<and> (fs p = None \<longrightarrow> c = concat chunks)"
  by (rule stored_blob_verifies [OF assms])

theorem store_then_verify_witness:
  "\<exists>r p. fst sample_stored = Ok r \<and> length_bytes r = 3
     \<and> verify sample_env calm_io sample_store r (snd sample_stored) = Ok p"
proof -
  obtain r where r: "fst sample_stored = Ok r"
    using sample_stored_ok by (auto simp: is_ok_iff)
  then have ok: "store sample_env calm_io sample_store ''u1'' ''text/html'' [Inr ''ab'', Inr ''c''] Map.empty
      = (Ok r, snd sample_stored)"
    by (metis prod.collapse sample_stored_def)
  obtain chunks p where "[Inr ''ab'', Inr ''c''] = (map Inr chunks :: (unit, string) res list)"
    "length_bytes r = length (concat chunks)"
    "verify sample_env calm_io sample_store r (snd sample_stored) = Ok p"
    using store_then_verify [OF ok, of calm_io]
    by (simp add: sample_env_def [THEN arg_cong [where f = parse_owner]]
      sample_env_def [THEN arg_cong [where f = parse_media_type]]
      sample_env_def [THEN arg_cong [where f = parse_digest_hex]] no_faults_def
      calm_io_def [THEN arg_cong [where f = fault]]) metis
  with r show ?thesis by (auto simp: Cons_eq_map_conv)
qed

lemma verify_facts:
  assumes "verify env io s r fs = Ok p"
  shows "owner_service r = owner s" "digest_algorithm r = Sha256"
    "path_for_digest s (digest_hex r) = Ok p"
    "\<exists>c. fs p = Some (RegFile c) \<and> length c = length_bytes r \<and> hex_string (sha256 env c) = digest_hex r"
  using assms verify_file_Ok [of env io p "digest_hex r" "length_bytes r" fs]
  by (auto simp: verify_def resolve_def split: if_splits sum.splits io_kind.splits node.splits
      blob_store_error.splits)

text \<open>A verified reference can be trusted: when \<open>verify\<close> succeeds, under any I/O behaviour, the
  reference belongs to this store's owner and uses SHA-256, and the path it returns is the digest's
  path and holds a regular file of the recorded length whose hash is the recorded digest.\<close>

theorem verify_sound:
  assumes "verify env io s r fs = Ok p"
  shows "owner_service r = owner s \<and> digest_algorithm r = Sha256
    \<and> path_for_digest s (digest_hex r) = Ok p
    \<and> (\<exists>c. fs p = Some (RegFile c) \<and> length c = length_bytes r
           \<and> hex_string (sha256 env c) = digest_hex r)"
  using verify_facts [OF assms] by simp

definition sample_ref :: blob_ref where
  "sample_ref = \<lparr>owner_service = OWNER, digest_algorithm = Sha256,
     digest_hex = concat (replicate 31 ''07'') @ ''03'', media_type = ''text/html'', length_bytes = 3\<rparr>"

definition sample_path :: path where
  "sample_path = [''blobs'', ''sha256'', ''07'', concat (replicate 30 ''07'') @ ''03'']"

theorem verify_sound_witness:
  "verify sample_env calm_io sample_store sample_ref [sample_path \<mapsto> RegFile ''abc''] = Ok sample_path
   \<and> hex_string (sha256 sample_env ''abc'') = digest_hex sample_ref"
proof -
  have "verify sample_env calm_io sample_store sample_ref [sample_path \<mapsto> RegFile ''abc''] = Ok sample_path"
    by code_simp
  with verify_sound [OF this] show ?thesis by auto
qed

section \<open>The store meets the contract\<close>

record store_request =
  rq_io :: io_faults
  rq_uuid :: string
  rq_media :: string
  rq_items :: "(unit, string) res list"

definition blob_put :: "store_env \<Rightarrow> blob_store \<Rightarrow> fs \<Rightarrow> store_request \<Rightarrow> blob_ref option \<times> fs" where
  "blob_put env s fs q =
     (case store env (rq_io q) s (rq_uuid q) (rq_media q) (rq_items q) fs of
        (Inl _, fs') \<Rightarrow> (None, fs')
      | (Inr r, fs') \<Rightarrow> (Some r, fs'))"

definition blob_lookup :: "blob_store \<Rightarrow> fs \<Rightarrow> blob_ref \<Rightarrow> string option" where
  "blob_lookup s fs r =
     (case path_for_digest s (digest_hex r) of
        Inl _ \<Rightarrow> None
      | Inr p \<Rightarrow> (case fs p of Some (RegFile b) \<Rightarrow> Some b | _ \<Rightarrow> None))"

definition request_bytes :: "store_request \<Rightarrow> string" where
  "request_bytes q = concat (map (\<lambda>i. case i of Inl _ \<Rightarrow> [] | Inr c \<Rightarrow> c) (rq_items q))"

definition blob_inv :: "store_env \<Rightarrow> blob_store \<Rightarrow> fs \<Rightarrow> bool" where
  "blob_inv env s fs \<longleftrightarrow>
     content_addressed env s fs \<and> (\<forall>d d'. parse_digest_hex env d = Some d' \<longrightarrow> d' = d)"

lemma blob_lookup_Some:
  "blob_lookup s fs r = Some b \<longleftrightarrow>
     (\<exists>p. path_for_digest s (digest_hex r) = Ok p \<and> fs p = Some (RegFile b))"
  by (auto simp: blob_lookup_def split: sum.splits option.splits node.splits)

lemma blob_put_cases:
  obtains r where "store env (rq_io q) s (rq_uuid q) (rq_media q) (rq_items q) fs = (r, snd (blob_put env s fs q))"
    "\<And>x. fst (blob_put env s fs q) = Some x \<longleftrightarrow> r = Ok x"
  by (cases "store env (rq_io q) s (rq_uuid q) (rq_media q) (rq_items q) fs"; cases "fst (store env (rq_io q) s (rq_uuid q) (rq_media q) (rq_items q) fs)")
    (auto simp: blob_put_def)

interpretation blobs: content_store "blob_put env s" "blob_lookup s"
  "\<lambda>b. hex_string (sha256 env b)" digest_hex request_bytes "blob_inv env s" for env s
proof (standard, goal_cases)
  case (1 fs q)
  obtain r where "store env (rq_io q) s (rq_uuid q) (rq_media q) (rq_items q) fs =
      (r, snd (blob_put env s fs q))"
    by (rule blob_put_cases)
  with 1 show ?case
    by (auto simp: blob_inv_def intro: store_content_addressed)
next
  case (2 fs q r fs')
  then have "store env (rq_io q) s (rq_uuid q) (rq_media q) (rq_items q) fs = (Ok r, fs')"
    using blob_put_cases [of env q s fs] by (metis fst_conv snd_conv)
  then show ?case
  proof (cases rule: store_Ok)
    case (1 chunks p c)
    moreover have "request_bytes q = concat chunks"
      using 1 by (simp add: request_bytes_def comp_def)
    moreover have "digest_hex r = hex_string (sha256 env (concat chunks))"
      using 1 2 by (auto simp: blob_inv_def)
    ultimately show ?thesis
      by (auto simp: blob_lookup_def)
  qed
next
  case (3 fs r b q)
  then obtain p where p: "path_for_digest s (digest_hex r) = Ok p" "fs p = Some (RegFile b)"
    by (auto simp: blob_lookup_Some)
  have "only_adds env s (staging_path s (rq_uuid q)) fs (snd (blob_put env s fs q))"
    using blob_put_cases [of env q s fs] store_only_adds by metis
  with p staging_not_target(1) [OF p(1)] have "snd (blob_put env s fs q) p = Some (RegFile b)"
    unfolding only_adds_def by metis
  with p show ?case by (auto simp: blob_lookup_Some)
next
  case (4 fs r b)
  then show ?case by (auto simp: blob_lookup_Some blob_inv_def content_addressed_def)
qed

text \<open>C24. Nothing that was stored is lost by storing more. In any sequence of store requests, each
  with its own I/O faults, every request that returned a reference can still be looked up by that
  reference after the whole sequence, and the bytes found have the digest of the bytes it streamed.\<close>

theorem stored_artifacts_are_retained:
  assumes "blob_inv env s fs" and "run_all (blob_put env s) fs qs = (rs, fs')"
    and "i < length qs" and "rs ! i = Some r"
  shows "\<exists>b. blob_lookup s fs' r = Some b
    \<and> hex_string (sha256 env b) = hex_string (sha256 env (request_bytes (qs ! i)))"
  using blobs.puts_retained [OF assms(1,2)] assms(3,4) by blast

theorem stored_artifacts_are_retained_witness:
  "\<exists>b. blob_lookup sample_store
      (snd (run_all (blob_put sample_env sample_store) Map.empty
        [\<lparr>rq_io = calm_io, rq_uuid = ''u1'', rq_media = ''m'', rq_items = [Inr ''ab'']\<rparr>,
         \<lparr>rq_io = calm_io, rq_uuid = ''u2'', rq_media = ''m'', rq_items = [Inl ()]\<rparr>]))
      \<lparr>owner_service = OWNER, digest_algorithm = Sha256,
       digest_hex = concat (replicate 31 ''07'') @ ''02'', media_type = ''m'', length_bytes = 2\<rparr> = Some b
    \<and> hex_string (sha256 sample_env b) = hex_string (sha256 sample_env ''ab'')"
proof -
  let ?qs = "[\<lparr>rq_io = calm_io, rq_uuid = ''u1'', rq_media = ''m'', rq_items = [Inr ''ab'']\<rparr>,
         \<lparr>rq_io = calm_io, rq_uuid = ''u2'', rq_media = ''m'', rq_items = [Inl ()]\<rparr>]"
  have inv: "blob_inv sample_env sample_store Map.empty"
    by (simp add: blob_inv_def content_addressed_def sample_env_def)
  have fst: "fst (run_all (blob_put sample_env sample_store) Map.empty ?qs) ! 0 =
      Some \<lparr>owner_service = OWNER, digest_algorithm = Sha256,
        digest_hex = concat (replicate 31 ''07'') @ ''02'', media_type = ''m'', length_bytes = 2\<rparr>"
    by code_simp
  have "request_bytes (?qs ! 0) = ''ab''"
    by code_simp
  then show ?thesis
    using stored_artifacts_are_retained [OF inv, of ?qs, OF surjective_pairing _ fst] by simp
qed

end
