(* ===== verification/Admission.thy ===== *)
theory Admission
  imports Config BlobStore "HOL-Library.Multiset"
begin

text \<open>
  Admission control and retry timing of the safe fetcher, \<open>crates/safe-fetch/src/admission.rs\<close> and
  \<open>crates/safe-fetch/src/retry.rs\<close>, with the fetcher's error type.

  The state of the admission lives behind one mutex, so each operation is one atomic step on
  \<open>admission_state\<close>; an \<open>AdmissionGuard\<close> is the host whose slot it holds, and dropping it is
  \<open>release\<close>. Instants and durations are milliseconds. The wall clock, the response headers (a map
  from lower-case names to values that are valid text) and the HTTP date parser are arguments.
\<close>

section \<open>Errors of the fetcher\<close>

datatype safe_fetch_error =
    Client | Url url_error | AddressPolicy | FetchUnavailable | Transport | DnsFailed
  | RemoteStatus nat | RedirectLocation | RedirectLoop | RedirectLimit | TimeoutTotal
  | TimeoutFirstByte | TimeoutReadIdle | DeclaredBodyTooLarge | WireBodyTooLarge
  | DecodedBodyTooLarge | UnsupportedEncoding | MalformedEncoding | CacheIntegrity | Overloaded
  | Artifact blob_store_error

section \<open>Admission\<close>

record admission =
  global_limit :: nat
  per_host_limit :: nat
  min_interval :: nat

record admission_state =
  global :: nat
  per_host :: "string \<rightharpoonup> nat"
  next_allowed :: "string \<rightharpoonup> nat"

definition admission_new :: "fetch_config \<Rightarrow> admission" where
  "admission_new c = \<lparr>global_limit = fetch_global_concurrency c,
     per_host_limit = fetch_per_host_concurrency c, min_interval = fetch_per_host_min_interval_ms c\<rparr>"

definition empty_state :: admission_state where
  "empty_state = \<lparr>global = 0, per_host = Map.empty, next_allowed = Map.empty\<rparr>"

definition reserve :: "admission \<Rightarrow> nat \<Rightarrow> string \<Rightarrow> admission_state \<Rightarrow> nat \<times> admission_state" where
  "reserve a now host st =
     (if min_interval a = 0 then (now, st)
      else let slot = (case next_allowed st host of None \<Rightarrow> now | Some t \<Rightarrow> t);
               reserved = max slot now
           in (reserved, st\<lparr>next_allowed := (next_allowed st)(host \<mapsto> reserved + min_interval a)\<rparr>))"

definition try_enter ::
  "admission \<Rightarrow> nat \<Rightarrow> string \<Rightarrow> admission_state
   \<Rightarrow> (safe_fetch_error, string \<times> nat) res \<times> admission_state" where
  "try_enter a now host st0 =
     (let (start_at, st) = reserve a now host st0;
          host_count = (case per_host st host of Some n \<Rightarrow> n | None \<Rightarrow> 0)
      in if global st \<ge> global_limit a \<or> host_count \<ge> per_host_limit a then (Err Overloaded, st)
         else (Ok (host, start_at),
               st\<lparr>global := sat_add usize_max (global st) 1,
                  per_host := (per_host st)(host \<mapsto> sat_add usize_max host_count 1)\<rparr>))"

definition release :: "string \<Rightarrow> admission_state \<Rightarrow> admission_state" where
  "release host st =
     (let st = st\<lparr>global := global st - 1\<rparr>
      in case per_host st host of
           None \<Rightarrow> st
         | Some n \<Rightarrow>
             if n - 1 = 0 then st\<lparr>per_host := (per_host st)(host := None)\<rparr>
             else st\<lparr>per_host := (per_host st)(host \<mapsto> n - 1)\<rparr>)"

section \<open>Retries\<close>

definition eligible :: "safe_fetch_error \<Rightarrow> bool" where
  "eligible e \<longleftrightarrow> e = Transport"

definition transient_status :: "nat \<Rightarrow> bool" where
  "transient_status status \<longleftrightarrow> status \<in> {408, 429, 500, 502, 503, 504}"

type_synonym headers = "string \<Rightarrow> string option"

definition retry_after_at :: "(string \<Rightarrow> nat option) \<Rightarrow> headers \<Rightarrow> nat \<Rightarrow> nat option" where
  "retry_after_at parse_http_date hs now =
     (case hs ''retry-after'' of
        None \<Rightarrow> None
      | Some raw \<Rightarrow>
          (let value = trim raw
           in case parse_unsigned u64_max value of
                Some seconds \<Rightarrow> Some (seconds * 1000)
              | None \<Rightarrow> map_option (\<lambda>target. target - now) (parse_http_date value)))"

text \<open>The jitter of a retry is computed in 64-bit arithmetic that wraps around.\<close>

definition delay :: "nat \<Rightarrow> 32 word \<Rightarrow> nat option \<Rightarrow> nat" where
  "delay retry_index seed retry_after =
     (let shift = min retry_index 6;
          ceiling_ms = sat_mul u64_max 100 (2 ^ shift);
          mixed = (ucast seed :: 64 word) * 6364136223846793005 + 1442695040888963407;
          jitter = unat mixed mod sat_add u64_max ceiling_ms 1
      in case retry_after of None \<Rightarrow> jitter | Some minimum \<Rightarrow> max minimum jitter)"

text \<open>\<open>timeout_at(deadline, sleep(delay))\<close>: the instant at which it returns, and its result.\<close>

definition sleep_before_deadline :: "nat \<Rightarrow> nat \<Rightarrow> nat \<Rightarrow> (safe_fetch_error, unit) res \<times> nat" where
  "sleep_before_deadline deadline d now =
     (if now + d \<le> deadline then (Ok (), now + d) else (Err TimeoutTotal, max now deadline))"

section \<open>The contract of a slot limiter\<close>

text \<open>\<open>holds s M\<close>: in state \<open>s\<close> exactly the slots \<open>M\<close> are taken. A limiter admits a host exactly when
  both limits have room, never exceeds them, and gives back what is released.\<close>

locale slot_limiter =
  fixes enter :: "'t \<Rightarrow> 'h \<Rightarrow> 's \<Rightarrow> bool \<times> 's"
    and leave :: "'h \<Rightarrow> 's \<Rightarrow> 's"
    and holds :: "'s \<Rightarrow> 'h multiset \<Rightarrow> bool"
    and total :: nat
    and share :: nat
  assumes enter_iff: "holds s M \<Longrightarrow> fst (enter t h s) \<longleftrightarrow> size M < total \<and> count M h < share"
    and enter_admits: "holds s M \<Longrightarrow> fst (enter t h s) \<Longrightarrow> holds (snd (enter t h s)) (add_mset h M)"
    and enter_refuses: "holds s M \<Longrightarrow> \<not> fst (enter t h s) \<Longrightarrow> holds (snd (enter t h s)) M"
    and leave_releases: "holds s (add_mset h M) \<Longrightarrow> holds (leave h s) M"
begin

lemma round_trip: "holds s M \<Longrightarrow> fst (enter t h s) \<Longrightarrow> holds (leave h (snd (enter t h s))) M"
  by (rule leave_releases, rule enter_admits)

text \<open>Moving a slot from one host to another, as a redirect does: the old one is released first.\<close>

lemma move_slot:
  assumes "holds s (add_mset h M)"
  shows "if fst (enter t h' (leave h s)) then holds (snd (enter t h' (leave h s))) (add_mset h' M)
         else holds (snd (enter t h' (leave h s))) M"
  using enter_admits enter_refuses leave_releases [OF assms] by simp

definition within_limits :: "'h multiset \<Rightarrow> bool" where
  "within_limits M \<longleftrightarrow> size M \<le> total \<and> (\<forall>h. count M h \<le> share)"

lemma enter_within: "holds s M \<Longrightarrow> within_limits M \<Longrightarrow> fst (enter t h s) \<Longrightarrow> within_limits (add_mset h M)"
  using enter_iff [of s M t h] by (auto simp: within_limits_def)

lemma leave_within: "within_limits (add_mset h M) \<Longrightarrow> within_limits M"
  unfolding within_limits_def by (simp split: if_splits) (metis Suc_leD)

end

section \<open>The admission is a slot limiter\<close>

definition slots_held :: "admission \<Rightarrow> admission_state \<Rightarrow> string multiset \<Rightarrow> bool" where
  "slots_held a st M \<longleftrightarrow>
     global_limit a \<le> usize_max \<and> global st = size M
     \<and> per_host st = (\<lambda>h. if count M h = 0 then None else Some (count M h))"

lemma reserve_keeps [simp]:
  "global (snd (reserve a now h st)) = global st"
  "per_host (snd (reserve a now h st)) = per_host st"
  by (simp_all add: reserve_def Let_def)

lemma try_enter_unfold:
  "try_enter a now h st =
     (let start_at = fst (reserve a now h st); st' = snd (reserve a now h st);
          n = (case per_host st h of Some n \<Rightarrow> n | None \<Rightarrow> 0)
      in if global st \<ge> global_limit a \<or> n \<ge> per_host_limit a then (Err Overloaded, st')
         else (Ok (h, start_at),
               st'\<lparr>global := sat_add usize_max (global st) 1,
                   per_host := (per_host st)(h \<mapsto> sat_add usize_max n 1)\<rparr>))"
  by (simp add: try_enter_def Let_def split: prod.split) (metis fst_conv snd_conv reserve_keeps)

definition enter_slot :: "admission \<Rightarrow> nat \<Rightarrow> string \<Rightarrow> admission_state \<Rightarrow> bool \<times> admission_state" where
  "enter_slot a now h st = (is_ok (fst (try_enter a now h st)), snd (try_enter a now h st))"

lemma held_count:
  "slots_held a st M \<Longrightarrow> (case per_host st h of Some n \<Rightarrow> n | None \<Rightarrow> 0) = count M h"
  by (simp add: slots_held_def)

interpretation slots: slot_limiter "enter_slot a" release "slots_held a" "global_limit a"
  "per_host_limit a" for a
proof (standard, goal_cases)
  case (1 s M t h)
  then show ?case
    by (auto simp: enter_slot_def try_enter_unfold Let_def held_count) (auto simp: slots_held_def)
next
  case (2 s M t h)
  then have room: "size M < global_limit a" "count M h < per_host_limit a"
    by (auto simp: enter_slot_def try_enter_unfold Let_def held_count slots_held_def split: if_splits)
  moreover have "count M h \<le> size M"
    by (rule count_le_size)
  ultimately have "sat_add usize_max (size M) 1 = Suc (size M)"
    "sat_add usize_max (count M h) 1 = Suc (count M h)"
    using 2 by (auto simp: slots_held_def intro!: sat_add_exact [THEN trans])
  with 2 room show ?case
    by (simp add: enter_slot_def try_enter_unfold Let_def held_count)
      (auto simp: slots_held_def fun_eq_iff count_eq_zero_iff)
next
  case (3 s M t h)
  then show ?case
    by (auto simp: enter_slot_def try_enter_unfold Let_def slots_held_def split: if_splits)
next
  case (4 s h M)
  then show ?case
    by (auto simp: release_def slots_held_def Let_def fun_eq_iff count_eq_zero_iff)
qed

section \<open>Properties\<close>

text \<open>Every interleaving of admissions and releases by any number of concurrent fetches: the state,
  the slots that are held, and the hosts and start instants that were granted, oldest first.\<close>

inductive admission_run :: "admission \<Rightarrow> admission_state \<Rightarrow> string multiset \<Rightarrow> (string \<times> nat) list \<Rightarrow> bool"
  for a where
  run_empty: "admission_run a empty_state {#} []"
| run_enter: "admission_run a st M log \<Longrightarrow> try_enter a now h st = (Ok (g, start), st') \<Longrightarrow>
    admission_run a st' (add_mset g M) (log @ [(h, start)])"
| run_refused: "admission_run a st M log \<Longrightarrow> try_enter a now h st = (Err e, st') \<Longrightarrow>
    admission_run a st' M log"
| run_drop: "admission_run a st (add_mset g M) log \<Longrightarrow> admission_run a (release g st) M log"

lemma enter_slot_Ok:
  "try_enter a now h st = (Ok (g, start), st') \<Longrightarrow>
   enter_slot a now h st = (True, st') \<and> g = h \<and> start = fst (reserve a now h st)
   \<and> next_allowed st' = next_allowed (snd (reserve a now h st))"
  by (auto simp: enter_slot_def try_enter_unfold Let_def split: if_splits)

lemma enter_slot_Err:
  "try_enter a now h st = (Err e, st') \<Longrightarrow>
   enter_slot a now h st = (False, st') \<and> e = Overloaded \<and> st' = snd (reserve a now h st)"
  by (auto simp: enter_slot_def try_enter_unfold Let_def split: if_splits)

text \<open>C25. Concurrency limits hold under every interleaving, and the counters never drift. In every
  state that admissions and releases of any number of fetches can reach, the global counter is the
  number of slots held and the table has for every host exactly its number of slots (and no entry for
  an idle host); at most \<open>global_limit\<close> slots are held, at most \<open>per_host_limit\<close> for one host; and the
  next admission is refused exactly when one of the limits is reached.\<close>

theorem admission_limits:
  assumes "admission_run a st M log" and "global_limit a \<le> usize_max"
  shows "global st = size M \<and> size M \<le> global_limit a
    \<and> per_host st = (\<lambda>h. if count M h = 0 then None else Some (count M h))
    \<and> (\<forall>h. count M h \<le> per_host_limit a)
    \<and> (\<forall>now h. fst (try_enter a now h st) = Err Overloaded \<longleftrightarrow>
         size M = global_limit a \<or> count M h = per_host_limit a)"
proof -
  have "slots_held a st M \<and> slots.within_limits a M"
    using assms
  proof (induction rule: admission_run.induct)
    case run_empty
    then show ?case by (simp add: slots_held_def empty_state_def slots.within_limits_def)
  next
    case (run_enter st M log now h g start st')
    then show ?case
      using slots.enter_admits [of a st M now h] slots.enter_within [of a st M now h]
      by (auto dest!: enter_slot_Ok)
  next
    case (run_refused st M log now h e st')
    then show ?case
      using slots.enter_refuses [of a st M now h] by (auto dest!: enter_slot_Err)
  next
    case (run_drop st g M log)
    then show ?case
      using slots.leave_releases [of a st g M] slots.leave_within [of a g M] by blast
  qed
  then have held: "slots_held a st M" and within: "slots.within_limits a M" by auto
  have "fst (try_enter a now h st) = Err Overloaded \<longleftrightarrow>
      size M = global_limit a \<or> count M h = per_host_limit a" for now h
    using slots.enter_iff [OF held, of now h] within
    by (auto simp: enter_slot_def try_enter_unfold Let_def slots.within_limits_def split: if_splits)
      (meson le_antisym not_less)+
  with held within show ?thesis
    by (simp add: slots_held_def slots.within_limits_def)
qed

definition sample_admission :: admission where
  "sample_admission = \<lparr>global_limit = 2, per_host_limit = 1, min_interval = 50\<rparr>"

lemma sample_run:
  "admission_run sample_admission
     (snd (try_enter sample_admission 10 ''b'' (snd (try_enter sample_admission 7 ''a'' empty_state))))
     {#''a'', ''b''#} [(''a'', 7), (''b'', 10)]"
proof -
  have e1: "try_enter sample_admission 7 ''a'' empty_state =
      (Ok (''a'', 7), snd (try_enter sample_admission 7 ''a'' empty_state))"
    by (simp add: try_enter_unfold reserve_def sample_admission_def empty_state_def Let_def)
  have e2: "try_enter sample_admission 10 ''b'' (snd (try_enter sample_admission 7 ''a'' empty_state)) =
      (Ok (''b'', 10), snd (try_enter sample_admission 10 ''b'' (snd (try_enter sample_admission 7 ''a'' empty_state))))"
    by (simp add: try_enter_unfold reserve_def sample_admission_def empty_state_def Let_def
        sat_add_def usize_max_def)
  from run_enter [OF run_enter [OF run_empty e1] e2] show ?thesis
    by (simp add: add_mset_commute)
qed

theorem admission_limits_witness:
  "fst (try_enter sample_admission 99 ''c''
      (snd (try_enter sample_admission 10 ''b'' (snd (try_enter sample_admission 7 ''a'' empty_state))))) =
     Err Overloaded"
  using admission_limits [OF sample_run] by (simp add: sample_admission_def usize_max_def)

text \<open>Pacing. When a minimum interval is configured, any two requests to one host that are granted a
  start, however admissions of other hosts, refusals and releases interleave, have start instants at
  least that interval apart, in the order they were granted.\<close>

theorem admission_pacing:
  assumes "admission_run a st M log" and "min_interval a \<noteq> 0"
    and "i < j" and "j < length log" and "fst (log ! i) = fst (log ! j)"
  shows "snd (log ! i) + min_interval a \<le> snd (log ! j)"
proof -
  have "(\<forall>(h, t)\<in>set log. \<exists>n. next_allowed st h = Some n \<and> t + min_interval a \<le> n)
    \<and> sorted_wrt (\<lambda>(h, t) (h', t'). h = h' \<longrightarrow> t + min_interval a \<le> t') log"
    using assms(1,2)
  proof (induction rule: admission_run.induct)
    case (run_enter st M log now h g start st')
    then show ?case
      by (fastforce simp: sorted_wrt_append reserve_def Let_def dest!: enter_slot_Ok
          split: option.splits)
  next
    case (run_refused st M log now h e st')
    then show ?case
      by (fastforce simp: reserve_def Let_def dest!: enter_slot_Err split: option.splits)
  next
    case (run_drop st g M log)
    then show ?case
      by (auto simp: release_def Let_def split: option.splits)
  qed simp_all
  then have "sorted_wrt (\<lambda>(h, t) (h', t'). h = h' \<longrightarrow> t + min_interval a \<le> t') log" ..
  from sorted_wrt_nth_less [OF this assms(3,4)] assms(5) show ?thesis
    by (simp add: case_prod_beta)
qed

theorem admission_pacing_witness:
  "\<exists>st M log. admission_run sample_admission st M log \<and> length log = 2
     \<and> snd (log ! 0) + 50 \<le> snd (log ! 1)"
proof -
  let ?s1 = "snd (try_enter sample_admission 7 ''a'' empty_state)"
  have e1: "try_enter sample_admission 7 ''a'' empty_state = (Ok (''a'', 7), ?s1)"
    by (simp add: try_enter_unfold reserve_def sample_admission_def empty_state_def Let_def)
  have e2: "try_enter sample_admission 8 ''a'' (release ''a'' ?s1) =
      (Ok (''a'', 57), snd (try_enter sample_admission 8 ''a'' (release ''a'' ?s1)))"
    by (simp add: try_enter_unfold reserve_def sample_admission_def empty_state_def Let_def
        sat_add_def usize_max_def release_def)
  have run: "admission_run sample_admission
      (snd (try_enter sample_admission 8 ''a'' (release ''a'' ?s1))) {#''a''#} [(''a'', 7), (''a'', 57)]"
    using run_enter [OF run_drop [OF run_enter [OF run_empty e1]] e2] by simp
  have "snd ([(''a'', 7), (''a'', 57 :: nat)] ! 0) + min_interval sample_admission \<le> snd ([(''a'', 7), (''a'', 57)] ! 1)"
    by (rule admission_pacing [OF run]) (simp_all add: sample_admission_def)
  with run show ?thesis by (force simp: sample_admission_def)
qed

text \<open>Retry delays are bounded and honour the server. The jitter of the \<open>i\<close>-th retry never exceeds
  100 ms times two to the \<open>i\<close>, capped at 6400 ms, for every seed (the 64-bit arithmetic may wrap); a
  \<open>Retry-After\<close> value is a lower bound of the delay, and the delay is never longer than the larger of
  the two.\<close>

theorem delay_bounds:
  "delay i seed None \<le> 100 * 2 ^ min i 6 \<and> delay i seed None \<le> 6400
   \<and> delay i seed (Some m) = max m (delay i seed None)"
proof -
  have p: "(2 :: nat) ^ min i 6 \<le> 2 ^ 6"
    by (rule power_increasing) simp_all
  then have c: "sat_mul u64_max 100 (2 ^ min i 6) = 100 * 2 ^ min i 6"
    "sat_add u64_max (100 * 2 ^ min i 6) 1 = Suc (100 * 2 ^ min i 6)"
    by (simp_all add: sat_mul_def sat_add_def u64_max_def)
  have "delay i seed None \<le> 100 * 2 ^ min i 6"
    unfolding delay_def Let_def c by (simp add: mod_Suc_le_divisor)
  with p show ?thesis by (simp add: delay_def Let_def)
qed

end
