(* ===== verification/SafeFetch.thy ===== *)
theory SafeFetch
  imports Admission
begin

text \<open>
  Safe retrieval, \<open>crates/safe-fetch/src/lib.rs\<close>: the bounded redirect and retry loop, the response
  limits, cache revalidation and the storing of the decoded body.

  What happens outside the process is the record \<open>net\<close>: the DNS answer and the HTTP answer of every
  attempt with the time each takes, and the wall clock. A response carries, for each content
  encoding, what reading its body through that decoder does (\<open>read_step\<close>: the chunks of the wire
  stream the decoder pulls during one \<open>read\<close> call, how long the call waits, and what it returns); the
  list may be of any length. Time is a clock in milliseconds in the state \<open>world\<close>, which also holds
  the admission, the artifact files and a ghost trace of every request that was handed to the HTTP
  client with the DNS answer that was checked before. A future that is dropped at the total deadline
  leaves the file system that \<open>interrupted\<close> says.
\<close>

section \<open>Data\<close>

record cache_record =
  cr_artifact :: blob_ref
  cr_etag :: "string option"
  cr_last_modified :: "string option"
  cr_cache_control :: "string option"

record fetch_request =
  req_url :: string
  prior :: "cache_record option"

definition request_new :: "string \<Rightarrow> fetch_request" where
  "request_new url = \<lparr>req_url = url, prior = None\<rparr>"

datatype cache_outcome = Fresh | Revalidated

record 'u fetch_metadata =
  original_url :: 'u
  normalized_url :: 'u
  redirects :: "'u list"
  declared_media_type :: "string option"
  effective_media_type :: string
  content_encoding :: "string option"
  etag :: "string option"
  last_modified :: "string option"
  cache_control :: "string option"
  attempts :: nat
  total_duration :: nat
  cache_outcome :: cache_outcome

record 'u fetch_result =
  artifact :: blob_ref
  final_url :: 'u
  status :: nat
  wire_bytes :: nat
  decoded_bytes :: nat
  result_media_type :: string
  metadata :: "'u fetch_metadata"

datatype encoding = Identity | Gzip | Brotli | Zstd

datatype read_failure = Idle | Malformed

datatype read_outcome = ReadBytes string | ReadFailed

record read_step =
  pulled :: "(unit, string) res list"
  wait_ms :: nat
  outcome :: read_outcome

record 'u response =
  resp_status :: nat
  resp_headers :: headers
  resp_url :: 'u
  resp_reads :: "encoding \<Rightarrow> read_step list"
  resp_io :: io_faults
  resp_uuid :: string
  resp_body_ms :: nat

record 'u response_context =
  ctx_original_url :: 'u
  ctx_normalized_url :: 'u
  ctx_redirects :: "'u list"
  ctx_attempts :: nat
  ctx_started :: nat

record 'u sent_request =
  sr_url :: 'u
  sr_if_none_match :: "string option"
  sr_if_modified_since :: "string option"

text \<open>The environment: what the \<open>k\<close>-th attempt meets, and how long it takes.\<close>

record 'u net =
  dns :: "nat \<Rightarrow> string \<Rightarrow> (unit, socket_addr list) res"
  dns_ms :: "nat \<Rightarrow> nat"
  send :: "nat \<Rightarrow> 'u sent_request \<Rightarrow> (unit, 'u response) res"
  send_ms :: "nat \<Rightarrow> nat"
  wall :: "nat \<Rightarrow> nat"
  parse_http_date :: "string \<Rightarrow> nat option"
  header_value_ok :: "string \<Rightarrow> bool"
  interrupted :: "fs \<Rightarrow> fs"

text \<open>The fetcher: its configuration and store, the libraries it calls, and whether it has its
  validating resolver (the test constructors leave it out).\<close>

record 'u fetcher =
  config :: fetch_config
  blob_store :: blob_store
  blob_env :: store_env
  url_lib :: "'u url_api"
  has_resolver :: bool

record 'u world =
  clock :: nat
  adm :: admission_state
  files :: fs
  sent :: "('u \<times> (unit, socket_addr list) res option) list"

section \<open>Small helpers\<close>

definition content_encoding_of :: "headers \<Rightarrow> (safe_fetch_error, encoding) res" where
  "content_encoding_of hs =
     (case map_option (\<lambda>v. to_ascii_lowercase (trim v)) (hs ''content-encoding'') of
        None \<Rightarrow> Ok Identity
      | Some v \<Rightarrow>
          if v = [] \<or> v = ''identity'' then Ok Identity
          else if v = ''gzip'' then Ok Gzip
          else if v = ''br'' then Ok Brotli
          else if v = ''zstd'' then Ok Zstd
          else Err UnsupportedEncoding)"

definition response_header :: "headers \<Rightarrow> string \<Rightarrow> string option" where
  "response_header hs name = hs name"

definition valid_header_value :: "'u net \<Rightarrow> string option \<Rightarrow> string option" where
  "valid_header_value n v = (case v of None \<Rightarrow> None | Some t \<Rightarrow> if header_value_ok n t then Some t else None)"

definition read_decoded :: "nat \<Rightarrow> read_step \<Rightarrow> (read_failure, string) res" where
  "read_decoded idle_timeout r =
     (if wait_ms r > idle_timeout then Err Idle
      else case outcome r of ReadBytes b \<Rightarrow> Ok b | ReadFailed \<Rightarrow> Err Malformed)"

definition is_ascii_whitespace :: "char \<Rightarrow> bool" where
  "is_ascii_whitespace c \<longleftrightarrow> byte_of c \<in> {9, 10, 12, 13, 32}"

definition effective_media_type_of :: "string \<Rightarrow> string \<Rightarrow> string" where
  "effective_media_type_of declared prefix =
     (let trimmed = dropWhile is_ascii_whitespace prefix
      in if starts_with ''%PDF-'' prefix then ''application/pdf''
         else if starts_with ''<!DOCTYPE html'' trimmed \<or> starts_with ''<!doctype html'' trimmed
                 \<or> starts_with ''<html'' trimmed then ''text/html''
         else declared)"

definition declared_media_type_of :: "headers \<Rightarrow> string" where
  "declared_media_type_of hs =
     (let declared = (case hs ''content-type'' of
            None \<Rightarrow> None
          | Some v \<Rightarrow> (let t = trim (hd (split_on (\<lambda>c. c = CHR '';'') v))
                       in if t = [] then None else Some t))
      in case declared of
           Some v \<Rightarrow> to_ascii_lowercase v
         | None \<Rightarrow> ''application/octet-stream'')"

definition resolve_before_send ::
  "'u url_api \<Rightarrow> (string \<Rightarrow> (unit, socket_addr list) res) \<Rightarrow> nat \<Rightarrow> 'u \<Rightarrow> nat \<Rightarrow> nat
   \<Rightarrow> (safe_fetch_error, unit) res \<times> nat" where
  "resolve_before_send api lookup ms url deadline now =
     (case u_host_str api url of
        None \<Rightarrow> (Err (Url MissingHost), now)
      | Some host \<Rightarrow>
          if now + ms \<le> deadline
          then ((case resolve_host lookup host of
                   Inr _ \<Rightarrow> Ok ()
                 | Inl (Policy _) \<Rightarrow> Err AddressPolicy
                 | Inl _ \<Rightarrow> Err DnsFailed), now + ms)
          else (Err TimeoutTotal, max now deadline))"

definition validate_literal :: "'u url_api \<Rightarrow> 'u normalized_url \<Rightarrow> (safe_fetch_error, unit) res" where
  "validate_literal api url =
     (case u_host api (normalized url) of
        Some (Ipv4 a) \<Rightarrow> map_err (\<lambda>_. AddressPolicy) (validate_address (V4 a))
      | Some (Ipv6 a) \<Rightarrow> map_err (\<lambda>_. AddressPolicy) (validate_address (V6 a))
      | _ \<Rightarrow> Ok ())"

definition origin :: "'u url_api \<Rightarrow> 'u normalized_url \<Rightarrow> string \<times> 16 word option" where
  "origin api url =
     ((case u_host_str api (normalized url) of None \<Rightarrow> [] | Some h \<Rightarrow> h),
      u_port_or_known_default api (normalized url))"

definition is_redirect :: "nat \<Rightarrow> bool" where
  "is_redirect s \<longleftrightarrow> s \<in> {301, 302, 303, 307, 308}"

definition is_success :: "nat \<Rightarrow> bool" where
  "is_success s \<longleftrightarrow> 200 \<le> s \<and> s < 300"

definition routing_policy_of :: "'u fetcher \<Rightarrow> routing_policy" where
  "routing_policy_of f =
     \<lparr>max_url_length = fetch_max_url_length (config f), allowed_ports = fetch_allowed_ports (config f)\<rparr>"

section \<open>Storing a response\<close>

text \<open>The counters and flags that the stream closures share.\<close>

record body_flags =
  wire_total :: nat
  wire_limit_hit :: bool
  decoded_limit_hit :: bool
  malformed_encoding :: bool
  idle_timeout_hit :: bool

text \<open>One item of the wire stream: \<open>fetch_add\<close> wraps around, the limit test does not.\<close>

definition meter_item :: "nat \<Rightarrow> (unit, string) res \<Rightarrow> body_flags \<Rightarrow> body_flags" where
  "meter_item max_wire item fl =
     (case item of
        Inl _ \<Rightarrow> fl
      | Inr chunk \<Rightarrow>
          (let previous = wire_total fl;
               fl = fl\<lparr>wire_total := (previous + length chunk) mod (u64_max + 1)\<rparr>
           in case checked_add u64_max previous (length chunk) of
                None \<Rightarrow> fl\<lparr>wire_limit_hit := True\<rparr>
              | Some seen \<Rightarrow> if seen > max_wire then fl\<lparr>wire_limit_hit := True\<rparr> else fl))"

definition meter :: "nat \<Rightarrow> read_step \<Rightarrow> body_flags \<Rightarrow> body_flags" where
  "meter max_wire r fl = fold (meter_item max_wire) (pulled r) fl"

text \<open>The decoded stream after the first read, poll by poll: the item (\<open>None\<close> at the end) and the
  flags after the poll.\<close>

fun rest_polls ::
  "fetch_config \<Rightarrow> read_step list \<Rightarrow> nat \<Rightarrow> body_flags \<Rightarrow> ((unit, string) res option \<times> body_flags) list"
where
  "rest_polls c [] decoded fl = [(None, fl)]"
| "rest_polls c (r # rs) decoded fl0 =
     (let fl = meter (fetch_max_wire_bytes c) r fl0
      in case read_decoded (fetch_read_idle_timeout_ms c) r of
           Inl Idle \<Rightarrow> [(Some (Inl ()), fl\<lparr>idle_timeout_hit := True\<rparr>)]
         | Inl Malformed \<Rightarrow> [(Some (Inl ()), fl\<lparr>malformed_encoding := True\<rparr>)]
         | Inr b \<Rightarrow>
             if b = [] then [(None, fl)]
             else (case checked_add u64_max decoded (length b) of
                     None \<Rightarrow> [(Some (Inl ()), fl\<lparr>decoded_limit_hit := True\<rparr>)]
                   | Some decoded' \<Rightarrow>
                       if decoded' > fetch_max_decoded_bytes c
                       then [(Some (Inl ()), fl\<lparr>decoded_limit_hit := True\<rparr>)]
                       else (Some (Inr b), fl) # rest_polls c rs decoded' fl))"

definition initial_flags :: body_flags where
  "initial_flags = \<lparr>wire_total = 0, wire_limit_hit = False, decoded_limit_hit = False,
     malformed_encoding = False, idle_timeout_hit = False\<rparr>"

definition first_read :: "fetch_config \<Rightarrow> read_step list \<Rightarrow> (read_failure, string) res \<times> body_flags" where
  "first_read c reads =
     (case reads of
        [] \<Rightarrow> (Ok [], initial_flags)
      | r # _ \<Rightarrow> (read_decoded (fetch_read_idle_timeout_ms c) r, meter (fetch_max_wire_bytes c) r initial_flags))"

definition store_failure :: "body_flags \<Rightarrow> blob_store_error \<Rightarrow> safe_fetch_error" where
  "store_failure fl e =
     (if wire_limit_hit fl then WireBodyTooLarge
      else if decoded_limit_hit fl then DecodedBodyTooLarge
      else if malformed_encoding fl then MalformedEncoding
      else if idle_timeout_hit fl then TimeoutReadIdle
      else Artifact e)"

definition flags_after :: "body_flags \<Rightarrow> ('a \<times> body_flags) list \<Rightarrow> nat \<Rightarrow> body_flags" where
  "flags_after fl polls n = (if n = 0 then fl else snd (polls ! (n - 1)))"

definition poll_items :: "('a option \<times> 'b) list \<Rightarrow> 'a list" where
  "poll_items polls = List.map_filter fst polls"

definition declared_too_large :: "fetch_config \<Rightarrow> headers \<Rightarrow> bool" where
  "declared_too_large c hs =
     (case hs ''content-length'' of
        None \<Rightarrow> False
      | Some v \<Rightarrow>
          (case parse_unsigned u64_max v of
             None \<Rightarrow> False
           | Some n \<Rightarrow> n > fetch_max_wire_bytes c))"

definition store_response ::
  "'u fetcher \<Rightarrow> 'u response \<Rightarrow> 'u response_context \<Rightarrow> nat \<Rightarrow> fs
   \<Rightarrow> (safe_fetch_error, 'u fetch_result) res \<times> fs" where
  "store_response f resp ctx now fs =
     (let c = config f; hs = resp_headers resp in
      if declared_too_large c hs then (Err DeclaredBodyTooLarge, fs)
      else case content_encoding_of hs of
        Inl e \<Rightarrow> (Err e, fs)
      | Inr enc \<Rightarrow>
     (case try_from usize_max (min (fetch_max_decoded_bytes c) 511 + 1) of
        None \<Rightarrow> (Err DecodedBodyTooLarge, fs)
      | Some _ \<Rightarrow>
     (let (first, fl) = first_read c (resp_reads resp enc) in
      if wire_limit_hit fl then (Err WireBodyTooLarge, fs)
      else case first of
        Inl Idle \<Rightarrow> (Err TimeoutReadIdle, fs)
      | Inl Malformed \<Rightarrow> (Err MalformedEncoding, fs)
      | Inr prefix \<Rightarrow>
          if length prefix > fetch_max_decoded_bytes c then (Err DecodedBodyTooLarge, fs)
          else
            (let mt = effective_media_type_of (declared_media_type_of hs) prefix;
                 polls = (Some (Inr prefix), fl)
                         # rest_polls c (tl (resp_reads resp enc)) (length prefix) fl;
                 items = poll_items polls;
                 (stored, fs') = store (blob_env f) (resp_io resp) (blob_store f) (resp_uuid resp) mt items fs;
                 fl' = flags_after fl polls
                         (store_polls (blob_env f) (resp_io resp) (blob_store f) (resp_uuid resp) mt items fs)
             in case stored of
                  Inl e \<Rightarrow> (Err (store_failure fl' e), fs')
                | Inr a \<Rightarrow>
                    (Ok \<lparr>artifact = a, final_url = resp_url resp, status = resp_status resp,
                         wire_bytes = wire_total fl', decoded_bytes = length_bytes a,
                         result_media_type = mt,
                         metadata = \<lparr>original_url = ctx_original_url ctx,
                           normalized_url = ctx_normalized_url ctx, redirects = ctx_redirects ctx,
                           declared_media_type = response_header hs ''content-type'',
                           effective_media_type = mt,
                           content_encoding = response_header hs ''content-encoding'',
                           etag = response_header hs ''etag'',
                           last_modified = response_header hs ''last-modified'',
                           cache_control = response_header hs ''cache-control'',
                           attempts = ctx_attempts ctx, total_duration = now - ctx_started ctx,
                           cache_outcome = Fresh\<rparr>\<rparr>, fs')))))"

definition or_else :: "'a option \<Rightarrow> 'a option \<Rightarrow> 'a option" where
  "or_else x y = (case x of None \<Rightarrow> y | Some v \<Rightarrow> Some v)"

definition reuse_prior ::
  "'u fetcher \<Rightarrow> 'u response \<Rightarrow> 'u response_context \<Rightarrow> cache_record \<Rightarrow> nat \<Rightarrow> fs
   \<Rightarrow> (safe_fetch_error, 'u fetch_result) res" where
  "reuse_prior f resp ctx p now fs =
     (case verify (blob_env f) (resp_io resp) (blob_store f) (cr_artifact p) fs of
        Inl _ \<Rightarrow> Err CacheIntegrity
      | Inr _ \<Rightarrow>
          (let hs = resp_headers resp; a = cr_artifact p; mt = media_type a
           in Ok \<lparr>artifact = a, final_url = resp_url resp, status = resp_status resp, wire_bytes = 0,
                  decoded_bytes = length_bytes a, result_media_type = mt,
                  metadata = \<lparr>original_url = ctx_original_url ctx,
                    normalized_url = ctx_normalized_url ctx, redirects = ctx_redirects ctx,
                    declared_media_type = None, effective_media_type = mt, content_encoding = None,
                    etag = or_else (response_header hs ''etag'') (cr_etag p),
                    last_modified = or_else (response_header hs ''last-modified'') (cr_last_modified p),
                    cache_control = or_else (response_header hs ''cache-control'') (cr_cache_control p),
                    attempts = ctx_attempts ctx, total_duration = now - ctx_started ctx,
                    cache_outcome = Revalidated\<rparr>\<rparr>))"


section \<open>Attempts and hops\<close>

text \<open>One pass of the inner loop up to the first byte: the DNS check, then the request. \<open>Inl\<close> is a
  failure that ends the fetch; a transport failure is \<open>Inr None\<close>.\<close>

definition attempt_once ::
  "'u net \<Rightarrow> 'u fetcher \<Rightarrow> cache_record option \<Rightarrow> nat \<Rightarrow> 'u \<Rightarrow> nat \<Rightarrow> 'u world
   \<Rightarrow> (safe_fetch_error, 'u response option) res \<times> 'u world" where
  "attempt_once n f cache deadline url k w =
     (let (checked, t) = (if has_resolver f
            then resolve_before_send (url_lib f) (dns n k) (dns_ms n k) url deadline (clock w)
            else (Ok (), clock w));
          w = w\<lparr>clock := t\<rparr>
      in case checked of
        Inl e \<Rightarrow> (Err e, w)
      | Inr _ \<Rightarrow>
          (let request = \<lparr>sr_url = url,
                 sr_if_none_match = (case cache of None \<Rightarrow> None | Some c \<Rightarrow> valid_header_value n (cr_etag c)),
                 sr_if_modified_since =
                   (case cache of None \<Rightarrow> None | Some c \<Rightarrow> valid_header_value n (cr_last_modified c))\<rparr>;
               answer = (if has_resolver f
                 then map_option (dns n k) (u_host_str (url_lib f) url) else None);
               w = w\<lparr>sent := sent w @ [(url, answer)]\<rparr>;
               first_byte_deadline = min deadline (clock w + fetch_first_byte_timeout_ms (config f));
               finished = clock w + send_ms n k
           in if finished \<le> first_byte_deadline
              then (Ok (case send n k request of Inl _ \<Rightarrow> None | Inr resp \<Rightarrow> Some resp),
                    w\<lparr>clock := finished\<rparr>)
              else (Err (if first_byte_deadline = deadline then TimeoutTotal else TimeoutFirstByte),
                    w\<lparr>clock := max (clock w) first_byte_deadline\<rparr>)))"

lemma u16_bound: "unat (x :: 16 word) \<le> u16_max"
  using unsigned_less [where w = x and 'a = nat] by (simp add: u16_max_def)

lemma sat_u16_step: "r < unat (x :: 16 word) \<Longrightarrow> sat_add u16_max r (Suc 0) = Suc r"
  using u16_bound [of x] by (simp add: sat_add_def)

text \<open>The inner loop. It returns the response together with the retry and attempt counters.\<close>

function attempt_loop ::
  "'u net \<Rightarrow> 'u fetcher \<Rightarrow> cache_record option \<Rightarrow> nat \<Rightarrow> 'u \<Rightarrow> nat \<Rightarrow> nat \<Rightarrow> 'u world
   \<Rightarrow> (safe_fetch_error, 'u response \<times> nat \<times> nat) res \<times> 'u world" where
  "attempt_loop n f cache deadline url retries attempts0 w0 =
     (let k = sat_add u32_max attempts0 1;
          (result, w) = attempt_once n f cache deadline url k w0;
          max_retries = unat (fetch_max_retries (config f))
      in case result of
        Inl e \<Rightarrow> (Err e, w)
      | Inr None \<Rightarrow>
          if eligible Transport \<and> retries < max_retries
          then (case sleep_before_deadline deadline (delay retries (of_nat k) None) (clock w) of
                  (Inl e, t) \<Rightarrow> (Err e, w\<lparr>clock := t\<rparr>)
                | (Inr _, t) \<Rightarrow>
                    attempt_loop n f cache deadline url (sat_add u16_max retries 1) k (w\<lparr>clock := t\<rparr>))
          else (Err Transport, w)
      | Inr (Some resp) \<Rightarrow>
          if transient_status (resp_status resp) \<and> retries < max_retries
          then (case sleep_before_deadline deadline
                       (delay retries (of_nat k)
                          (retry_after_at (parse_http_date n) (resp_headers resp) (wall n (clock w))))
                       (clock w) of
                  (Inl e, t) \<Rightarrow> (Err e, w\<lparr>clock := t\<rparr>)
                | (Inr _, t) \<Rightarrow>
                    attempt_loop n f cache deadline url (sat_add u16_max retries 1) k (w\<lparr>clock := t\<rparr>))
          else (Ok (resp, retries, k), w))"
  by pat_completeness auto

termination
  by (relation "measure (\<lambda>(n, f, _, _, _, retries, _). unat (fetch_max_retries (config f)) - retries)")
    (auto simp: sat_u16_step)

declare attempt_loop.simps [simp del]

text \<open>The target of a redirect: the next URL and its host.\<close>

definition redirect_target ::
  "'u fetcher \<Rightarrow> (string \<times> 16 word option) option \<Rightarrow> 'u \<Rightarrow> 'u response
   \<Rightarrow> (safe_fetch_error, 'u normalized_url \<times> string) res" where
  "redirect_target f trusted_test_origin url resp =
     rbind (ok_or RedirectLocation (resp_headers resp ''location'')) (\<lambda>location.
     rbind (ok_or RedirectLocation (u_join (url_lib f) url location)) (\<lambda>next.
     rbind (map_err Url (normalize (url_lib f) (sha256 (blob_env f)) (u_as_str (url_lib f) next)
                           (routing_policy_of f))) (\<lambda>nu.
     rbind (if trusted_test_origin \<noteq> Some (origin (url_lib f) nu)
            then validate_literal (url_lib f) nu else Ok ()) (\<lambda>_.
     rbind (ok_or (Url MissingHost) (u_host_str (url_lib f) (normalized nu)))
       (\<lambda>host. Ok (nu, host))))))"

text \<open>\<open>within_total_deadline\<close> around the last phase.\<close>

definition within_total_deadline ::
  "'u net \<Rightarrow> nat \<Rightarrow> nat \<Rightarrow> (nat \<Rightarrow> fs \<Rightarrow> (safe_fetch_error, 'a) res \<times> fs) \<Rightarrow> 'u world
   \<Rightarrow> (safe_fetch_error, 'a) res \<times> 'u world" where
  "within_total_deadline n deadline ms phase w =
     (if clock w + ms \<le> deadline
      then (case phase (clock w + ms) (files w) of
              (r, fs') \<Rightarrow> (r, w\<lparr>clock := clock w + ms, files := fs'\<rparr>))
      else (Err TimeoutTotal, w\<lparr>clock := max (clock w) deadline, files := interrupted n (files w)\<rparr>))"

text \<open>A response that is not a redirect.\<close>

definition conclude ::
  "'u net \<Rightarrow> 'u fetcher \<Rightarrow> cache_record option \<Rightarrow> nat \<Rightarrow> 'u response_context \<Rightarrow> 'u response \<Rightarrow> 'u world
   \<Rightarrow> (safe_fetch_error, 'u fetch_result) res \<times> 'u world" where
  "conclude n f cache deadline ctx resp w =
     (if resp_status resp = 304
      then (case cache of
              None \<Rightarrow> (Err CacheIntegrity, w)
            | Some c \<Rightarrow>
                within_total_deadline n deadline (resp_body_ms resp)
                  (\<lambda>now fs. (reuse_prior f resp ctx c now fs, fs)) w)
      else if \<not> is_success (resp_status resp) then (Err (RemoteStatus (resp_status resp)), w)
      else within_total_deadline n deadline (resp_body_ms resp) (store_response f resp ctx) w)"

definition leaving :: "string \<Rightarrow> 'a \<times> 'u world \<Rightarrow> 'a \<times> 'u world" where
  "leaving host rw = (case rw of (r, w) \<Rightarrow> (r, w\<lparr>adm := release host (adm w)\<rparr>))"

text \<open>The loop over hops. The guard of the current host is dropped on every return; on a redirect it
  is dropped before the next host is entered, whose reserved start is not awaited.\<close>

function hop_loop ::
  "'u net \<Rightarrow> 'u fetcher \<Rightarrow> cache_record option \<Rightarrow> (string \<times> 16 word option) option \<Rightarrow> nat
   \<Rightarrow> 'u response_context \<Rightarrow> nat \<Rightarrow> 'u \<Rightarrow> string \<Rightarrow> string list \<Rightarrow> nat \<Rightarrow> nat \<Rightarrow> 'u world
   \<Rightarrow> (safe_fetch_error, 'u fetch_result) res \<times> 'u world" where
  "hop_loop n f cache trusted deadline ctx hop url host visited retries tries w0 =
     (if hop > unat (fetch_max_redirects (config f))
      then leaving host (Err RedirectLimit, w0)
      else case attempt_loop n f cache deadline url retries tries w0 of
        (Inl e, w) \<Rightarrow> leaving host (Err e, w)
      | (Inr (resp, retries', tries'), w) \<Rightarrow>
          if is_redirect (resp_status resp)
          then if hop = unat (fetch_max_redirects (config f)) then leaving host (Err RedirectLimit, w)
               else (case redirect_target f trusted url resp of
                  Inl e \<Rightarrow> leaving host (Err e, w)
                | Inr (nu, host') \<Rightarrow>
                    (let url' = normalized nu;
                         (entered, st) = try_enter (admission_new (config f)) (clock w) host'
                                           (release host (adm w));
                         w = w\<lparr>adm := st\<rparr>
                     in case entered of
                          Inl e \<Rightarrow> (Err e, w)
                        | Inr _ \<Rightarrow>
                            if u_as_str (url_lib f) url' \<in> set visited
                            then leaving host' (Err RedirectLoop, w)
                            else hop_loop n f cache trusted deadline
                                   (ctx\<lparr>ctx_redirects := ctx_redirects ctx @ [url']\<rparr>) (Suc hop) url' host'
                                   (u_as_str (url_lib f) url' # visited) retries' tries' w))
          else leaving host (conclude n f cache deadline (ctx\<lparr>ctx_attempts := tries'\<rparr>) resp w))"
  by pat_completeness auto
termination
  by (relation "measure (\<lambda>(n, f, _, _, _, _, hop, _). Suc (unat (fetch_max_redirects (config f))) - hop)")
    auto

declare hop_loop.simps [simp del]

definition fetch_inner ::
  "'u net \<Rightarrow> 'u fetcher \<Rightarrow> fetch_request \<Rightarrow> bool \<Rightarrow> 'u world
   \<Rightarrow> (safe_fetch_error, 'u fetch_result) res \<times> 'u world" where
  "fetch_inner n f request enforce_literal_policy w =
     (let api = url_lib f; started = clock w;
          deadline = started + fetch_total_timeout_ms (config f) in
      case normalize api (sha256 (blob_env f)) (req_url request) (routing_policy_of f) of
        Inl e \<Rightarrow> (Err (Url e), w)
      | Inr nu \<Rightarrow>
     (case u_parse api (original nu) of
        None \<Rightarrow> (Err (Url Invalid), w)
      | Some orig \<Rightarrow>
     (let trusted = (if enforce_literal_policy then None else Some (origin api nu)) in
      case (if enforce_literal_policy then validate_literal api nu else Ok ()) of
        Inl e \<Rightarrow> (Err e, w)
      | Inr _ \<Rightarrow>
     (case u_host_str api (normalized nu) of
        None \<Rightarrow> (Err (Url MissingHost), w)
      | Some host \<Rightarrow>
     (case try_enter (admission_new (config f)) (clock w) host (adm w) of
        (Inl e, st) \<Rightarrow> (Err e, w\<lparr>adm := st\<rparr>)
      | (Inr (_, start_at), st) \<Rightarrow>
          (let w = w\<lparr>adm := st\<rparr>;
               ctx = \<lparr>ctx_original_url = orig, ctx_normalized_url = normalized nu,
                      ctx_redirects = [], ctx_attempts = 0, ctx_started = started\<rparr>;
               go = hop_loop n f (prior request) trusted deadline ctx 0 (normalized nu)
                      host [u_as_str api (normalized nu)] 0 0
           in if start_at > started
              then if start_at \<ge> deadline then leaving host (Err TimeoutTotal, w)
                   else go (w\<lparr>clock := start_at\<rparr>)
              else go w))))))"

definition fetch_url ::
  "'u net \<Rightarrow> 'u fetcher \<Rightarrow> fetch_request \<Rightarrow> 'u world
   \<Rightarrow> (safe_fetch_error, 'u fetch_result) res \<times> 'u world" where
  "fetch_url n f request w = fetch_inner n f request True w"

section \<open>Invariants of the loops\<close>

lemma attempt_once_effect:
  assumes "attempt_once n f cache deadline url k w = (r, w')"
  shows "adm w' = adm w" "files w' = files w"
    and "clock w \<le> clock w'" "clock w \<le> deadline \<Longrightarrow> clock w' \<le> deadline"
    and "sent w' = sent w \<or>
      (\<exists>a. sent w' = sent w @ [(url, a)]
         \<and> (has_resolver f \<longrightarrow> (\<exists>h as. u_host_str (url_lib f) url = Some h \<and> a = Some (dns n k h)
              \<and> resolve_host (dns n k) h = Ok as)))"
    and "length (sent w') \<le> Suc (length (sent w))"
  using assms
  by (auto simp: attempt_once_def resolve_before_send_def Let_def
      split: if_splits option.splits sum.splits resolution_error.splits)

lemma sleep_effect:
  assumes "sleep_before_deadline deadline d now = (r, t)"
  shows "now \<le> t" "now \<le> deadline \<Longrightarrow> t \<le> deadline"
  using assms by (auto simp: sleep_before_deadline_def split: if_splits)

text \<open>What one pass of the inner loop can lead to.\<close>

lemma attempt_loop_cases:
  assumes "attempt_loop n f cache deadline url retries tries w = (r, w')"
  obtains (fatal) e where "attempt_once n f cache deadline url (sat_add u32_max tries 1) w = (Err e, w')"
      "r = Err e"
  | (transport) "attempt_once n f cache deadline url (sat_add u32_max tries 1) w = (Ok None, w')"
      "r = Err Transport"
  | (answered) resp where
      "attempt_once n f cache deadline url (sat_add u32_max tries 1) w = (Ok (Some resp), w')"
      "r = Ok (resp, retries, sat_add u32_max tries 1)"
  | (deadline) res w1 d t e where
      "attempt_once n f cache deadline url (sat_add u32_max tries 1) w = (Ok res, w1)"
      "sleep_before_deadline deadline d (clock w1) = (Err e, t)" "r = Err e" "w' = w1\<lparr>clock := t\<rparr>"
  | (again) res w1 d t where
      "attempt_once n f cache deadline url (sat_add u32_max tries 1) w = (Ok res, w1)"
      "retries < unat (fetch_max_retries (config f))"
      "sleep_before_deadline deadline d (clock w1) = (Ok (), t)"
      "attempt_loop n f cache deadline url (Suc retries) (sat_add u32_max tries 1) (w1\<lparr>clock := t\<rparr>) = (r, w')"
proof -
  define k where "k = sat_add u32_max tries 1"
  obtain o1 w1 where a: "attempt_once n f cache deadline url k w = (o1, w1)" by fastforce
  note step = assms [unfolded attempt_loop.simps [of n f cache deadline url retries tries w],
      folded k_def, unfolded Let_def a prod.case]
  note a' = a [unfolded k_def]
  show thesis
  proof (cases o1)
    case (Inl e)
    with step have "r = Err e" "w' = w1" by simp_all
    with a' Inl show thesis by (intro fatal [of e]) simp_all
  next
    case o1: (Inr res)
    show thesis
    proof (cases "\<exists>d. retries < unat (fetch_max_retries (config f))
        \<and> (case sleep_before_deadline deadline d (clock w1) of
            (Inl e, t) \<Rightarrow> (Err e, w1\<lparr>clock := t\<rparr>)
          | (Inr _, t) \<Rightarrow> attempt_loop n f cache deadline url (sat_add u16_max retries 1) k (w1\<lparr>clock := t\<rparr>))
          = (r, w')")
      case True
      then obtain d where more: "retries < unat (fetch_max_retries (config f))"
        and d: "(case sleep_before_deadline deadline d (clock w1) of
            (Inl e, t) \<Rightarrow> (Err e, w1\<lparr>clock := t\<rparr>)
          | (Inr _, t) \<Rightarrow> attempt_loop n f cache deadline url (sat_add u16_max retries 1) k (w1\<lparr>clock := t\<rparr>))
          = (r, w')"
        by blast
      obtain s t where s: "sleep_before_deadline deadline d (clock w1) = (s, t)" by fastforce
      show thesis
      proof (cases s)
        case (Inl e)
        with d s have "r = Err e" "w' = w1\<lparr>clock := t\<rparr>" by simp_all
        with a' o1 s Inl show thesis by (intro deadline [of res w1 d e t]) simp_all
      next
        case (Inr u)
        with d s more have "attempt_loop n f cache deadline url (Suc retries) k (w1\<lparr>clock := t\<rparr>) = (r, w')"
          by (simp add: sat_u16_step)
        with a' o1 s Inr more show thesis
          by (intro again [of res w1 d t]) (simp_all add: k_def)
      qed
    next
      case False
      show thesis
      proof (cases res)
        case None
        with step o1 False have "r = Err Transport" "w' = w1"
          by (auto split: if_splits)
        with a' o1 None show thesis by (intro transport) simp_all
      next
        case (Some resp)
        with step o1 False have "r = Ok (resp, retries, k)" "w' = w1"
          by (auto split: if_splits)
        with a' o1 Some show thesis by (intro answered [of resp]) (simp_all add: k_def)
      qed
    qed
  qed
qed

text \<open>A rule for properties of the state that single attempts and waiting keep.\<close>

lemma attempt_loop_invariant:
  assumes attempt: "\<And>k w r w'. Q w \<Longrightarrow> attempt_once n f cache deadline url k w = (r, w') \<Longrightarrow> Q w'"
    and sleep: "\<And>w d r t. Q w \<Longrightarrow> sleep_before_deadline deadline d (clock w) = (r, t) \<Longrightarrow> Q (w\<lparr>clock := t\<rparr>)"
  shows "Q w \<Longrightarrow> attempt_loop n f cache deadline url retries tries w = (r, w') \<Longrightarrow> Q w'"
proof (induction "unat (fetch_max_retries (config f)) - retries" arbitrary: retries tries w rule: less_induct)
  case less
  from less.prems(2) show ?case
  proof (cases rule: attempt_loop_cases)
    case (again res w1 d t)
    have "Q (w1\<lparr>clock := t\<rparr>)"
      using attempt [OF less.prems(1) again(1)] again(3) by (rule sleep)
    from less.hyps [OF _ this again(4)] again(2) show ?thesis by linarith
  next
    case (deadline res w1 d t e)
    then show ?thesis using attempt [OF less.prems(1) deadline(1)] sleep by blast
  qed (use attempt less.prems(1) in blast)+
qed

lemma attempt_loop_counts:
  assumes "attempt_loop n f cache deadline url retries tries w = (r, w')"
    and "retries \<le> unat (fetch_max_retries (config f))"
  shows "length (sent w') \<le> length (sent w) + 1 + (unat (fetch_max_retries (config f)) - retries)
    \<and> (\<forall>resp retries' tries'. r = Ok (resp, retries', tries') \<longrightarrow>
         retries \<le> retries' \<and> retries' \<le> unat (fetch_max_retries (config f))
         \<and> length (sent w') \<le> length (sent w) + 1 + (retries' - retries))"
  using assms
proof (induction "unat (fetch_max_retries (config f)) - retries" arbitrary: retries tries w rule: less_induct)
  case less
  from less.prems(1) show ?case
  proof (cases rule: attempt_loop_cases)
    case (again res w1 d t)
    from less.hyps [OF _ again(4)] again(2) attempt_once_effect(6) [OF again(1)] show ?thesis
      by fastforce
  qed (use attempt_once_effect(6) less.prems(2) in fastforce)+
qed

text \<open>What one hop can lead to.\<close>

lemma hop_loop_cases:
  assumes "hop_loop n f cache trusted deadline ctx hop url host visited retries tries w = (r, w')"
    and "hop \<le> unat (fetch_max_redirects (config f))"
  obtains (failed) x w1 e where "attempt_loop n f cache deadline url retries tries w = (x, w1)" "r = Err e"
      "w' = w1\<lparr>adm := release host (adm w1)\<rparr>"
  | (refused) x w1 resp nu host' e st where "attempt_loop n f cache deadline url retries tries w = (x, w1)"
      "redirect_target f trusted url resp = Ok (nu, host')"
      "try_enter (admission_new (config f)) (clock w1) host' (release host (adm w1)) = (Err e, st)"
      "r = Err e" "w' = w1\<lparr>adm := st\<rparr>"
  | (looping) x w1 resp nu host' g st where "attempt_loop n f cache deadline url retries tries w = (x, w1)"
      "redirect_target f trusted url resp = Ok (nu, host')"
      "try_enter (admission_new (config f)) (clock w1) host' (release host (adm w1)) = (Ok g, st)"
      "r = Err RedirectLoop" "w' = w1\<lparr>adm := release host' st\<rparr>"
  | (hopping) resp retries' tries' w1 nu host' g st where
      "attempt_loop n f cache deadline url retries tries w = (Ok (resp, retries', tries'), w1)"
      "hop < unat (fetch_max_redirects (config f))"
      "redirect_target f trusted url resp = Ok (nu, host')"
      "try_enter (admission_new (config f)) (clock w1) host' (release host (adm w1)) = (Ok g, st)"
      "u_as_str (url_lib f) (normalized nu) \<notin> set visited"
      "hop_loop n f cache trusted deadline (ctx\<lparr>ctx_redirects := ctx_redirects ctx @ [normalized nu]\<rparr>)
         (Suc hop) (normalized nu) host' (u_as_str (url_lib f) (normalized nu) # visited) retries' tries'
         (w1\<lparr>adm := st\<rparr>) = (r, w')"
  | (concluded) resp retries' tries' w1 w2 where
      "attempt_loop n f cache deadline url retries tries w = (Ok (resp, retries', tries'), w1)"
      "conclude n f cache deadline (ctx\<lparr>ctx_attempts := tries'\<rparr>) resp w1 = (r, w2)"
      "w' = w2\<lparr>adm := release host (adm w2)\<rparr>"
proof -
  obtain x w1 where a: "attempt_loop n f cache deadline url retries tries w = (x, w1)" by fastforce
  note step = assms(1) [unfolded hop_loop.simps [of n f cache trusted deadline ctx hop]]
  show thesis
  proof (cases x)
    case (Inl e)
    with step a assms(2) show thesis
      by (intro failed [of x w1 e]) (simp_all add: leaving_def)
  next
    case x: (Inr y)
    obtain resp retries' tries' where y: "y = (resp, retries', tries')" by (cases y)
    show thesis
    proof (cases "is_redirect (resp_status resp)")
      case False
      obtain r2 w2 where "conclude n f cache deadline (ctx\<lparr>ctx_attempts := tries'\<rparr>) resp w1 = (r2, w2)"
        by fastforce
      with step a x y False assms(2) show thesis
        by (intro concluded [of resp retries' tries' w1 w2]) (simp_all add: leaving_def)
    next
      case redirect: True
      show thesis
      proof (cases "hop = unat (fetch_max_redirects (config f))")
        case True
        with step a x y redirect show thesis
          by (intro failed [of x w1 RedirectLimit]) (simp_all add: leaving_def)
      next
        case more: False
        show thesis
        proof (cases "redirect_target f trusted url resp")
          case (Inl e)
          with step a x y redirect more assms(2) show thesis
            by (intro failed [of x w1 e]) (simp_all add: leaving_def)
        next
          case (Inr z)
          obtain nu host' where z: "z = (nu, host')" by fastforce
          obtain en st where en: "try_enter (admission_new (config f)) (clock w1) host' (release host (adm w1)) = (en, st)"
            by fastforce
          show thesis
          proof (cases en)
            case (Inl e)
            with step a x y redirect more assms(2) \<open>redirect_target f trusted url resp = Inr z\<close> z en
            show thesis by (intro refused [of x w1 resp nu host' e st]) (simp_all add: Let_def)
          next
            case (Inr g)
            show thesis
            proof (cases "u_as_str (url_lib f) (normalized nu) \<in> set visited")
              case True
              with step a x y redirect more assms(2) \<open>redirect_target f trusted url resp = Inr z\<close> z en Inr
              show thesis
                by (intro looping [of x w1 resp nu host' g st]) (simp_all add: Let_def leaving_def)
            next
              case False
              with step a x y redirect more assms(2) \<open>redirect_target f trusted url resp = Inr z\<close> z en Inr
              show thesis
                by (intro hopping [of resp retries' tries' w1 nu host' g st]) (simp_all add: Let_def)
            qed
          qed
        qed
      qed
    qed
  qed
qed

text \<open>A rule for properties of the state that do not concern the admission: \<open>S\<close> holds of every URL
  the loop visits, \<open>Q\<close> of every state.\<close>

lemma hop_loop_invariant:
  assumes attempt: "\<And>url k w r w'. S url \<Longrightarrow> Q w \<Longrightarrow> attempt_once n f cache deadline url k w = (r, w') \<Longrightarrow> Q w'"
    and sleep: "\<And>w d r t. Q w \<Longrightarrow> sleep_before_deadline deadline d (clock w) = (r, t) \<Longrightarrow> Q (w\<lparr>clock := t\<rparr>)"
    and slots: "\<And>w st. Q w \<Longrightarrow> Q (w\<lparr>adm := st\<rparr>)"
    and target: "\<And>url resp nu h. S url \<Longrightarrow> redirect_target f trusted url resp = Ok (nu, h) \<Longrightarrow> S (normalized nu)"
    and ending: "\<And>ctx resp w r w'. Q w \<Longrightarrow> conclude n f cache deadline ctx resp w = (r, w') \<Longrightarrow> Q w'"
  shows "S url \<Longrightarrow> Q w \<Longrightarrow> hop \<le> unat (fetch_max_redirects (config f)) \<Longrightarrow>
    hop_loop n f cache trusted deadline ctx hop url host visited retries tries w = (r, w') \<Longrightarrow> Q w'"
proof (induction "unat (fetch_max_redirects (config f)) - hop"
    arbitrary: hop ctx url host visited retries tries w rule: less_induct)
  case less
  have after: "Q w1" if "attempt_loop n f cache deadline url retries tries w = (x, w1)" for x w1
    by (rule attempt_loop_invariant [of Q n f cache deadline url, OF _ _ less.prems(2) that];
        (erule (1) attempt [OF less.prems(1)] | erule (1) sleep))
  from less.prems(4,3) show ?case
  proof (cases rule: hop_loop_cases)
    case (hopping resp retries' tries' w1 nu host' g st)
    have "S (normalized nu)" by (rule target [OF less.prems(1) hopping(3)])
    from less.hyps [OF _ this slots [OF after [OF hopping(1)]] _ hopping(6)] hopping(2) show ?thesis
      by linarith
  next
    case (concluded resp retries' tries' w1 w2)
    then show ?thesis using after ending slots by blast
  qed (use after slots in blast)+
qed


lemma conclude_effect:
  assumes "conclude n f cache deadline ctx resp w = (r, w')"
  shows "sent w' = sent w" "adm w' = adm w" "clock w \<le> clock w'"
    and "clock w \<le> deadline \<Longrightarrow> clock w' \<le> deadline"
  using assms
  by (auto simp: conclude_def within_total_deadline_def split: if_splits option.splits prod.splits)

section \<open>Properties of the loop\<close>

text \<open>A URL that may be requested: it came out of normalization under the fetcher's policy, and if its
  host is an address literal, the destination policy accepts the address.\<close>

definition sendable :: "'u fetcher \<Rightarrow> 'u \<Rightarrow> bool" where
  "sendable f url \<longleftrightarrow>
     (\<exists>input nu. normalize (url_lib f) (sha256 (blob_env f)) input (routing_policy_of f) = Ok nu
        \<and> normalized nu = url \<and> validate_literal (url_lib f) nu = Ok ())"

definition checked_request :: "'u fetcher \<Rightarrow> 'u \<times> (unit, socket_addr list) res option \<Rightarrow> bool" where
  "checked_request f e \<longleftrightarrow>
     sendable f (fst e)
     \<and> (has_resolver f \<longrightarrow>
          (\<exists>as. snd e = Some (Ok as) \<and> as \<noteq> [] \<and> list_all (\<lambda>a. validate_address (fst a) = Ok ()) as))"

lemma redirect_target_sendable:
  "redirect_target f None url resp = Ok (nu, h) \<Longrightarrow> sendable f (normalized nu)"
  by (auto simp: redirect_target_def sendable_def split: if_splits)

lemma fetch_inner_cases:
  assumes "fetch_inner n f request True w = (r, w')"
  obtains (refused) e st where "r = Err e" "w' = w\<lparr>adm := st\<rparr>" 
     "st = adm w \<or> (\<exists>h. try_enter (admission_new (config f)) (clock w) h (adm w) = (Err e, st))
        \<or> (\<exists>h g st1. try_enter (admission_new (config f)) (clock w) h (adm w) = (Ok g, st1) \<and> st = release h st1)"
  | (entered) nu orig host g start st t where
      "normalize (url_lib f) (sha256 (blob_env f)) (req_url request) (routing_policy_of f) = Ok nu"
      "u_parse (url_lib f) (original nu) = Some orig"
      "validate_literal (url_lib f) nu = Ok ()" "u_host_str (url_lib f) (normalized nu) = Some host"
      "try_enter (admission_new (config f)) (clock w) host (adm w) = (Ok (g, start), st)"
      "clock w \<le> t" "t = clock w \<or> t < clock w + fetch_total_timeout_ms (config f)"
      "hop_loop n f (prior request) None (clock w + fetch_total_timeout_ms (config f))
         \<lparr>ctx_original_url = orig, ctx_normalized_url = normalized nu, ctx_redirects = [],
          ctx_attempts = 0, ctx_started = clock w\<rparr>
         0 (normalized nu) host [u_as_str (url_lib f) (normalized nu)] 0 0
         (w\<lparr>adm := st, clock := t\<rparr>) = (r, w')"
proof (cases "normalize (url_lib f) (sha256 (blob_env f)) (req_url request) (routing_policy_of f)")
  case (Inl e)
  with assms show thesis by (intro refused [of "Url e" "adm w"]) (auto simp: fetch_inner_def Let_def)
next
  case nu: (Inr nu)
  show thesis
  proof (cases "u_parse (url_lib f) (original nu)")
    case None
    with nu assms show thesis
      by (intro refused [of "Url Invalid" "adm w"]) (auto simp: fetch_inner_def Let_def)
  next
    case orig: (Some orig)
    show thesis
    proof (cases "validate_literal (url_lib f) nu")
      case (Inl e)
      with nu orig assms show thesis
        by (intro refused [of e "adm w"]) (auto simp: fetch_inner_def Let_def)
    next
      case lit: (Inr u)
      show thesis
      proof (cases "u_host_str (url_lib f) (normalized nu)")
        case None
        with nu orig lit assms show thesis
          by (intro refused [of "Url MissingHost" "adm w"]) (auto simp: fetch_inner_def Let_def)
      next
        case host: (Some host)
        obtain en st where en: "try_enter (admission_new (config f)) (clock w) host (adm w) = (en, st)" by fastforce
        show thesis
        proof (cases en)
          case (Inl e)
          with nu orig lit host en assms show thesis
            by (intro refused [of e st]) (auto simp: fetch_inner_def Let_def)
        next
          case (Inr gs)
          obtain g start where gs: "gs = (g, start)" by fastforce
          note facts = nu orig lit host en Inr gs assms
          consider (late) "start > clock w" "start \<ge> clock w + fetch_total_timeout_ms (config f)"
            | (wait) "start > clock w" "start < clock w + fetch_total_timeout_ms (config f)"
            | (now) "start \<le> clock w"
            by linarith
          then show thesis
          proof cases
            case late
            have "\<exists>h g' st1. try_enter (admission_new (config f)) (clock w) h (adm w) = (Ok g', st1)
                \<and> release host st = release h st1"
              using en Inr by blast
            with late facts show thesis
              by (intro refused [of TimeoutTotal "release host st"])
                (simp_all add: fetch_inner_def Let_def leaving_def)
          next
            case wait
            with facts show thesis
              by (intro entered [of nu orig host g start st start]) (simp_all add: fetch_inner_def Let_def)
          next
            case now
            with facts show thesis
              by (intro entered [of nu orig host g start st "clock w"]) (simp_all add: fetch_inner_def Let_def)
          qed
        qed
      qed
    qed
  qed
qed

text \<open>The rule for whole fetches: \<open>D\<close> is the total deadline.\<close>

lemma fetch_invariant:
  assumes run: "fetch_url n f request w = (r, w')"
    and D: "D = clock w + fetch_total_timeout_ms (config f)"
    and start: "Q w"
    and attempt: "\<And>url k w r w'. sendable f url \<Longrightarrow> Q w \<Longrightarrow>
      attempt_once n f (prior request) D url k w = (r, w') \<Longrightarrow> Q w'"
    and tick: "\<And>w t. Q w \<Longrightarrow> clock w \<le> t \<Longrightarrow> (clock w \<le> D \<Longrightarrow> t \<le> D) \<Longrightarrow> Q (w\<lparr>clock := t\<rparr>)"
    and slots: "\<And>w st. Q w \<Longrightarrow> Q (w\<lparr>adm := st\<rparr>)"
    and ending: "\<And>ctx resp w r w'. Q w \<Longrightarrow> conclude n f (prior request) D ctx resp w = (r, w') \<Longrightarrow> Q w'"
  shows "Q w'"
  using run unfolding fetch_url_def
proof (cases rule: fetch_inner_cases)
  case (refused e st)
  then show ?thesis using slots [OF start] by simp
next
  case (entered nu orig host g start_at st t)
  have S: "sendable f (normalized nu)"
    using entered by (auto simp: sendable_def)
  have Q: "Q (w\<lparr>adm := st, clock := t\<rparr>)"
    using entered(6,7) D tick [OF slots [OF start, of st], of t] by auto
  show ?thesis
    by (rule hop_loop_invariant [where S = "sendable f" and Q = Q, OF _ _ _ _ _ S Q _ entered(8) [folded D]];
        (erule (2) attempt | erule slots | erule (1) ending | simp)?)
      (auto intro: tick redirect_target_sendable dest: sleep_effect)
qed

lemma new_requests_step:
  assumes "\<exists>new. sent w = old @ new \<and> list_all (checked_request f) new" and "sendable f url"
    and "attempt_once n f cache D url k w = (r, w')"
  shows "\<exists>new. sent w' = old @ new \<and> list_all (checked_request f) new"
proof -
  obtain new where new: "sent w = old @ new" "list_all (checked_request f) new"
    using assms(1) by blast
  from attempt_once_effect(5) [OF assms(3)] show ?thesis
  proof (elim disjE exE conjE)
    fix a assume a: "sent w' = sent w @ [(url, a)]" and dns: "has_resolver f \<longrightarrow>
        (\<exists>h as. u_host_str (url_lib f) url = Some h \<and> a = Some (dns n k h) \<and> resolve_host (dns n k) h = Ok as)"
    have "checked_request f (url, a)"
      using dns assms(2) by (auto simp: checked_request_def resolve_host_Ok)
    with a new show ?thesis by (intro exI [of _ "new @ [(url, a)]"]) simp
  qed (use new in auto)
qed

text \<open>C26. No unchecked request leaves the process. Whatever DNS, the servers, the redirects and the clock
  do, every request a fetch hands to the HTTP client is for a URL that passed normalization under the
  fetcher's policy (scheme, credentials, port, canonical numeric host) and, when its host is an
  address literal, the destination policy; and with the resolver present the DNS answer obtained just
  before for its host was non-empty and contained no prohibited address.\<close>

theorem every_request_is_checked:
  assumes "fetch_url n f request w = (r, w')"
  shows "\<exists>new. sent w' = sent w @ new \<and> list_all (checked_request f) new"
  by (rule fetch_invariant [where Q = "\<lambda>v. \<exists>new. sent v = sent w @ new \<and> list_all (checked_request f) new",
        OF assms refl])
    (auto intro: new_requests_step dest: conclude_effect(1))

lemma fetch_clock:
  assumes "fetch_url n f request w = (r, w')"
  shows "clock w \<le> clock w' \<and> clock w' \<le> clock w + fetch_total_timeout_ms (config f)"
  by (rule fetch_invariant [where Q = "\<lambda>v. clock w \<le> clock v
        \<and> clock v \<le> clock w + fetch_total_timeout_ms (config f)", OF assms refl])
    (auto dest: attempt_once_effect(3,4) conclude_effect(3,4) intro: order.trans)

text \<open>C27. The total deadline is never exceeded: a fetch returns at most \<open>total_timeout_ms\<close> after it
  started, with a result or an error, however long DNS, connections, retries and bodies would take.\<close>

theorem fetch_meets_total_deadline:
  assumes "fetch_url n f request w = (r, w')"
  shows "clock w \<le> clock w' \<and> clock w' \<le> clock w + fetch_total_timeout_ms (config f)"
  using assms by (rule fetch_clock)

lemma hop_loop_counts:
  "hop_loop n f cache trusted deadline ctx hop url host visited retries tries w = (r, w') \<Longrightarrow>
   hop \<le> unat (fetch_max_redirects (config f)) \<Longrightarrow> retries \<le> unat (fetch_max_retries (config f)) \<Longrightarrow>
   length (sent w') \<le> length (sent w) + (unat (fetch_max_redirects (config f)) - hop) + 1
     + (unat (fetch_max_retries (config f)) - retries)"
proof (induction "unat (fetch_max_redirects (config f)) - hop"
    arbitrary: hop ctx url host visited retries tries w rule: less_induct)
  case less
  have att: "length (sent w1) \<le> length (sent w) + 1 + (unat (fetch_max_retries (config f)) - retries)"
    if "attempt_loop n f cache deadline url retries tries w = (x, w1)" for x w1
    using attempt_loop_counts [OF that less.prems(3)] by blast
  from less.prems(1,2) show ?case
  proof (cases rule: hop_loop_cases)
    case (failed x w1 e)
    with att show ?thesis by fastforce
  next
    case (refused x w1 resp nu host' e st)
    with att show ?thesis by fastforce
  next
    case (looping x w1 resp nu host' g st)
    with att show ?thesis by fastforce
  next
    case (hopping resp retries' tries' w1 nu host' g st)
    have c: "retries \<le> retries'" "retries' \<le> unat (fetch_max_retries (config f))"
      "length (sent w1) \<le> length (sent w) + 1 + (retries' - retries)"
      using attempt_loop_counts [OF hopping(1) less.prems(3)] by blast+
    have "length (sent w') \<le> length (sent w1) + (unat (fetch_max_redirects (config f)) - Suc hop) + 1
        + (unat (fetch_max_retries (config f)) - retries')"
      using less.hyps [OF _ hopping(6)] hopping(2) c(2) by auto
    with c hopping(2) show ?thesis by linarith
  next
    case (concluded resp retries' tries' w1 w2)
    with att [OF concluded(1)] conclude_effect(1) [OF concluded(2)] show ?thesis by simp
  qed
qed

text \<open>The number of requests is bounded: one fetch sends at most \<open>max_redirects + max_retries + 1\<close>
  requests, because the retry budget is shared by all hops and not renewed by a redirect.\<close>

theorem fetch_request_bound:
  assumes "fetch_url n f request w = (r, w')"
  shows "length (sent w') \<le> length (sent w) + unat (fetch_max_redirects (config f))
    + unat (fetch_max_retries (config f)) + 1"
  using assms unfolding fetch_url_def
proof (cases rule: fetch_inner_cases)
  case (entered nu orig host g start st t)
  from hop_loop_counts [OF entered(8)] show ?thesis by simp
qed simp

text \<open>Where a successful run of the hop loop ends.\<close>

lemma hop_loop_Ok:
  "hop_loop n f cache trusted deadline ctx hop url host visited retries tries w = (Ok res, w') \<Longrightarrow>
   hop \<le> unat (fetch_max_redirects (config f)) \<Longrightarrow> length (ctx_redirects ctx) = hop \<Longrightarrow>
   set visited = u_as_str (url_lib f) ` set (ctx_normalized_url ctx # ctx_redirects ctx) \<Longrightarrow>
   distinct (map (u_as_str (url_lib f)) (ctx_normalized_url ctx # ctx_redirects ctx)) \<Longrightarrow>
   \<exists>ctx' resp w1 w2. conclude n f cache deadline ctx' resp w1 = (Ok res, w2) \<and> files w1 = files w
     \<and> files w' = files w2 \<and> length (ctx_redirects ctx') \<le> unat (fetch_max_redirects (config f))
     \<and> distinct (map (u_as_str (url_lib f)) (ctx_normalized_url ctx # ctx_redirects ctx'))
     \<and> ctx_normalized_url ctx' = ctx_normalized_url ctx \<and> ctx_original_url ctx' = ctx_original_url ctx"
proof (induction "unat (fetch_max_redirects (config f)) - hop"
    arbitrary: hop ctx url host visited retries tries w rule: less_induct)
  case less
  have files: "files w1 = files w"
    if "attempt_loop n f cache deadline url retries tries w = (x, w1)" for x w1
    by (rule attempt_loop_invariant [where Q = "\<lambda>v. files v = files w", OF _ _ refl that])
      (auto dest: attempt_once_effect(2))
  from less.prems(1,2) show ?case
  proof (cases rule: hop_loop_cases)
    case (hopping resp retries' tries' w1 nu host' g st)
    let ?ctx = "ctx\<lparr>ctx_redirects := ctx_redirects ctx @ [normalized nu]\<rparr>"
    have "\<exists>ctx' resp w3 w2. conclude n f cache deadline ctx' resp w3 = (Ok res, w2)
       \<and> files w3 = files (w1\<lparr>adm := st\<rparr>)
       \<and> files w' = files w2 \<and> length (ctx_redirects ctx') \<le> unat (fetch_max_redirects (config f))
       \<and> distinct (map (u_as_str (url_lib f)) (ctx_normalized_url ?ctx # ctx_redirects ctx'))
       \<and> ctx_normalized_url ctx' = ctx_normalized_url ?ctx \<and> ctx_original_url ctx' = ctx_original_url ?ctx"
      by (rule less.hyps [OF _ hopping(6)]) (use hopping(2,5) less.prems(3,4,5) in auto)
    with files [OF hopping(1)] show ?thesis by simp
  next
    case (concluded resp retries' tries' w1 w2)
    with files [OF concluded(1)] less.prems show ?thesis by fastforce
  qed auto
qed

lemma conclude_Ok:
  assumes "conclude n f cache deadline ctx resp w = (Ok res, w')"
  obtains (fresh) now where "store_response f resp ctx now (files w) = (Ok res, files w')"
      "is_success (resp_status resp)" "resp_status resp \<noteq> 304"
  | (cached) c now where "cache = Some c" "reuse_prior f resp ctx c now (files w) = Ok res"
      "files w' = files w"
  using assms
  by (auto simp: conclude_def within_total_deadline_def split: if_splits option.splits prod.splits)

lemma store_response_redirects:
  "store_response f resp ctx now fs = (Ok res, fs') \<Longrightarrow>
   redirects (metadata res) = ctx_redirects ctx \<and> normalized_url (metadata res) = ctx_normalized_url ctx
   \<and> cache_outcome (metadata res) = Fresh"
  by (auto simp: store_response_def Let_def split: if_splits sum.splits option.splits prod.splits read_failure.splits)

lemma reuse_prior_Ok:
  "reuse_prior f resp ctx c now fs = Ok res \<Longrightarrow>
   redirects (metadata res) = ctx_redirects ctx \<and> normalized_url (metadata res) = ctx_normalized_url ctx
   \<and> cache_outcome (metadata res) = Revalidated \<and> artifact res = cr_artifact c
   \<and> (\<exists>p. verify (blob_env f) (resp_io resp) (blob_store f) (cr_artifact c) fs = Ok p)"
  by (auto simp: reuse_prior_def Let_def split: sum.splits)

lemma fetch_Ok:
  assumes "fetch_url n f request w = (Ok res, w')"
  obtains nu orig ctx' resp w1 w2 deadline where
    "normalize (url_lib f) (sha256 (blob_env f)) (req_url request) (routing_policy_of f) = Ok nu"
    "u_parse (url_lib f) (original nu) = Some orig"
    "conclude n f (prior request) deadline ctx' resp w1 = (Ok res, w2)" "files w1 = files w"
    "files w' = files w2" "length (ctx_redirects ctx') \<le> unat (fetch_max_redirects (config f))"
    "distinct (map (u_as_str (url_lib f)) (normalized nu # ctx_redirects ctx'))"
    "ctx_normalized_url ctx' = normalized nu" "ctx_original_url ctx' = orig"
  using assms unfolding fetch_url_def
proof (cases rule: fetch_inner_cases)
  case (entered nu orig host g start st t)
  from hop_loop_Ok [OF entered(8)] that entered(1,2) show ?thesis
    by fastforce
qed simp

text \<open>The redirect evidence of a successful fetch is sound: the final result names at most
  \<open>max_redirects\<close> redirect targets, all different from each other and from the normalized request
  URL, so a successful chain never revisits a page.\<close>

theorem fetch_redirects_bounded_and_distinct:
  assumes "fetch_url n f request w = (Ok res, w')"
  shows "length (redirects (metadata res)) \<le> unat (fetch_max_redirects (config f))
    \<and> distinct (map (u_as_str (url_lib f)) (normalized_url (metadata res) # redirects (metadata res)))
    \<and> (\<exists>nu. normalize (url_lib f) (sha256 (blob_env f)) (req_url request) (routing_policy_of f) = Ok nu
          \<and> normalized_url (metadata res) = normalized nu)"
  using assms
proof (cases rule: fetch_Ok)
  case (1 nu orig ctx' resp w1 w2 deadline)
  from 1(3) have "redirects (metadata res) = ctx_redirects ctx' \<and> normalized_url (metadata res) = normalized nu"
    using 1(8) by (cases rule: conclude_Ok) (auto dest: store_response_redirects reuse_prior_Ok)
  with 1 show ?thesis by simp
qed

text \<open>Cached bytes are reused only after verification: a fetch answers with \<open>Revalidated\<close> only when
  the request carried a prior artifact and that artifact was verified in the store (owner, algorithm,
  length and hash of the stored bytes), and then it returns exactly that artifact and leaves the files
  untouched.\<close>

theorem revalidated_artifact_is_verified:
  assumes "fetch_url n f request w = (Ok res, w')" and "cache_outcome (metadata res) = Revalidated"
  shows "files w' = files w
    \<and> (\<exists>c p b. prior request = Some c \<and> artifact res = cr_artifact c
         \<and> owner_service (artifact res) = owner (blob_store f)
         \<and> path_for_digest (blob_store f) (digest_hex (artifact res)) = Ok p
         \<and> files w' p = Some (RegFile b) \<and> length b = length_bytes (artifact res)
         \<and> hex_string (sha256 (blob_env f) b) = digest_hex (artifact res))"
  using assms(1)
proof (cases rule: fetch_Ok)
  case (1 nu orig ctx' resp w1 w2 deadline)
  from 1(3) show ?thesis
  proof (cases rule: conclude_Ok)
    case (fresh now)
    with assms(2) show ?thesis by (auto dest: store_response_redirects)
  next
    case (cached c now)
    note ok = reuse_prior_Ok [OF cached(2)]
    then obtain p where "verify (blob_env f) (resp_io resp) (blob_store f) (cr_artifact c) (files w1) = Ok p"
      by blast
    from verify_facts [OF this] ok cached 1 show ?thesis by auto
  qed
qed


section \<open>Properties of the body limits\<close>

text \<open>A law of the stream reader and the decoders: a \<open>read\<close> during which the wire stream yields the
  limit error reports an error. Checked along the reads of a body.\<close>

fun wire_errors_surface :: "fetch_config \<Rightarrow> read_step list \<Rightarrow> body_flags \<Rightarrow> bool" where
  "wire_errors_surface c [] fl = True"
| "wire_errors_surface c (r # rs) fl =
     (let fl' = meter (fetch_max_wire_bytes c) r fl
      in (wire_limit_hit fl' \<longrightarrow> outcome r = ReadFailed) \<and> wire_errors_surface c rs fl')"

text \<open>The bytes pulled from the wire in some reads.\<close>

definition wire_length :: "read_step list \<Rightarrow> nat" where
  "wire_length rs = length (concat (map (\<lambda>i. case i of Inl _ \<Rightarrow> [] | Inr c \<Rightarrow> c) (concat (map pulled rs))))"

lemma meter_item_Inl [simp]: "meter_item m (Inl u) fl = fl"
  by (simp add: meter_item_def)

lemma meter_items:
  assumes "\<not> wire_limit_hit (fold (meter_item m) items fl)" "wire_total fl \<le> m" "m \<le> u64_max"
  shows "wire_total (fold (meter_item m) items fl) = wire_total fl
      + length (concat (map (\<lambda>i. case i of Inl _ \<Rightarrow> [] | Inr c \<Rightarrow> c) items))
    \<and> wire_total (fold (meter_item m) items fl) \<le> m \<and> \<not> wire_limit_hit fl"
  using assms
proof (induction items arbitrary: fl)
  case (Cons i items)
  have mono: "wire_limit_hit fl' \<Longrightarrow> wire_limit_hit (fold (meter_item m) xs fl')" for xs fl'
    by (induction xs arbitrary: fl') (auto simp: meter_item_def Let_def split: sum.splits option.splits)
  have i: "\<not> wire_limit_hit (meter_item m i fl)"
    using Cons.prems(1) mono by auto
  show ?case
  proof (cases i)
    case (Inl u)
    with Cons.IH [of fl] Cons.prems show ?thesis by simp
  next
    case (Inr c)
    with i Cons.prems(3) have "wire_total fl + length c \<le> m" "\<not> wire_limit_hit fl"
      and eq: "wire_total (meter_item m i fl) = wire_total fl + length c"
      by (auto simp: meter_item_def Let_def split: option.splits if_splits)
    with Cons.IH [of "meter_item m i fl"] Cons.prems Inr show ?thesis by simp
  qed
qed simp

lemma meter_ok:
  assumes "\<not> wire_limit_hit (meter m r fl)" "wire_total fl \<le> m" "m \<le> u64_max"
  shows "wire_total (meter m r fl) = wire_total fl + wire_length [r]" "wire_total (meter m r fl) \<le> m"
  using meter_items [OF assms(1) [unfolded meter_def] assms(2,3)] by (simp_all add: meter_def wire_length_def)

lemma wire_length_Cons: "wire_length (r # rs) = wire_length [r] + wire_length rs"
  by (simp add: wire_length_def)

lemma poll_items_simps [simp]:
  "poll_items [] = []"
  "poll_items ((None, x) # ps) = poll_items ps"
  "poll_items ((Some i, x) # ps) = i # poll_items ps"
  by (simp_all add: poll_items_def map_filter_simps)

text \<open>A decoded stream without an error item: the decoded bytes stay within the limit, the stream was
  polled to its end, and the wire counter is exact and within its limit.\<close>

lemma rest_polls_ok:
  assumes "poll_items (rest_polls c rs decoded fl) = map Inr chunks"
    and "decoded \<le> fetch_max_decoded_bytes c"
    and "wire_errors_surface c rs fl" "\<not> wire_limit_hit fl" "wire_total fl \<le> fetch_max_wire_bytes c"
    and "fetch_max_wire_bytes c \<le> u64_max"
  shows "decoded + length (concat chunks) \<le> fetch_max_decoded_bytes c
    \<and> length (rest_polls c rs decoded fl) = Suc (length chunks)
    \<and> (\<exists>k. wire_total (snd (last (rest_polls c rs decoded fl))) = wire_total fl + wire_length (take k rs))
    \<and> wire_total (snd (last (rest_polls c rs decoded fl))) \<le> fetch_max_wire_bytes c"
  using assms
proof (induction rs arbitrary: decoded fl chunks)
  case Nil
  then show ?case by (auto intro: exI [of _ 0] simp: wire_length_def)
next
  case (Cons r rs)
  let ?fl = "meter (fetch_max_wire_bytes c) r fl"
  from Cons.prems(1) obtain b where b: "read_decoded (fetch_read_idle_timeout_ms c) r = Ok b"
    by (cases "read_decoded (fetch_read_idle_timeout_ms c) r")
      (auto simp: Let_def Cons_eq_map_conv split: read_failure.splits)
  then have "outcome r = ReadBytes b"
    by (auto simp: read_decoded_def split: if_splits read_outcome.splits)
  with Cons.prems(3) have hit: "\<not> wire_limit_hit ?fl" and surf: "wire_errors_surface c rs ?fl"
    by (auto simp: Let_def)
  note m = meter_ok [OF hit Cons.prems(5,6)]
  show ?case
  proof (cases "b = []")
    case True
    with Cons.prems b m show ?thesis
      by (auto simp: Let_def intro: exI [of _ 1])
  next
    case False
    with Cons.prems(1,2) b obtain chunks' where fit: "decoded + length b \<le> fetch_max_decoded_bytes c"
      and add: "checked_add u64_max decoded (length b) = Some (decoded + length b)"
      and ch: "chunks = b # chunks'"
      and rest: "poll_items (rest_polls c rs (decoded + length b) ?fl) = map Inr chunks'"
      by (auto simp: Let_def Cons_eq_map_conv split: option.splits if_splits)
    have eq: "rest_polls c (r # rs) decoded fl = (Some (Inr b), ?fl) # rest_polls c rs (decoded + length b) ?fl"
      using b False add fit by (simp add: Let_def checked_add_def)
    have ne: "rest_polls c rs (decoded + length b) ?fl \<noteq> []"
      by (cases rs) (auto simp: Let_def split: sum.splits option.splits read_failure.splits)
    from Cons.IH [OF rest fit surf hit m(2) Cons.prems(6)] obtain k where
      k: "wire_total (snd (last (rest_polls c rs (decoded + length b) ?fl))) = wire_total ?fl + wire_length (take k rs)"
      and more: "decoded + length b + length (concat chunks') \<le> fetch_max_decoded_bytes c"
      "length (rest_polls c rs (decoded + length b) ?fl) = Suc (length chunks')"
      "wire_total (snd (last (rest_polls c rs (decoded + length b) ?fl))) \<le> fetch_max_wire_bytes c"
      by blast
    have "wire_total (snd (last (rest_polls c (r # rs) decoded fl))) = wire_total fl + wire_length (take (Suc k) (r # rs))"
      unfolding eq using k m(1) ne wire_length_Cons [of r "take k rs"] by simp
    with more ne show ?thesis unfolding eq ch by (auto intro: exI [of _ "Suc k"])
  qed
qed

lemma stream_polls_Ok:
  "write_stream io p k items len h fs = (Ok x, fs') \<Longrightarrow> stream_polls io k items len = Suc (length items)"
proof (induction items arbitrary: k len h fs)
  case (Cons i items)
  from Cons.prems obtain chunk where i: "i = Inr chunk" and "len + length chunk \<le> u64_max"
    "fault io (AtWriteChunk k) = None"
    and "write_stream io p (Suc k) items (len + length chunk) (h @ chunk) (fs_append p chunk fs) = (Ok x, fs')"
    by (auto split: sum.splits option.splits)
  with Cons.IH show ?case by auto
qed simp

lemma store_polls_Ok:
  assumes "store env io s uuid media items fs = (Ok a, fs')"
  shows "store_polls env io s uuid media items fs = Suc (length items)"
  using assms
  by (auto simp: store_def store_polls_def Let_def split: option.splits sum.splits prod.splits
      intro: stream_polls_Ok)

lemma store_response_Ok:
  assumes "store_response f resp ctx now fs = (Ok res, fs')"
  obtains enc prefix fl a where
    "\<not> declared_too_large (config f) (resp_headers resp)"
    "content_encoding_of (resp_headers resp) = Ok enc"
    "first_read (config f) (resp_reads resp enc) = (Ok prefix, fl)" "\<not> wire_limit_hit fl"
    "length prefix \<le> fetch_max_decoded_bytes (config f)"
    "store (blob_env f) (resp_io resp) (blob_store f) (resp_uuid resp)
       (effective_media_type_of (declared_media_type_of (resp_headers resp)) prefix)
       (poll_items ((Some (Inr prefix), fl) # rest_polls (config f) (tl (resp_reads resp enc)) (length prefix) fl))
       fs = (Ok a, fs')"
    "artifact res = a" "decoded_bytes res = length_bytes a"
    "wire_bytes res = wire_total (flags_after fl
       ((Some (Inr prefix), fl) # rest_polls (config f) (tl (resp_reads resp enc)) (length prefix) fl)
       (store_polls (blob_env f) (resp_io resp) (blob_store f) (resp_uuid resp)
          (effective_media_type_of (declared_media_type_of (resp_headers resp)) prefix)
          (poll_items ((Some (Inr prefix), fl) # rest_polls (config f) (tl (resp_reads resp enc)) (length prefix) fl))
          fs))"
  using assms
  by (auto simp: store_response_def Let_def split: if_splits sum.splits option.splits prod.splits
      read_failure.splits)

text \<open>The first read is metered like the others.\<close>

lemma first_read_wire:
  assumes "first_read c reads = (x, fl)" "\<not> wire_limit_hit fl" "wire_errors_surface c reads initial_flags"
    and "fetch_max_wire_bytes c \<le> u64_max"
  shows "wire_total fl \<le> fetch_max_wire_bytes c \<and> wire_errors_surface c (tl reads) fl
    \<and> wire_total fl = wire_length (take 1 reads)"
proof (cases reads)
  case Nil
  with assms(1) show ?thesis by (auto simp: first_read_def initial_flags_def wire_length_def)
next
  case (Cons r rs)
  with assms(1) have fl: "fl = meter (fetch_max_wire_bytes c) r initial_flags" by (simp add: first_read_def)
  then have "\<not> wire_limit_hit (meter (fetch_max_wire_bytes c) r initial_flags)" using assms(2) by simp
  from meter_ok [OF this _ assms(4)] assms(3) Cons fl show ?thesis by (simp add: initial_flags_def Let_def)
qed

lemma wire_length_split: "\<exists>k'. wire_length (take 1 reads) + wire_length (take k (tl reads)) = wire_length (take k' reads)"
proof (cases reads)
  case (Cons r rs)
  then show ?thesis using wire_length_Cons [of r "take k rs"] wire_length_Cons [of r "[]"]
    by (intro exI [of _ "Suc k"]) (simp add: wire_length_def)
qed (simp add: wire_length_def)

text \<open>The size limits are enforced on what is kept. When a fetch returns fresh bytes, the declared
  length was not above the wire limit, the bytes counted on the wire are exact (no wrap-around) and at
  most \<open>max_wire_bytes\<close>, the stored artifact has at most \<open>max_decoded_bytes\<close> bytes, and the
  artifact's length is the reported decoded size, for every sequence of chunks and reads in which a
  read reports the wire error it met.\<close>

theorem fresh_body_within_limits:
  assumes ok: "store_response f resp ctx now fs = (Ok res, fs')"
    and surface: "\<forall>enc. wire_errors_surface (config f) (resp_reads resp enc) initial_flags"
    and u64: "fetch_max_wire_bytes (config f) \<le> u64_max"
  shows "\<not> declared_too_large (config f) (resp_headers resp)
    \<and> wire_bytes res \<le> fetch_max_wire_bytes (config f)
    \<and> (\<exists>enc k. content_encoding_of (resp_headers resp) = Ok enc
         \<and> wire_bytes res = wire_length (take k (resp_reads resp enc)))
    \<and> decoded_bytes res \<le> fetch_max_decoded_bytes (config f)
    \<and> decoded_bytes res = length_bytes (artifact res)"
  using ok
proof (cases rule: store_response_Ok)
  case (1 enc prefix fl a)
  let ?c = "config f" and ?reads = "resp_reads resp enc"
  let ?rest = "rest_polls ?c (tl ?reads) (length prefix) fl"
  obtain chunks where items: "poll_items ((Some (Inr prefix), fl) # ?rest) = map Inr chunks"
    and len: "length_bytes a = length (concat chunks)"
    using 1(6) by (cases rule: store_Ok) blast
  then obtain chunks' where ch: "chunks = prefix # chunks'" and rest: "poll_items ?rest = map Inr chunks'"
    by (auto simp: Cons_eq_map_conv)
  have first: "wire_total fl \<le> fetch_max_wire_bytes ?c \<and> wire_errors_surface ?c (tl ?reads) fl
      \<and> wire_total fl = wire_length (take 1 ?reads)"
    using first_read_wire [OF 1(3,4) _ u64] surface by blast
  then have facts: "length prefix + length (concat chunks') \<le> fetch_max_decoded_bytes ?c"
    "length ?rest = Suc (length chunks')" "wire_total (snd (last ?rest)) \<le> fetch_max_wire_bytes ?c"
    "\<exists>k. wire_total (snd (last ?rest)) = wire_total fl + wire_length (take k (tl ?reads))"
    using rest_polls_ok [OF rest 1(5) _ 1(4) _ u64] by auto
  have ne: "?rest \<noteq> []" using facts(2) by auto
  have "wire_bytes res = wire_total (snd (last ?rest))"
    unfolding 1(9) store_polls_Ok [OF 1(6)] unfolding items
    using facts(2) ne by (simp add: flags_after_def ch last_conv_nth)
  moreover have "\<exists>k. wire_total (snd (last ?rest)) = wire_length (take k ?reads)"
    using facts(4) first wire_length_split [of ?reads] by metis
  ultimately show ?thesis
    using 1(1,2,7,8) facts(1,3) len ch by auto
qed

section \<open>The fetcher gives its admission slot back\<close>

lemma slots_enter:
  assumes "slots_held a st M" "try_enter a t h st = (x, st')"
  shows "(\<exists>g. x = Ok g \<and> slots_held a st' (add_mset h M)) \<or> (\<exists>e. x = Err e \<and> slots_held a st' M)"
  using slots.enter_admits [OF assms(1), of t h] slots.enter_refuses [OF assms(1), of t h] assms(2)
  by (cases x) (auto simp: enter_slot_def)

lemma hop_loop_slots:
  "hop_loop n f cache trusted deadline ctx hop url host visited retries tries w = (r, w') \<Longrightarrow>
   hop \<le> unat (fetch_max_redirects (config f)) \<Longrightarrow>
   slots_held (admission_new (config f)) (adm w) (add_mset host M) \<Longrightarrow>
   slots_held (admission_new (config f)) (adm w') M"
proof (induction "unat (fetch_max_redirects (config f)) - hop"
    arbitrary: hop ctx url host visited retries tries w rule: less_induct)
  case less
  let ?a = "admission_new (config f)"
  have adm: "adm w1 = adm w" if "attempt_loop n f cache deadline url retries tries w = (x, w1)" for x w1
    by (rule attempt_loop_invariant [where Q = "\<lambda>v. adm v = adm w", OF _ _ refl that])
      (auto dest: attempt_once_effect(1))
  have left: "slots_held ?a (release host (adm w)) M"
    by (rule slots.leave_releases [OF less.prems(3)])
  from less.prems(1,2) show ?case
  proof (cases rule: hop_loop_cases)
    case (failed x w1 e)
    with adm left show ?thesis by simp
  next
    case (refused x w1 resp nu host' e st)
    with slots_enter [OF left] adm show ?thesis by fastforce
  next
    case (looping x w1 resp nu host' g st)
    then have "slots_held ?a st (add_mset host' M)"
      using slots_enter [OF left] adm by fastforce
    with looping show ?thesis using slots.leave_releases by simp
  next
    case (hopping resp retries' tries' w1 nu host' g st)
    then have "slots_held ?a st (add_mset host' M)"
      using slots_enter [OF left] adm by fastforce
    with less.hyps [OF _ hopping(6)] hopping(2) show ?thesis by simp
  next
    case (concluded resp retries' tries' w1 w2)
    with conclude_effect(2) [OF concluded(2)] adm left show ?thesis by simp
  qed
qed

text \<open>C28. A fetch gives back every admission slot it takes, on success and on every error path,
  redirects included: if before the fetch exactly the slots \<open>M\<close> are held, exactly \<open>M\<close> are held after.\<close>

theorem fetch_returns_its_slots:
  assumes "fetch_url n f request w = (r, w')"
    and "slots_held (admission_new (config f)) (adm w) M"
  shows "slots_held (admission_new (config f)) (adm w') M"
  using assms(1) unfolding fetch_url_def
proof (cases rule: fetch_inner_cases)
  case (refused e st)
  then show ?thesis
    using assms(2) slots_enter [OF assms(2)] slots.leave_releases by fastforce
next
  case (entered nu orig host g start st t)
  have "slots_held (admission_new (config f)) st (add_mset host M)"
    using slots_enter [OF assms(2) entered(5)] by auto
  with hop_loop_slots [OF entered(8)] show ?thesis by simp
qed

section \<open>A concrete run\<close>

text \<open>A fetch of \<open>https://a.io/x\<close> that is redirected once, and a revalidation that is answered with 304.\<close>

definition sample_config :: fetch_config where
  "sample_config = fetch (built_in [] :: sample_url extractor_config)"

definition sample_fetcher :: "sample_url fetcher" where
  "sample_fetcher = \<lparr>config = sample_config, blob_store = sample_store, blob_env = sample_env,
     url_lib = sample_api, has_resolver = True\<rparr>"

definition sample_target :: sample_url where
  "sample_target = \<lparr>s_scheme = ''https'', s_host = ''a.io'', s_path = ''/x'', s_query = None, s_fragment = None\<rparr>"

definition sample_response :: "nat \<Rightarrow> sample_url response" where
  "sample_response code =
     \<lparr>resp_status = code,
      resp_headers = (\<lambda>h. if h = ''location'' then Some ''/y'' else if h = ''etag'' then Some ''v1'' else None),
      resp_url = sample_target,
      resp_reads = (\<lambda>_. [\<lparr>pulled = [Inr ''abcde''], wait_ms = 3, outcome = ReadBytes ''abc''\<rparr>,
                         \<lparr>pulled = [], wait_ms = 3, outcome = ReadBytes ''de''\<rparr>]),
      resp_io = calm_io, resp_uuid = ''u9'', resp_body_ms = 20\<rparr>"

definition sample_net :: "sample_url net" where
  "sample_net =
     \<lparr>dns = (\<lambda>_ _. Ok [(V4 (93, 184, 216, 34), 0)]), dns_ms = (\<lambda>_. 5),
      send = (\<lambda>k _. Ok (sample_response (if k = 1 then 302 else 304))), send_ms = (\<lambda>_. 40),
      wall = (\<lambda>t. t), parse_http_date = (\<lambda>_. None), header_value_ok = (\<lambda>_. True),
      interrupted = (\<lambda>fs. fs)\<rparr>"

definition sample_world :: "sample_url world" where
  "sample_world = \<lparr>clock = 1000, adm = empty_state, files = [sample_path \<mapsto> RegFile ''abc''], sent = []\<rparr>"

definition sample_request :: fetch_request where
  "sample_request = \<lparr>req_url = ''https://a.io/x'', prior = Some \<lparr>cr_artifact = sample_ref,
     cr_etag = Some ''v0'', cr_last_modified = None, cr_cache_control = None\<rparr>\<rparr>"

definition sample_fetch :: "(safe_fetch_error, sample_url fetch_result) res \<times> sample_url world" where
  "sample_fetch = fetch_url sample_net sample_fetcher sample_request sample_world"

lemma sample_fetch_eq:
  "fetch_url sample_net sample_fetcher sample_request sample_world = (fst sample_fetch, snd sample_fetch)"
  by (simp add: sample_fetch_def)

lemma sample_fetch_result:
  "case fst sample_fetch of
     Inl _ \<Rightarrow> False
   | Inr res \<Rightarrow> cache_outcome (metadata res) = Revalidated \<and> length (redirects (metadata res)) = 1"
  by code_simp

lemma sample_fetch_Ok:
  obtains res where
    "fetch_url sample_net sample_fetcher sample_request sample_world = (Ok res, snd sample_fetch)"
    "cache_outcome (metadata res) = Revalidated" "length (redirects (metadata res)) = 1"
    "fst sample_fetch = Ok res"
  using sample_fetch_result sample_fetch_eq by (cases "fst sample_fetch") auto

lemma sample_fetch_sends: "length (sent (snd sample_fetch)) = 2"
  by code_simp

lemma sample_slots: "slots_held (admission_new (config sample_fetcher)) (adm sample_world) {#}"
  by (simp add: slots_held_def sample_world_def empty_state_def sample_fetcher_def admission_new_def
      sample_config_def built_in_def usize_max_def)

theorem every_request_is_checked_witness:
  "\<exists>new. sent (snd sample_fetch) = new \<and> length new = 2 \<and> list_all (checked_request sample_fetcher) new"
  using every_request_is_checked [OF sample_fetch_eq] sample_fetch_sends by (auto simp: sample_world_def)

theorem fetch_meets_total_deadline_witness:
  "clock (snd sample_fetch) \<le> 31000"
  using fetch_meets_total_deadline [OF sample_fetch_eq]
  by (simp add: sample_world_def sample_fetcher_def sample_config_def built_in_def)

theorem fetch_request_bound_witness:
  "length (sent (snd sample_fetch)) \<le> 13"
  using fetch_request_bound [OF sample_fetch_eq]
  by (simp add: sample_world_def sample_fetcher_def sample_config_def built_in_def)

theorem fetch_redirects_bounded_and_distinct_witness:
  "\<exists>res. fst sample_fetch = Ok res \<and> length (redirects (metadata res)) = 1
     \<and> distinct (map (u_as_str sample_api) (normalized_url (metadata res) # redirects (metadata res)))"
proof (rule sample_fetch_Ok)
  fix res assume res: "fetch_url sample_net sample_fetcher sample_request sample_world = (Ok res, snd sample_fetch)"
    "length (redirects (metadata res)) = 1" "fst sample_fetch = Ok res"
  have "url_lib sample_fetcher = sample_api"
    by (simp add: sample_fetcher_def)
  with fetch_redirects_bounded_and_distinct [OF res(1)] res(2,3) show ?thesis
    by (intro exI [of _ res]) simp
qed

theorem revalidated_artifact_is_verified_witness:
  "\<exists>res. fst sample_fetch = Ok res \<and> artifact res = sample_ref \<and> files (snd sample_fetch) = files sample_world"
proof (rule sample_fetch_Ok)
  fix res assume res: "fetch_url sample_net sample_fetcher sample_request sample_world = (Ok res, snd sample_fetch)"
    "cache_outcome (metadata res) = Revalidated" "fst sample_fetch = Ok res"
  have "map_option cr_artifact (prior sample_request) = Some sample_ref"
    by (simp add: sample_request_def)
  with revalidated_artifact_is_verified [OF res(1,2)] res(3) show ?thesis
    by (intro exI [of _ res]) auto
qed

theorem fetch_returns_its_slots_witness:
  "slots_held (admission_new (config sample_fetcher)) (adm (snd sample_fetch)) {#}"
  by (rule fetch_returns_its_slots [OF sample_fetch_eq sample_slots])

definition sample_stored_response :: "(safe_fetch_error, sample_url fetch_result) res \<times> fs" where
  "sample_stored_response = store_response sample_fetcher (sample_response 200)
     \<lparr>ctx_original_url = sample_target, ctx_normalized_url = sample_target, ctx_redirects = [],
      ctx_attempts = 1, ctx_started = 1000\<rparr> 1100 Map.empty"

theorem fresh_body_within_limits_witness:
  "\<exists>res. fst sample_stored_response = Ok res \<and> wire_bytes res \<le> 25 * 1024 * 1024
     \<and> decoded_bytes res \<le> 50 * 1024 * 1024"
proof -
  have "is_ok (fst sample_stored_response)"
    by code_simp
  then obtain res where res: "fst sample_stored_response = Ok res"
    by (auto simp: is_ok_iff)
  then have eq: "store_response sample_fetcher (sample_response 200)
     \<lparr>ctx_original_url = sample_target, ctx_normalized_url = sample_target, ctx_redirects = [],
      ctx_attempts = 1, ctx_started = 1000\<rparr> 1100 Map.empty = (Ok res, snd sample_stored_response)"
    by (metis prod.collapse sample_stored_response_def)
  have "wire_errors_surface (config sample_fetcher) (resp_reads (sample_response 200) enc) initial_flags" for enc
    by (simp add: sample_response_def sample_fetcher_def sample_config_def built_in_def meter_def
        meter_item_def initial_flags_def u64_max_def checked_add_def)
  with fresh_body_within_limits [OF eq] res show ?thesis
    by (auto simp: sample_fetcher_def sample_config_def built_in_def u64_max_def)
qed

end
