(* ===== verification/DocumentIr.thy ===== *)
theory DocumentIr
  imports BlobStore
begin

text \<open>
  Conversion of parsed HTML into the shared Document IR: the DOM view of
  \<open>crates/document-ir/src/dom.rs\<close>, the three candidate strategies of
  \<open>crates/document-ir/src/candidate.rs\<close>, and scoring, selection, identity and assembly of
  \<open>crates/document-ir/src/lib.rs\<close>.

  The HTML5 parser and the tree are third-party (\<open>html5ever\<close>, \<open>ego_tree\<close>): a DOM is the record
  \<open>html_dom\<close> of its nodes in tree order and, for a node, its value, the nodes opened by its traversal
  and its \<open>descendants\<close>; the parser is a function from text to such a record. The contract crates'
  parsers, canonical JSON and the hash are the fields of \<open>ir_env\<close>. A UUID is its sixteen bytes.
\<close>

unbundle bit_operations_syntax

section \<open>The DOM\<close>

datatype node_kind = DocumentNode | Fragment | Element "(string \<times> string) list" | TextNode string | OtherNode

record dom_node =
  node_name :: string
  node_kind :: node_kind

record 'n html_dom =
  nodes :: "'n list"
  node_value :: "'n \<Rightarrow> dom_node"
  traversal :: "'n \<Rightarrow> 'n list"
  descendants :: "'n \<Rightarrow> 'n list"

definition node_count :: "'n html_dom \<Rightarrow> nat" where
  "node_count tree = length (nodes tree)"

definition wrap :: "'n html_dom \<Rightarrow> 'n \<Rightarrow> 'n option" where
  "wrap tree n = (case node_kind (node_value tree n) of Element _ \<Rightarrow> Some n | _ \<Rightarrow> None)"

definition dom_elements :: "'n html_dom \<Rightarrow> 'n list" where
  "dom_elements tree = List.map_filter (wrap tree) (nodes tree)"

definition element_name :: "'n html_dom \<Rightarrow> 'n \<Rightarrow> string" where
  "element_name tree e = node_name (node_value tree e)"

definition attr :: "'n html_dom \<Rightarrow> 'n \<Rightarrow> string \<Rightarrow> string option" where
  "attr tree e name =
     (case node_kind (node_value tree e) of Element attrs \<Rightarrow> map_of attrs name | _ \<Rightarrow> None)"

definition element_text :: "'n html_dom \<Rightarrow> 'n \<Rightarrow> string list" where
  "element_text tree e =
     List.map_filter
       (\<lambda>n. case node_kind (node_value tree n) of TextNode t \<Rightarrow> Some t | _ \<Rightarrow> None) (traversal tree e)"

text \<open>\<open>once(self).chain(descendants)\<close>: when \<open>descendants\<close> yields the node itself first, as
  \<open>ego_tree\<close> does, the root occurs twice.\<close>

definition sub_elements :: "'n html_dom \<Rightarrow> 'n \<Rightarrow> 'n list" where
  "sub_elements tree e = e # List.map_filter (wrap tree) (descendants tree e)"

section \<open>Blocks\<close>

type_synonym uuid = "8 word list"

datatype document_block =
    Heading (block_id: uuid) nat (block_text: string)
  | Paragraph (block_id: uuid) (block_text: string)
  | OtherBlock

definition nil_uuid :: uuid where
  "nil_uuid = replicate 16 0"

definition heading_block :: "nat \<Rightarrow> string \<Rightarrow> document_block" where
  "heading_block level text = Heading nil_uuid level text"

definition paragraph_block :: "string \<Rightarrow> document_block" where
  "paragraph_block text = Paragraph nil_uuid text"

definition normalized_text :: "'n html_dom \<Rightarrow> 'n \<Rightarrow> string option" where
  "normalized_text tree e =
     (let text = join_with '' '' (concat (map split_whitespace (element_text tree e)))
      in if text = [] then None else Some text)"

definition heading :: "'n html_dom \<Rightarrow> nat \<Rightarrow> 'n \<Rightarrow> document_block option" where
  "heading tree level e = map_option (heading_block level) (normalized_text tree e)"

definition block :: "'n html_dom \<Rightarrow> 'n \<Rightarrow> document_block option" where
  "block tree e =
     (let name = element_name tree e
      in if name = ''h1'' then heading tree 1 e
         else if name = ''h2'' then heading tree 2 e
         else if name = ''h3'' then heading tree 3 e
         else if name = ''h4'' then heading tree 4 e
         else if name = ''h5'' then heading tree 5 e
         else if name = ''h6'' then heading tree 6 e
         else if name = ''p'' then map_option paragraph_block (normalized_text tree e)
         else None)"

fun block_text_len :: "document_block \<Rightarrow> nat" where
  "block_text_len (Heading _ _ text) = length text"
| "block_text_len (Paragraph _ text) = length text"
| "block_text_len OtherBlock = 0"

definition plain_text_fragment :: "(string \<Rightarrow> 'n html_dom) \<Rightarrow> string \<Rightarrow> string option" where
  "plain_text_fragment parse html =
     (let tree = parse html
      in case List.find (\<lambda>e. element_name tree e = ''body'') (dom_elements tree) of
           None \<Rightarrow> None
         | Some body \<Rightarrow>
             (let text = join_with '' '' (concat (map split_whitespace (element_text tree body)))
              in if text = [] then None else Some text))"

section \<open>Candidates\<close>

datatype strategy = Semantic | Readability | Density

fun strategy_str :: "strategy \<Rightarrow> string" where
  "strategy_str Semantic = ''semantic''"
| "strategy_str Readability = ''readability''"
| "strategy_str Density = ''density''"

record candidate =
  cand_strategy :: strategy
  cand_blocks :: "document_block list"
  link_characters :: nat
  boilerplate_characters :: nat

definition blocks_of :: "'n html_dom \<Rightarrow> 'n \<Rightarrow> document_block list" where
  "blocks_of tree el = List.map_filter (block tree) (sub_elements tree el)"

definition empty_candidate :: "strategy \<Rightarrow> candidate" where
  "empty_candidate s =
     \<lparr>cand_strategy = s, cand_blocks = [], link_characters = 0, boilerplate_characters = 0\<rparr>"

definition candidate_of :: "'n html_dom \<Rightarrow> strategy \<Rightarrow> 'n \<Rightarrow> candidate" where
  "candidate_of tree s el =
     \<lparr>cand_strategy = s, cand_blocks = blocks_of tree el,
      link_characters =
        sum_list (map length (List.map_filter (normalized_text tree)
          (filter (\<lambda>e. element_name tree e = ''a'') (sub_elements tree el)))),
      boilerplate_characters =
        sum_list (map block_text_len (concat (map (blocks_of tree)
          (filter (\<lambda>e. element_name tree e \<in> {''aside'', ''footer'', ''form'', ''header'', ''nav''})
             (sub_elements tree el)))))\<rparr>"

definition semantic_root :: "'n html_dom \<Rightarrow> string \<Rightarrow> 'n option" where
  "semantic_root tree name =
     List.find (\<lambda>e. blocks_of tree e \<noteq> []) (filter (\<lambda>e. element_name tree e = name) (dom_elements tree))"

definition semantic :: "'n html_dom \<Rightarrow> candidate" where
  "semantic tree =
     (case (case semantic_root tree ''article'' of
              Some e \<Rightarrow> Some e | None \<Rightarrow> semantic_root tree ''main'') of
        None \<Rightarrow> empty_candidate Semantic
      | Some el \<Rightarrow> candidate_of tree Semantic el)"

text \<open>\<open>max_by_key\<close> keeps the last of several maximal elements.\<close>

fun max_by_key :: "('a \<Rightarrow> nat) \<Rightarrow> 'a list \<Rightarrow> 'a option" where
  "max_by_key key [] = None"
| "max_by_key key (x # xs) =
     (case max_by_key key xs of
        None \<Rightarrow> Some x
      | Some y \<Rightarrow> if key y \<ge> key x then Some y else Some x)"

definition container_text :: "candidate \<Rightarrow> nat" where
  "container_text c =
     sum_list (map block_text_len (cand_blocks c)) - link_characters c - boilerplate_characters c"

definition best_container :: "'n html_dom \<Rightarrow> strategy \<Rightarrow> (nat \<Rightarrow> nat \<Rightarrow> nat) \<Rightarrow> candidate" where
  "best_container tree s score =
     (let scored = map (\<lambda>e. let c = candidate_of tree s e
                            in (score (container_text c) (length (sub_elements tree e)), c))
                     (filter (\<lambda>e. element_name tree e
                        \<in> {''article'', ''main'', ''section'', ''div'', ''body'', ''html''}) (dom_elements tree))
      in case max_by_key fst scored of None \<Rightarrow> empty_candidate s | Some (_, c) \<Rightarrow> c)"

definition readability :: "'n html_dom \<Rightarrow> candidate" where
  "readability tree = best_container tree Readability (\<lambda>text _. text)"

definition density :: "'n html_dom \<Rightarrow> candidate" where
  "density tree =
     best_container tree Density (\<lambda>text elements. sat_mul usize_max text 1000 div max elements 1)"

definition extract_candidates :: "'n html_dom \<Rightarrow> candidate list" where
  "extract_candidates tree = [semantic tree, readability tree, density tree]"

section \<open>Scoring\<close>

record quality_metrics =
  text_characters :: nat
  paragraph_count :: nat
  text_volume :: nat
  paragraph_distribution :: nat
  non_link_share :: nat
  non_boilerplate_share :: nat
  title_agreement :: nat

datatype quality_reason = Accepted | TooShort | BelowThreshold

record candidate_decision =
  strategy :: string
  dec_blocks :: "document_block list"
  evaluator_version :: string
  metrics :: quality_metrics
  score :: nat
  accepted :: bool
  reasons :: "quality_reason list"
  selected :: bool

definition component :: "nat \<Rightarrow> nat \<Rightarrow> nat \<Rightarrow> nat" where
  "component value full_value weight =
     (let weighted = sat_mul usize_max (min value full_value) weight div full_value
      in case try_from u16_max weighted of None \<Rightarrow> weight | Some w \<Rightarrow> w)"

definition share :: "nat \<Rightarrow> nat \<Rightarrow> nat \<Rightarrow> nat" where
  "share total_chars excluded weight =
     (if total_chars = 0 then 0
      else let weighted = sat_mul usize_max (total_chars - min excluded total_chars) weight div total_chars
           in case try_from u16_max weighted of None \<Rightarrow> weight | Some w \<Rightarrow> w)"

definition title_matches :: "document_block list \<Rightarrow> string option \<Rightarrow> bool" where
  "title_matches bs title =
     (case title of
        None \<Rightarrow> False
      | Some t \<Rightarrow>
          list_ex (\<lambda>b. case b of Heading _ _ text \<Rightarrow> eq_ignore_ascii_case text t | _ \<Rightarrow> False) bs)"

definition is_paragraph :: "document_block \<Rightarrow> bool" where
  "is_paragraph b = (case b of Paragraph _ _ \<Rightarrow> True | _ \<Rightarrow> False)"

definition saturate :: "nat \<Rightarrow> nat \<Rightarrow> nat" where
  "saturate m n = (case try_from m n of None \<Rightarrow> m | Some v \<Rightarrow> v)"

definition score_blocks ::
  "document_block list \<Rightarrow> nat \<Rightarrow> nat \<Rightarrow> string option
   \<Rightarrow> quality_metrics \<times> nat \<times> bool \<times> quality_reason list" where
  "score_blocks bs link_chars boilerplate_chars title =
     (let chars = sum_list (map block_text_len bs);
          paragraphs = length (filter is_paragraph bs);
          m = \<lparr>text_characters = saturate u32_max chars,
               paragraph_count = saturate u16_max paragraphs,
               text_volume = component chars 300 300,
               paragraph_distribution = component paragraphs 4 200,
               non_link_share = share chars link_chars 200,
               non_boilerplate_share = share chars boilerplate_chars 200,
               title_agreement = (if title_matches bs title then 1 else 0) * 100\<rparr>;
          s = sat_add u16_max (sat_add u16_max (sat_add u16_max (sat_add u16_max
                (text_volume m) (paragraph_distribution m)) (non_link_share m))
                (non_boilerplate_share m)) (title_agreement m);
          ok = (chars \<ge> 120 \<and> s \<ge> 350);
          why = (if ok then [Accepted]
                 else (if chars < 120 then [TooShort] else []) @ (if s < 350 then [BelowThreshold] else []))
      in (m, s, ok, why))"

definition evaluate :: "candidate \<Rightarrow> string option \<Rightarrow> candidate_decision" where
  "evaluate c title =
     (case score_blocks (cand_blocks c) (link_characters c) (boilerplate_characters c) title of
        (m, s, ok, why) \<Rightarrow>
          \<lparr>strategy = strategy_str (cand_strategy c), dec_blocks = cand_blocks c,
           evaluator_version = ''quality_v1'', metrics = m, score = s, accepted = ok, reasons = why,
           selected = False\<rparr>)"

definition evaluate_plain_text :: "string \<Rightarrow> document_block list \<Rightarrow> string option \<Rightarrow> candidate_decision" where
  "evaluate_plain_text strat bs title =
     (case score_blocks bs 0 0 title of
        (m, s, ok, why) \<Rightarrow>
          \<lparr>strategy = strat, dec_blocks = bs, evaluator_version = ''quality_v1'', metrics = m,
           score = s, accepted = ok, reasons = why, selected = False\<rparr>)"

definition winner :: "candidate_decision list \<Rightarrow> bool \<Rightarrow> candidate_decision option" where
  "winner ds accepted_only =
     foldl (\<lambda>best d. case best of
              None \<Rightarrow> Some d
            | Some b \<Rightarrow> if score d > score b then Some d else Some b)
       None (filter (\<lambda>d. \<not> accepted_only \<or> accepted d) ds)"

section \<open>Identity and assembly\<close>

datatype digest_block = DigestHeading nat string | DigestParagraph string

datatype document_ir_error =
    ResourceLimit | InvalidIrIdentity | Serialization | UnsupportedBlock
  | LowQuality "candidate_decision list"

record ir_env =
  ir_sha256 :: "string \<Rightarrow> 8 word list"
  canonical_json :: "digest_block list \<Rightarrow> string option"
  ir_parse_digest_hex :: "string \<Rightarrow> string option"
  parse_language :: "string \<Rightarrow> string option"
  parse_strategy :: "string \<Rightarrow> string option"
  utf8_lossy :: "string \<Rightarrow> string"

record document_provenance =
  prov_block_index :: nat
  prov_strategy :: string
  prov_source_blob :: blob_ref

record 'a document =
  document_id :: uuid
  source_address :: 'a
  content_digest :: string
  doc_title :: "string option"
  doc_language :: "string option"
  doc_blocks :: "document_block list"
  doc_provenance :: "document_provenance list"

definition bytes_text :: "8 word list \<Rightarrow> string" where
  "bytes_text bs = map (\<lambda>b. char_of (unat b)) bs"

definition be_bytes :: "nat \<Rightarrow> string" where
  "be_bytes n = map (\<lambda>i. char_of (n div 256 ^ (7 - i) mod 256)) [0..<8]"

definition stamp_uuid :: "8 word list \<Rightarrow> uuid" where
  "stamp_uuid digest =
     (let bytes = take 16 digest;
          bytes = bytes[6 := (bytes ! 6 AND 0x0f) OR 0x80]
      in bytes[8 := (bytes ! 8 AND 0x3f) OR 0x80])"

definition stable_document_id :: "ir_env \<Rightarrow> uuid \<Rightarrow> string \<Rightarrow> uuid" where
  "stable_document_id env owner_id digest =
     stamp_uuid (ir_sha256 env (''ratatoskr.document.v1'' @ [char_of (0 :: nat)] @ bytes_text owner_id @ digest))"

fun digest_block_of :: "document_block \<Rightarrow> (document_ir_error, digest_block) res" where
  "digest_block_of (Heading _ level text) = Ok (DigestHeading level text)"
| "digest_block_of (Paragraph _ text) = Ok (DigestParagraph text)"
| "digest_block_of OtherBlock = Err UnsupportedBlock"

fun collect :: "('a \<Rightarrow> ('e, 'b) res) \<Rightarrow> 'a list \<Rightarrow> ('e, 'b list) res" where
  "collect f [] = Ok []"
| "collect f (x # xs) = rbind (f x) (\<lambda>y. rbind (collect f xs) (\<lambda>ys. Ok (y # ys)))"

definition canonical_block_content :: "ir_env \<Rightarrow> document_block list \<Rightarrow> (document_ir_error, string) res" where
  "canonical_block_content env bs =
     rbind (collect digest_block_of bs) (\<lambda>content. ok_or Serialization (canonical_json env content))"

text \<open>The separator ends in the two characters backslash and zero.\<close>

definition block_material :: "string \<Rightarrow> nat \<Rightarrow> string" where
  "block_material digest index =
     ''ratatoskr.document-ir.block.v1'' @ [char_of (92 :: nat), CHR ''0''] @ digest @ be_bytes index"

fun assign_block_ids :: "ir_env \<Rightarrow> string \<Rightarrow> nat \<Rightarrow> document_block list \<Rightarrow> (document_ir_error, document_block list) res"
where
  "assign_block_ids env digest index [] = Ok []"
| "assign_block_ids env digest index (b # bs) =
     rbind (ok_or InvalidIrIdentity (try_from u64_max index)) (\<lambda>_.
     let bytes = ir_sha256 env (block_material digest index) in
     rbind (guard (16 \<le> length bytes) InvalidIrIdentity) (\<lambda>_.
     rbind (case b of
              Heading _ level text \<Rightarrow> Ok (Heading (stamp_uuid bytes) level text)
            | Paragraph _ text \<Rightarrow> Ok (Paragraph (stamp_uuid bytes) text)
            | OtherBlock \<Rightarrow> Err UnsupportedBlock) (\<lambda>b'.
     rbind (assign_block_ids env digest (Suc index) bs) (\<lambda>bs'. Ok (b' # bs')))))"

definition provenance_of :: "string \<Rightarrow> blob_ref \<Rightarrow> nat \<Rightarrow> (document_ir_error, document_provenance) res" where
  "provenance_of strat blob index =
     rbind (ok_or InvalidIrIdentity (try_from u32_max index)) (\<lambda>i.
       Ok \<lparr>prov_block_index = i, prov_strategy = strat, prov_source_blob = blob\<rparr>)"

definition assemble_document ::
  "ir_env \<Rightarrow> uuid \<Rightarrow> 'a \<Rightarrow> blob_ref \<Rightarrow> string \<Rightarrow> string option \<Rightarrow> string option \<Rightarrow> document_block list
   \<Rightarrow> (document_ir_error, 'a document) res" where
  "assemble_document env owner_id address blob strat title language bs =
     rbind (canonical_block_content env bs) (\<lambda>canonical.
     let digest = hex_string (ir_sha256 env canonical) in
     rbind (ok_or InvalidIrIdentity (ir_parse_digest_hex env digest)) (\<lambda>content_hex.
     rbind (assign_block_ids env digest 0 bs) (\<lambda>bs'.
     rbind (collect (provenance_of strat blob) [0..<length bs']) (\<lambda>prov.
       Ok \<lparr>document_id = stable_document_id env owner_id content_hex, source_address = address,
           content_digest = content_hex, doc_title = title, doc_language = language,
           doc_blocks = bs', doc_provenance = prov\<rparr>))))"

section \<open>From HTML\<close>

record parse_limits =
  max_input_bytes :: nat
  max_dom_nodes :: nat

record 'a html_document_input =
  input_owner :: uuid
  input_address :: 'a
  input_blob :: blob_ref
  input_bytes :: string

record 'a html_extraction =
  ext_document :: "'a document"
  ext_candidates :: "candidate_decision list"

text \<open>The scan for the title and the language: the first usable value wins.\<close>

fun scan_metadata ::
  "ir_env \<Rightarrow> 'n html_dom \<Rightarrow> 'n list \<Rightarrow> string option \<Rightarrow> string option \<Rightarrow> string option \<times> string option"
where
  "scan_metadata env tree [] title language = (title, language)"
| "scan_metadata env tree (e # es) title language =
     (let name = element_name tree e;
          language = (if name = ''html'' \<and> language = None
            then (case attr tree e ''lang'' of None \<Rightarrow> None | Some raw \<Rightarrow> parse_language env raw)
            else language);
          title = (if name = ''title'' \<and> title = None then normalized_text tree e else title)
      in scan_metadata env tree es title language)"

definition from_html ::
  "ir_env \<Rightarrow> (string \<Rightarrow> 'n html_dom) \<Rightarrow> 'a html_document_input \<Rightarrow> parse_limits
   \<Rightarrow> (document_ir_error, 'a html_extraction) res" where
  "from_html env parse input limits =
     (if length (input_bytes input) > max_input_bytes limits then Err ResourceLimit
      else let tree = parse (utf8_lossy env (input_bytes input)) in
      if node_count tree > max_dom_nodes limits then Err ResourceLimit
      else let (title, language) = scan_metadata env tree (dom_elements tree) None None;
               candidates = extract_candidates tree;
               decisions = map (\<lambda>c. evaluate c title) candidates in
      case (case winner decisions True of
              None \<Rightarrow> None
            | Some d \<Rightarrow> List.find (\<lambda>c. strategy_str (cand_strategy c) = strategy d) candidates) of
        None \<Rightarrow> Err (LowQuality decisions)
      | Some chosen \<Rightarrow>
          (case List.find (\<lambda>c. cand_strategy c = cand_strategy chosen) candidates of
             None \<Rightarrow> Err InvalidIrIdentity
           | Some sel \<Rightarrow>
               let decisions = map (\<lambda>d. d\<lparr>selected := (strategy d = strategy_str (cand_strategy chosen))\<rparr>) decisions in
               rbind (ok_or InvalidIrIdentity (parse_strategy env (strategy_str (cand_strategy sel)))) (\<lambda>strat.
               rbind (assemble_document env (input_owner input) (input_address input) (input_blob input)
                        strat title language (cand_blocks sel)) (\<lambda>document.
                 Ok \<lparr>ext_document = document, ext_candidates = decisions\<rparr>))))"

section \<open>Scoring: bounds and thresholds\<close>

definition block_chars :: "document_block list \<Rightarrow> nat" where
  "block_chars bs = sum_list (map block_text_len bs)"

lemma weighted_share_le:
  assumes "v \<le> n" "w \<le> u16_max"
  shows "(case try_from u16_max (sat_mul usize_max v w div n) of None \<Rightarrow> w | Some x \<Rightarrow> x) \<le> w"
proof -
  have "sat_mul usize_max v w div n \<le> v * w div n"
    by (simp add: sat_mul_def div_le_mono)
  also have "\<dots> \<le> n * w div n" using assms(1) by (intro div_le_mono mult_le_mono1)
  also have "\<dots> \<le> w" by (cases "n = 0") simp_all
  finally show ?thesis using assms(2) by (auto split: option.splits)
qed

lemma component_le: "weight \<le> u16_max \<Longrightarrow> component v full_value weight \<le> weight"
  unfolding component_def Let_def by (rule weighted_share_le) simp_all

lemma share_le: "weight \<le> u16_max \<Longrightarrow> share n x weight \<le> weight"
  unfolding share_def Let_def by (simp add: weighted_share_le)

lemma share_nothing_excluded: "0 < n \<Longrightarrow> n * w \<le> usize_max \<Longrightarrow> w \<le> u16_max \<Longrightarrow> share n 0 w = w"
  by (simp add: share_def sat_mul_def try_from_def)

lemma score_blocks_unfold:
  "score_blocks bs l b t = (m, s, ok, why) \<Longrightarrow>
     text_volume m = component (block_chars bs) 300 300
   \<and> paragraph_distribution m = component (length (filter is_paragraph bs)) 4 200
   \<and> non_link_share m = share (block_chars bs) l 200
   \<and> non_boilerplate_share m = share (block_chars bs) b 200
   \<and> title_agreement m = (if title_matches bs t then 100 else 0)
   \<and> s = text_volume m + paragraph_distribution m + non_link_share m + non_boilerplate_share m + title_agreement m
   \<and> ok = (120 \<le> block_chars bs \<and> 350 \<le> s)
   \<and> why = (if ok then [Accepted]
        else (if block_chars bs < 120 then [TooShort] else []) @ (if s < 350 then [BelowThreshold] else []))"
proof -
  assume h: "score_blocks bs l b t = (m, s, ok, why)"
  have u: "(300 :: nat) \<le> u16_max" "(200 :: nat) \<le> u16_max" by (simp_all add: int_limits)
  have v: "component (block_chars bs) 300 300 \<le> 300"
    "component (length (filter is_paragraph bs)) 4 200 \<le> 200"
    "share (block_chars bs) l 200 \<le> 200" "share (block_chars bs) b 200 \<le> 200"
    using u by (auto intro: component_le share_le)
  note g = h [unfolded score_blocks_def Let_def prod.inject, folded block_chars_def]
  have m: "text_volume m = component (block_chars bs) 300 300"
    "paragraph_distribution m = component (length (filter is_paragraph bs)) 4 200"
    "non_link_share m = share (block_chars bs) l 200"
    "non_boilerplate_share m = share (block_chars bs) b 200"
    "title_agreement m = (if title_matches bs t then 100 else 0)"
    using g [THEN conjunct1, symmetric] by simp_all
  have s: "s = text_volume m + paragraph_distribution m + non_link_share m + non_boilerplate_share m
      + title_agreement m"
    using g [THEN conjunct2, THEN conjunct1, symmetric] g [THEN conjunct1, symmetric] v m by (simp add: sat_add_def int_limits)
  have ok: "ok = (120 \<le> block_chars bs \<and> 350 \<le> s)"
    using g [THEN conjunct2, THEN conjunct2, THEN conjunct1, symmetric] g [THEN conjunct2, THEN conjunct1, symmetric] by simp
  have why: "why = (if ok then [Accepted]
        else (if block_chars bs < 120 then [TooShort] else []) @ (if s < 350 then [BelowThreshold] else []))"
    using g [THEN conjunct2, THEN conjunct2, THEN conjunct2, symmetric] g [THEN conjunct2, THEN conjunct2, THEN conjunct1, symmetric]
      g [THEN conjunct2, THEN conjunct1, symmetric] by simp
  from m s ok why show ?thesis by blast
qed

text \<open>The quality score of any candidate is the exact sum of its five components, none of which
  exceeds its weight (300, 200, 200, 200, 100), so it lies between 0 and 1000; a candidate is accepted
  exactly when it has at least 120 bytes of text and a score of at least 350, and the recorded reasons
  say exactly which of the two thresholds it missed.\<close>

theorem score_is_bounded_and_explained:
  "case score_blocks bs links boilerplate title of (m, s, ok, why) \<Rightarrow>
     s = text_volume m + paragraph_distribution m + non_link_share m + non_boilerplate_share m
           + title_agreement m
   \<and> text_volume m \<le> 300 \<and> paragraph_distribution m \<le> 200 \<and> non_link_share m \<le> 200
   \<and> non_boilerplate_share m \<le> 200 \<and> title_agreement m \<le> 100 \<and> s \<le> 1000
   \<and> ok = (120 \<le> block_chars bs \<and> 350 \<le> s)
   \<and> ok = (why = [Accepted])
   \<and> (TooShort \<in> set why) = (block_chars bs < 120)
   \<and> (BelowThreshold \<in> set why) = (s < 350)"
proof -
  obtain m s ok why where h: "score_blocks bs links boilerplate title = (m, s, ok, why)"
    by (metis prod_cases4)
  have u: "(300 :: nat) \<le> u16_max" "(200 :: nat) \<le> u16_max" by (simp_all add: int_limits)
  note f = score_blocks_unfold [OF h]
  have b: "text_volume m \<le> 300" "paragraph_distribution m \<le> 200" "non_link_share m \<le> 200"
    "non_boilerplate_share m \<le> 200" "title_agreement m \<le> 100"
    using f u by (simp_all add: component_le share_le)
  have r: "ok = (why = [Accepted])" "(TooShort \<in> set why) = (block_chars bs < 120)"
    "(BelowThreshold \<in> set why) = (s < 350)"
    using f by (auto split: if_splits)
  from f b r show ?thesis unfolding h prod.case by linarith
qed

lemma no_markup_accepted_iff:
  assumes h: "score_blocks bs 0 0 title = (m, s, ok, why)" and "block_chars bs * 200 \<le> usize_max"
  shows "ok = (120 \<le> block_chars bs)"
proof -
  note f = score_blocks_unfold [OF h]
  have "350 \<le> s" if c: "120 \<le> block_chars bs"
  proof -
    have u: "(300 :: nat) \<le> u16_max" "(200 :: nat) \<le> u16_max" "300 * (300 :: nat) \<le> usize_max"
      by (simp_all add: int_limits)
    have "non_link_share m = 200" "non_boilerplate_share m = 200"
      using f c assms u by (simp_all add: share_nothing_excluded)
    with f show ?thesis by linarith
  qed
  with f show ?thesis by auto
qed

text \<open>Text that carries no markup (PDF, transcripts) is accepted exactly when it has at least 120
  bytes: with nothing to exclude, the share components alone lift every such text over the score
  threshold.\<close>

theorem plain_text_accepted_iff_long_enough:
  assumes "block_chars bs * 200 \<le> usize_max"
  shows "accepted (evaluate_plain_text strat bs title) = (120 \<le> block_chars bs)"
  using no_markup_accepted_iff [OF _ assms, of title]
  by (auto simp: evaluate_plain_text_def split: prod.splits)

theorem plain_text_accepted_iff_long_enough_witness:
  "accepted (evaluate_plain_text ''pdf'' [paragraph_block (replicate 120 (CHR ''x''))] None)"
  using plain_text_accepted_iff_long_enough [of "[paragraph_block (replicate 120 (CHR ''x''))]" "''pdf''" None]
  by (simp add: block_chars_def paragraph_block_def int_limits)

section \<open>Selection\<close>

definition better :: "candidate_decision option \<Rightarrow> candidate_decision \<Rightarrow> candidate_decision option" where
  "better best d = (case best of None \<Rightarrow> Some d | Some b \<Rightarrow> if score d > score b then Some d else Some b)"

lemma better_simps [simp]:
  "better None d = Some d"
  "better (Some b) d = (if score d > score b then Some d else Some b)"
  by (simp_all add: better_def)

lemma winner_step: "winner ds only = foldl better None (filter (\<lambda>d. \<not> only \<or> accepted d) ds)"
  unfolding winner_def better_def [abs_def] ..

definition first_best :: "candidate_decision list \<Rightarrow> candidate_decision \<Rightarrow> bool" where
  "first_best ds d =
     (\<exists>pre post. ds = pre @ d # post \<and> (\<forall>x\<in>set pre. score x < score d) \<and> (\<forall>x\<in>set post. score x \<le> score d))"

lemma foldl_better: "ds \<noteq> [] \<Longrightarrow> \<exists>d. foldl better None ds = Some d \<and> first_best ds d"
proof (induction ds rule: rev_induct)
  case (snoc x ds)
  show ?case
  proof (cases "ds = []")
    case True
    then have "first_best (ds @ [x]) x"
      unfolding first_best_def by (intro exI [of _ "[]"]) auto
    with True show ?thesis by simp
  next
    case False
    then obtain d pre post where d: "foldl better None ds = Some d" "ds = pre @ d # post"
      "\<forall>y\<in>set pre. score y < score d" "\<forall>y\<in>set post. score y \<le> score d"
      using snoc.IH unfolding first_best_def by blast
    show ?thesis
    proof (cases "score d < score x")
      case True
      then have "\<forall>y\<in>set ds. score y < score x" using d(2-) by fastforce
      then have "first_best (ds @ [x]) x"
        unfolding first_best_def by (intro exI [of _ ds] exI [of _ "[]"]) auto
      with d(1) True show ?thesis by simp
    next
      case False
      have "first_best (ds @ [x]) d"
        unfolding first_best_def using d False by (intro exI [of _ pre] exI [of _ "post @ [x]"]) auto
      with d False show ?thesis by simp
    qed
  qed
qed simp

lemma first_best_mem: "first_best ds d \<Longrightarrow> d \<in> set ds \<and> (\<forall>x\<in>set ds. score x \<le> score d)"
  unfolding first_best_def by fastforce

lemma winner_None: "winner ds True = None \<longleftrightarrow> (\<forall>d\<in>set ds. \<not> accepted d)"
proof -
  have "winner ds True = None \<longleftrightarrow> filter accepted ds = []"
    using foldl_better [of "filter accepted ds"]
    by (cases "filter accepted ds = []") (auto simp: winner_step)
  then show ?thesis by (simp add: filter_empty_conv)
qed

lemma winner_Some: "winner ds True = Some d \<Longrightarrow> first_best (filter accepted ds) d"
  using foldl_better [of "filter accepted ds"] by (cases "filter accepted ds = []") (auto simp: winner_step)

lemma winner_facts:
  assumes "winner ds True = Some d"
  shows "d \<in> set ds" "accepted d" "x \<in> set ds \<Longrightarrow> accepted x \<Longrightarrow> score x \<le> score d"
  using first_best_mem [OF winner_Some [OF assms]] by auto


lemma evaluate_simps [simp]:
  "strategy (evaluate c title) = strategy_str (cand_strategy c)"
  "dec_blocks (evaluate c title) = cand_blocks c"
  "selected (evaluate c title) = False"
  by (simp_all add: evaluate_def split: prod.splits)

lemma candidate_of_simps [simp]:
  "cand_strategy (candidate_of tree s e) = s"
  "cand_strategy (empty_candidate s) = s"
  "cand_blocks (candidate_of tree s e) = blocks_of tree e"
  "cand_blocks (empty_candidate s) = []"
  by (simp_all add: candidate_of_def empty_candidate_def)

lemma max_by_key_mem: "max_by_key key xs = Some x \<Longrightarrow> x \<in> set xs"
  by (induction xs arbitrary: x) (auto split: option.splits if_splits)

lemma best_container_cases:
  "best_container tree s f = empty_candidate s \<or> (\<exists>e. best_container tree s f = candidate_of tree s e)"
  unfolding best_container_def Let_def
  by (auto split: option.splits dest!: max_by_key_mem)

lemma best_container_strategy [simp]: "cand_strategy (best_container tree s f) = s"
  using best_container_cases [of tree s f] by auto

lemma candidate_strategies [simp]:
  "cand_strategy (semantic tree) = Semantic"
  "cand_strategy (readability tree) = Readability"
  "cand_strategy (density tree) = Density"
  by (simp_all add: semantic_def readability_def density_def split: option.splits)

lemma strategy_str_inj [simp]: "strategy_str a = strategy_str b \<longleftrightarrow> a = b"
  by (cases a; cases b) simp_all

lemma find_by_strategy:
  "c \<in> set (extract_candidates tree)
   \<Longrightarrow> List.find (\<lambda>k. cand_strategy k = cand_strategy c) (extract_candidates tree) = Some c"
  by (auto simp: extract_candidates_def)

text \<open>The candidate behind the decision that wins, and the decisions with exactly it marked.\<close>

definition mark_selected :: "strategy \<Rightarrow> candidate_decision list \<Rightarrow> candidate_decision list" where
  "mark_selected s ds = map (\<lambda>d. d\<lparr>selected := (strategy d = strategy_str s)\<rparr>) ds"

lemma winner_candidate:
  assumes "winner (map (\<lambda>c. evaluate c title) (extract_candidates tree)) True = Some d"
  obtains c where "c \<in> set (extract_candidates tree)" "d = evaluate c title"
    "List.find (\<lambda>k. strategy_str (cand_strategy k) = strategy d) (extract_candidates tree) = Some c"
proof -
  obtain c where c: "c \<in> set (extract_candidates tree)" "d = evaluate c title"
    using winner_facts(1) [OF assms] by auto
  with find_by_strategy [OF c(1)] show thesis by (intro that [of c]) simp_all
qed

lemma from_html_Ok_cases:
  assumes "from_html env parse input limits = Ok ext"
  obtains tree title language c strat where
    "tree = parse (utf8_lossy env (input_bytes input))"
    "length (input_bytes input) \<le> max_input_bytes limits" "node_count tree \<le> max_dom_nodes limits"
    "scan_metadata env tree (dom_elements tree) None None = (title, language)"
    "c \<in> set (extract_candidates tree)"
    "winner (map (\<lambda>c. evaluate c title) (extract_candidates tree)) True = Some (evaluate c title)"
    "assemble_document env (input_owner input) (input_address input) (input_blob input) strat title
       language (cand_blocks c) = Ok (ext_document ext)"
    "ext_candidates ext
       = mark_selected (cand_strategy c) (map (\<lambda>c. evaluate c title) (extract_candidates tree))"
proof -
  define tree where "tree = parse (utf8_lossy env (input_bytes input))"
  obtain title language where sc: "scan_metadata env tree (dom_elements tree) None None = (title, language)"
    by fastforce
  let ?ds = "map (\<lambda>c. evaluate c title) (extract_candidates tree)"
  from assms have lim: "length (input_bytes input) \<le> max_input_bytes limits" "node_count tree \<le> max_dom_nodes limits"
    by (auto simp: from_html_def tree_def Let_def split: if_splits)
  obtain d where d: "winner ?ds True = Some d"
    using assms lim by (auto simp: from_html_def Let_def sc tree_def [symmetric] split: option.splits)
  obtain c where c: "c \<in> set (extract_candidates tree)" "d = evaluate c title"
    "List.find (\<lambda>k. strategy_str (cand_strategy k) = strategy d) (extract_candidates tree) = Some c"
    by (rule winner_candidate [OF d])
  from assms lim d c find_by_strategy [OF c(1)] obtain strat document where
    "assemble_document env (input_owner input) (input_address input) (input_blob input) strat title
       language (cand_blocks c) = Ok document"
    "ext = \<lparr>ext_document = document, ext_candidates = mark_selected (cand_strategy c) ?ds\<rparr>"
    by (auto simp: from_html_def Let_def sc tree_def [symmetric] mark_selected_def)
  with lim sc c d show thesis by (intro that [OF tree_def]) auto
qed


section \<open>Identity\<close>

definition stamped :: "uuid \<Rightarrow> bool" where
  "stamped u = (length u = 16 \<and> u ! 6 AND 0xf0 = 0x80 \<and> u ! 8 AND 0xc0 = 0x80)"

lemma stamp_uuid_stamped: "16 \<le> length bytes \<Longrightarrow> stamped (stamp_uuid bytes)"
proof -
  have n: "(x AND 0x0f OR 0x80) AND 0xf0 = 0x80" "(x AND 0x3f OR 0x80) AND 0xc0 = 0x80" for x :: "8 word"
    by (simp_all add: bit.conj_disj_distrib2 and.assoc)
  assume "16 \<le> length bytes"
  then show ?thesis by (simp add: stamped_def stamp_uuid_def Let_def n)
qed

lemma assign_block_ids_facts:
  "assign_block_ids env digest index bs = Ok bs' \<Longrightarrow>
     length bs' = length bs \<and> map digest_block_of bs' = map digest_block_of bs
   \<and> list_all (\<lambda>b. stamped (block_id b) \<and> b \<noteq> OtherBlock) bs'"
proof (induction bs arbitrary: index bs')
  case (Cons b bs)
  then obtain c cs where c: "bs' = c # cs" "assign_block_ids env digest (Suc index) bs = Ok cs"
    and "digest_block_of c = digest_block_of b" "stamped (block_id c)" "c \<noteq> OtherBlock"
    by (cases b) (auto simp: Let_def stamp_uuid_stamped)
  with Cons.IH [OF c(2)] show ?case by simp
qed simp

lemma assign_block_ids_content:
  "map digest_block_of bs = map digest_block_of cs
   \<Longrightarrow> assign_block_ids env digest index bs = assign_block_ids env digest index cs"
proof (induction bs arbitrary: cs index)
  case (Cons b bs)
  then obtain c cs' where cs: "cs = c # cs'" "digest_block_of b = digest_block_of c"
    "map digest_block_of bs = map digest_block_of cs'" by auto
  have "assign_block_ids env digest (Suc index) bs = assign_block_ids env digest (Suc index) cs'"
    by (rule Cons.IH) (rule cs(3))
  with cs(1,2) show ?case by (cases b; cases c) (simp_all add: Let_def)
qed simp

lemma collect_cong: "map f xs = map f ys \<Longrightarrow> collect f xs = collect f ys"
proof (induction xs arbitrary: ys)
  case (Cons x xs)
  then obtain y ys' where "ys = y # ys'" "f x = f y" "map f xs = map f ys'" by auto
  with Cons.IH show ?case by simp
qed simp

lemma collect_map: "(\<And>x y. f x = Ok y \<Longrightarrow> y = g x) \<Longrightarrow> collect f xs = Ok ys \<Longrightarrow> ys = map g xs"
  by (induction xs arbitrary: ys) auto

lemma collect_total: "(\<And>x. x \<in> set xs \<Longrightarrow> f x = Ok (g x)) \<Longrightarrow> collect f xs = Ok (map g xs)"
  by (induction xs) auto

lemma provenance_facts:
  "collect (provenance_of strat blob) is = Ok prov
   \<Longrightarrow> prov = map (\<lambda>i. \<lparr>prov_block_index = i, prov_strategy = strat, prov_source_blob = blob\<rparr>) is"
  by (erule collect_map [rotated]) (auto simp: provenance_of_def)

lemma assemble_document_cases:
  assumes "assemble_document env owner_id address blob strat title language bs = Ok doc"
  obtains content canonical content_hex where
    "collect digest_block_of bs = Ok content" "canonical_json env content = Some canonical"
    "ir_parse_digest_hex env (hex_string (ir_sha256 env canonical)) = Some content_hex"
    "assign_block_ids env (hex_string (ir_sha256 env canonical)) 0 bs = Ok (doc_blocks doc)"
    "collect (provenance_of strat blob) [0..<length (doc_blocks doc)] = Ok (doc_provenance doc)"
    "document_id doc = stable_document_id env owner_id content_hex"
    "source_address doc = address" "content_digest doc = content_hex"
    "doc_title doc = title" "doc_language doc = language"
  using assms unfolding assemble_document_def canonical_block_content_def Let_def
  by (auto intro: that)

lemma assembled_content:
  assumes "assemble_document env owner_id address blob strat title language bs = Ok doc"
  shows "map digest_block_of (doc_blocks doc) = map digest_block_of bs" "source_address doc = address"
    "doc_title doc = title" "doc_language doc = language"
  using assms by (cases rule: assemble_document_cases; auto dest: assign_block_ids_facts)+

text \<open>C30. An assembled document keeps the kind, level and text of its blocks in order; the document
  and every block carry a sixteen-byte identifier with version nibble 8 and the RFC 4122 variant; and
  block \<open>i\<close> has exactly one provenance record, number \<open>i\<close>, naming the strategy and the source
  artifact.\<close>

theorem assembled_document_is_well_formed:
  assumes "\<And>s. length (ir_sha256 env s) = 32"
    and "assemble_document env owner_id address blob strat title language bs = Ok doc"
  shows "map digest_block_of (doc_blocks doc) = map digest_block_of bs
    \<and> stamped (document_id doc) \<and> list_all (\<lambda>b. stamped (block_id b)) (doc_blocks doc)
    \<and> doc_provenance doc =
        map (\<lambda>i. \<lparr>prov_block_index = i, prov_strategy = strat, prov_source_blob = blob\<rparr>)
          [0..<length (doc_blocks doc)]
    \<and> source_address doc = address \<and> doc_title doc = title \<and> doc_language doc = language"
  using assms(2)
proof (cases rule: assemble_document_cases)
  case (1 content canonical content_hex)
  have "stamped (document_id doc)"
    unfolding 1 stable_document_id_def by (rule stamp_uuid_stamped) (simp add: assms(1))
  with assign_block_ids_facts [OF 1(4)] provenance_facts [OF 1(5)] 1 show ?thesis
    by (auto simp: list_all_iff)
qed

lemma hex_digit_inj: "a < 16 \<Longrightarrow> b < 16 \<Longrightarrow> hex_digit a = hex_digit b \<Longrightarrow> a = b"
  by (drule arg_cong [where f = "of_char :: char \<Rightarrow> nat"]) (auto simp: hex_digit_def split: if_splits)

lemma hex_string_inj: "hex_string a = hex_string b \<Longrightarrow> a = b"
proof (induction a arbitrary: b)
  case Nil
  then show ?case by (cases b) (simp_all add: hex_string_def)
next
  case (Cons x a)
  then obtain y b' where b: "b = y # b'" by (cases b) (simp_all add: hex_string_def)
  with Cons.prems have d: "hex_digit (unat x div 16) = hex_digit (unat y div 16)"
    "hex_digit (unat x mod 16) = hex_digit (unat y mod 16)" and r: "hex_string a = hex_string b'"
    by (simp_all add: hex_string_def)
  have "unat w div 16 < 16" for w :: "8 word" using octet_bound [of w] by linarith
  with d have "unat x div 16 = unat y div 16" "unat x mod 16 = unat y mod 16"
    by (auto intro: hex_digit_inj)
  then have "unat x = unat y" by (metis div_mult_mod_eq)
  with b Cons.IH [OF r] show ?case by (simp add: word_unat_eq_iff)
qed

lemma collect_Ok_map: "collect f xs = Ok ys \<Longrightarrow> map f xs = map Ok ys"
  by (induction xs arbitrary: ys) auto

text \<open>What the contract crates and the hash promise: 32-byte digests, canonical JSON for every list of
  blocks, lower-case hexadecimal digests accepted as they are, and the three strategy names accepted.\<close>

definition ir_laws :: "ir_env \<Rightarrow> bool" where
  "ir_laws env =
     ((\<forall>s. length (ir_sha256 env s) = 32) \<and> (\<forall>c. canonical_json env c \<noteq> None)
      \<and> (\<forall>h. length h = 32 \<longrightarrow> ir_parse_digest_hex env (hex_string h) = Some (hex_string h))
      \<and> (\<forall>s. parse_strategy env (strategy_str s) = Some (strategy_str s)))"

text \<open>The digests of two block lists do not collide: equal digests come from equal contents.\<close>

definition no_collision :: "ir_env \<Rightarrow> document_block list \<Rightarrow> document_block list \<Rightarrow> bool" where
  "no_collision env bs cs =
     (case (collect digest_block_of bs, collect digest_block_of cs) of
        (Ok x, Ok y) \<Rightarrow>
          (map_option (ir_sha256 env) (canonical_json env x)
             = map_option (ir_sha256 env) (canonical_json env y) \<longrightarrow> x = y)
      | _ \<Rightarrow> True)"

text \<open>The content digest of a document is a fingerprint of its blocks alone: two documents have the
  same digest exactly when their blocks agree in kind, level and text, whatever address, artifact,
  strategy, title or language they were assembled with; and then, for the same owner, the document
  identifier and every block identifier are the same too.\<close>

theorem document_identity_is_owner_and_content:
  assumes laws: "ir_laws env" and free: "no_collision env bs cs"
    and d: "assemble_document env owner_id address blob strat title language bs = Ok doc"
    and e: "assemble_document env owner_id' address' blob' strat' title' language' cs = Ok doc'"
  shows "(content_digest doc = content_digest doc') = (map digest_block_of bs = map digest_block_of cs)
    \<and> (content_digest doc = content_digest doc' \<longrightarrow> doc_blocks doc = doc_blocks doc'
         \<and> (owner_id = owner_id' \<longrightarrow> document_id doc = document_id doc'))"
proof -
  obtain x j h where 1: "collect digest_block_of bs = Ok x" "canonical_json env x = Some j"
    "ir_parse_digest_hex env (hex_string (ir_sha256 env j)) = Some h"
    "assign_block_ids env (hex_string (ir_sha256 env j)) 0 bs = Ok (doc_blocks doc)"
    "document_id doc = stable_document_id env owner_id h" "content_digest doc = h"
    using d by (rule assemble_document_cases)
  obtain y k g where 2: "collect digest_block_of cs = Ok y" "canonical_json env y = Some k"
    "ir_parse_digest_hex env (hex_string (ir_sha256 env k)) = Some g"
    "assign_block_ids env (hex_string (ir_sha256 env k)) 0 cs = Ok (doc_blocks doc')"
    "document_id doc' = stable_document_id env owner_id' g" "content_digest doc' = g"
    using e by (rule assemble_document_cases)
  from laws 1(3) 2(3) have hg: "h = hex_string (ir_sha256 env j)" "g = hex_string (ir_sha256 env k)"
    by (auto simp: ir_laws_def)
  have same: "map digest_block_of bs = map digest_block_of cs \<longleftrightarrow> x = y"
    unfolding collect_Ok_map [OF 1(1)] collect_Ok_map [OF 2(1)] by (simp add: inj_map_eq_map)
  have "h = g \<longleftrightarrow> x = y"
    using free 1(1,2) 2(1,2) hex_string_inj [of "ir_sha256 env j" "ir_sha256 env k"]
    by (auto simp: no_collision_def hg)
  moreover have "doc_blocks doc = doc_blocks doc'" if "x = y"
    using that 1(2,4) 2(2,4) assign_block_ids_content [of bs cs] same by simp
  ultimately show ?thesis
    using 1 2 same by auto
qed

definition sample_ir_env :: ir_env where
  "sample_ir_env =
     \<lparr>ir_sha256 = (\<lambda>s. replicate 31 7 @ [of_nat (length s)]),
      canonical_json = (\<lambda>bs. Some (concat (map (\<lambda>b. case b of
         DigestHeading n t \<Rightarrow> replicate n (CHR ''#'') @ t | DigestParagraph t \<Rightarrow> t) bs))),
      ir_parse_digest_hex = Some, parse_language = Some, parse_strategy = Some, utf8_lossy = (\<lambda>s. s)\<rparr>"

lemma sample_ir_laws: "ir_laws sample_ir_env"
  by (simp add: ir_laws_def sample_ir_env_def)

definition sample_blocks :: "document_block list" where
  "sample_blocks = [heading_block 1 ''Title'', paragraph_block ''Some text.'']"

lemma sample_assembles:
  "is_ok (assemble_document sample_ir_env (replicate 16 1) ''https://a.io'' sample_ref ''semantic'' None None sample_blocks)"
  "is_ok (assemble_document sample_ir_env (replicate 16 1) ''https://b.io'' sample_ref ''density'' (Some ''t'') None sample_blocks)"
  by code_simp+

theorem assembled_document_is_well_formed_witness:
  "\<exists>doc. assemble_document sample_ir_env (replicate 16 1) ''https://a.io'' sample_ref ''semantic'' None None sample_blocks
      = Ok doc \<and> stamped (document_id doc)"
  using sample_assembles(1) assembled_document_is_well_formed [where env = sample_ir_env and bs = sample_blocks]
  by (fastforce simp: is_ok_iff sample_ir_env_def)

theorem document_identity_is_owner_and_content_witness:
  "\<exists>doc doc'.
     assemble_document sample_ir_env (replicate 16 1) ''https://a.io'' sample_ref ''semantic'' None None sample_blocks = Ok doc
   \<and> assemble_document sample_ir_env (replicate 16 1) ''https://b.io'' sample_ref ''density'' (Some ''t'') None sample_blocks = Ok doc'
   \<and> document_id doc = document_id doc' \<and> doc_blocks doc = doc_blocks doc'"
proof -
  obtain doc doc' where d:
    "assemble_document sample_ir_env (replicate 16 1) ''https://a.io'' sample_ref ''semantic'' None None sample_blocks = Ok doc"
    "assemble_document sample_ir_env (replicate 16 1) ''https://b.io'' sample_ref ''density'' (Some ''t'') None sample_blocks = Ok doc'"
    using sample_assembles by (auto simp: is_ok_iff)
  have "no_collision sample_ir_env sample_blocks sample_blocks" by (simp add: no_collision_def split: sum.splits)
  from document_identity_is_owner_and_content [OF sample_ir_laws this d] d show ?thesis by blast
qed

section \<open>From HTML: selection and outcomes\<close>

lemma mark_selected_facts:
  assumes "c \<in> set (extract_candidates tree)"
  shows "filter selected (mark_selected (cand_strategy c) (map (\<lambda>c. evaluate c title) (extract_candidates tree)))
    = [(evaluate c title)\<lparr>selected := True\<rparr>]"
proof -
  consider "c = semantic tree" | "c = readability tree" | "c = density tree"
    using assms by (auto simp: extract_candidates_def)
  then show ?thesis by cases (simp_all add: mark_selected_def extract_candidates_def)
qed

lemma first_best_map:
  assumes "\<And>x. score (g x) = score x" "\<And>x. accepted (g x) = accepted x"
    and "first_best (filter accepted ds) d"
  shows "first_best (filter accepted (map g ds)) (g d)"
proof -
  obtain pre post where p: "filter accepted ds = pre @ d # post"
    "\<forall>x\<in>set pre. score x < score d" "\<forall>x\<in>set post. score x \<le> score d"
    using assms(3) unfolding first_best_def by blast
  have "filter accepted (map g ds) = map g (filter accepted ds)"
    by (simp add: filter_map comp_def assms(2))
  then have "filter accepted (map g ds) = map g pre @ g d # map g post" using p(1) by simp
  then show ?thesis
    unfolding first_best_def using p(2,3) assms(1)
    by (intro exI [of _ "map g pre"] exI [of _ "map g post"]) simp
qed

text \<open>C29. When HTML becomes a document, three candidates were decided within the parser's limits,
  exactly one of them is marked selected, it is the first of the highest-scoring accepted ones, and the
  document's blocks are its blocks with their final identifiers.\<close>

theorem from_html_selects_the_best_candidate:
  assumes "from_html env parse input limits = Ok ext"
  shows "length (ext_candidates ext) = 3 \<and> length (input_bytes input) \<le> max_input_bytes limits
    \<and> (\<exists>d. filter selected (ext_candidates ext) = [d] \<and> accepted d
        \<and> first_best (filter accepted (ext_candidates ext)) d
        \<and> map digest_block_of (doc_blocks (ext_document ext)) = map digest_block_of (dec_blocks d))"
  using assms
proof (cases rule: from_html_Ok_cases)
  case (1 tree title language c strat)
  let ?d = "(evaluate c title)\<lparr>selected := True\<rparr>"
  note w = winner_facts [OF 1(6)]
  let ?g = "\<lambda>d. d\<lparr>selected := (strategy d = strategy_str (cand_strategy c))\<rparr>"
  have "first_best (filter accepted (ext_candidates ext)) (?g (evaluate c title))"
    unfolding 1(8) mark_selected_def by (rule first_best_map) (simp_all add: winner_Some [OF 1(6)])
  then have "first_best (filter accepted (ext_candidates ext)) ?d" by simp
  moreover have "map digest_block_of (doc_blocks (ext_document ext)) = map digest_block_of (cand_blocks c)"
    using 1(7) by (cases rule: assemble_document_cases) (simp add: assign_block_ids_facts)
  moreover have "length (ext_candidates ext) = 3"
    unfolding 1(8) by (simp add: mark_selected_def extract_candidates_def)
  moreover have "filter selected (ext_candidates ext) = [?d]"
    unfolding 1(8) by (rule mark_selected_facts [OF 1(5)])
  ultimately show ?thesis using 1(2) w(2) by (intro conjI exI [of _ ?d]) simp_all
qed

lemma block_not_other: "block tree e = Some b \<Longrightarrow> b \<noteq> OtherBlock"
  by (auto simp: block_def heading_def heading_block_def paragraph_block_def Let_def split: if_splits)

lemma blocks_of_facts: "OtherBlock \<notin> set (blocks_of tree e) \<and> length (blocks_of tree e) \<le> Suc (length (descendants tree e))"
proof -
  have len: "length (List.map_filter f xs) \<le> length xs" for f :: "'x \<Rightarrow> 'y option" and xs
    by (induction xs) (auto simp:  split: option.splits)
  have mem: "y \<in> set (List.map_filter f xs) \<Longrightarrow> \<exists>x. f x = Some y" for f :: "'x \<Rightarrow> 'y option" and xs y
    by (auto simp: List.map_filter_def)
  have "OtherBlock \<notin> set (blocks_of tree e)"
    using mem [of OtherBlock "block tree"] block_not_other [of tree] unfolding blocks_of_def by blast
  moreover have "length (blocks_of tree e) \<le> Suc (length (descendants tree e))"
    using len [of "block tree" "sub_elements tree e"] len [of "wrap tree" "descendants tree e"]
    unfolding blocks_of_def sub_elements_def length_Cons by linarith
  ultimately show ?thesis ..
qed

lemma candidate_blocks:
  assumes "c \<in> set (extract_candidates tree)"
  shows "cand_blocks c = [] \<or> (\<exists>e. cand_blocks c = blocks_of tree e)"
  using assms best_container_cases [of tree Readability "\<lambda>text _. text"]
    best_container_cases [of tree Density "\<lambda>text elements. sat_mul usize_max text 1000 div max elements 1"]
  by (auto simp: extract_candidates_def semantic_def readability_def density_def split: option.splits)

lemma assign_block_ids_total:
  "(\<And>s. length (ir_sha256 env s) = 32) \<Longrightarrow> OtherBlock \<notin> set bs \<Longrightarrow> index + length bs \<le> Suc u64_max
   \<Longrightarrow> \<exists>bs'. assign_block_ids env digest index bs = Ok bs' \<and> length bs' = length bs"
proof (induction bs arbitrary: index)
  case (Cons b bs)
  then obtain bs' where "assign_block_ids env digest (Suc index) bs = Ok bs'" "length bs' = length bs"
    by force
  with Cons.prems show ?case by (cases b) (auto simp: Let_def try_from_def)
qed simp

lemma digest_blocks_total: "OtherBlock \<notin> set bs \<Longrightarrow> is_ok (collect digest_block_of bs)"
proof (induction bs)
  case (Cons b bs)
  then show ?case by (cases b) (auto simp: is_ok_iff)
qed simp

lemma assemble_document_total:
  assumes "ir_laws env" "OtherBlock \<notin> set bs" "length bs \<le> Suc u32_max"
  shows "is_ok (assemble_document env owner_id address blob strat title language bs)"
proof -
  obtain x where x: "collect digest_block_of bs = Ok x"
    using digest_blocks_total [OF assms(2)] by (auto simp: is_ok_iff)
  obtain j where j: "canonical_json env x = Some j"
    using assms(1) unfolding ir_laws_def by (meson not_Some_eq)
  have u: "Suc u32_max \<le> Suc u64_max" by (simp add: int_limits)
  obtain bs' where b: "assign_block_ids env (hex_string (ir_sha256 env j)) 0 bs = Ok bs'" "length bs' = length bs"
    using assign_block_ids_total [of env bs 0] assms u by (fastforce simp: ir_laws_def)
  have p: "collect (provenance_of strat blob) [0..<length bs'] =
     Ok (map (\<lambda>i. \<lparr>prov_block_index = i, prov_strategy = strat, prov_source_blob = blob\<rparr>) [0..<length bs'])"
    using assms(3) b(2) by (intro collect_total) (auto simp: provenance_of_def try_from_def)
  show ?thesis
    using assms(1) x j b(1) p by (simp add: assemble_document_def canonical_block_content_def ir_laws_def Let_def)
qed

text \<open>The decisions \<open>from_html\<close> reaches on an input, before selection.\<close>

definition decisions_of :: "ir_env \<Rightarrow> (string \<Rightarrow> 'n html_dom) \<Rightarrow> 'a html_document_input \<Rightarrow> candidate_decision list" where
  "decisions_of env parse input =
     (let tree = parse (utf8_lossy env (input_bytes input));
          title = fst (scan_metadata env tree (dom_elements tree) None None)
      in map (\<lambda>c. evaluate c title) (extract_candidates tree))"

lemma from_html_won:
  assumes laws: "ir_laws env" and lim: "max_dom_nodes limits \<le> u32_max"
    and sc: "scan_metadata env tree (dom_elements tree) None None = (title, language)"
    and won: "winner (map (\<lambda>c. evaluate c title) (extract_candidates tree)) True = Some d"
    and size: "length (input_bytes input) \<le> max_input_bytes limits" "node_count tree \<le> max_dom_nodes limits"
    and nodes: "\<And>e. length (descendants tree e) \<le> node_count tree"
    and tree: "parse (utf8_lossy env (input_bytes input)) = tree"
  shows "is_ok (from_html env parse input limits)"
proof -
  obtain c where c: "c \<in> set (extract_candidates tree)" "d = evaluate c title"
    "List.find (\<lambda>k. strategy_str (cand_strategy k) = strategy d) (extract_candidates tree) = Some c"
    by (rule winner_candidate [OF won])
  have "OtherBlock \<notin> set (cand_blocks c)" "length (cand_blocks c) \<le> Suc u32_max"
    using candidate_blocks [OF c(1)] blocks_of_facts [of tree] nodes size(2) lim
    by (auto intro: le_trans) (meson Suc_le_mono le_trans)
  note total = assemble_document_total [OF laws this, of "input_owner input" "input_address input"
      "input_blob input" "strategy_str (cand_strategy c)" title language]
  obtain doc where
    doc: "assemble_document env (input_owner input) (input_address input) (input_blob input)
       (strategy_str (cand_strategy c)) title language (cand_blocks c) = Ok doc"
    using total unfolding is_ok_iff by blast
  show "is_ok (from_html env parse input limits)"
    using won size c find_by_strategy [OF c(1)] laws doc
    by (simp add: from_html_def tree Let_def sc ir_laws_def)
qed

text \<open>Given the contract crates' documented behaviour and a tree whose nodes have no more
  descendants than the tree has nodes, conversion fails in two ways only: with a resource-limit error
  exactly when the input or the recovered tree is over its budget, and otherwise with a low-quality
  error exactly when no candidate is accepted, which then carries the three unselected decisions.
  Every other input yields a document.\<close>

theorem from_html_outcomes:
  assumes laws: "ir_laws env" and lim: "max_dom_nodes limits \<le> u32_max"
    and "tree = parse (utf8_lossy env (input_bytes input))"
    and nodes: "\<And>e. length (descendants tree e) \<le> node_count tree"
  shows "if length (input_bytes input) > max_input_bytes limits \<or> node_count tree > max_dom_nodes limits
     then from_html env parse input limits = Err ResourceLimit
     else if list_ex accepted (decisions_of env parse input)
     then is_ok (from_html env parse input limits)
     else from_html env parse input limits = Err (LowQuality (decisions_of env parse input))
       \<and> list_all (\<lambda>d. \<not> selected d) (decisions_of env parse input)"
proof -
  obtain title language where sc: "scan_metadata env tree (dom_elements tree) None None = (title, language)"
    by fastforce
  let ?cs = "extract_candidates tree"
  let ?ds = "map (\<lambda>c. evaluate c title) ?cs"
  note tree = assms(3) [symmetric]
  have ds: "decisions_of env parse input = ?ds" by (simp add: decisions_of_def tree sc Let_def)
  consider (limit) "length (input_bytes input) > max_input_bytes limits \<or> node_count tree > max_dom_nodes limits"
    | (low) "length (input_bytes input) \<le> max_input_bytes limits" "node_count tree \<le> max_dom_nodes limits"
        "winner ?ds True = None"
    | (won) d where "length (input_bytes input) \<le> max_input_bytes limits" "node_count tree \<le> max_dom_nodes limits"
        "winner ?ds True = Some d"
    by (meson leI option.exhaust)
  then show ?thesis
  proof cases
    case limit
    then show ?thesis by (auto simp: from_html_def tree Let_def)
  next
    case low
    then have "\<not> list_ex accepted ?ds" unfolding winner_None by (auto simp: list_ex_iff)
    with low show ?thesis unfolding ds by (auto simp: from_html_def tree Let_def sc list_all_iff)
  next
    case won
    then have "is_ok (from_html env parse input limits)"
      using nodes by (intro from_html_won [OF laws lim sc]) (auto simp: tree)
    moreover have "list_ex accepted ?ds" using winner_facts(1,2) [OF won(3)] by (auto simp: list_ex_iff)
    ultimately show ?thesis using won(1,2) unfolding ds by simp
  qed
qed

text \<open>A page with one article holding one paragraph whose text is the source text.\<close>

definition sample_page :: "string \<Rightarrow> nat html_dom" where
  "sample_page s =
     \<lparr>nodes = [2, 3, 4, 5],
      node_value = (\<lambda>n. if n = 2 then \<lparr>node_name = [], node_kind = DocumentNode\<rparr>
        else if n = 3 then \<lparr>node_name = ''article'', node_kind = Element []\<rparr>
        else if n = 4 then \<lparr>node_name = ''p'', node_kind = Element []\<rparr>
        else \<lparr>node_name = [], node_kind = TextNode s\<rparr>),
      traversal = (\<lambda>n. [max 2 n..<6]), descendants = (\<lambda>n. [max 2 n..<6])\<rparr>"

definition sample_html :: "nat \<Rightarrow> string html_document_input" where
  "sample_html n =
     \<lparr>input_owner = replicate 16 1, input_address = ''https://a.io'', input_blob = sample_ref,
      input_bytes = replicate n (CHR ''x'')\<rparr>"

definition sample_limits :: parse_limits where
  "sample_limits = \<lparr>max_input_bytes = 1000, max_dom_nodes = 10\<rparr>"

lemma split_sample_text: "split_whitespace (replicate 130 (CHR ''x'')) = [replicate 130 (CHR ''x'')]"
  by code_simp

lemma sample_page_dom:
  "dom_elements (sample_page s) = [3, 4]" "node_count (sample_page s) = 4"
  "sub_elements (sample_page s) 3 = [3, 3, 4]" "sub_elements (sample_page s) 4 = [4, 4]"
  "element_name (sample_page s) 3 = ''article''" "element_name (sample_page s) 4 = ''p''"
  "element_text (sample_page s) 3 = [s]" "element_text (sample_page s) 4 = [s]"
  by (simp_all add: dom_elements_def sample_page_def wrap_def node_count_def sub_elements_def element_name_def
      element_text_def  upt_rec)

lemma sample_page_text:
  assumes "split_whitespace s = [s]" "s \<noteq> []"
  shows "normalized_text (sample_page s) 3 = Some s" "normalized_text (sample_page s) 4 = Some s"
    "blocks_of (sample_page s) 3 = [paragraph_block s]"
  using assms by (simp_all add: normalized_text_def sample_page_dom blocks_of_def  block_def Let_def)

lemma sample_page_candidates:
  assumes "split_whitespace s = [s]" "s \<noteq> []"
  shows "extract_candidates (sample_page s) =
    map (\<lambda>st. \<lparr>cand_strategy = st, cand_blocks = [paragraph_block s], link_characters = 0, boilerplate_characters = 0\<rparr>)
      [Semantic, Readability, Density]"
  using sample_page_text [OF assms]
  by (simp add: extract_candidates_def semantic_def semantic_root_def readability_def density_def
      best_container_def sample_page_dom candidate_of_def  Let_def)

lemma sample_page_decisions:
  assumes "split_whitespace s = [s]" "s \<noteq> []" "input_bytes input = s"
  shows "decisions_of sample_ir_env sample_page input =
    map (\<lambda>st. evaluate \<lparr>cand_strategy = st, cand_blocks = [paragraph_block s], link_characters = 0, boilerplate_characters = 0\<rparr> None)
      [Semantic, Readability, Density]"
  using sample_page_candidates [OF assms(1,2)] assms(3)
  by (simp add: decisions_of_def sample_ir_env_def sample_page_dom Let_def)

lemma sample_nodes: "length (descendants (sample_page s) e) \<le> node_count (sample_page s)"
  by (simp add: sample_page_def node_count_def)

lemma sample_limits_small: "max_dom_nodes sample_limits \<le> u32_max"
  by (simp add: sample_limits_def int_limits)

lemma paragraph_accepted:
  assumes "length s = 130"
  shows "accepted (evaluate \<lparr>cand_strategy = st, cand_blocks = [paragraph_block s], link_characters = 0,
     boilerplate_characters = 0\<rparr> None)"
  using no_markup_accepted_iff [of "[paragraph_block s]" None] assms
  by (auto simp: evaluate_def block_chars_def paragraph_block_def int_limits split: prod.splits)

lemma sample_accepted: "list_ex accepted (decisions_of sample_ir_env sample_page (sample_html 130))"
proof -
  let ?s = "replicate 130 (CHR ''x'')"
  have l: "length ?s = 130" "?s \<noteq> []" "input_bytes (sample_html 130) = ?s"
    by (simp_all only: length_replicate replicate_empty sample_html_def html_document_input.select_convs)
  show ?thesis
    unfolding sample_page_decisions [OF split_sample_text l(2,3)] list_ex_iff list.map
    using paragraph_accepted [OF l(1)] by (meson list.set_intros(1))
qed

lemma sample_extracts: "is_ok (from_html sample_ir_env sample_page (sample_html 130) sample_limits)"
proof -
  let ?t = "sample_page (replicate 130 (CHR ''x''))"
  have sc: "scan_metadata sample_ir_env ?t (dom_elements ?t) None None = (None, None)"
    by (simp add: sample_page_dom Let_def)
  have "\<exists>d. winner (map (\<lambda>c. evaluate c None) (extract_candidates ?t)) True = Some d"
    using sample_accepted winner_None [of "map (\<lambda>c. evaluate c None) (extract_candidates ?t)"]
    by (fastforce simp: decisions_of_def sample_ir_env_def sample_html_def list_ex_iff sample_page_dom Let_def)
  then show ?thesis
    using from_html_won [OF sample_ir_laws sample_limits_small sc _ _ _ sample_nodes, of _ "sample_html 130" sample_page]
    by (auto simp: sample_html_def sample_limits_def sample_ir_env_def sample_page_dom)
qed

theorem from_html_selects_the_best_candidate_witness:
  "\<exists>ext. from_html sample_ir_env sample_page (sample_html 130) sample_limits = Ok ext
     \<and> length (ext_candidates ext) = 3 \<and> (\<exists>d. filter selected (ext_candidates ext) = [d])"
proof -
  obtain ext where e: "from_html sample_ir_env sample_page (sample_html 130) sample_limits = Ok ext"
    using sample_extracts by (auto simp: is_ok_iff)
  from from_html_selects_the_best_candidate [OF e] e show ?thesis by blast
qed

theorem from_html_outcomes_witness:
  "from_html sample_ir_env sample_page (sample_html 1001) sample_limits = Err ResourceLimit
   \<and> is_ok (from_html sample_ir_env sample_page (sample_html 130) sample_limits)"
proof -
  note w = from_html_outcomes [where parse = sample_page, OF sample_ir_laws sample_limits_small refl sample_nodes]
  have "from_html sample_ir_env sample_page (sample_html 1001) sample_limits = Err ResourceLimit"
    using w [of "sample_html 1001"] by (simp add: sample_html_def sample_limits_def)
  moreover have "\<not> (length (input_bytes (sample_html 130)) > max_input_bytes sample_limits
      \<or> node_count (sample_page (utf8_lossy sample_ir_env (input_bytes (sample_html 130)))) > max_dom_nodes sample_limits)"
    by (simp add: sample_html_def sample_limits_def sample_page_dom)
  then have "is_ok (from_html sample_ir_env sample_page (sample_html 130) sample_limits)"
    using w [of "sample_html 130"] sample_accepted by (simp only: if_True if_False)
  ultimately show ?thesis ..
qed

end
