(* ===== verification/DomSink.thy ===== *)
theory DomSink
  imports DocumentIr
begin

text \<open>
  The tree builder's target, \<open>DomSink\<close> of \<open>crates/document-ir/src/dom.rs\<close>: the callbacks through which \<open>html5ever\<close>
  builds the tree that the candidates read. The tree is the crate \<open>ego_tree\<close>: the record \<open>tree_api\<close> holds the
  operations the sink calls, over an abstract tree and abstract node identifiers, and \<open>tree_laws\<close> what its documentation
  promises. An operation of the tree that can panic answers \<open>None\<close> when it does. The parser decides which callbacks
  it makes: the properties hold for every sequence of them.
\<close>

section \<open>Nodes\<close>

record qual_name =
  qn_prefix :: "string option"
  qn_ns :: string
  qn_local :: string

record attribute =
  at_name :: qual_name
  at_value :: string

datatype sink_kind = SinkDocument | SinkFragment | SinkElement "attribute list" | SinkText string | SinkOther

record sink_node =
  sk_name :: qual_name
  sk_kind :: sink_kind

definition node_new :: "sink_kind \<Rightarrow> sink_node" where
  "node_new kind = \<lparr>sk_name = \<lparr>qn_prefix = None, qn_ns = [], qn_local = []\<rparr>, sk_kind = kind\<rparr>"

definition node_element :: "qual_name \<Rightarrow> attribute list \<Rightarrow> sink_node" where
  "node_element name attrs = \<lparr>sk_name = name, sk_kind = SinkElement attrs\<rparr>"

section \<open>The tree\<close>

record ('t, 'i) tree_api =
  tr_new :: "sink_node \<Rightarrow> 't"
  tr_root :: "'t \<Rightarrow> 'i"
  tr_nodes :: "'t \<Rightarrow> 'i list"
  tr_value :: "'t \<Rightarrow> 'i \<Rightarrow> sink_node"
  tr_set :: "'i \<Rightarrow> sink_node \<Rightarrow> 't \<Rightarrow> 't"
  tr_parent :: "'t \<Rightarrow> 'i \<Rightarrow> 'i option"
  tr_children :: "'t \<Rightarrow> 'i \<Rightarrow> 'i list"
  tr_first_child :: "'t \<Rightarrow> 'i \<Rightarrow> 'i option"
  tr_last_child :: "'t \<Rightarrow> 'i \<Rightarrow> 'i option"
  tr_prev_sibling :: "'t \<Rightarrow> 'i \<Rightarrow> 'i option"
  tr_orphan :: "sink_node \<Rightarrow> 't \<Rightarrow> 'i \<times> 't"
  tr_append :: "'i \<Rightarrow> sink_node \<Rightarrow> 't \<Rightarrow> 'i \<times> 't"
  tr_append_id :: "'i \<Rightarrow> 'i \<Rightarrow> 't \<Rightarrow> 't option"
  tr_insert_before :: "'i \<Rightarrow> sink_node \<Rightarrow> 't \<Rightarrow> ('i \<times> 't) option"
  tr_insert_id_before :: "'i \<Rightarrow> 'i \<Rightarrow> 't \<Rightarrow> 't option"
  tr_detach :: "'i \<Rightarrow> 't \<Rightarrow> 't"
  tr_reparent_from_id_append :: "'i \<Rightarrow> 'i \<Rightarrow> 't \<Rightarrow> 't option"
  tr_traverse :: "'t \<Rightarrow> 'i \<Rightarrow> 'i list"
  tr_descendants :: "'t \<Rightarrow> 'i \<Rightarrow> 'i list"

text \<open>\<open>tree.get(id)\<close> is \<open>Some\<close>.\<close>

definition tr_has :: "('t, 'i) tree_api \<Rightarrow> 't \<Rightarrow> 'i \<Rightarrow> bool" where
  "tr_has api t i = (i \<in> set (tr_nodes api t))"

section \<open>Callbacks\<close>

datatype 'i node_or_text = AppendNode 'i | AppendText string

definition sink_new :: "('t, 'i) tree_api \<Rightarrow> 't" where
  "sink_new api = tr_new api (node_new SinkDocument)"

definition get_document :: "('t, 'i) tree_api \<Rightarrow> 't \<Rightarrow> 'i" where
  "get_document api t = tr_root api t"

definition elem_name :: "('t, 'i) tree_api \<Rightarrow> 't \<Rightarrow> 'i \<Rightarrow> qual_name" where
  "elem_name api t target = sk_name (tr_value api t (if tr_has api t target then target else tr_root api t))"

definition is_template :: "qual_name \<Rightarrow> bool" where
  "is_template name = (qn_ns name = ''http://www.w3.org/1999/xhtml'' \<and> qn_local name = ''template'')"

definition create_element :: "('t, 'i) tree_api \<Rightarrow> qual_name \<Rightarrow> attribute list \<Rightarrow> 't \<Rightarrow> 'i \<times> 't" where
  "create_element api name attrs t =
     (case tr_orphan api (node_element name attrs) t of
        (i, t) \<Rightarrow> (i, if is_template name then snd (tr_append api i (node_new SinkFragment) t) else t))"

definition create_comment :: "('t, 'i) tree_api \<Rightarrow> 't \<Rightarrow> 'i \<times> 't" where
  "create_comment api t = tr_orphan api (node_new SinkOther) t"

definition create_pi :: "('t, 'i) tree_api \<Rightarrow> 't \<Rightarrow> 'i \<times> 't" where
  "create_pi api t = tr_orphan api (node_new SinkOther) t"

text \<open>Text is pushed onto the neighbour when there is one and it is a text.\<close>

definition push_text :: "('t, 'i) tree_api \<Rightarrow> 'i option \<Rightarrow> string \<Rightarrow> 't \<Rightarrow> 't option" where
  "push_text api neighbour s t =
     (case neighbour of
        None \<Rightarrow> None
      | Some i \<Rightarrow>
          (case sk_kind (tr_value api t i) of
             SinkText existing \<Rightarrow> Some (tr_set api i ((tr_value api t i)\<lparr>sk_kind := SinkText (existing @ s)\<rparr>) t)
           | _ \<Rightarrow> None))"

definition sink_append :: "('t, 'i) tree_api \<Rightarrow> 'i \<Rightarrow> 'i node_or_text \<Rightarrow> 't \<Rightarrow> 't option" where
  "sink_append api parent child t =
     (if \<not> tr_has api t parent then Some t
      else case child of
        AppendNode n \<Rightarrow> tr_append_id api parent n t
      | AppendText s \<Rightarrow>
          (case push_text api (tr_last_child api t parent) s t of
             Some joined \<Rightarrow> Some joined
           | None \<Rightarrow> Some (snd (tr_append api parent (node_new (SinkText s)) t))))"

definition append_before_sibling :: "('t, 'i) tree_api \<Rightarrow> 'i \<Rightarrow> 'i node_or_text \<Rightarrow> 't \<Rightarrow> 't option" where
  "append_before_sibling api sibling child t =
     (let t = (case child of AppendNode n \<Rightarrow> if tr_has api t n then tr_detach api n t else t | AppendText _ \<Rightarrow> t) in
      if \<not> tr_has api t sibling then Some t
      else if tr_parent api t sibling = None then Some t
      else case child of
        AppendNode n \<Rightarrow> tr_insert_id_before api sibling n t
      | AppendText s \<Rightarrow>
          (case push_text api (tr_prev_sibling api t sibling) s t of
             Some joined \<Rightarrow> Some joined
           | None \<Rightarrow> map_option snd (tr_insert_before api sibling (node_new (SinkText s)) t)))"

definition append_based_on_parent_node ::
  "('t, 'i) tree_api \<Rightarrow> 'i \<Rightarrow> 'i \<Rightarrow> 'i node_or_text \<Rightarrow> 't \<Rightarrow> 't option" where
  "append_based_on_parent_node api element previous child t =
     (if tr_has api t element \<and> tr_parent api t element \<noteq> None then append_before_sibling api element child t
      else sink_append api previous child t)"

definition append_doctype_to_document :: "('t, 'i) tree_api \<Rightarrow> 't \<Rightarrow> 't" where
  "append_doctype_to_document api t = snd (tr_append api (tr_root api t) (node_new SinkOther) t)"

definition get_template_contents :: "('t, 'i) tree_api \<Rightarrow> 't \<Rightarrow> 'i \<Rightarrow> 'i" where
  "get_template_contents api t target =
     (case (if tr_has api t target then tr_first_child api t target else None) of
        Some n \<Rightarrow> n
      | None \<Rightarrow> get_document api t)"

fun missing_attrs :: "attribute list \<Rightarrow> attribute list \<Rightarrow> attribute list" where
  "missing_attrs existing [] = existing"
| "missing_attrs existing (a # attrs) =
     missing_attrs (if list_ex (\<lambda>current. at_name current = at_name a) existing then existing else existing @ [a]) attrs"

definition add_attrs_if_missing :: "('t, 'i) tree_api \<Rightarrow> 'i \<Rightarrow> attribute list \<Rightarrow> 't \<Rightarrow> 't" where
  "add_attrs_if_missing api target attrs t =
     (if \<not> tr_has api t target then t
      else case sk_kind (tr_value api t target) of
        SinkElement existing \<Rightarrow>
          tr_set api target ((tr_value api t target)\<lparr>sk_kind := SinkElement (missing_attrs existing attrs)\<rparr>) t
      | _ \<Rightarrow> t)"

definition remove_from_parent :: "('t, 'i) tree_api \<Rightarrow> 'i \<Rightarrow> 't \<Rightarrow> 't" where
  "remove_from_parent api target t = (if tr_has api t target then tr_detach api target t else t)"

definition reparent_children :: "('t, 'i) tree_api \<Rightarrow> 'i \<Rightarrow> 'i \<Rightarrow> 't \<Rightarrow> 't option" where
  "reparent_children api n new_parent t =
     (if tr_has api t new_parent then tr_reparent_from_id_append api new_parent n t else Some t)"

text \<open>The callbacks that change the tree, as values.\<close>

datatype 'i sink_call =
    CreateElement qual_name "attribute list"
  | CreateComment
  | CreatePi
  | Append 'i "'i node_or_text"
  | AppendBasedOnParentNode 'i 'i "'i node_or_text"
  | AppendDoctype
  | AppendBeforeSibling 'i "'i node_or_text"
  | AddAttrsIfMissing 'i "attribute list"
  | RemoveFromParent 'i
  | ReparentChildren 'i 'i

fun call_sink :: "('t, 'i) tree_api \<Rightarrow> 'i sink_call \<Rightarrow> 't \<Rightarrow> 't option" where
  "call_sink api (CreateElement name attrs) t = Some (snd (create_element api name attrs t))"
| "call_sink api CreateComment t = Some (snd (create_comment api t))"
| "call_sink api CreatePi t = Some (snd (create_pi api t))"
| "call_sink api (Append p c) t = sink_append api p c t"
| "call_sink api (AppendBasedOnParentNode e p c) t = append_based_on_parent_node api e p c t"
| "call_sink api AppendDoctype t = Some (append_doctype_to_document api t)"
| "call_sink api (AppendBeforeSibling s c) t = append_before_sibling api s c t"
| "call_sink api (AddAttrsIfMissing i attrs) t = Some (add_attrs_if_missing api i attrs t)"
| "call_sink api (RemoveFromParent i) t = Some (remove_from_parent api i t)"
| "call_sink api (ReparentChildren n p) t = reparent_children api n p t"

fun sink_run :: "('t, 'i) tree_api \<Rightarrow> 'i sink_call list \<Rightarrow> 't \<Rightarrow> 't option" where
  "sink_run api [] t = Some t"
| "sink_run api (c # cs) t = Option.bind (call_sink api c t) (sink_run api cs)"

text \<open>What the rest of the crate sees of a finished tree: the local names, as \<open>Element::name\<close> and
  \<open>Element::attr\<close> read them.\<close>

definition view_node :: "sink_node \<Rightarrow> dom_node" where
  "view_node n =
     \<lparr>node_name = qn_local (sk_name n),
      node_kind = (case sk_kind n of
        SinkDocument \<Rightarrow> DocumentNode
      | SinkFragment \<Rightarrow> Fragment
      | SinkElement attrs \<Rightarrow> Element (map (\<lambda>a. (qn_local (at_name a), at_value a)) attrs)
      | SinkText s \<Rightarrow> TextNode s
      | SinkOther \<Rightarrow> OtherNode)\<rparr>"

definition finish :: "('t, 'i) tree_api \<Rightarrow> 't \<Rightarrow> 'i html_dom" where
  "finish api t =
     \<lparr>nodes = tr_nodes api t, node_value = (\<lambda>i. view_node (tr_value api t i)), traversal = tr_traverse api t,
      descendants = tr_descendants api t\<rparr>"

text \<open>\<open>HtmlDom::parse\<close>: \<open>calls\<close> are the callbacks \<open>html5ever\<close> makes for a source text.\<close>

definition parse_dom :: "('t, 'i) tree_api \<Rightarrow> (string \<Rightarrow> 'i sink_call list) \<Rightarrow> string \<Rightarrow> 'i html_dom option" where
  "parse_dom api calls source = map_option (finish api) (sink_run api (calls source) (sink_new api))"

section \<open>What the tree promises\<close>

text \<open>\<open>same_nodes\<close>: an operation that moves nodes keeps them and their values. \<open>adds_node\<close>: an operation that
  creates one adds it with its value. \<open>tok\<close> is the invariant of the tree's representation.\<close>

definition same_nodes :: "('t, 'i) tree_api \<Rightarrow> 't \<Rightarrow> 't \<Rightarrow> bool" where
  "same_nodes api t t' = (tr_nodes api t' = tr_nodes api t \<and> (\<forall>i. tr_has api t i \<longrightarrow> tr_value api t' i = tr_value api t i))"

definition adds_node :: "('t, 'i) tree_api \<Rightarrow> sink_node \<Rightarrow> 't \<Rightarrow> 'i \<times> 't \<Rightarrow> bool" where
  "adds_node api v t r =
     (case r of (i, t') \<Rightarrow>
        \<not> tr_has api t i \<and> tr_nodes api t' = tr_nodes api t @ [i] \<and> tr_value api t' i = v
        \<and> (\<forall>j. tr_has api t j \<longrightarrow> tr_value api t' j = tr_value api t j))"

definition value_laws :: "('t, 'i) tree_api \<Rightarrow> ('t \<Rightarrow> bool) \<Rightarrow> bool" where
  "value_laws api tok \<longleftrightarrow>
     (\<forall>v. tok (tr_new api v) \<and> tr_nodes api (tr_new api v) = [tr_root api (tr_new api v)]
          \<and> tr_value api (tr_new api v) (tr_root api (tr_new api v)) = v)
     \<and> (\<forall>t. tok t \<longrightarrow> tr_has api t (tr_root api t))
     \<and> (\<forall>t i v. tok t \<longrightarrow> tr_has api t i \<longrightarrow>
          tok (tr_set api i v t) \<and> tr_nodes api (tr_set api i v t) = tr_nodes api t
          \<and> (\<forall>j. tr_value api (tr_set api i v t) j = (if j = i then v else tr_value api t j)))
     \<and> (\<forall>t i c. tok t \<longrightarrow> tr_has api t i \<longrightarrow> tr_last_child api t i = Some c \<longrightarrow> tr_has api t c)
     \<and> (\<forall>t i c. tok t \<longrightarrow> tr_has api t i \<longrightarrow> tr_prev_sibling api t i = Some c \<longrightarrow> tr_has api t c)"

definition create_laws :: "('t, 'i) tree_api \<Rightarrow> ('t \<Rightarrow> bool) \<Rightarrow> bool" where
  "create_laws api tok \<longleftrightarrow>
     (\<forall>t v. tok t \<longrightarrow> tok (snd (tr_orphan api v t)) \<and> adds_node api v t (tr_orphan api v t))
     \<and> (\<forall>t i v. tok t \<longrightarrow> tr_has api t i \<longrightarrow>
          tok (snd (tr_append api i v t)) \<and> adds_node api v t (tr_append api i v t))
     \<and> (\<forall>t i v r. tok t \<longrightarrow> tr_has api t i \<longrightarrow> tr_insert_before api i v t = Some r \<longrightarrow> tok (snd r) \<and> adds_node api v t r)"

definition move_laws :: "('t, 'i) tree_api \<Rightarrow> ('t \<Rightarrow> bool) \<Rightarrow> bool" where
  "move_laws api tok \<longleftrightarrow>
     (\<forall>t i j t'. tok t \<longrightarrow> tr_append_id api i j t = Some t' \<longrightarrow> tok t' \<and> same_nodes api t t')
     \<and> (\<forall>t i j t'. tok t \<longrightarrow> tr_insert_id_before api i j t = Some t' \<longrightarrow> tok t' \<and> same_nodes api t t')
     \<and> (\<forall>t i j t'. tok t \<longrightarrow> tr_reparent_from_id_append api i j t = Some t' \<longrightarrow> tok t' \<and> same_nodes api t t')
     \<and> (\<forall>t i. tok t \<longrightarrow> tok (tr_detach api i t) \<and> same_nodes api t (tr_detach api i t))"

definition child_laws :: "('t, 'i) tree_api \<Rightarrow> ('t \<Rightarrow> bool) \<Rightarrow> bool" where
  "child_laws api tok \<longleftrightarrow>
     (\<forall>t i. tok t \<longrightarrow> tr_has api t i \<longrightarrow> set (tr_children api t i) \<subseteq> set (tr_nodes api t) \<and> distinct (tr_children api t i))
     \<and> (\<forall>t i. tok t \<longrightarrow> tr_has api t i \<longrightarrow>
          tr_last_child api t i = (if tr_children api t i = [] then None else Some (last (tr_children api t i))))
     \<and> (\<forall>t i v j. tok t \<longrightarrow> tr_has api t i \<longrightarrow> tr_children api (tr_set api i v t) j = tr_children api t j)
     \<and> (\<forall>t i v j. tok t \<longrightarrow> tr_has api t i \<longrightarrow> tr_has api t j \<longrightarrow>
          tr_children api (snd (tr_append api i v t)) j =
            (if j = i then tr_children api t i @ [fst (tr_append api i v t)] else tr_children api t j))"

definition tree_laws :: "('t, 'i) tree_api \<Rightarrow> ('t \<Rightarrow> bool) \<Rightarrow> bool" where
  "tree_laws api tok \<longleftrightarrow> value_laws api tok \<and> create_laws api tok \<and> move_laws api tok \<and> child_laws api tok"

section \<open>What a callback may change\<close>

text \<open>A recorded node keeps its name; its attributes and its text are only ever extended, the attributes by new
  names.\<close>

fun kind_later :: "sink_kind \<Rightarrow> sink_kind \<Rightarrow> bool" where
  "kind_later (SinkElement a) k = (\<exists>b. k = SinkElement (a @ b) \<and> at_name ` set a \<inter> at_name ` set b = {})"
| "kind_later (SinkText s) k = (\<exists>u. k = SinkText (s @ u))"
| "kind_later k k' = (k' = k)"

definition node_later :: "sink_node \<Rightarrow> sink_node \<Rightarrow> bool" where
  "node_later n n' = (sk_name n' = sk_name n \<and> kind_later (sk_kind n) (sk_kind n'))"

definition sound_node :: "sink_node \<Rightarrow> bool" where
  "sound_node n = (case sk_kind n of SinkElement attrs \<Rightarrow> distinct (map at_name attrs) | _ \<Rightarrow> True)"

definition sound_call :: "'i sink_call \<Rightarrow> bool" where
  "sound_call c = (case c of CreateElement name attrs \<Rightarrow> distinct (map at_name attrs) | _ \<Rightarrow> True)"

lemma kind_later_refl [simp]: "kind_later k k"
  by (cases k) auto

lemma kind_later_trans: "kind_later a b \<Longrightarrow> kind_later b c \<Longrightarrow> kind_later a c"
  by (cases a) (auto simp: image_Un Int_Un_distrib Int_Un_distrib2)

lemma node_later_refl [simp]: "node_later n n"
  by (simp add: node_later_def)

lemma node_later_trans: "node_later a b \<Longrightarrow> node_later b c \<Longrightarrow> node_later a c"
  by (auto simp: node_later_def intro: kind_later_trans)

text \<open>The step every callback makes: the tree stays well formed and every node is kept up to \<open>node_later\<close>, and the
  nodes are sound when they were and the call brings none that is not. \<open>ok\<close> says that new nodes are sound.\<close>

definition tree_step :: "('t, 'i) tree_api \<Rightarrow> ('t \<Rightarrow> bool) \<Rightarrow> nat \<Rightarrow> 't \<Rightarrow> 't \<Rightarrow> bool" where
  "tree_step api tok k t t' \<longleftrightarrow>
     tok t' \<and> set (tr_nodes api t) \<subseteq> set (tr_nodes api t') \<and> length (tr_nodes api t') \<le> length (tr_nodes api t) + k
     \<and> (\<forall>i. tr_has api t i \<longrightarrow> node_later (tr_value api t i) (tr_value api t' i))
     \<and> ((\<forall>i. tr_has api t i \<longrightarrow> sound_node (tr_value api t i)) \<longrightarrow> (\<forall>i. tr_has api t' i \<longrightarrow> sound_node (tr_value api t' i)))"

lemma tree_step_refl [simp]: "tok t \<Longrightarrow> tree_step api tok k t t"
  by (simp add: tree_step_def)

lemma tree_step_trans:
  assumes a: "tree_step api tok j t u" and b: "tree_step api tok k u w"
  shows "tree_step api tok (j + k) t w"
proof -
  have "node_later (tr_value api t i) (tr_value api w i)" if "tr_has api t i" for i
  proof -
    have "tr_has api u i" using that a by (auto simp: tree_step_def tr_has_def)
    then show ?thesis using that a b node_later_trans unfolding tree_step_def by blast
  qed
  then show ?thesis using a b by (simp add: tree_step_def) blast
qed

lemma tree_step_weaken: "tree_step api tok j t u \<Longrightarrow> j \<le> k \<Longrightarrow> tree_step api tok k t u"
  by (auto simp: tree_step_def)

lemma same_nodes_step: "tok t' \<Longrightarrow> same_nodes api t t' \<Longrightarrow> tree_step api tok 0 t t'"
  by (auto simp: tree_step_def same_nodes_def tr_has_def)

lemma adds_node_step: "tok (snd r) \<Longrightarrow> adds_node api v t r \<Longrightarrow> sound_node v \<Longrightarrow> tree_step api tok 1 t (snd r)"
  by (cases r) (auto simp: tree_step_def adds_node_def tr_has_def)

lemma set_facts:
  assumes "value_laws api tok" "tok t" "tr_has api t i"
  shows "tok (tr_set api i v t)" "tr_nodes api (tr_set api i v t) = tr_nodes api t"
    and "tr_value api (tr_set api i v t) j = (if j = i then v else tr_value api t j)"
  using assms unfolding value_laws_def by blast+

lemma set_step:
  assumes "value_laws api tok" "tok t" "tr_has api t i" "node_later (tr_value api t i) v"
    and "sound_node (tr_value api t i) \<Longrightarrow> sound_node v"
  shows "tree_step api tok 0 t (tr_set api i v t)"
  using assms(3-5) set_facts [OF assms(1-3), of v] by (simp add: tree_step_def tr_has_def)

lemma push_text_step:
  assumes "value_laws api tok" "tok t" "\<And>i. n = Some i \<Longrightarrow> tr_has api t i" "push_text api n s t = Some t'"
  shows "tree_step api tok 0 t t'"
  using assms
  by (auto simp: push_text_def node_later_def sound_node_def intro!: set_step split: option.splits sink_kind.splits)

lemma missing_attrs_extends:
  "\<exists>b. missing_attrs existing attrs = existing @ b \<and> at_name ` set existing \<inter> at_name ` set b = {} \<and> distinct (map at_name b)"
proof (induction existing attrs rule: missing_attrs.induct)
  case (2 existing a attrs)
  show ?case
  proof (cases "list_ex (\<lambda>current. at_name current = at_name a) existing")
    case True
    with 2 show ?thesis by simp
  next
    case False
    with 2 obtain b where b: "missing_attrs (existing @ [a]) attrs = (existing @ [a]) @ b"
      "at_name ` set (existing @ [a]) \<inter> at_name ` set b = {}" "distinct (map at_name b)" by auto
    have "at_name a \<notin> at_name ` set existing" using False by (auto simp: list_ex_iff)
    with b False show ?thesis by (intro exI [of _ "a # b"]) auto
  qed
qed simp

lemma add_attrs_step:
  assumes "value_laws api tok" "tok t"
  shows "tree_step api tok 0 t (add_attrs_if_missing api i attrs t)"
proof (cases "tr_has api t i")
  case True
  show ?thesis
  proof (cases "sk_kind (tr_value api t i)")
    case (SinkElement existing)
    obtain b where b: "missing_attrs existing attrs = existing @ b" "at_name ` set existing \<inter> at_name ` set b = {}"
      "distinct (map at_name b)"
      using missing_attrs_extends [of existing attrs] by blast
    then show ?thesis
      using True SinkElement assms
      by (auto simp: add_attrs_if_missing_def node_later_def sound_node_def intro!: set_step)
  qed (use True assms in \<open>simp_all add: add_attrs_if_missing_def\<close>)
qed (use assms in \<open>simp add: add_attrs_if_missing_def\<close>)

lemma create_steps:
  assumes "create_laws api tok" "tok t" "sound_node v"
  shows "tree_step api tok 1 t (snd (tr_orphan api v t))"
    and "tr_has api t i \<Longrightarrow> tree_step api tok 1 t (snd (tr_append api i v t))"
    and "tr_has api t i \<Longrightarrow> tr_insert_before api i v t = Some r \<Longrightarrow> tree_step api tok 1 t (snd r)"
proof -
  note laws = assms(1,2) [unfolded create_laws_def]
  have "tok (snd (tr_orphan api v t))" "adds_node api v t (tr_orphan api v t)" using laws by blast+
  then show "tree_step api tok 1 t (snd (tr_orphan api v t))" using assms(3) by (rule adds_node_step)
  show "tree_step api tok 1 t (snd (tr_append api i v t))" if i: "tr_has api t i"
  proof -
    have "tok (snd (tr_append api i v t))" "adds_node api v t (tr_append api i v t)" using laws i by blast+
    then show ?thesis using assms(3) by (rule adds_node_step)
  qed
  show "tree_step api tok 1 t (snd r)" if i: "tr_has api t i" "tr_insert_before api i v t = Some r"
  proof -
    have "tok (snd r)" "adds_node api v t r" using laws i by blast+
    then show ?thesis using assms(3) by (rule adds_node_step)
  qed
qed

lemma move_steps:
  assumes "move_laws api tok" "tok t"
  shows "tr_append_id api i j t = Some t' \<Longrightarrow> tree_step api tok 0 t t'"
    and "tr_insert_id_before api i j t = Some t' \<Longrightarrow> tree_step api tok 0 t t'"
    and "tr_reparent_from_id_append api i j t = Some t' \<Longrightarrow> tree_step api tok 0 t t'"
    and "tree_step api tok 0 t (tr_detach api i t)"
  using assms unfolding move_laws_def by (blast intro: same_nodes_step)+

lemma sound_new: "sound_node (node_new SinkOther)" "sound_node (node_new SinkFragment)" "sound_node (node_new (SinkText s))"
  by (simp_all add: sound_node_def node_new_def)

lemma create_element_step:
  assumes "create_laws api tok" "tok t" "distinct (map at_name attrs)"
  shows "tree_step api tok 2 t (snd (create_element api name attrs t))"
proof -
  obtain i u where o: "tr_orphan api (node_element name attrs) t = (i, u)" by fastforce
  have "sound_node (node_element name attrs)" using assms(3) by (simp add: sound_node_def node_element_def)
  from create_steps(1) [OF assms(1,2) this] o have one: "tree_step api tok 1 t u" by simp
  have "adds_node api (node_element name attrs) t (i, u)"
    using assms(1,2) unfolding create_laws_def o [symmetric] by blast
  then have i: "tr_has api u i" by (simp add: adds_node_def tr_has_def)
  have "tok u" using one by (simp add: tree_step_def)
  from create_steps(2) [OF assms(1) this sound_new(2) i]
  have "tree_step api tok 1 u (snd (tr_append api i (node_new SinkFragment) u))" .
  from tree_step_trans [OF one this] tree_step_weaken [OF one, of 2] show ?thesis
    by (simp add: create_element_def o numeral_2_eq_2)
qed

lemma sink_append_step:
  assumes "tree_laws api tok" "tok t" "sink_append api p c t = Some t'"
  shows "tree_step api tok 1 t t'"
proof -
  have laws: "value_laws api tok" "create_laws api tok" "move_laws api tok"
    using assms(1) by (simp_all add: tree_laws_def)
  show ?thesis
  proof (cases "tr_has api t p")
    case True
    show ?thesis
    proof (cases c)
      case (AppendNode n)
      with True assms(3) have "tr_append_id api p n t = Some t'" by (simp add: sink_append_def)
      from move_steps(1) [OF laws(3) assms(2) this] show ?thesis by (rule tree_step_weaken) simp
    next
      case (AppendText s)
      have child: "tr_last_child api t p = Some i \<Longrightarrow> tr_has api t i" for i
        using laws(1) assms(2) True unfolding value_laws_def by blast
      show ?thesis
      proof (cases "push_text api (tr_last_child api t p) s t")
        case None
        with True AppendText assms(3) have "t' = snd (tr_append api p (node_new (SinkText s)) t)"
          by (simp add: sink_append_def)
        then show ?thesis
          using create_steps(2) [OF laws(2) assms(2) sound_new(3) True] by simp
      next
        case (Some u)
        with True AppendText assms(3) have "u = t'" by (simp add: sink_append_def)
        with push_text_step [OF laws(1) assms(2) child Some] show ?thesis by (auto intro: tree_step_weaken)
      qed
    qed
  qed (use assms(2,3) in \<open>simp add: sink_append_def\<close>)
qed

lemma insert_text_step:
  assumes "tree_laws api tok" "tok t" "tr_has api t i"
    and "(case push_text api (tr_prev_sibling api t i) s t of
            Some joined \<Rightarrow> Some joined
          | None \<Rightarrow> map_option snd (tr_insert_before api i (node_new (SinkText s)) t)) = Some t'"
  shows "tree_step api tok 1 t t'"
proof -
  have laws: "value_laws api tok" "create_laws api tok"
    using assms(1) by (simp_all add: tree_laws_def)
  have near: "tr_prev_sibling api t i = Some j \<Longrightarrow> tr_has api t j" for j
    using laws(1) assms(2,3) unfolding value_laws_def by blast
  show ?thesis
  proof (cases "push_text api (tr_prev_sibling api t i) s t")
    case None
    with assms(4) obtain r where r: "tr_insert_before api i (node_new (SinkText s)) t = Some r" "t' = snd r" by auto
    with create_steps(3) [OF laws(2) assms(2) sound_new(3) assms(3) r(1)] show ?thesis by simp
  next
    case (Some u)
    with assms(4) push_text_step [OF laws(1) assms(2) near Some] show ?thesis by (auto intro: tree_step_weaken)
  qed
qed

lemma append_before_sibling_step:
  assumes "tree_laws api tok" "tok t" "append_before_sibling api i c t = Some t'"
  shows "tree_step api tok 1 t t'"
proof -
  have laws: "move_laws api tok" using assms(1) by (simp add: tree_laws_def)
  show ?thesis
  proof (cases c)
    case (AppendNode n)
    let ?u = "if tr_has api t n then tr_detach api n t else t"
    have u: "tree_step api tok 0 t ?u" using move_steps(4) [OF laws assms(2)] assms(2) by simp
    then have "tok ?u" by (simp add: tree_step_def)
    have "tree_step api tok 0 ?u t'"
      using assms(3) AppendNode move_steps(2) [OF laws \<open>tok ?u\<close>] \<open>tok ?u\<close>
      by (simp add: append_before_sibling_def Let_def split: if_splits)
    from tree_step_trans [OF u this] show ?thesis by (auto intro: tree_step_weaken)
  next
    case (AppendText s)
    then show ?thesis
      using assms insert_text_step [OF assms(1,2), of i s t']
      by (auto simp: append_before_sibling_def split: if_splits)
  qed
qed

lemma call_sink_step:
  assumes laws: "tree_laws api tok" and t: "tok t" and call: "call_sink api c t = Some t'" and sound: "sound_call c"
  shows "tree_step api tok 2 t t'"
proof -
  have parts: "value_laws api tok" "create_laws api tok" "move_laws api tok"
    using laws by (simp_all add: tree_laws_def)
  have other: "tree_step api tok 2 t (snd (tr_orphan api (node_new SinkOther) t))"
    using create_steps(1) [OF parts(2) t sound_new(1)] by (rule tree_step_weaken) simp
  show ?thesis
  proof (cases c)
    case (CreateElement name attrs)
    with call sound create_element_step [OF parts(2) t, of attrs name] show ?thesis by (auto simp: sound_call_def)
  next
    case (Append p d)
    with call sink_append_step [OF laws t, of p d t'] show ?thesis by (auto intro: tree_step_weaken)
  next
    case (AppendBasedOnParentNode e p d)
    with call sink_append_step [OF laws t, of p d t'] append_before_sibling_step [OF laws t, of e d t'] show ?thesis
      by (auto simp: append_based_on_parent_node_def intro: tree_step_weaken split: if_splits)
  next
    case AppendDoctype
    have "tr_has api t (tr_root api t)" using parts(1) t unfolding value_laws_def by blast
    from create_steps(2) [OF parts(2) t sound_new(1) this] AppendDoctype call show ?thesis
      by (auto simp: append_doctype_to_document_def intro: tree_step_weaken)
  next
    case (AppendBeforeSibling s d)
    with call append_before_sibling_step [OF laws t, of s d t'] show ?thesis by (auto intro: tree_step_weaken)
  next
    case (AddAttrsIfMissing i attrs)
    with call add_attrs_step [OF parts(1) t, of i attrs] show ?thesis by (auto intro: tree_step_weaken)
  next
    case (RemoveFromParent i)
    with call move_steps(4) [OF parts(3) t, of i] t show ?thesis
      by (auto simp: remove_from_parent_def intro: tree_step_weaken)
  next
    case (ReparentChildren n p)
    with call move_steps(3) [OF parts(3) t, of p n t'] t show ?thesis
      by (auto simp: reparent_children_def intro: tree_step_weaken split: if_splits)
  qed (use call other in \<open>simp_all add: create_comment_def create_pi_def\<close>)
qed

lemma sink_run_step:
  assumes "tree_laws api tok" "tok t" "sink_run api cs t = Some t'" "list_all sound_call cs"
  shows "tree_step api tok (2 * length cs) t t'"
  using assms
proof (induction cs arbitrary: t)
  case (Cons c cs)
  then obtain u where u: "call_sink api c t = Some u" "sink_run api cs u = Some t'"
    by (auto simp: bind_eq_Some_conv)
  have one: "tree_step api tok 2 t u" using call_sink_step [OF Cons(2,3) u(1)] Cons(5) by simp
  then have "tok u" by (simp add: tree_step_def)
  from tree_step_trans [OF one Cons(1) [OF Cons(2) this u(2)]] Cons(5) show ?case by simp
qed simp

section \<open>A small tree\<close>

text \<open>An instance of the interface: the values, and the child and its parent of every link in document order.\<close>

record arena =
  ar_values :: "sink_node list"
  ar_links :: "(nat \<times> nat) list"

definition arena_children :: "arena \<Rightarrow> nat \<Rightarrow> nat list" where
  "arena_children t p = map fst (filter (\<lambda>x. snd x = p) (ar_links t))"

definition arena_detach :: "nat \<Rightarrow> arena \<Rightarrow> arena" where
  "arena_detach i t = t\<lparr>ar_links := filter (\<lambda>x. fst x \<noteq> i) (ar_links t)\<rparr>"

definition arena_before :: "nat \<Rightarrow> nat \<times> nat \<Rightarrow> arena \<Rightarrow> arena" where
  "arena_before s l t =
     t\<lparr>ar_links := takeWhile (\<lambda>x. fst x \<noteq> s) (ar_links t) @ l # dropWhile (\<lambda>x. fst x \<noteq> s) (ar_links t)\<rparr>"

fun arena_open :: "nat \<Rightarrow> arena \<Rightarrow> nat \<Rightarrow> nat list" where
  "arena_open 0 t i = []"
| "arena_open (Suc depth) t i = i # concat (map (arena_open depth t) (arena_children t i))"

definition arena_api :: "(arena, nat) tree_api" where
  "arena_api =
     \<lparr>tr_new = (\<lambda>v. \<lparr>ar_values = [v], ar_links = []\<rparr>), tr_root = (\<lambda>_. 0),
      tr_nodes = (\<lambda>t. [0..<length (ar_values t)]), tr_value = (\<lambda>t i. ar_values t ! i),
      tr_set = (\<lambda>i v t. t\<lparr>ar_values := (ar_values t)[i := v]\<rparr>),
      tr_parent = (\<lambda>t. map_of (ar_links t)), tr_children = arena_children,
      tr_first_child = (\<lambda>t i. case arena_children t i of [] \<Rightarrow> None | c # _ \<Rightarrow> Some c),
      tr_last_child = (\<lambda>t i. if arena_children t i = [] then None else Some (last (arena_children t i))),
      tr_prev_sibling = (\<lambda>t i. case map_of (ar_links t) i of
          None \<Rightarrow> None
        | Some p \<Rightarrow> let earlier = takeWhile (\<lambda>c. c \<noteq> i) (arena_children t p)
                    in if earlier = [] then None else Some (last earlier)),
      tr_orphan = (\<lambda>v t. (length (ar_values t), t\<lparr>ar_values := ar_values t @ [v]\<rparr>)),
      tr_append = (\<lambda>i v t. (length (ar_values t),
          \<lparr>ar_values = ar_values t @ [v], ar_links = ar_links t @ [(length (ar_values t), i)]\<rparr>)),
      tr_append_id = (\<lambda>p c t. if p = c \<or> length (ar_values t) \<le> max p c then None
        else Some ((arena_detach c t)\<lparr>ar_links := ar_links (arena_detach c t) @ [(c, p)]\<rparr>)),
      tr_insert_before = (\<lambda>s v t. map_option (\<lambda>p. (length (ar_values t),
          (arena_before s (length (ar_values t), p) t)\<lparr>ar_values := ar_values t @ [v]\<rparr>)) (map_of (ar_links t) s)),
      tr_insert_id_before = (\<lambda>s c t. if s = c \<or> length (ar_values t) \<le> max s c then None
        else map_option (\<lambda>p. arena_before s (c, p) (arena_detach c t)) (map_of (ar_links t) s)),
      tr_detach = arena_detach,
      tr_reparent_from_id_append = (\<lambda>p n t. if p = n \<or> length (ar_values t) \<le> max p n then None
        else Some (t\<lparr>ar_links := filter (\<lambda>x. snd x \<noteq> n) (ar_links t)
                               @ map (\<lambda>x. (fst x, p)) (filter (\<lambda>x. snd x = n) (ar_links t))\<rparr>)),
      tr_traverse = (\<lambda>t. arena_open (length (ar_values t)) t),
      tr_descendants = (\<lambda>t. arena_open (length (ar_values t)) t)\<rparr>"

definition arena_ok :: "arena \<Rightarrow> bool" where
  "arena_ok t \<longleftrightarrow> ar_values t \<noteq> [] \<and> distinct (map fst (ar_links t))
     \<and> list_all (\<lambda>x. fst x < length (ar_values t) \<and> snd x < length (ar_values t)) (ar_links t)"

lemma arena_has [simp]: "tr_has arena_api t i \<longleftrightarrow> i < length (ar_values t)"
  by (simp add: tr_has_def arena_api_def)

lemma arena_children_ok:
  assumes "arena_ok t"
  shows "set (arena_children t p) \<subseteq> {0..<length (ar_values t)}" "distinct (arena_children t p)"
  using assms by (auto simp: arena_children_def arena_ok_def list_all_iff distinct_map inj_on_def)

lemma arena_ok_detach: "arena_ok t \<Longrightarrow> arena_ok (arena_detach i t)"
  by (auto simp: arena_ok_def arena_detach_def list_all_iff distinct_map inj_on_def)

lemma arena_ok_before:
  assumes "arena_ok t" "fst l \<notin> fst ` set (ar_links t)" "fst l < length (ar_values t)" "snd l < length (ar_values t)"
  shows "arena_ok (arena_before s l t)"
proof -
  obtain a b where "ar_links t = a @ b" "ar_links (arena_before s l t) = a @ l # b"
    by (simp add: arena_before_def) (metis takeWhile_dropWhile_id)
  moreover have "ar_values (arena_before s l t) = ar_values t" by (simp add: arena_before_def)
  ultimately show ?thesis using assms by (auto simp: arena_ok_def)
qed

lemma arena_parent:
  assumes "arena_ok t" "map_of (ar_links t) s = Some p"
  shows "p < length (ar_values t)"
  using assms map_of_SomeD by (fastforce simp: arena_ok_def list_all_iff)

lemma arena_more_values: "arena_ok t \<Longrightarrow> arena_ok (t\<lparr>ar_values := ar_values t @ [v]\<rparr>)"
  by (auto simp: arena_ok_def list_all_iff)

lemma arena_fresh: "arena_ok t \<Longrightarrow> length (ar_values t) \<notin> fst ` set (ar_links t)"
  by (auto simp: arena_ok_def list_all_iff)

lemma arena_value_laws: "value_laws arena_api arena_ok"
proof -
  have last: "c < length (ar_values t)" if "arena_ok t" "c \<in> set (arena_children t i)" for t c i
    using arena_children_ok(1) [OF that(1), of i] that(2) by auto
  have prev: "c < length (ar_values t)" if "arena_ok t" "tr_prev_sibling arena_api t i = Some c" for t i c
  proof -
    from that(2) obtain p where "takeWhile (\<lambda>c. c \<noteq> i) (arena_children t p) \<noteq> []"
      "c = last (takeWhile (\<lambda>c. c \<noteq> i) (arena_children t p))"
      by (auto simp: arena_api_def Let_def split: option.splits if_splits)
    then have "c \<in> set (arena_children t p)" by (metis last_in_set set_takeWhileD)
    then show ?thesis by (rule last [OF that(1)])
  qed
  have lastc: "c < length (ar_values t)" if "arena_ok t" "tr_last_child arena_api t i = Some c" for t i c
    using that last [OF that(1), of c i] by (auto simp: arena_api_def split: if_splits)
  have new: "arena_ok (tr_new arena_api v)" "arena_ok t \<Longrightarrow> i < length (ar_values t) \<Longrightarrow> arena_ok (tr_set arena_api i v t)"
    "tr_nodes arena_api (tr_set arena_api i v t) = tr_nodes arena_api t"
    "i < length (ar_values t) \<Longrightarrow> tr_value arena_api (tr_set arena_api i v t) j = (if j = i then v else tr_value arena_api t j)"
    "arena_ok t \<Longrightarrow> tr_root arena_api t < length (ar_values t)" for v t i j
    by (simp_all add: arena_api_def arena_ok_def)
  have "tr_nodes arena_api (tr_new arena_api v) = [tr_root arena_api (tr_new arena_api v)]"
    "tr_value arena_api (tr_new arena_api v) (tr_root arena_api (tr_new arena_api v)) = v" for v
    by (simp_all add: arena_api_def)
  with new prev lastc show ?thesis unfolding value_laws_def arena_has by blast
qed

lemma arena_create_laws: "create_laws arena_api arena_ok"
proof -
  have app: "arena_ok \<lparr>ar_values = ar_values t @ [v], ar_links = ar_links t @ [(length (ar_values t), i)]\<rparr>"
    if "arena_ok t" "i < length (ar_values t)" for t i v
    using that arena_fresh [OF that(1)] by (auto simp: arena_ok_def list_all_iff)
  have ins: "arena_ok ((arena_before s (length (ar_values t), p) t)\<lparr>ar_values := ar_values t @ [v]\<rparr>)"
    if "arena_ok t" "map_of (ar_links t) s = Some p" for t s p v
  proof -
    have "arena_ok (arena_before s (length (ar_values t), p) (t\<lparr>ar_values := ar_values t @ [v]\<rparr>))"
      using arena_ok_before [OF arena_more_values [OF that(1)]] arena_fresh [OF that(1)] arena_parent [OF that]
      by simp
    moreover have "arena_before s l (t\<lparr>ar_values := vs\<rparr>) = (arena_before s l t)\<lparr>ar_values := vs\<rparr>" for l vs
      by (simp add: arena_before_def)
    ultimately show ?thesis by simp
  qed
  show ?thesis
    unfolding create_laws_def adds_node_def using app ins arena_more_values
    by (auto simp: arena_api_def tr_has_def nth_append)
qed

lemma arena_move_laws: "move_laws arena_api arena_ok"
proof -
  have app: "arena_ok ((arena_detach c t)\<lparr>ar_links := ar_links (arena_detach c t) @ [(c, p)]\<rparr>)"
    if "arena_ok t" "p < length (ar_values t)" "c < length (ar_values t)" for t p c
    using arena_ok_detach [OF that(1), of c] that(2,3) by (auto simp: arena_ok_def arena_detach_def)
  have ins: "arena_ok (arena_before s (c, p) (arena_detach c t))"
    if "arena_ok t" "c < length (ar_values t)" "map_of (ar_links t) s = Some p" for t s c p
    using arena_ok_before [OF arena_ok_detach [OF that(1), of c], of "(c, p)" s] arena_parent [OF that(1,3)] that(2)
    by (auto simp: arena_detach_def)
  have rep: "arena_ok (t\<lparr>ar_links := filter (\<lambda>x. snd x \<noteq> n) (ar_links t)
                               @ map (\<lambda>x. (fst x, p)) (filter (\<lambda>x. snd x = n) (ar_links t))\<rparr>)"
    if "arena_ok t" "p < length (ar_values t)" for t p n
    using that by (auto simp: arena_ok_def list_all_iff distinct_map inj_on_def comp_def)
  show ?thesis
    unfolding move_laws_def same_nodes_def using app ins rep arena_ok_detach
    by (auto simp: arena_api_def arena_before_def arena_detach_def split: if_splits)
qed

lemma arena_child_laws: "child_laws arena_api arena_ok"
  unfolding child_laws_def using arena_children_ok
  by (auto simp: arena_api_def arena_children_def)

lemma arena_laws: "tree_laws arena_api arena_ok"
  unfolding tree_laws_def
  by (intro conjI arena_value_laws arena_create_laws arena_move_laws arena_child_laws)

section \<open>Recorded nodes are permanent\<close>

lemma map_of_extended: "map_of (map f a) n = Some v \<Longrightarrow> map_of (map f (a @ b)) n = Some v"
  by simp

text \<open>What the readers of the tree see of a node is stable: its name, and every attribute it has.\<close>

lemma view_later:
  assumes "node_later m n"
  shows "node_name (view_node n) = node_name (view_node m)"
    and "node_kind (view_node m) = Element a \<Longrightarrow> \<exists>b. node_kind (view_node n) = Element (a @ b)"
  using assms by (auto simp: node_later_def view_node_def split: sink_kind.splits)

lemma attr_later:
  assumes "node_later (tr_value api t i) (tr_value api t' i)" "attr (finish api t) i name = Some v"
  shows "attr (finish api t') i name = Some v"
proof -
  from assms(2) obtain a where a: "node_kind (view_node (tr_value api t i)) = Element a" "map_of a name = Some v"
    by (auto simp: attr_def finish_def split: node_kind.splits)
  with view_later(2) [OF assms(1)] show ?thesis by (auto simp: attr_def finish_def)
qed

lemma sink_new_facts:
  assumes "tree_laws api tok"
  shows "tok (sink_new api)" "length (tr_nodes api (sink_new api)) = 1"
    and "tr_has api (sink_new api) i \<Longrightarrow> sound_node (tr_value api (sink_new api) i)"
proof -
  have "value_laws api tok" using assms unfolding tree_laws_def by (rule conjunct1)
  from spec [OF conjunct1 [OF this [unfolded value_laws_def]], of "node_new SinkDocument"]
  have ok: "tok (sink_new api)" and nodes: "tr_nodes api (sink_new api) = [tr_root api (sink_new api)]"
    and val: "tr_value api (sink_new api) (tr_root api (sink_new api)) = node_new SinkDocument"
    unfolding sink_new_def by blast+
  show "tok (sink_new api)" by (rule ok)
  show "length (tr_nodes api (sink_new api)) = 1" by (simp only: nodes) simp
  show "sound_node (tr_value api (sink_new api) i)" if "tr_has api (sink_new api) i"
  proof -
    have "i = tr_root api (sink_new api)" using that nodes by (simp add: tr_has_def)
    then show ?thesis by (simp only: val) (simp add: sound_node_def node_new_def)
  qed
qed

text \<open>C39. Building the tree never rewrites what it has recorded. Take any callbacks the parser makes on a fresh
  tree, and any it makes later, that do not panic and create elements without duplicate attributes. Every node
  of the earlier tree is still there under its identifier with the same name; every attribute
  the candidates could read then has the same value later; texts have only grown at their end. No element ever
  has two attributes of one name, and the tree has at most two nodes per callback besides the document, which
  bounds what the node limit counts.\<close>

theorem recorded_nodes_are_permanent:
  assumes "tree_laws api tok" "list_all sound_call (cs @ ds)"
    and "sink_run api cs (sink_new api) = Some t" "sink_run api ds t = Some t'"
  shows "(\<forall>i. tr_has api t i \<longrightarrow>
           tr_has api t' i \<and> node_later (tr_value api t i) (tr_value api t' i)
           \<and> element_name (finish api t') i = element_name (finish api t) i
           \<and> (\<forall>name v. attr (finish api t) i name = Some v \<longrightarrow> attr (finish api t') i name = Some v))
    \<and> (\<forall>i. tr_has api t' i \<longrightarrow> sound_node (tr_value api t' i))
    \<and> node_count (finish api t') \<le> 1 + 2 * length (cs @ ds)"
proof -
  have one: "tree_step api tok (2 * length cs) (sink_new api) t"
    using sink_run_step [OF assms(1) sink_new_facts(1) [OF assms(1)] assms(3)] assms(2) by simp
  then have "tok t" by (simp add: tree_step_def)
  from sink_run_step [OF assms(1) this assms(4)] assms(2) have two: "tree_step api tok (2 * length ds) t t'" by simp
  have sound: "\<forall>i. tr_has api t' i \<longrightarrow> sound_node (tr_value api t' i)"
    using tree_step_trans [OF one two] sink_new_facts(3) [OF assms(1)] unfolding tree_step_def by blast
  have count: "node_count (finish api t') \<le> 1 + 2 * length (cs @ ds)"
    using tree_step_trans [OF one two] sink_new_facts(2) [OF assms(1)]
    by (simp add: tree_step_def node_count_def finish_def)
  have kept: "tr_has api t' i" "node_later (tr_value api t i) (tr_value api t' i)" if "tr_has api t i" for i
    using two that by (auto simp: tree_step_def tr_has_def)
  have "element_name (finish api t') i = element_name (finish api t) i" if "tr_has api t i" for i
    using view_later(1) [OF kept(2) [OF that]] by (simp add: element_name_def finish_def)
  then have "\<forall>i. tr_has api t i \<longrightarrow>
           tr_has api t' i \<and> node_later (tr_value api t i) (tr_value api t' i)
           \<and> element_name (finish api t') i = element_name (finish api t) i
           \<and> (\<forall>name v. attr (finish api t) i name = Some v \<longrightarrow> attr (finish api t') i name = Some v)"
    using kept attr_later by metis
  with sound count show ?thesis by simp
qed

definition html_name :: "string \<Rightarrow> qual_name" where
  "html_name s = \<lparr>qn_prefix = None, qn_ns = ''http://www.w3.org/1999/xhtml'', qn_local = s\<rparr>"

definition plain_attr :: "string \<Rightarrow> string \<Rightarrow> attribute" where
  "plain_attr n v = \<lparr>at_name = \<lparr>qn_prefix = None, qn_ns = [], qn_local = n\<rparr>, at_value = v\<rparr>"

definition sample_calls :: "nat sink_call list" where
  "sample_calls = [AppendDoctype, CreateElement (html_name ''html'') [plain_attr ''lang'' ''en''], Append 0 (AppendNode 2)]"

definition later_calls :: "nat sink_call list" where
  "later_calls = [AddAttrsIfMissing 2 [plain_attr ''lang'' ''de'', plain_attr ''id'' ''x''],
     Append 2 (AppendText ''ab''), Append 2 (AppendText ''c'')]"

definition sample_dom :: arena where
  "sample_dom = \<lparr>ar_values = [node_new SinkDocument, node_new SinkOther, node_element (html_name ''html'') [plain_attr ''lang'' ''en'']],
     ar_links = [(1, 0), (2, 0)]\<rparr>"

definition grown_dom :: arena where
  "grown_dom = \<lparr>ar_values = [node_new SinkDocument, node_new SinkOther,
       node_element (html_name ''html'') [plain_attr ''lang'' ''en'', plain_attr ''id'' ''x''], node_new (SinkText ''abc'')],
     ar_links = [(1, 0), (2, 0), (3, 2)]\<rparr>"

lemma sample_runs:
  "sink_run arena_api sample_calls (sink_new arena_api) = Some sample_dom"
  "sink_run arena_api later_calls sample_dom = Some grown_dom"
  "list_all sound_call (sample_calls @ later_calls)"
  "attr (finish arena_api sample_dom) 2 ''lang'' = Some ''en''"
  by code_simp+

theorem recorded_nodes_are_permanent_witness:
  "attr (finish arena_api grown_dom) 2 ''lang'' = Some ''en'' \<and> node_count (finish arena_api grown_dom) \<le> 13"
proof -
  have "tr_has arena_api sample_dom 2" by (simp add: sample_dom_def)
  with recorded_nodes_are_permanent [OF arena_laws sample_runs(3,1,2)] sample_runs(4) show ?thesis
    by (auto simp: sample_calls_def later_calls_def)
qed

section \<open>Text is kept in order\<close>

definition own_piece :: "('t, 'i) tree_api \<Rightarrow> 't \<Rightarrow> 'i \<Rightarrow> string" where
  "own_piece api t c = (case sk_kind (tr_value api t c) of SinkText s \<Rightarrow> s | _ \<Rightarrow> [])"

definition own_text :: "('t, 'i) tree_api \<Rightarrow> 't \<Rightarrow> 'i \<Rightarrow> string" where
  "own_text api t p = concat (map (own_piece api t) (tr_children api t p))"

lemma own_text_extended:
  assumes "tr_children api t p = cs" "tr_children api t' p = ds @ [i]"
    and "concat (map (own_piece api t) cs) = concat (map (own_piece api t) ds) @ old"
    and "\<And>c. c \<in> set ds \<Longrightarrow> tr_value api t' c = tr_value api t c"
    and "sk_kind (tr_value api t' i) = SinkText (old @ s)"
  shows "own_text api t' p = own_text api t p @ s"
proof -
  have "map (own_piece api t') ds = map (own_piece api t) ds"
    using assms(4) by (intro map_cong) (simp_all add: own_piece_def)
  then have "own_text api t' p = concat (map (own_piece api t) ds) @ own_piece api t' i"
    unfolding own_text_def assms(2) map_append concat_append by (simp only:) simp
  then show ?thesis
    unfolding own_text_def assms(1,3) using assms(5) by (simp add: own_piece_def)
qed

lemma own_text_joined:
  assumes "tree_laws api tok" "tok t" "tr_has api t p" "push_text api (tr_last_child api t p) s t = Some t'"
  shows "own_text api t' p = own_text api t p @ s \<and> tr_nodes api t' = tr_nodes api t
    \<and> (\<forall>j. tr_children api t' j = tr_children api t j)"
proof -
  have laws: "value_laws api tok" "child_laws api tok" using assms(1) by (simp_all add: tree_laws_def)
  have kids: "distinct (tr_children api t p)" "set (tr_children api t p) \<subseteq> set (tr_nodes api t)"
    "tr_last_child api t p = (if tr_children api t p = [] then None else Some (last (tr_children api t p)))"
    using laws(2) assms(2,3) unfolding child_laws_def by blast+
  then obtain cs i old where cs: "tr_children api t p = cs @ [i]" and old: "sk_kind (tr_value api t i) = SinkText old"
    and t': "t' = tr_set api i ((tr_value api t i)\<lparr>sk_kind := SinkText (old @ s)\<rparr>) t"
    using assms(4) by (cases "tr_children api t p" rule: rev_cases) (auto simp: push_text_def split: sink_kind.splits)
  have i: "tr_has api t i" "i \<notin> set cs" using kids(1,2) cs by (auto simp: tr_has_def)
  have same: "tr_children api t' j = tr_children api t j" for j
    unfolding t' using laws(2) assms(2) i(1) unfolding child_laws_def by blast
  have "own_text api t' p = own_text api t p @ s"
  proof (rule own_text_extended [OF cs])
    show "tr_children api t' p = cs @ [i]" by (simp add: same cs)
    show "concat (map (own_piece api t) (cs @ [i])) = concat (map (own_piece api t) cs) @ old"
      by (simp add: own_piece_def old)
    show "tr_value api t' c = tr_value api t c" if "c \<in> set cs" for c
      using that i(2) set_facts(3) [OF laws(1) assms(2) i(1)] by (auto simp: t')
    show "sk_kind (tr_value api t' i) = SinkText (old @ s)"
      using set_facts(3) [OF laws(1) assms(2) i(1)] by (simp add: t')
  qed
  moreover have "tr_nodes api t' = tr_nodes api t"
    unfolding t' by (rule set_facts(2) [OF laws(1) assms(2) i(1)])
  ultimately show ?thesis using same by blast
qed

lemma own_text_appended:
  assumes "tree_laws api tok" "tok t" "tr_has api t p"
  shows "own_text api (snd (tr_append api p (node_new (SinkText s)) t)) p = own_text api t p @ s
    \<and> length (tr_nodes api (snd (tr_append api p (node_new (SinkText s)) t))) = length (tr_nodes api t) + 1
    \<and> (\<forall>j. j \<noteq> p \<longrightarrow> tr_has api t j \<longrightarrow> tr_children api (snd (tr_append api p (node_new (SinkText s)) t)) j = tr_children api t j)"
proof -
  have laws: "create_laws api tok" "child_laws api tok" using assms(1) by (simp_all add: tree_laws_def)
  obtain i t' where a: "tr_append api p (node_new (SinkText s)) t = (i, t')" by fastforce
  have add: "adds_node api (node_new (SinkText s)) t (i, t')"
    using laws(1) assms(2,3) unfolding create_laws_def a [symmetric] by blast
  have kids: "tr_children api t' p = tr_children api t p @ [i]"
    "\<forall>j. j \<noteq> p \<longrightarrow> tr_has api t j \<longrightarrow> tr_children api t' j = tr_children api t j"
    and subset: "set (tr_children api t p) \<subseteq> set (tr_nodes api t)"
    using laws(2) assms(2,3) a unfolding child_laws_def by (metis fst_conv snd_conv)+
  have "own_text api t' p = own_text api t p @ s"
  proof (rule own_text_extended [OF refl kids(1), where old = "[]"])
    show "tr_value api t' c = tr_value api t c" if "c \<in> set (tr_children api t p)" for c
      using add subset that by (auto simp: adds_node_def tr_has_def)
    show "sk_kind (tr_value api t' i) = SinkText ([] @ s)"
      using add by (simp add: adds_node_def node_new_def)
  qed simp
  then show ?thesis
    using kids add by (simp add: a adds_node_def)
qed

text \<open>Text the parser appends is kept whole and in place: appending text to a node never fails, the text of
  the node's own children grows by exactly that text at its end, at most one node is created, and no other node gets
  or loses a child.\<close>

theorem appended_text_is_kept:
  assumes "tree_laws api tok" "tok t" "tr_has api t p"
  shows "\<exists>t'. sink_append api p (AppendText s) t = Some t' \<and> own_text api t' p = own_text api t p @ s
    \<and> length (tr_nodes api t') \<le> length (tr_nodes api t) + 1
    \<and> (\<forall>j. j \<noteq> p \<longrightarrow> tr_has api t j \<longrightarrow> tr_children api t' j = tr_children api t j)"
proof (cases "push_text api (tr_last_child api t p) s t")
  case None
  then show ?thesis using own_text_appended [OF assms, of s] assms(3) by (auto simp: sink_append_def)
next
  case (Some t')
  then show ?thesis using own_text_joined [OF assms Some] assms(3) by (auto simp: sink_append_def)
qed

theorem appended_text_is_kept_witness:
  "\<exists>t'. sink_append arena_api 2 (AppendText ''d'') grown_dom = Some t' \<and> own_text arena_api t' 2 = ''abcd''"
proof -
  have ok: "arena_ok grown_dom" by (simp add: grown_dom_def arena_ok_def)
  have has: "tr_has arena_api grown_dom 2" by (simp add: grown_dom_def)
  have "own_text arena_api grown_dom 2 = ''abc''" by code_simp
  with appended_text_is_kept [OF arena_laws ok has, of "''d''"] show ?thesis by auto
qed

end
