(* ===== verification/EventStore.thy ===== *)
theory EventStore
  imports UrlRouting DocumentIr
begin

text \<open>
  The state shared by the event components of \<open>crates/eventing\<close>: the tables of
  \<open>schema.sql\<close> that they write, with the constraints PostgreSQL enforces on every row, the values of
  the event contracts that are stored or returned, and the transaction.

  A table is the list of its rows in insertion order. An instant is a number of microseconds. A statement
  maps a database to a result and a new database, and a violated constraint is \<open>Database\<close>, the
  error of \<open>sqlx\<close>. Text lengths in constraints are characters, as in PostgreSQL. The contract crates
  (parsers of references and codes, validation, JSON rendering) are fields of \<open>event_env\<close>.
\<close>

section \<open>Contract values\<close>

datatype consume_error =
    InvalidSubject | InvalidCommandType | InvalidUrlScheme | Command | CommandEnvelope | ForeignProducer
  | MissingTenant | Identity | Envelope | EventType | Database | Url url_error | InvalidRunState
  | InvalidArtifact | AggregateMismatch | InvalidPayload | ArtifactStore blob_store_error

definition CAPTURE_COMMAND_TYPE :: string where "CAPTURE_COMMAND_TYPE = ''content.capture.requested.v1''"
definition CAPTURE_SUBJECT :: string where "CAPTURE_SUBJECT = ''cmd.content.capture.requested.v1''"
definition REPORT_SUBJECT :: string where "REPORT_SUBJECT = ''evt.platform.operation.reported.v1''"
definition DOCUMENT_SUBJECT :: string where "DOCUMENT_SUBJECT = ''evt.content.document.extracted.v1''"
definition PRODUCER :: string where "PRODUCER = ''ratatoskr-extractor''"

datatype reception = Received | DuplicateCommand
datatype completion = Completed | AlreadyTerminal

record completed_fetch =
  cf_final_url :: string
  cf_http_status :: nat
  cf_media_type :: string
  cf_wire_bytes :: nat
  cf_decoded_bytes :: nat
  cf_attempts :: nat
  cf_cache_outcome :: string
  cf_etag :: "string option"
  cf_last_modified :: "string option"
  cf_raw_blob :: blob_ref

record queued_run =
  qr_run_id :: uuid
  qr_owner :: uuid
  qr_url :: string
  qr_classification :: string
  qr_blob :: "blob_ref option"
  qr_max_event_bytes :: nat

datatype operation_status = OpQueued | OpSucceeded | OpPartiallySucceeded | OpFailed

record error_envelope =
  error_code :: string
  error_message :: string
  error_retryable :: bool
  error_correlation :: "string option"

record warning_envelope =
  warning_code :: string
  warning_message :: string

record operation_result_ref =
  result_kind :: string
  result_target :: string
  result_blob :: "blob_ref option"

record operation_reported =
  rep_operation :: uuid
  rep_status :: operation_status
  rep_results :: "operation_result_ref list"
  rep_error :: "error_envelope option"
  rep_warnings :: "warning_envelope list"

datatype event_payload =
    EmptyPayload
  | Reported operation_reported
  | DocumentExtracted "string document" blob_ref

record event_envelope =
  ev_id :: uuid
  ev_type :: string
  ev_occurred :: nat
  ev_producer :: string
  ev_aggregate :: string
  ev_correlation :: string
  ev_causation :: "string option"
  ev_tenant :: "string option"
  ev_payload :: event_payload

record capture_requested =
  req_operation :: uuid
  req_url :: "string option"
  req_blob :: "blob_ref option"
  req_idempotency :: string

text \<open>Decoding fails on malformed JSON or on a value the contract refuses.\<close>

datatype decode_error = MalformedJson | ContractViolation

record command_envelope =
  ce_command_id :: uuid
  ce_type :: string
  ce_producer :: string
  ce_tenant :: "string option"
  ce_aggregate :: string
  ce_correlation :: string
  ce_issued_at :: nat
  ce_payload :: "(decode_error, capture_requested) res"

record 'u event_env =
  ee_api :: "'u url_api"
  ee_sha256 :: "string \<Rightarrow> 8 word list"
  decode_envelope :: "string \<Rightarrow> (decode_error, command_envelope) res"
  parse_entity_ref :: "string \<Rightarrow> string option"
  parse_tenant_ref :: "string \<Rightarrow> string option"
  tenant_user :: "string \<Rightarrow> uuid"
  parse_producer :: "string \<Rightarrow> string option"
  parse_error_code :: "string \<Rightarrow> string option"
  parse_safe_message :: "string \<Rightarrow> string option"
  parse_result_kind :: "string \<Rightarrow> string option"
  parse_blob_owner :: "string \<Rightarrow> string option"
  parse_digest :: "string \<Rightarrow> string option"
  parse_media :: "string \<Rightarrow> string option"
  operation_ref :: "uuid \<Rightarrow> string"
  document_ref :: "uuid \<Rightarrow> string"
  uuid_text :: "uuid \<Rightarrow> string"
  report_event_type :: string
  document_event_type :: string
  payload_is_object :: "event_payload \<Rightarrow> bool"
  json_size :: "event_envelope \<Rightarrow> nat option"
  fact_valid :: "string document \<Rightarrow> blob_ref \<Rightarrow> bool"
  report_valid :: "operation_reported \<Rightarrow> bool"

text \<open>What one call draws from its surroundings: the clock and the fresh identifiers.\<close>

record call_env =
  now_us :: nat
  new_id :: "nat \<Rightarrow> uuid"

definition seconds :: "nat \<Rightarrow> nat" where
  "seconds n = n * 1000000"

definition set_payload ::
  "'u event_env \<Rightarrow> event_envelope \<Rightarrow> event_payload \<Rightarrow> (consume_error, event_envelope) res" where
  "set_payload env e p = (if payload_is_object env p then Ok (e\<lparr>ev_payload := p\<rparr>) else Err Envelope)"

definition to_value :: "'u event_env \<Rightarrow> event_envelope \<Rightarrow> (consume_error, event_envelope) res" where
  "to_value env e = (case json_size env e of None \<Rightarrow> Err Command | Some _ \<Rightarrow> Ok e)"

section \<open>Tables\<close>

record inbox_row =
  in_command :: uuid
  in_subject :: string
  in_type :: string
  in_producer :: string
  in_received :: nat
  in_applied :: "nat option"
  in_outcome :: "string option"

record source_row =
  src_id :: uuid
  src_owner :: uuid
  src_original :: string
  src_normalized :: string
  src_canonical :: string
  src_host :: string
  src_classification :: string
  src_created :: nat
  src_kind :: string
  src_blob_digest :: "string option"

datatype run_status = Queued | Running | Succeeded | Failed

record run_row =
  run_id :: uuid
  run_command :: uuid
  run_operation :: uuid
  run_owner :: uuid
  run_correlation :: string
  run_source :: uuid
  run_status :: run_status
  run_policy :: string
  run_normalizer :: string
  run_parser :: string
  run_queued_at :: nat
  run_started_at :: "nat option"
  run_completed_at :: "nat option"
  run_error :: "string option"
  run_claimed_until :: "nat option"
  run_claimed_by :: "string option"
  run_blob_owner :: "string option"
  run_blob_media :: "string option"
  run_blob_length :: "nat option"

record fetch_row =
  ft_id :: uuid
  ft_run :: uuid
  ft_final_url :: string
  ft_status :: nat
  ft_media :: string
  ft_wire :: nat
  ft_decoded :: nat
  ft_attempts :: nat
  ft_cache :: string
  ft_etag :: "string option"
  ft_last_modified :: "string option"
  ft_at :: nat

record artifact_row =
  art_id :: uuid
  art_run :: uuid
  art_kind :: string
  art_owner :: string
  art_digest :: string
  art_media :: string
  art_length :: nat
  art_created :: nat

record candidate_row =
  cr_id :: uuid
  cr_run :: uuid
  cr_strategy :: string
  cr_version :: string
  cr_metrics :: quality_metrics
  cr_accepted :: bool
  cr_score_thousandths :: nat
  cr_reasons :: "string list"
  cr_selected :: bool
  cr_created :: nat

record resolution_row =
  rs_id :: uuid
  rs_run :: uuid
  rs_ordinal :: int
  rs_kind :: string
  rs_outcome :: "string option"
  rs_failure :: "string option"
  rs_url :: "string option"
  rs_created :: nat

record outbox_row =
  ob_id :: uuid
  ob_message :: uuid
  ob_causation :: uuid
  ob_operation :: uuid
  ob_subject :: string
  ob_payload :: event_envelope
  ob_enqueued :: nat
  ob_next_attempt :: nat
  ob_attempts :: nat
  ob_claimed_until :: "nat option"
  ob_claimed_by :: "string option"
  ob_published_at :: "nat option"
  ob_dead_at :: "nat option"
  ob_last_error :: "string option"

record db =
  inbox :: "inbox_row list"
  sources :: "source_row list"
  runs :: "run_row list"
  fetches :: "fetch_row list"
  artifacts :: "artifact_row list"
  candidates :: "candidate_row list"
  resolutions :: "resolution_row list"
  outbox :: "outbox_row list"
  budgets :: "(nat \<times> nat) list"

definition empty_db :: db where
  "empty_db = \<lparr>inbox = [], sources = [], runs = [], fetches = [], artifacts = [], candidates = [],
     resolutions = [], outbox = [], budgets = []\<rparr>"

section \<open>Constraints\<close>

definition between_chars :: "nat \<Rightarrow> nat \<Rightarrow> string \<Rightarrow> bool" where
  "between_chars lo hi s = (lo \<le> char_count s \<and> char_count s \<le> hi)"

definition is_sha256_hex :: "string \<Rightarrow> bool" where
  "is_sha256_hex s =
     (length s = 64 \<and> list_all (\<lambda>c. is_ascii_digit c \<or> (97 \<le> byte_of c \<and> byte_of c \<le> 102)) s)"

definition inbox_row_ok :: "inbox_row \<Rightarrow> bool" where
  "inbox_row_ok r =
     (in_subject r = CAPTURE_SUBJECT \<and> in_type r = CAPTURE_COMMAND_TYPE \<and> between_chars 1 64 (in_producer r)
      \<and> (in_outcome r \<noteq> None) = (in_applied r \<noteq> None)
      \<and> (case in_outcome r of None \<Rightarrow> True | Some s \<Rightarrow> s \<in> {''applied'', ''duplicate'', ''rejected''}))"

definition source_row_ok :: "source_row \<Rightarrow> bool" where
  "source_row_ok r =
     (src_kind r \<in> {''url'', ''blob''} \<and> (src_kind r = ''blob'') = (src_blob_digest r \<noteq> None)
      \<and> (case src_blob_digest r of None \<Rightarrow> True | Some h \<Rightarrow> is_sha256_hex h)
      \<and> between_chars 1 8192 (src_original r) \<and> between_chars 1 8192 (src_normalized r)
      \<and> between_chars 1 8192 (src_canonical r) \<and> between_chars 1 253 (src_host r))"

definition run_row_ok :: "run_row \<Rightarrow> bool" where
  "run_row_ok r =
     ((run_started_at r \<noteq> None) = (run_status r \<noteq> Queued)
      \<and> (run_completed_at r \<noteq> None) = (run_status r \<in> {Succeeded, Failed})
      \<and> (case run_error r of None \<Rightarrow> True | Some s \<Rightarrow> between_chars 1 64 s)
      \<and> (run_claimed_until r = None) = (run_claimed_by r = None)
      \<and> (case run_claimed_by r of None \<Rightarrow> True | Some s \<Rightarrow> between_chars 1 64 s)
      \<and> (run_blob_owner r = None) = (run_blob_media r = None)
      \<and> (run_blob_owner r = None) = (run_blob_length r = None)
      \<and> (case run_blob_owner r of None \<Rightarrow> True | Some s \<Rightarrow> between_chars 1 64 s))"

definition fetch_row_ok :: "fetch_row \<Rightarrow> bool" where
  "fetch_row_ok r =
     (100 \<le> ft_status r \<and> ft_status r \<le> 599 \<and> 0 < ft_attempts r
      \<and> ft_cache r \<in> {''fresh'', ''revalidated''})"

definition artifact_row_ok :: "artifact_row \<Rightarrow> bool" where
  "artifact_row_ok r =
     (art_kind r \<in> {''raw_source'', ''document_ir'', ''diagnostics'', ''archived_media''}
      \<and> art_owner r = PRODUCER \<and> is_sha256_hex (art_digest r))"

definition candidate_row_ok :: "candidate_row \<Rightarrow> bool" where
  "candidate_row_ok r = (between_chars 1 64 (cr_strategy r) \<and> cr_score_thousandths r \<le> 1000)"

definition resolution_row_ok :: "resolution_row \<Rightarrow> bool" where
  "resolution_row_ok r =
     (rs_kind r \<in> {''provider_attempt'', ''resolved_target'', ''html_fallback'', ''render_policy''})"

definition outbox_row_ok :: "outbox_row \<Rightarrow> bool" where
  "outbox_row_ok r =
     (ob_subject r \<in> {DOCUMENT_SUBJECT, REPORT_SUBJECT}
      \<and> (ob_claimed_until r = None) = (ob_claimed_by r = None)
      \<and> (case ob_claimed_by r of None \<Rightarrow> True | Some s \<Rightarrow> between_chars 1 64 s)
      \<and> (case ob_last_error r of None \<Rightarrow> True | Some s \<Rightarrow>
           char_count s \<le> 512 \<and> list_all (\<lambda>c. byte_of c \<notin> {10, 13}) s)
      \<and> \<not> (ob_published_at r \<noteq> None \<and> ob_dead_at r \<noteq> None))"

text \<open>Keys and references: what an insertion must not repeat and what it must name.\<close>

definition has_run :: "db \<Rightarrow> uuid \<Rightarrow> bool" where
  "has_run d i = (i \<in> run_id ` set (runs d))"

definition has_command :: "db \<Rightarrow> uuid \<Rightarrow> bool" where
  "has_command d c = (c \<in> in_command ` set (inbox d))"

section \<open>Statements and transactions\<close>

definition checked :: "bool \<Rightarrow> 'a \<Rightarrow> (consume_error, 'a) res" where
  "checked ok x = (if ok then Ok x else Err Database)"

definition insert_run :: "run_row \<Rightarrow> db \<Rightarrow> (consume_error, db) res" where
  "insert_run r d =
     checked (run_row_ok r \<and> \<not> has_run d (run_id r) \<and> run_command r \<notin> run_command ` set (runs d)
              \<and> has_command d (run_command r) \<and> run_source r \<in> src_id ` set (sources d))
       (d\<lparr>runs := runs d @ [r]\<rparr>)"

definition insert_outbox :: "outbox_row \<Rightarrow> db \<Rightarrow> (consume_error, db) res" where
  "insert_outbox r d =
     checked (outbox_row_ok r \<and> ob_id r \<notin> ob_id ` set (outbox d) \<and> ob_message r \<notin> ob_message ` set (outbox d)
              \<and> has_command d (ob_causation r))
       (d\<lparr>outbox := outbox d @ [r]\<rparr>)"

text \<open>An update touches every row that matches; PostgreSQL then checks each changed row.\<close>

definition update_where :: "('r \<Rightarrow> bool) \<Rightarrow> ('r \<Rightarrow> 'r) \<Rightarrow> 'r list \<Rightarrow> 'r list" where
  "update_where p f rows = map (\<lambda>r. if p r then f r else r) rows"

text \<open>The fate of a transaction: its statements run and it commits; the connection fails before the
  commit; or the commit is applied and only its acknowledgement is lost. An error inside rolls back.\<close>

datatype tx_fate = Commits | Aborts | CommitUnacknowledged

definition transact ::
  "tx_fate \<Rightarrow> db \<Rightarrow> (db \<Rightarrow> (consume_error, 'a \<times> db) res) \<Rightarrow> (consume_error, 'a) res \<times> db" where
  "transact fate d body =
     (case fate of
        Aborts \<Rightarrow> (Err Database, d)
      | Commits \<Rightarrow> (case body d of Err e \<Rightarrow> (Err e, d) | Ok (x, d') \<Rightarrow> (Ok x, d'))
      | CommitUnacknowledged \<Rightarrow> (case body d of Err e \<Rightarrow> (Err e, d) | Ok (x, d') \<Rightarrow> (Err Database, d')))"

lemma transact_cases:
  assumes "transact fate d body = (r, d')"
  obtains "d' = d" "\<And>x. r \<noteq> Ok x"
  | x where "body d = Ok (x, d')" "fate = Commits" "r = Ok x"
  | x where "body d = Ok (x, d')" "fate = CommitUnacknowledged" "r = Err Database"
  using assms unfolding transact_def
  by (cases fate; cases "body d") (auto split: prod.splits)

lemma transact_inv:
  assumes "transact fate d body = (r, d')" "I d" "\<And>x e. body d = Ok (x, e) \<Longrightarrow> I e"
  shows "I d'"
  using assms(1) by (rule transact_cases) (use assms(2,3) in auto)

lemma transact_body:
  assumes "transact fate d body = (r, d')" "\<And>x e. body d = Ok (x, e) \<Longrightarrow> P x e"
  shows "d' = d \<and> (\<forall>x. r \<noteq> Ok x) \<or> (\<exists>x. P x d' \<and> (r = Ok x \<or> r = Err Database))"
  using assms(1) by (rule transact_cases) (use assms(2) in blast)+

lemma checked_simps [simp]:
  "checked True x = Ok x"
  "checked b x = Ok y \<longleftrightarrow> b \<and> y = x"
  "checked b x = Err e \<longleftrightarrow> \<not> b \<and> e = Database"
  by (auto simp: checked_def)

lemma set_update_where: "r \<in> set (update_where p f rows) \<Longrightarrow> \<exists>q\<in>set rows. r = q \<or> (p q \<and> r = f q)"
  by (auto simp: update_where_def)

lemma update_where_none: "(\<And>r. r \<in> set rows \<Longrightarrow> \<not> p r) \<Longrightarrow> update_where p f rows = rows"
  by (induction rows) (auto simp: update_where_def)

lemma map_update_where:
  "(\<And>r. r \<in> set rows \<Longrightarrow> p r \<Longrightarrow> g (f r) = g r) \<Longrightarrow> map g (update_where p f rows) = map g rows"
  by (auto simp: update_where_def)

lemma filter_update_where:
  "(\<And>r. r \<in> set rows \<Longrightarrow> p r \<Longrightarrow> q (f r) = q r)
   \<Longrightarrow> filter q (update_where p f rows) = update_where p f (filter q rows)"
  by (induction rows) (auto simp: update_where_def)

section \<open>The event log of a command\<close>

text \<open>The events that the outbox holds for one command, in the order in which they were enqueued. A run
  and the log of its command always agree.\<close>

datatype event_kind = Report operation_status | Fact | NoEvent

definition event_kind_of :: "outbox_row \<Rightarrow> event_kind" where
  "event_kind_of ob =
     (case ev_payload (ob_payload ob) of
        Reported rep \<Rightarrow> Report (rep_status rep)
      | DocumentExtracted _ _ \<Rightarrow> Fact
      | EmptyPayload \<Rightarrow> NoEvent)"

definition command_log :: "db \<Rightarrow> uuid \<Rightarrow> event_kind list" where
  "command_log d c = map event_kind_of (filter (\<lambda>ob. ob_causation ob = c) (outbox d))"

fun log_matches :: "run_status \<Rightarrow> event_kind list \<Rightarrow> bool" where
  "log_matches Queued log = (log = [Report OpQueued])"
| "log_matches Running log = (log = [Report OpQueued])"
| "log_matches Failed log = (log = [Report OpQueued, Report OpFailed])"
| "log_matches Succeeded log =
     (log = [Report OpQueued, Fact, Report OpSucceeded] \<or> log = [Report OpQueued, Report OpPartiallySucceeded])"

definition keys_ok :: "db \<Rightarrow> bool" where
  "keys_ok d =
     (distinct (map in_command (inbox d)) \<and> distinct (map src_id (sources d)) \<and> distinct (map run_id (runs d))
      \<and> distinct (map run_command (runs d)) \<and> distinct (map ob_id (outbox d)) \<and> distinct (map ob_message (outbox d)))"

definition inbox_ok :: "db \<Rightarrow> bool" where
  "inbox_ok d =
     list_all (\<lambda>i. inbox_row_ok i \<and> in_outcome i = Some ''applied''
                  \<and> in_command i \<in> run_command ` set (runs d)) (inbox d)"

definition runs_ok :: "db \<Rightarrow> bool" where
  "runs_ok d =
     list_all (\<lambda>r. run_row_ok r \<and> has_command d (run_command r) \<and> run_source r \<in> src_id ` set (sources d)
                  \<and> log_matches (run_status r) (command_log d (run_command r))) (runs d)"

definition outbox_ok :: "db \<Rightarrow> bool" where
  "outbox_ok d = list_all (\<lambda>ob. outbox_row_ok ob \<and> has_command d (ob_causation ob)) (outbox d)"

definition db_inv :: "db \<Rightarrow> bool" where
  "db_inv d = (keys_ok d \<and> inbox_ok d \<and> runs_ok d \<and> outbox_ok d)"

lemma empty_db_inv: "db_inv empty_db"
  by (simp add: db_inv_def keys_ok_def inbox_ok_def runs_ok_def outbox_ok_def empty_db_def)

lemma command_log_append:
  "outbox e = outbox d @ os \<Longrightarrow> list_all (\<lambda>ob. ob_causation ob = c) os \<Longrightarrow>
   command_log e c' = command_log d c' @ (if c' = c then map event_kind_of os else [])"
  by (auto simp: command_log_def list_all_iff filter_empty_conv intro!: arg_cong [where f = "map event_kind_of"])

lemma unknown_command_has_no_log: "db_inv d \<Longrightarrow> \<not> has_command d c \<Longrightarrow> command_log d c = []"
  by (auto simp: db_inv_def outbox_ok_def command_log_def list_all_iff filter_empty_conv)

lemma unknown_command_has_no_run: "db_inv d \<Longrightarrow> \<not> has_command d c \<Longrightarrow> c \<notin> run_command ` set (runs d)"
  by (auto simp: db_inv_def runs_ok_def list_all_iff)

lemma same_run_by_command:
  "db_inv d \<Longrightarrow> r \<in> set (runs d) \<Longrightarrow> q \<in> set (runs d) \<Longrightarrow> run_command q = run_command r \<Longrightarrow> q = r"
  by (auto simp: db_inv_def keys_ok_def distinct_map inj_on_def)

lemma same_run_by_id:
  "db_inv d \<Longrightarrow> r \<in> set (runs d) \<Longrightarrow> q \<in> set (runs d) \<Longrightarrow> run_id q = run_id r \<Longrightarrow> q = r"
  by (auto simp: db_inv_def keys_ok_def distinct_map inj_on_def)

text \<open>The tables a terminal transition's evidence does not touch.\<close>

definition same_core :: "db \<Rightarrow> db \<Rightarrow> bool" where
  "same_core d e =
     (inbox e = inbox d \<and> sources e = sources d \<and> runs e = runs d \<and> outbox e = outbox d \<and> budgets e = budgets d)"

lemma same_core_trans [trans]: "same_core d e \<Longrightarrow> same_core e f \<Longrightarrow> same_core d f"
  by (simp add: same_core_def)

lemma same_core_refl [simp]: "same_core d d"
  by (simp add: same_core_def)

lemma same_core_inv: "same_core d e \<Longrightarrow> db_inv e = db_inv d"
  by (simp add: same_core_def db_inv_def keys_ok_def inbox_ok_def runs_ok_def outbox_ok_def has_command_def
      command_log_def)

text \<open>New outbox rows that PostgreSQL admits.\<close>

definition admits :: "db \<Rightarrow> outbox_row list \<Rightarrow> bool" where
  "admits d os =
     (list_all (\<lambda>ob. outbox_row_ok ob \<and> has_command d (ob_causation ob)) os
      \<and> distinct (map ob_id (outbox d @ os)) \<and> distinct (map ob_message (outbox d @ os)))"

lemma admits_Nil: "db_inv d \<Longrightarrow> admits d []"
  by (simp add: admits_def db_inv_def keys_ok_def)

lemma admits_snoc:
  assumes "admits d os" "outbox d1 = outbox d @ os" "inbox d1 = inbox d" "insert_outbox ob d1 = Ok e"
  shows "admits d (os @ [ob]) \<and> e = d1\<lparr>outbox := outbox d @ os @ [ob]\<rparr>"
  using assms unfolding admits_def insert_outbox_def has_command_def by auto

text \<open>A run changes its status and the events it causes are appended.\<close>

lemma db_inv_update_runs:
  assumes inv: "db_inv d" and r: "r \<in> set (runs d)"
    and e: "inbox e = inbox d" "sources e = sources d" "outbox e = outbox d @ os"
      "runs e = update_where (\<lambda>q. run_id q = run_id r \<and> p q) f (runs d)"
    and p: "p r" "\<And>q. run_id (f q) = run_id q \<and> run_command (f q) = run_command q \<and> run_source (f q) = run_source q"
    and ok: "run_row_ok (f r)"
    and os: "admits d os" "list_all (\<lambda>ob. ob_causation ob = run_command r) os"
    and log: "log_matches (run_status (f r)) (command_log d (run_command r) @ map event_kind_of os)"
  shows "db_inv e"
proof -
  have only: "q = r" if "q \<in> set (runs d)" "run_id q = run_id r" for q
    using same_run_by_id [OF inv r that] .
  have m: "map run_id (runs e) = map run_id (runs d)" "map run_command (runs e) = map run_command (runs d)"
    unfolding e(4) by (auto intro!: map_update_where simp: p(2))
  have commands: "run_command ` set (runs e) = run_command ` set (runs d)"
    using arg_cong [where f = set, OF m(2)] by simp
  have "runs_ok e"
    unfolding runs_ok_def list_all_iff
  proof
    fix q assume "q \<in> set (runs e)"
    then obtain q0 where q0: "q0 \<in> set (runs d)" "q = q0 \<and> \<not> (run_id q0 = run_id r \<and> p q0) \<or> q0 = r \<and> q = f r"
      unfolding e(4) update_where_def using only by auto
    have base: "run_row_ok q0 \<and> has_command d (run_command q0) \<and> run_source q0 \<in> src_id ` set (sources d)
        \<and> log_matches (run_status q0) (command_log d (run_command q0))"
      using inv q0(1) by (auto simp: db_inv_def runs_ok_def list_all_iff)
    have cl: "command_log e c = command_log d c @ (if c = run_command r then map event_kind_of os else [])" for c
      using e(3) os(2) by (rule command_log_append)
    show "run_row_ok q \<and> has_command e (run_command q) \<and> run_source q \<in> src_id ` set (sources e)
        \<and> log_matches (run_status q) (command_log e (run_command q))"
    proof (cases "q0 = r")
      case True
      then have "q = f r" using q0(2) p(1) by auto
      with True base ok log cl p(2) e show ?thesis by (simp add: has_command_def)
    next
      case False
      then have "q = q0" using q0(2) by auto
      moreover have "run_command q0 \<noteq> run_command r"
        using False same_run_by_command [OF inv r q0(1)] by auto
      ultimately show ?thesis using base cl e by (simp add: has_command_def)
    qed
  qed
  moreover have "keys_ok e" using inv m e os(1) by (simp add: db_inv_def keys_ok_def admits_def)
  moreover have "inbox_ok e" using inv commands e by (simp add: db_inv_def inbox_ok_def)
  moreover have "outbox_ok e" using inv e os(1) by (auto simp: db_inv_def outbox_ok_def admits_def has_command_def list_all_iff)
  ultimately show ?thesis by (simp add: db_inv_def)
qed

text \<open>Bookkeeping columns of the outbox change; what was enqueued does not.\<close>

lemma db_inv_update_outbox:
  assumes inv: "db_inv d" and e: "e = d\<lparr>outbox := update_where p f (outbox d)\<rparr>"
    and f: "\<And>ob. ob_id (f ob) = ob_id ob \<and> ob_message (f ob) = ob_message ob \<and> ob_causation (f ob) = ob_causation ob
               \<and> ob_payload (f ob) = ob_payload ob"
    and ok: "\<And>ob. ob \<in> set (outbox d) \<Longrightarrow> p ob \<Longrightarrow> outbox_row_ok (f ob)"
  shows "db_inv e"
proof -
  have m: "map g (outbox e) = map g (outbox d)" if "\<And>ob. g (f ob) = g ob" for g :: "outbox_row \<Rightarrow> 'b"
    unfolding e using that by (auto intro!: map_update_where)
  have log: "command_log e c = command_log d c" for c
  proof -
    have k: "event_kind_of (f ob) = event_kind_of ob" for ob by (simp add: event_kind_of_def f)
    have "command_log e c = map event_kind_of (update_where p f (filter (\<lambda>ob. ob_causation ob = c) (outbox d)))"
      unfolding e command_log_def by (simp add: filter_update_where f)
    also have "\<dots> = command_log d c" unfolding command_log_def by (rule map_update_where) (rule k)
    finally show ?thesis .
  qed
  have "outbox_ok e"
    unfolding outbox_ok_def list_all_iff
  proof
    fix ob assume "ob \<in> set (outbox e)"
    then obtain q where "q \<in> set (outbox d)" "ob = q \<or> p q \<and> ob = f q"
      unfolding e using set_update_where [of ob p f "outbox d"] by auto
    then show "outbox_row_ok ob \<and> has_command e (ob_causation ob)"
      using inv ok f e by (auto simp: db_inv_def outbox_ok_def list_all_iff has_command_def)
  qed
  moreover have "keys_ok e" using inv m [of ob_id] m [of ob_message] f by (simp add: db_inv_def keys_ok_def e)
  moreover have "runs_ok e" using inv log by (simp add: db_inv_def runs_ok_def has_command_def e)
  moreover have "inbox_ok e" using inv by (simp add: db_inv_def inbox_ok_def e)
  ultimately show ?thesis by (simp add: db_inv_def)
qed

section \<open>Progress\<close>

text \<open>\<open>later d e\<close>: nothing recorded in \<open>d\<close> is lost or rewritten in \<open>e\<close>. Commands stay in the inbox, a
  started run never queues again and a terminal run keeps its whole row, an event keeps its identity and
  content, and a published or dead-lettered event stays so.\<close>

definition terminal :: "run_row \<Rightarrow> bool" where
  "terminal r = (run_status r \<in> {Succeeded, Failed})"

definition run_later :: "run_row \<Rightarrow> run_row \<Rightarrow> bool" where
  "run_later r q =
     (run_id q = run_id r \<and> run_command q = run_command r \<and> (terminal r \<longrightarrow> q = r)
      \<and> (run_status q = Queued \<longrightarrow> run_status r = Queued))"

definition event_later :: "outbox_row \<Rightarrow> outbox_row \<Rightarrow> bool" where
  "event_later a b =
     (ob_id b = ob_id a \<and> ob_message b = ob_message a \<and> ob_causation b = ob_causation a
      \<and> ob_subject b = ob_subject a \<and> ob_payload b = ob_payload a
      \<and> (ob_published_at a \<noteq> None \<longrightarrow> ob_published_at b \<noteq> None) \<and> (ob_dead_at a \<noteq> None \<longrightarrow> ob_dead_at b \<noteq> None))"

definition later :: "db \<Rightarrow> db \<Rightarrow> bool" where
  "later d e =
     ((\<forall>c. has_command d c \<longrightarrow> has_command e c)
      \<and> (\<forall>r\<in>set (runs d). \<exists>q\<in>set (runs e). run_later r q)
      \<and> (\<forall>a\<in>set (outbox d). \<exists>b\<in>set (outbox e). event_later a b))"

lemma run_later_refl [simp]: "run_later r r"
  by (simp add: run_later_def)

lemma event_later_refl [simp]: "event_later a a"
  by (simp add: event_later_def)

lemma run_later_in: "r \<in> set rs \<Longrightarrow> \<exists>q\<in>set rs. run_later r q"
  by (rule bexI [where x = r]) simp_all

lemma event_later_in: "a \<in> set os \<Longrightarrow> \<exists>b\<in>set os. event_later a b"
  by (rule bexI [where x = a]) simp_all

lemma later_refl [simp]: "later d d"
  by (simp add: later_def run_later_in event_later_in)

lemma run_later_trans: "run_later a b \<Longrightarrow> run_later b c \<Longrightarrow> run_later a c"
proof (cases "terminal a")
  case True
  assume a: "run_later a b" and b: "run_later b c"
  from a True have "b = a" by (simp only: run_later_def)
  with b show ?thesis by simp
next
  case False
  assume a: "run_later a b" and b: "run_later b c"
  from a b False show ?thesis unfolding run_later_def by (elim conjE) (intro conjI impI; simp)
qed

lemma event_later_trans: "event_later a b \<Longrightarrow> event_later b c \<Longrightarrow> event_later a c"
  by (simp add: event_later_def)

lemma later_trans [trans]:
  assumes "later d e" "later e f"
  shows "later d f"
  unfolding later_def
proof (intro conjI allI impI ballI)
  fix r assume "r \<in> set (runs d)"
  then obtain q p where "q \<in> set (runs e)" "run_later r q" "p \<in> set (runs f)" "run_later q p"
    using assms unfolding later_def by blast
  then show "\<exists>q\<in>set (runs f). run_later r q" using run_later_trans by blast
next
  fix a assume "a \<in> set (outbox d)"
  then obtain b c where "b \<in> set (outbox e)" "event_later a b" "c \<in> set (outbox f)" "event_later b c"
    using assms unfolding later_def by blast
  then show "\<exists>b\<in>set (outbox f). event_later a b" using event_later_trans by blast
qed (use assms in \<open>simp add: later_def\<close>)

lemma same_core_later: "same_core d e \<Longrightarrow> later d e"
  by (simp add: same_core_def later_def has_command_def run_later_in event_later_in)

lemma update_where_rel:
  "r \<in> set rows \<Longrightarrow> (p r \<Longrightarrow> R r (f r)) \<Longrightarrow> R r r \<Longrightarrow> \<exists>q\<in>set (update_where p f rows). R r q"
  unfolding update_where_def set_map by (cases "p r") force+

lemma later_append:
  "\<forall>c. has_command d c \<longrightarrow> has_command e c \<Longrightarrow> runs e = runs d @ rs \<Longrightarrow> outbox e = outbox d @ os \<Longrightarrow> later d e"
  by (auto simp: later_def dest: run_later_in event_later_in)

lemma later_update_runs:
  assumes "inbox e = inbox d" "outbox e = outbox d @ os" "runs e = update_where p f (runs d)"
    and "\<And>q. q \<in> set (runs d) \<Longrightarrow> p q \<Longrightarrow> run_later q (f q)"
  shows "later d e"
proof -
  have "\<exists>q\<in>set (runs e). run_later r q" if "r \<in> set (runs d)" for r
    using that assms(4) unfolding assms(3) by (intro update_where_rel) auto
  moreover have "\<exists>b\<in>set (outbox e). event_later a b" if "a \<in> set (outbox d)" for a
    using that assms(2) by (intro bexI [of _ a]) auto
  ultimately show ?thesis using assms(1) by (simp add: later_def has_command_def)
qed

lemma later_update_outbox:
  assumes "e = d\<lparr>outbox := update_where p f (outbox d)\<rparr>"
    and "\<And>a. a \<in> set (outbox d) \<Longrightarrow> p a \<Longrightarrow> event_later a (f a)"
  shows "later d e"
proof -
  have "\<exists>b\<in>set (outbox e). event_later a b" if "a \<in> set (outbox d)" for a
    using that assms(2) unfolding assms(1) by (simp add: update_where_rel)
  then show ?thesis using assms(1) by (simp add: later_def has_command_def run_later_in)
qed

end
