(* ===== verification/Capture.thy ===== *)
theory Capture
  imports EventStore
begin

text \<open>
  Intake of capture commands, \<open>crates/eventing/src/capture.rs\<close>: decoding a delivery, claiming its
  command identifier in the inbox, recording the source and the run, reporting the queued operation,
  and leasing a run to a worker. The consumer loop of \<open>crates/eventing/src/consumer.rs\<close> is at
  the end.
\<close>

section \<open>Decoding\<close>

definition ALLOWED_PRODUCERS :: "string list" where
  "ALLOWED_PRODUCERS = [''ratatoskr-platform'', ''ratatoskr-x'']"

datatype 'u capture_source = UrlSource 'u | BlobSource blob_ref

record 'u capture_command =
  cc_command_id :: uuid
  cc_operation :: uuid
  cc_producer :: string
  cc_tenant :: string
  cc_correlation :: string
  cc_idempotency :: string
  cc_requested_at :: nat
  cc_source :: "'u capture_source"

fun decode_failure :: "decode_error \<Rightarrow> consume_error" where
  "decode_failure MalformedJson = Command"
| "decode_failure ContractViolation = CommandEnvelope"

definition requested_source :: "'u event_env \<Rightarrow> capture_requested \<Rightarrow> (consume_error, 'u capture_source) res" where
  "requested_source env request =
     (case (req_url request, req_blob request) of
        (Some address, None) \<Rightarrow>
          rbind (ok_or InvalidUrlScheme (u_parse (ee_api env) address)) (\<lambda>url.
            if u_scheme (ee_api env) url \<notin> {''http'', ''https''} then Err InvalidUrlScheme
            else Ok (UrlSource url))
      | (None, Some blob) \<Rightarrow>
          if digest_algorithm blob \<noteq> Sha256 then Err InvalidArtifact else Ok (BlobSource blob)
      | _ \<Rightarrow> Err InvalidPayload)"

definition decode_capture ::
  "'u event_env \<Rightarrow> string \<Rightarrow> string \<Rightarrow> (consume_error, 'u capture_command) res" where
  "decode_capture env subject payload =
     (if subject \<noteq> CAPTURE_SUBJECT then Err InvalidSubject
      else rbind (map_err decode_failure (decode_envelope env payload)) (\<lambda>e.
        if ce_type e \<noteq> CAPTURE_COMMAND_TYPE then Err InvalidCommandType
        else if ce_producer e \<notin> set ALLOWED_PRODUCERS then Err ForeignProducer
        else rbind (ok_or MissingTenant (ce_tenant e)) (\<lambda>tenant.
        rbind (map_err decode_failure (ce_payload e)) (\<lambda>request.
        if ce_aggregate e \<noteq> operation_ref env (req_operation request) then Err AggregateMismatch
        else rbind (requested_source env request) (\<lambda>source.
          Ok \<lparr>cc_command_id = ce_command_id e, cc_operation = req_operation request,
              cc_producer = ce_producer e, cc_tenant = tenant, cc_correlation = ce_correlation e,
              cc_idempotency = req_idempotency request, cc_requested_at = ce_issued_at e,
              cc_source = source\<rparr>)))))"

section \<open>Intake\<close>

record blob_claim =
  bc_owner :: string
  bc_media_type :: string
  bc_length :: nat

record intake_source =
  is_source_id :: uuid
  is_claim :: "blob_claim option"
  is_policy :: string
  is_normalizer :: string
  is_parser :: string

definition capture_routing_policy :: routing_policy where
  "capture_routing_policy = \<lparr>max_url_length = 8192, allowed_ports = [80, 443]\<rparr>"

fun route_name :: "source_route \<Rightarrow> string" where
  "route_name GitHub = ''github''"
| "route_name X = ''x''"
| "route_name Instagram = ''instagram''"
| "route_name Threads = ''threads''"
| "route_name Reddit = ''reddit''"
| "route_name HackerNews = ''hacker_news''"
| "route_name YouTube = ''youtube''"
| "route_name Pdf = ''pdf''"
| "route_name GenericWeb = ''generic_web''"

definition parser_version :: "source_route \<Rightarrow> string" where
  "parser_version route =
     (if route = Pdf then ''pdf-v1''
      else if route = YouTube then ''youtube-v1''
      else if route = HackerNews \<or> route = Reddit then ''providers-v1''
      else ''html-v1'')"

text \<open>\<open>insert into sources ... on conflict (owner_id, normalized_url) do update\<close>: the proposed row is
  checked first; an existing row of the same owner and address takes the proposed canonical address.\<close>

definition upsert_source :: "source_row \<Rightarrow> db \<Rightarrow> (consume_error, uuid \<times> db) res" where
  "upsert_source r d =
     (let same = (\<lambda>s. src_owner s = src_owner r \<and> src_normalized s = src_normalized r)
      in rbind (guard (source_row_ok r) Database) (\<lambda>_.
         case List.find same (sources d) of
           Some s \<Rightarrow>
             checked (source_row_ok (s\<lparr>src_canonical := src_canonical r\<rparr>))
               (src_id s,
                d\<lparr>sources := update_where same (\<lambda>s. s\<lparr>src_canonical := src_canonical r\<rparr>) (sources d)\<rparr>)
         | None \<Rightarrow>
             checked (src_id r \<notin> src_id ` set (sources d))
               (src_id r, d\<lparr>sources := sources d @ [r]\<rparr>)))"

definition url_source ::
  "'u event_env \<Rightarrow> call_env \<Rightarrow> 'u capture_command \<Rightarrow> 'u \<Rightarrow> db \<Rightarrow> (consume_error, intake_source \<times> db) res" where
  "url_source env cx command url d =
     rbind (map_err Url (normalize (ee_api env) (ee_sha256 env) (u_as_str (ee_api env) url) capture_routing_policy))
       (\<lambda>n.
     let address = u_as_str (ee_api env) (normalized n) in
     rbind (ok_or InvalidUrlScheme (u_host_str (ee_api env) (normalized n))) (\<lambda>host.
     let route = classify (ee_api env) n in
     rbind (upsert_source
        \<lparr>src_id = new_id cx 0, src_owner = tenant_user env (cc_tenant command), src_original = original n,
         src_normalized = address, src_canonical = address, src_host = host,
         src_classification = route_name route, src_created = now_us cx, src_kind = ''url'',
         src_blob_digest = None\<rparr> d) (\<lambda>(source_id, d).
       Ok (\<lparr>is_source_id = source_id, is_claim = None, is_policy = ''ssrf-v1'', is_normalizer = ''url-v1'',
            is_parser = parser_version route\<rparr>, d))))"

definition blob_source ::
  "'u event_env \<Rightarrow> call_env \<Rightarrow> 'u capture_command \<Rightarrow> blob_ref \<Rightarrow> db \<Rightarrow> (consume_error, intake_source \<times> db) res"
where
  "blob_source env cx command blob d =
     rbind (ok_or InvalidArtifact (try_from i64_max (length_bytes blob))) (\<lambda>len.
     let address = ''urn:ratatoskr:blob:sha256:'' @ digest_hex blob in
     rbind (upsert_source
        \<lparr>src_id = new_id cx 0, src_owner = tenant_user env (cc_tenant command), src_original = address,
         src_normalized = address, src_canonical = address, src_host = ''ratatoskr-telegram'',
         src_classification = ''blob'', src_created = now_us cx, src_kind = ''blob'',
         src_blob_digest = Some (digest_hex blob)\<rparr> d) (\<lambda>(source_id, d).
       Ok (\<lparr>is_source_id = source_id,
            is_claim = Some \<lparr>bc_owner = owner_service blob, bc_media_type = media_type blob, bc_length = len\<rparr>,
            is_policy = ''peer-blob-v1'', is_normalizer = ''blob-v1'', is_parser = ''pdf-v1''\<rparr>, d)))"

definition queue_run ::
  "'u event_env \<Rightarrow> call_env \<Rightarrow> 'u capture_command \<Rightarrow> db \<Rightarrow> (consume_error, db) res" where
  "queue_run env cx command d =
     rbind (case cc_source command of
              UrlSource url \<Rightarrow> url_source env cx command url d
            | BlobSource blob \<Rightarrow> blob_source env cx command blob d) (\<lambda>(source, d).
       insert_run
         \<lparr>run_id = new_id cx 1, run_command = cc_command_id command, run_operation = cc_operation command,
          run_owner = tenant_user env (cc_tenant command), run_correlation = cc_correlation command,
          run_source = is_source_id source, run_status = Queued, run_policy = is_policy source,
          run_normalizer = is_normalizer source, run_parser = is_parser source, run_queued_at = now_us cx,
          run_started_at = None, run_completed_at = None, run_error = None, run_claimed_until = None,
          run_claimed_by = None, run_blob_owner = map_option bc_owner (is_claim source),
          run_blob_media = map_option bc_media_type (is_claim source),
          run_blob_length = map_option bc_length (is_claim source)\<rparr> d)"

definition fresh_outbox_row ::
  "call_env \<Rightarrow> nat \<Rightarrow> uuid \<Rightarrow> uuid \<Rightarrow> uuid \<Rightarrow> string \<Rightarrow> event_envelope \<Rightarrow> outbox_row" where
  "fresh_outbox_row cx k event_id command operation subject payload =
     \<lparr>ob_id = new_id cx k, ob_message = event_id, ob_causation = command, ob_operation = operation,
      ob_subject = subject, ob_payload = payload, ob_enqueued = now_us cx, ob_next_attempt = now_us cx,
      ob_attempts = 0, ob_claimed_until = None, ob_claimed_by = None, ob_published_at = None,
      ob_dead_at = None, ob_last_error = None\<rparr>"

definition enqueue_queued_report ::
  "'u event_env \<Rightarrow> call_env \<Rightarrow> 'u capture_command \<Rightarrow> db \<Rightarrow> (consume_error, db) res" where
  "enqueue_queued_report env cx command d =
     rbind (ok_or Identity (parse_producer env PRODUCER)) (\<lambda>producer.
     rbind (ok_or Identity (parse_entity_ref env (''command:'' @ uuid_text env (cc_command_id command)))) (\<lambda>cause.
     rbind (set_payload env
        \<lparr>ev_id = new_id cx 2, ev_type = report_event_type env, ev_occurred = now_us cx, ev_producer = producer,
         ev_aggregate = operation_ref env (cc_operation command), ev_correlation = cc_correlation command,
         ev_causation = Some cause, ev_tenant = Some (cc_tenant command), ev_payload = EmptyPayload\<rparr>
        (Reported \<lparr>rep_operation = cc_operation command, rep_status = OpQueued, rep_results = [],
                   rep_error = None, rep_warnings = []\<rparr>)) (\<lambda>envelope.
     rbind (to_value env envelope) (\<lambda>serialized.
       insert_outbox (fresh_outbox_row cx 3 (ev_id envelope) (cc_command_id command) (cc_operation command)
                        REPORT_SUBJECT serialized) d))))"

definition apply_command ::
  "'u event_env \<Rightarrow> call_env \<Rightarrow> string \<Rightarrow> 'u capture_command \<Rightarrow> db \<Rightarrow> (consume_error, reception \<times> db) res" where
  "apply_command env cx subject command d =
     (let row = \<lparr>in_command = cc_command_id command, in_subject = subject, in_type = CAPTURE_COMMAND_TYPE,
                 in_producer = cc_producer command, in_received = now_us cx, in_applied = None,
                 in_outcome = None\<rparr>
      in rbind (guard (inbox_row_ok row) Database) (\<lambda>_.
         if has_command d (cc_command_id command) then Ok (DuplicateCommand, d)
         else
           let d = d\<lparr>inbox := inbox d @ [row]\<rparr> in
           rbind (queue_run env cx command d) (\<lambda>d.
           rbind (enqueue_queued_report env cx command d) (\<lambda>d.
             Ok (Received,
                 d\<lparr>inbox := update_where (\<lambda>r. in_command r = cc_command_id command)
                     (\<lambda>r. r\<lparr>in_applied := Some (now_us cx), in_outcome := Some ''applied''\<rparr>) (inbox d)\<rparr>)))))"

definition consume_capture ::
  "'u event_env \<Rightarrow> call_env \<Rightarrow> tx_fate \<Rightarrow> string \<Rightarrow> string \<Rightarrow> db \<Rightarrow> (consume_error, reception) res \<times> db" where
  "consume_capture env cx fate subject payload d =
     (case decode_capture env subject payload of
        Err e \<Rightarrow> (Err e, d)
      | Ok command \<Rightarrow> transact fate d (apply_command env cx subject command))"

section \<open>Leasing\<close>

definition claimable :: "nat \<Rightarrow> run_row \<Rightarrow> bool" where
  "claimable now r =
     (run_status r = Queued
      \<or> (run_status r = Running \<and> (case run_claimed_until r of None \<Rightarrow> True | Some t \<Rightarrow> t \<le> now)))"

text \<open>The first of the rows with the least \<open>queued_at\<close>.\<close>

fun oldest :: "run_row list \<Rightarrow> run_row option" where
  "oldest [] = None"
| "oldest (r # rs) =
     (case oldest rs of
        None \<Rightarrow> Some r
      | Some q \<Rightarrow> if run_queued_at q < run_queued_at r then Some q else Some r)"

definition lease_us :: "int \<Rightarrow> nat" where
  "lease_us lease_seconds = seconds (nat (max 1 (min 3600 lease_seconds)))"

definition take_lease :: "call_env \<Rightarrow> string \<Rightarrow> int \<Rightarrow> run_row \<Rightarrow> run_row" where
  "take_lease cx claimed_by lease_seconds r =
     r\<lparr>run_status := Running,
       run_started_at := Some (case run_started_at r of None \<Rightarrow> now_us cx | Some t \<Rightarrow> t),
       run_claimed_by := Some claimed_by,
       run_claimed_until := Some (now_us cx + lease_us lease_seconds)\<rparr>"

definition queued_run_of ::
  "'u event_env \<Rightarrow> nat \<Rightarrow> run_row \<Rightarrow> source_row \<Rightarrow> (consume_error, queued_run) res" where
  "queued_run_of env max_event_bytes r s =
     rbind (case (run_blob_owner r, src_blob_digest s, run_blob_media r, run_blob_length r) of
              (Some blob_owner, Some digest, Some media, Some len) \<Rightarrow>
                rbind (ok_or InvalidArtifact (parse_blob_owner env blob_owner)) (\<lambda>blob_owner.
                rbind (ok_or InvalidArtifact (parse_digest env digest)) (\<lambda>digest.
                rbind (ok_or InvalidArtifact (parse_media env media)) (\<lambda>media.
                rbind (ok_or InvalidArtifact (try_from u64_max len)) (\<lambda>len.
                  Ok (Some \<lparr>owner_service = blob_owner, digest_algorithm = Sha256, digest_hex = digest,
                            media_type = media, length_bytes = len\<rparr>)))))
            | _ \<Rightarrow> Ok None) (\<lambda>blob.
       Ok \<lparr>qr_run_id = run_id r, qr_owner = run_owner r, qr_url = src_normalized s,
           qr_classification = src_classification s, qr_blob = blob, qr_max_event_bytes = max_event_bytes\<rparr>)"

text \<open>Runs locked by other transactions are skipped: \<open>locked\<close> names them. The lease commits before the
  row is decoded, so a row that cannot be decoded stays leased.\<close>

definition lease_next ::
  "call_env \<Rightarrow> (uuid \<Rightarrow> bool) \<Rightarrow> string \<Rightarrow> int \<Rightarrow> db \<Rightarrow> (consume_error, (run_row \<times> source_row) option \<times> db) res"
where
  "lease_next cx locked claimed_by lease_seconds d =
     (case oldest (filter (\<lambda>r. claimable (now_us cx) r \<and> \<not> locked (run_id r)
                             \<and> run_source r \<in> src_id ` set (sources d)) (runs d)) of
        None \<Rightarrow> Ok (None, d)
      | Some r \<Rightarrow>
          let r' = take_lease cx claimed_by lease_seconds r in
          rbind (ok_or Database (List.find (\<lambda>s. src_id s = run_source r) (sources d))) (\<lambda>s.
          checked (run_row_ok r')
            (Some (r', s),
             d\<lparr>runs := update_where (\<lambda>q. run_id q = run_id r) (take_lease cx claimed_by lease_seconds) (runs d)\<rparr>)))"

definition claim_queued_run ::
  "'u event_env \<Rightarrow> call_env \<Rightarrow> tx_fate \<Rightarrow> (uuid \<Rightarrow> bool) \<Rightarrow> string \<Rightarrow> int \<Rightarrow> nat \<Rightarrow> db
   \<Rightarrow> (consume_error, queued_run option) res \<times> db" where
  "claim_queued_run env cx fate locked claimed_by lease_seconds max_event_bytes d =
     (case transact fate d (lease_next cx locked claimed_by lease_seconds) of
        (Err e, d') \<Rightarrow> (Err e, d')
      | (Ok None, d') \<Rightarrow> (Ok None, d')
      | (Ok (Some (r, s)), d') \<Rightarrow> (rbind (queued_run_of env max_event_bytes r s) (\<lambda>q. Ok (Some q)), d'))"

section \<open>Effects on the database\<close>

lemma upsert_source_facts:
  assumes "upsert_source r d = Ok (i, e)"
  shows "\<exists>ss. e = d\<lparr>sources := ss\<rparr> \<and> i \<in> src_id ` set ss \<and> src_id ` set (sources d) \<subseteq> src_id ` set ss
    \<and> (distinct (map src_id (sources d)) \<longrightarrow> distinct (map src_id ss))"
proof (cases "List.find (\<lambda>s. src_owner s = src_owner r \<and> src_normalized s = src_normalized r) (sources d)")
  case None
  with assms show ?thesis by (auto simp: upsert_source_def Let_def)
next
  case (Some s)
  define ss where "ss = update_where (\<lambda>s. src_owner s = src_owner r \<and> src_normalized s = src_normalized r)
    (\<lambda>s. s\<lparr>src_canonical := src_canonical r\<rparr>) (sources d)"
  have m: "map src_id ss = map src_id (sources d)"
    unfolding ss_def by (rule map_update_where) simp
  then have "src_id ` set ss = src_id ` set (sources d)"
    by (metis list.set_map)
  moreover have "s \<in> set (sources d)" using Some by (auto simp: find_Some_iff)
  ultimately show ?thesis
    using assms Some m by (auto simp: upsert_source_def Let_def ss_def [symmetric])
qed

lemma queue_run_facts:
  assumes "queue_run env cx command d = Ok e"
  shows "\<exists>ss r. e = d\<lparr>sources := ss, runs := runs d @ [r]\<rparr>
    \<and> run_command r = cc_command_id command \<and> run_status r = Queued \<and> run_row_ok r \<and> \<not> has_run d (run_id r)
    \<and> run_command r \<notin> run_command ` set (runs d) \<and> run_source r \<in> src_id ` set ss
    \<and> src_id ` set (sources d) \<subseteq> src_id ` set ss
    \<and> (distinct (map src_id (sources d)) \<longrightarrow> distinct (map src_id ss))"
proof -
  obtain source d1 where 1: "(case cc_source command of UrlSource url \<Rightarrow> url_source env cx command url d
      | BlobSource blob \<Rightarrow> blob_source env cx command blob d) = Ok (source, d1)"
    and 2: "insert_run
         \<lparr>run_id = new_id cx 1, run_command = cc_command_id command, run_operation = cc_operation command,
          run_owner = tenant_user env (cc_tenant command), run_correlation = cc_correlation command,
          run_source = is_source_id source, run_status = Queued, run_policy = is_policy source,
          run_normalizer = is_normalizer source, run_parser = is_parser source, run_queued_at = now_us cx,
          run_started_at = None, run_completed_at = None, run_error = None, run_claimed_until = None,
          run_claimed_by = None, run_blob_owner = map_option bc_owner (is_claim source),
          run_blob_media = map_option bc_media_type (is_claim source),
          run_blob_length = map_option bc_length (is_claim source)\<rparr> d1 = Ok e" (is "insert_run ?r d1 = _")
    using assms unfolding queue_run_def by (auto split: prod.splits)
  obtain row i where 3: "upsert_source row d = Ok (i, d1)" "is_source_id source = i"
    using 1 by (auto simp: url_source_def blob_source_def Let_def split: capture_source.splits prod.splits)
  obtain ss where ss: "d1 = d\<lparr>sources := ss\<rparr>" "src_id ` set (sources d) \<subseteq> src_id ` set ss"
    "distinct (map src_id (sources d)) \<longrightarrow> distinct (map src_id ss)"
    using upsert_source_facts [OF 3(1)] by auto
  from 2 ss show ?thesis
    by (intro exI [of _ ss] exI [of _ ?r]) (simp add: insert_run_def has_run_def)
qed

text \<open>A new event is due at once: nobody has claimed, tried, published or given it up.\<close>

definition just_enqueued :: "call_env \<Rightarrow> outbox_row \<Rightarrow> bool" where
  "just_enqueued cx ob =
     (ob_next_attempt ob = now_us cx \<and> ob_attempts ob = 0 \<and> ob_claimed_until ob = None
      \<and> ob_published_at ob = None \<and> ob_dead_at ob = None)"

lemma fresh_row_just_enqueued: "just_enqueued cx (fresh_outbox_row cx k event_id command operation subject payload)"
  by (simp add: just_enqueued_def fresh_outbox_row_def)

lemma enqueue_queued_report_facts:
  assumes "enqueue_queued_report env cx command d = Ok e"
  shows "\<exists>ob. insert_outbox ob d = Ok e \<and> ob_causation ob = cc_command_id command
    \<and> event_kind_of ob = Report OpQueued \<and> just_enqueued cx ob"
  using assms unfolding enqueue_queued_report_def
  by (auto simp: set_payload_def to_value_def fresh_outbox_row_def event_kind_of_def just_enqueued_def
      split: option.splits if_splits)

text \<open>Applying a new command adds one inbox row, one run and one event, all of that command.\<close>

lemma apply_command_new:
  assumes "apply_command env cx subject command d = Ok (Received, e)"
  obtains i ss r ob where
    "\<not> has_command d (cc_command_id command)" "in_command i = cc_command_id command"
    "inbox_row_ok i" "in_outcome i = Some ''applied''"
    "inbox e = update_where (\<lambda>r. in_command r = cc_command_id command)
       (\<lambda>r. r\<lparr>in_applied := Some (now_us cx), in_outcome := Some ''applied''\<rparr>) (inbox d) @ [i]"
    "sources e = ss" "runs e = runs d @ [r]" "outbox e = outbox d @ [ob]" "budgets e = budgets d"
    "run_command r = cc_command_id command" "run_status r = Queued" "run_row_ok r" "\<not> has_run d (run_id r)"
    "run_source r \<in> src_id ` set ss" "src_id ` set (sources d) \<subseteq> src_id ` set ss"
    "distinct (map src_id (sources d)) \<longrightarrow> distinct (map src_id ss)"
    "outbox_row_ok ob" "ob_id ob \<notin> ob_id ` set (outbox d)" "ob_message ob \<notin> ob_message ` set (outbox d)"
    "ob_causation ob = cc_command_id command" "event_kind_of ob = Report OpQueued" "just_enqueued cx ob"
proof -
  define row where "row = \<lparr>in_command = cc_command_id command, in_subject = subject, in_type = CAPTURE_COMMAND_TYPE,
    in_producer = cc_producer command, in_received = now_us cx, in_applied = None, in_outcome = None\<rparr>"
  from assms obtain d1 d2 where 1: "inbox_row_ok row" "\<not> has_command d (cc_command_id command)"
    "queue_run env cx command (d\<lparr>inbox := inbox d @ [row]\<rparr>) = Ok d1"
    "enqueue_queued_report env cx command d1 = Ok d2"
    "e = d2\<lparr>inbox := update_where (\<lambda>r. in_command r = cc_command_id command)
       (\<lambda>r. r\<lparr>in_applied := Some (now_us cx), in_outcome := Some ''applied''\<rparr>) (inbox d2)\<rparr>"
    by (auto simp: apply_command_def Let_def row_def [symmetric] split: if_splits)
  obtain ss r where 2: "d1 = d\<lparr>inbox := inbox d @ [row], sources := ss, runs := runs d @ [r]\<rparr>"
    "run_command r = cc_command_id command" "run_status r = Queued" "run_row_ok r" "\<not> has_run d (run_id r)"
    "run_source r \<in> src_id ` set ss" "src_id ` set (sources d) \<subseteq> src_id ` set ss"
    "distinct (map src_id (sources d)) \<longrightarrow> distinct (map src_id ss)"
    using queue_run_facts [OF 1(3)] by (auto simp: has_run_def)
  obtain ob where 3: "insert_outbox ob d1 = Ok d2" "ob_causation ob = cc_command_id command"
    "event_kind_of ob = Report OpQueued" "just_enqueued cx ob"
    using enqueue_queued_report_facts [OF 1(4)] by auto
  from 3(1) have 4: "d2 = d1\<lparr>outbox := outbox d1 @ [ob]\<rparr>" "outbox_row_ok ob" "ob_id ob \<notin> ob_id ` set (outbox d1)"
    "ob_message ob \<notin> ob_message ` set (outbox d1)"
    by (simp_all add: insert_outbox_def)
  let ?i = "row\<lparr>in_applied := Some (now_us cx), in_outcome := Some ''applied''\<rparr>"
  have "inbox_row_ok ?i" using 1(1) by (simp add: inbox_row_ok_def)
  moreover have "inbox e = update_where (\<lambda>r. in_command r = cc_command_id command)
       (\<lambda>r. r\<lparr>in_applied := Some (now_us cx), in_outcome := Some ''applied''\<rparr>) (inbox d) @ [?i]"
    unfolding 1(5) 4(1) 2(1) by (simp add: update_where_def) (simp add: row_def)
  ultimately show thesis
    using 1(2) 2 3 4 1(5) by (intro that [of ?i ss r ob]) (simp_all add: row_def)
qed

lemma apply_command_inv:
  assumes inv: "db_inv d" and a: "apply_command env cx subject command d = Ok (x, e)"
  shows "db_inv e \<and> later d e \<and> has_command e (cc_command_id command)"
proof (cases x)
  case DuplicateCommand
  with a inv show ?thesis by (auto simp: apply_command_def Let_def split: if_splits)
next
  case Received
  show ?thesis
    using a [unfolded Received]
  proof (cases rule: apply_command_new)
    case (1 i ss r ob)
    let ?c = "cc_command_id command"
    have noop: "update_where (\<lambda>r. in_command r = ?c)
       (\<lambda>r. r\<lparr>in_applied := Some (now_us cx), in_outcome := Some ''applied''\<rparr>) (inbox d) = inbox d"
      using 1(1) by (intro update_where_none) (metis has_command_def image_eqI)
    note ib = 1(5) [unfolded noop]
    have mono: "has_command d c \<Longrightarrow> has_command e c" for c using ib by (auto simp: has_command_def)
    have here: "has_command e ?c" using ib 1(2) by (auto simp: has_command_def)
    have cl: "command_log e c = command_log d c @ (if c = ?c then [Report OpQueued] else [])" for c
      using command_log_append [OF 1(8), of ?c c] 1(20,21) by simp
    have fresh: "command_log d ?c = []" "?c \<notin> run_command ` set (runs d)"
      using inv 1(1) unknown_command_has_no_log unknown_command_has_no_run by auto
    have "runs_ok e"
      unfolding runs_ok_def list_all_iff
    proof
      fix q assume "q \<in> set (runs e)"
      then have "q = r \<or> q \<in> set (runs d)" unfolding 1(7) by auto
      then consider "q = r" | "q \<in> set (runs d)" "run_command q \<noteq> ?c" using fresh(2) by (metis image_eqI)
      then show "run_row_ok q \<and> has_command e (run_command q) \<and> run_source q \<in> src_id ` set (sources e)
          \<and> log_matches (run_status q) (command_log e (run_command q))"
      proof cases
        case 1
        then show ?thesis using \<open>run_command r = ?c\<close> \<open>run_status r = Queued\<close> \<open>run_row_ok r\<close> cl fresh here
            \<open>run_source r \<in> src_id ` set ss\<close> \<open>sources e = ss\<close> by simp
      next
        case 2
        then have "run_row_ok q \<and> has_command d (run_command q) \<and> run_source q \<in> src_id ` set (sources d)
            \<and> log_matches (run_status q) (command_log d (run_command q))"
          using inv by (auto simp: db_inv_def runs_ok_def list_all_iff)
        with 2 cl mono 1 show ?thesis by auto
      qed
    qed
    moreover have "inbox_ok e"
      using inv ib 1(2-4,7,10) by (auto simp: db_inv_def inbox_ok_def list_all_iff)
    moreover have "outbox_ok e"
      using inv 1(8,17,20) mono here by (auto simp: db_inv_def outbox_ok_def list_all_iff)
    moreover have "keys_ok e"
      using inv ib 1 fresh(2) by (auto simp: db_inv_def keys_ok_def has_command_def has_run_def)
    moreover have "later d e" using mono 1(7,8) by (intro later_append) auto
    ultimately show ?thesis using here by (simp add: db_inv_def)
  qed
qed

lemma consume_capture_inv:
  assumes "db_inv d" "consume_capture env cx fate subject payload d = (r, e)"
  shows "db_inv e \<and> later d e"
proof (cases "decode_capture env subject payload")
  case (Inl err)
  with assms show ?thesis by (auto simp: consume_capture_def)
next
  case (Inr command)
  then have "transact fate d (apply_command env cx subject command) = (r, e)"
    using assms(2) by (simp add: consume_capture_def)
  then show ?thesis
    by (rule transact_inv [where I = "\<lambda>e. db_inv e \<and> later d e"]) (simp_all add: assms(1) apply_command_inv [OF assms(1)])
qed

section \<open>Leases\<close>

lemma oldest_None: "oldest rs = None \<longleftrightarrow> rs = []"
  by (cases rs) (auto split: option.splits)

lemma oldest_Some:
  "oldest rs = Some r \<Longrightarrow> r \<in> set rs \<and> (\<forall>q\<in>set rs. run_queued_at r \<le> run_queued_at q)"
  by (induction rs arbitrary: r) (fastforce simp: oldest_None split: option.splits if_splits)+

lemma take_lease_simps [simp]:
  "run_id (take_lease cx w l r) = run_id r" "run_command (take_lease cx w l r) = run_command r"
  "run_source (take_lease cx w l r) = run_source r" "run_status (take_lease cx w l r) = Running"
  "run_claimed_until (take_lease cx w l r) = Some (now_us cx + lease_us l)"
  by (simp_all add: take_lease_def)

lemma claimable_not_terminal: "claimable now r \<Longrightarrow> \<not> terminal r"
  by (auto simp: claimable_def terminal_def)

lemma lease_next_cases:
  assumes "db_inv d" "lease_next cx locked w l d = Ok (x, e)"
  obtains (none) "x = None" "e = d" "\<And>q. q \<in> set (runs d) \<Longrightarrow> claimable (now_us cx) q \<Longrightarrow> locked (run_id q)"
  | (some) r s where "x = Some (take_lease cx w l r, s)" "r \<in> set (runs d)" "claimable (now_us cx) r"
      "\<not> locked (run_id r)" "run_row_ok (take_lease cx w l r)"
      "\<And>q. q \<in> set (runs d) \<Longrightarrow> claimable (now_us cx) q \<Longrightarrow> \<not> locked (run_id q)
         \<Longrightarrow> run_queued_at r \<le> run_queued_at q"
      "e = d\<lparr>runs := update_where (\<lambda>q. run_id q = run_id r) (take_lease cx w l) (runs d)\<rparr>"
proof -
  let ?rs = "filter (\<lambda>r. claimable (now_us cx) r \<and> \<not> locked (run_id r) \<and> run_source r \<in> src_id ` set (sources d)) (runs d)"
  have src: "q \<in> set (runs d) \<Longrightarrow> run_source q \<in> src_id ` set (sources d)" for q
    using assms(1) by (auto simp: db_inv_def runs_ok_def list_all_iff)
  show thesis
  proof (cases "oldest ?rs")
    case None
    then have "\<And>q. q \<in> set (runs d) \<Longrightarrow> claimable (now_us cx) q \<Longrightarrow> locked (run_id q)"
      using src by (auto simp: oldest_None filter_empty_conv)
    with None assms(2) show thesis by (intro none) (auto simp: lease_next_def)
  next
    case (Some r)
    then have r: "r \<in> set ?rs" "\<And>q. q \<in> set ?rs \<Longrightarrow> run_queued_at r \<le> run_queued_at q"
      using oldest_Some [OF Some] by blast+
    from assms(2) Some obtain s where "x = Some (take_lease cx w l r, s)" "run_row_ok (take_lease cx w l r)"
      "e = d\<lparr>runs := update_where (\<lambda>q. run_id q = run_id r) (take_lease cx w l) (runs d)\<rparr>"
      by (auto simp: lease_next_def Let_def)
    with r src show thesis by (intro some [of r s]) auto
  qed
qed

lemma lease_next_inv:
  assumes inv: "db_inv d" and a: "lease_next cx locked w l d = Ok (x, e)"
  shows "db_inv e \<and> later d e"
  using assms
proof (cases rule: lease_next_cases)
  case none
  with inv show ?thesis by simp
next
  case (some r s)
  have log: "log_matches Running (command_log d (run_command r))"
    using inv some(2,3) by (auto simp: db_inv_def runs_ok_def list_all_iff claimable_def)
  have "db_inv e"
    by (rule db_inv_update_runs [OF inv some(2), where os = "[]" and p = "\<lambda>_. True" and f = "take_lease cx w l"])
      (use some log admits_Nil [OF inv] in simp_all)
  moreover have "later d e"
  proof (rule later_update_runs [where os = "[]"])
    show "runs e = update_where (\<lambda>q. run_id q = run_id r) (take_lease cx w l) (runs d)" using some(7) by simp
    fix q assume "q \<in> set (runs d)" "run_id q = run_id r"
    then have "q = r" using same_run_by_id [OF inv some(2)] by simp
    then show "run_later q (take_lease cx w l q)"
      using claimable_not_terminal [OF some(3)] by (simp add: run_later_def)
  qed (simp_all add: some(7))
  ultimately show ?thesis ..
qed

lemma claim_queued_run_cases:
  assumes "claim_queued_run env cx fate locked w l m d = (r, e)"
  obtains t where "transact fate d (lease_next cx locked w l) = (t, e)"
    "r = (case t of Err x \<Rightarrow> Err x | Ok None \<Rightarrow> Ok None
            | Ok (Some (q, s)) \<Rightarrow> rbind (queued_run_of env m q s) (\<lambda>q. Ok (Some q)))"
  using assms unfolding claim_queued_run_def
  by (cases "transact fate d (lease_next cx locked w l)") (auto split: sum.splits option.splits prod.splits)

lemma claim_queued_run_inv:
  assumes "db_inv d" "claim_queued_run env cx fate locked w l m d = (r, e)"
  shows "db_inv e \<and> later d e"
proof -
  obtain t where t: "transact fate d (lease_next cx locked w l) = (t, e)"
    using assms(2) by (rule claim_queued_run_cases)
  then show ?thesis
    by (rule transact_inv [where I = "\<lambda>e. db_inv e \<and> later d e"])
      (simp_all add: assms(1) lease_next_inv [OF assms(1)])
qed

lemma queued_run_of_id: "queued_run_of env m r s = Ok q \<Longrightarrow> qr_run_id q = run_id r"
  by (auto simp: queued_run_of_def)

end
