(* ===== verification/Completion.thy ===== *)
theory Completion
  imports Capture
begin

text \<open>
  Terminal transitions of a run, \<open>crates/eventing/src/completion.rs\<close> and
  \<open>crates/eventing/src/terminal.rs\<close>: failure, success and quality rejection, the evidence rows they
  write and the facts they enqueue, all in one transaction.
\<close>

section \<open>Evidence rows\<close>

record resolution_step =
  st_ordinal :: int
  st_kind :: string
  st_outcome :: "string option"
  st_failure_class :: "string option"
  st_resolved_url :: "string option"

definition validate_candidates :: "candidate_decision list \<Rightarrow> nat \<Rightarrow> (consume_error, unit) res" where
  "validate_candidates cs expected =
     (if cs \<noteq> [] \<and> length (filter selected cs) = expected then Ok () else Err InvalidRunState)"

definition insert_fetch :: "call_env \<Rightarrow> uuid \<Rightarrow> completed_fetch \<Rightarrow> db \<Rightarrow> (consume_error, db) res" where
  "insert_fetch cx run f d =
     rbind (ok_or InvalidArtifact (try_from i64_max (cf_wire_bytes f))) (\<lambda>wire.
     rbind (ok_or InvalidArtifact (try_from i64_max (cf_decoded_bytes f))) (\<lambda>decoded.
     rbind (ok_or InvalidArtifact (try_from i32_max (cf_attempts f))) (\<lambda>attempts.
     let row = \<lparr>ft_id = new_id cx 0, ft_run = run, ft_final_url = cf_final_url f, ft_status = cf_http_status f,
                ft_media = cf_media_type f, ft_wire = wire, ft_decoded = decoded, ft_attempts = attempts,
                ft_cache = cf_cache_outcome f, ft_etag = cf_etag f, ft_last_modified = cf_last_modified f,
                ft_at = now_us cx\<rparr>
     in checked (fetch_row_ok row \<and> ft_id row \<notin> ft_id ` set (fetches d) \<and> has_run d run)
          (d\<lparr>fetches := fetches d @ [row]\<rparr>))))"

definition insert_artifact ::
  "call_env \<Rightarrow> nat \<Rightarrow> uuid \<Rightarrow> string \<Rightarrow> blob_ref \<Rightarrow> nat \<Rightarrow> db \<Rightarrow> (consume_error, db) res" where
  "insert_artifact cx k run kind blob len d =
     (let row = \<lparr>art_id = new_id cx k, art_run = run, art_kind = kind, art_owner = PRODUCER,
                 art_digest = digest_hex blob, art_media = media_type blob, art_length = len,
                 art_created = now_us cx\<rparr>
      in checked (artifact_row_ok row \<and> art_id row \<notin> art_id ` set (artifacts d) \<and> has_run d run)
           (d\<lparr>artifacts := artifacts d @ [row]\<rparr>))"

fun reason_name :: "quality_reason \<Rightarrow> string" where
  "reason_name Accepted = ''accepted''"
| "reason_name TooShort = ''too_short''"
| "reason_name BelowThreshold = ''below_threshold''"

definition candidate_row_of :: "call_env \<Rightarrow> nat \<Rightarrow> uuid \<Rightarrow> candidate_decision \<Rightarrow> candidate_row" where
  "candidate_row_of cx k run c =
     \<lparr>cr_id = new_id cx k, cr_run = run, cr_strategy = strategy c, cr_version = evaluator_version c,
      cr_metrics = metrics c, cr_accepted = accepted c, cr_score_thousandths = score c,
      cr_reasons = map reason_name (reasons c), cr_selected = selected c, cr_created = now_us cx\<rparr>"

text \<open>The unique index over \<open>(run_id, strategy, extractor_version)\<close> and the partial one over the selected
  candidate of a run.\<close>

definition candidate_is_new :: "db \<Rightarrow> candidate_row \<Rightarrow> bool" where
  "candidate_is_new d r =
     (cr_id r \<notin> cr_id ` set (candidates d)
      \<and> (cr_run r, cr_strategy r, cr_version r) \<notin> (\<lambda>q. (cr_run q, cr_strategy q, cr_version q)) ` set (candidates d)
      \<and> (cr_selected r \<longrightarrow> cr_run r \<notin> cr_run ` set (filter cr_selected (candidates d))))"

fun insert_candidates ::
  "call_env \<Rightarrow> nat \<Rightarrow> uuid \<Rightarrow> candidate_decision list \<Rightarrow> db \<Rightarrow> (consume_error, db) res" where
  "insert_candidates cx k run [] d = Ok d"
| "insert_candidates cx k run (c # cs) d =
     (let row = candidate_row_of cx k run c
      in rbind (checked (candidate_row_ok row \<and> candidate_is_new d row \<and> has_run d run)
                 (d\<lparr>candidates := candidates d @ [row]\<rparr>))
           (insert_candidates cx (k + 2) run cs))"

fun insert_resolution_steps ::
  "call_env \<Rightarrow> nat \<Rightarrow> uuid \<Rightarrow> resolution_step list \<Rightarrow> db \<Rightarrow> (consume_error, db) res" where
  "insert_resolution_steps cx k run [] d = Ok d"
| "insert_resolution_steps cx k run (s # ss) d =
     (let row = \<lparr>rs_id = new_id cx k, rs_run = run, rs_ordinal = st_ordinal s, rs_kind = st_kind s,
                 rs_outcome = st_outcome s, rs_failure = st_failure_class s, rs_url = st_resolved_url s,
                 rs_created = now_us cx\<rparr>
      in rbind (checked (resolution_row_ok row \<and> rs_id row \<notin> rs_id ` set (resolutions d) \<and> has_run d run)
                 (d\<lparr>resolutions := resolutions d @ [row]\<rparr>))
           (insert_resolution_steps cx (k + 2) run ss))"

section \<open>Reports\<close>

record completion_context =
  ctx_command :: uuid
  ctx_operation :: uuid
  ctx_owner :: uuid
  ctx_correlation :: string

definition context_of :: "run_row \<Rightarrow> completion_context" where
  "context_of r =
     \<lparr>ctx_command = run_command r, ctx_operation = run_operation r, ctx_owner = run_owner r,
      ctx_correlation = run_correlation r\<rparr>"

definition public_code :: "string \<Rightarrow> string \<times> string" where
  "public_code failure_class =
     (if failure_class = ''pdf_no_text_layer'' then
        (''content.extraction.no_text_layer'',
         ''The PDF has no text layer; scanned or image-only PDFs are not supported yet.'')
      else if failure_class = ''pdf_encrypted'' then (''content.extraction.encrypted'', ''The PDF is encrypted.'')
      else if failure_class = ''unsupported_media'' then
        (''content.extraction.unsupported_media'', ''This file type cannot be extracted.'')
      else if failure_class \<in> {''blob_owner'', ''blob_missing'', ''blob_unreadable'', ''blob_mismatch''} then
        (''content.extraction.source_unavailable'', ''The uploaded file could not be read.'')
      else (''content.extraction.failed'', ''The document could not be extracted.''))"

definition public_failure :: "'u event_env \<Rightarrow> string \<Rightarrow> (consume_error, string \<times> string) res" where
  "public_failure env failure_class =
     (case public_code failure_class of (code, message) \<Rightarrow>
        rbind (ok_or Identity (parse_error_code env code)) (\<lambda>code.
        rbind (ok_or Identity (parse_safe_message env message)) (\<lambda>message. Ok (code, message))))"

definition enqueue_json ::
  "call_env \<Rightarrow> nat \<Rightarrow> completion_context \<Rightarrow> string \<Rightarrow> uuid \<Rightarrow> event_envelope \<Rightarrow> db \<Rightarrow> (consume_error, db) res" where
  "enqueue_json cx k ctx subject event_id payload =
     insert_outbox (fresh_outbox_row cx k event_id (ctx_command ctx) (ctx_operation ctx) subject payload)"

definition enqueue_event ::
  "'u event_env \<Rightarrow> call_env \<Rightarrow> nat \<Rightarrow> completion_context \<Rightarrow> string \<Rightarrow> event_envelope \<Rightarrow> db \<Rightarrow> (consume_error, db) res" where
  "enqueue_event env cx k ctx subject envelope d =
     rbind (to_value env envelope) (\<lambda>payload. enqueue_json cx k ctx subject (ev_id envelope) payload d)"

definition enqueue_failed_report ::
  "'u event_env \<Rightarrow> call_env \<Rightarrow> completion_context \<Rightarrow> string \<Rightarrow> bool \<Rightarrow> db \<Rightarrow> (consume_error, db) res" where
  "enqueue_failed_report env cx ctx failure_class retryable d =
     rbind (ok_or Identity (parse_entity_ref env (ctx_correlation ctx))) (\<lambda>correlation.
     rbind (ok_or Identity (parse_tenant_ref env (''user:'' @ uuid_text env (ctx_owner ctx)))) (\<lambda>tenant.
     rbind (public_failure env failure_class) (\<lambda>(code, message).
     rbind (ok_or Identity (parse_producer env PRODUCER)) (\<lambda>producer.
     rbind (ok_or Identity (parse_entity_ref env (''command:'' @ uuid_text env (ctx_command ctx)))) (\<lambda>cause.
     rbind (set_payload env
        \<lparr>ev_id = new_id cx 5, ev_type = report_event_type env, ev_occurred = now_us cx, ev_producer = producer,
         ev_aggregate = operation_ref env (ctx_operation ctx), ev_correlation = correlation,
         ev_causation = Some cause, ev_tenant = Some tenant, ev_payload = EmptyPayload\<rparr>
        (Reported \<lparr>rep_operation = ctx_operation ctx, rep_status = OpFailed, rep_results = [],
                   rep_error = Some \<lparr>error_code = code, error_message = message, error_retryable = retryable,
                                     error_correlation = Some correlation\<rparr>,
                   rep_warnings = []\<rparr>)) (\<lambda>envelope.
       enqueue_event env cx 6 ctx REPORT_SUBJECT envelope d))))))"

definition NOT_INGESTED_CODE :: string where
  "NOT_INGESTED_CODE = ''content.document.not_ingested''"

definition NOT_INGESTED_MESSAGE :: string where
  "NOT_INGESTED_MESSAGE = ''The document was extracted, but it is too large to add to the library.''"

definition ingestion_warnings :: "'u event_env \<Rightarrow> bool \<Rightarrow> (consume_error, warning_envelope list) res" where
  "ingestion_warnings env ingested =
     (if ingested then Ok []
      else rbind (ok_or Identity (parse_error_code env NOT_INGESTED_CODE)) (\<lambda>code.
           rbind (ok_or Identity (parse_safe_message env NOT_INGESTED_MESSAGE)) (\<lambda>message.
             Ok [\<lparr>warning_code = code, warning_message = message\<rparr>])))"

definition document_event ::
  "'u event_env \<Rightarrow> call_env \<Rightarrow> string document \<Rightarrow> blob_ref \<Rightarrow> string \<Rightarrow> string \<Rightarrow> string \<Rightarrow> (consume_error, event_envelope) res"
where
  "document_event env cx document ir_blob correlation tenant cause =
     rbind (guard (fact_valid env document ir_blob) InvalidArtifact) (\<lambda>_.
     rbind (ok_or Identity (parse_producer env PRODUCER)) (\<lambda>producer.
       set_payload env
         \<lparr>ev_id = new_id cx 3, ev_type = document_event_type env, ev_occurred = now_us cx, ev_producer = producer,
          ev_aggregate = document_ref env (document_id document), ev_correlation = correlation,
          ev_causation = Some cause, ev_tenant = Some tenant, ev_payload = EmptyPayload\<rparr>
         (DocumentExtracted document ir_blob)))"

definition enqueue_completion_events ::
  "'u event_env \<Rightarrow> call_env \<Rightarrow> completion_context \<Rightarrow> string document \<Rightarrow> blob_ref \<Rightarrow> nat \<Rightarrow> db \<Rightarrow> (consume_error, bool \<times> db) res"
where
  "enqueue_completion_events env cx ctx document ir_blob max_event_bytes d =
     rbind (ok_or Identity (parse_entity_ref env (ctx_correlation ctx))) (\<lambda>correlation.
     rbind (ok_or Identity (parse_tenant_ref env (''user:'' @ uuid_text env (ctx_owner ctx)))) (\<lambda>tenant.
     rbind (ok_or Identity (parse_entity_ref env (''command:'' @ uuid_text env (ctx_command ctx)))) (\<lambda>cause.
     rbind (document_event env cx document ir_blob correlation tenant cause) (\<lambda>fact.
     rbind (ok_or Command (json_size env fact)) (\<lambda>serialized_bytes.
     let ingested = (serialized_bytes \<le> max_event_bytes) in
     rbind (if ingested then enqueue_json cx 4 ctx DOCUMENT_SUBJECT (ev_id fact) fact d else Ok d) (\<lambda>d.
     rbind (ok_or Identity (parse_producer env PRODUCER)) (\<lambda>producer.
     rbind (ingestion_warnings env ingested) (\<lambda>warnings.
     rbind (ok_or Identity (parse_result_kind env ''content.document'')) (\<lambda>kind.
     let report = \<lparr>rep_operation = ctx_operation ctx,
                   rep_status = (if ingested then OpSucceeded else OpPartiallySucceeded),
                   rep_results = [\<lparr>result_kind = kind, result_target = document_ref env (document_id document),
                                   result_blob = Some ir_blob\<rparr>],
                   rep_error = None, rep_warnings = warnings\<rparr> in
     rbind (guard (report_valid env report) InvalidPayload) (\<lambda>_.
     rbind (set_payload env
        \<lparr>ev_id = new_id cx 5, ev_type = report_event_type env, ev_occurred = now_us cx, ev_producer = producer,
         ev_aggregate = operation_ref env (ctx_operation ctx), ev_correlation = correlation,
         ev_causation = Some cause, ev_tenant = Some tenant, ev_payload = EmptyPayload\<rparr>
        (Reported report)) (\<lambda>envelope.
     rbind (enqueue_event env cx 6 ctx REPORT_SUBJECT envelope d) (\<lambda>d. Ok (ingested, d)))))))))))))"

section \<open>Terminal transitions\<close>

text \<open>\<open>update extraction_runs set status = ... where run_id = $1 and status = 'running' returning ...\<close>: the
  context of the run that changed, if any.\<close>

definition finish_row :: "call_env \<Rightarrow> run_status \<Rightarrow> string option \<Rightarrow> run_row \<Rightarrow> run_row" where
  "finish_row cx status failure r =
     r\<lparr>run_status := status, run_completed_at := Some (now_us cx),
       run_error := (case failure of None \<Rightarrow> run_error r | Some c \<Rightarrow> Some c),
       run_claimed_until := None, run_claimed_by := None\<rparr>"

definition finish_run ::
  "call_env \<Rightarrow> run_status \<Rightarrow> string option \<Rightarrow> uuid \<Rightarrow> db \<Rightarrow> (consume_error, completion_context option \<times> db) res" where
  "finish_run cx status failure run d =
     (case List.find (\<lambda>r. run_id r = run \<and> run_status r = Running) (runs d) of
        None \<Rightarrow> Ok (None, d)
      | Some r \<Rightarrow>
          checked (run_row_ok (finish_row cx status failure r))
            (Some (context_of r),
             d\<lparr>runs := update_where (\<lambda>q. run_id q = run \<and> run_status q = Running)
                         (finish_row cx status failure) (runs d)\<rparr>))"

definition failure_class_ok :: "string \<Rightarrow> bool" where
  "failure_class_ok c = (c \<noteq> [] \<and> length c \<le> 64)"

definition fail_run ::
  "'u event_env \<Rightarrow> call_env \<Rightarrow> tx_fate \<Rightarrow> uuid \<Rightarrow> string \<Rightarrow> bool \<Rightarrow> resolution_step list \<Rightarrow> db
   \<Rightarrow> (consume_error, completion) res \<times> db" where
  "fail_run env cx fate run failure_class retryable steps d =
     (if \<not> failure_class_ok failure_class then (Err InvalidRunState, d)
      else transact fate d (\<lambda>d.
        rbind (finish_run cx Failed (Some failure_class) run d) (\<lambda>(context, d).
        case context of
          None \<Rightarrow> Ok (AlreadyTerminal, d)
        | Some ctx \<Rightarrow>
            rbind (insert_resolution_steps cx 11 run steps d) (\<lambda>d.
            rbind (enqueue_failed_report env cx ctx failure_class retryable d) (\<lambda>d.
              Ok (Completed, d))))))"

definition require_owned_sha256 :: "blob_ref \<Rightarrow> (consume_error, unit) res" where
  "require_owned_sha256 b =
     (if owner_service b = PRODUCER \<and> digest_algorithm b = Sha256 then Ok () else Err InvalidArtifact)"

record success =
  su_document :: "string document"
  su_ir_blob :: blob_ref
  su_raw_blob :: blob_ref
  su_fetch :: "completed_fetch option"
  su_candidates :: "candidate_decision list"
  su_steps :: "resolution_step list"

definition insert_fetch_opt :: "call_env \<Rightarrow> uuid \<Rightarrow> completed_fetch option \<Rightarrow> db \<Rightarrow> (consume_error, db) res" where
  "insert_fetch_opt cx run fetch d = (case fetch of None \<Rightarrow> Ok d | Some f \<Rightarrow> insert_fetch cx run f d)"

definition complete_body ::
  "'u event_env \<Rightarrow> call_env \<Rightarrow> queued_run \<Rightarrow> success \<Rightarrow> nat \<Rightarrow> nat \<Rightarrow> db
   \<Rightarrow> (consume_error, (consume_error, completion) res \<times> db) res" where
  "complete_body env cx run s len raw_len d =
     rbind (finish_run cx Succeeded None (qr_run_id run) d) (\<lambda>(context, d).
     case context of
       None \<Rightarrow>
         Ok (case List.find (\<lambda>r. run_id r = qr_run_id run) (runs d) of
               Some r \<Rightarrow> (if run_status r = Succeeded then Ok AlreadyTerminal else Err InvalidRunState)
             | None \<Rightarrow> Err InvalidRunState, d)
     | Some ctx \<Rightarrow>
         rbind (insert_fetch_opt cx (qr_run_id run) (su_fetch s) d) (\<lambda>d.
         rbind (insert_artifact cx 1 (qr_run_id run) ''raw_source'' (su_raw_blob s) raw_len d) (\<lambda>d.
         rbind (insert_artifact cx 2 (qr_run_id run) ''document_ir'' (su_ir_blob s) len d) (\<lambda>d.
         rbind (insert_candidates cx 10 (qr_run_id run) (su_candidates s) d) (\<lambda>d.
         rbind (insert_resolution_steps cx 11 (qr_run_id run) (su_steps s) d) (\<lambda>d.
         rbind (enqueue_completion_events env cx ctx (su_document s) (su_ir_blob s) (qr_max_event_bytes run) d)
           (\<lambda>(ingested, d). Ok (Ok Completed, d))))))))"

text \<open>A committed transaction that finds the run in another state still answers with an error.\<close>

definition settle_answer ::
  "(consume_error, (consume_error, 'a) res) res \<times> db \<Rightarrow> (consume_error, 'a) res \<times> db" where
  "settle_answer p = (case p of (r, d) \<Rightarrow> (rbind r (\<lambda>x. x), d))"

definition complete ::
  "'u event_env \<Rightarrow> call_env \<Rightarrow> tx_fate \<Rightarrow> queued_run \<Rightarrow> success \<Rightarrow> db \<Rightarrow> (consume_error, completion) res \<times> db" where
  "complete env cx fate run s d =
     (case rbind (require_owned_sha256 (su_ir_blob s)) (\<lambda>_.
           rbind (require_owned_sha256 (su_raw_blob s)) (\<lambda>_.
           rbind (ok_or InvalidArtifact (try_from i64_max (length_bytes (su_ir_blob s)))) (\<lambda>len.
           rbind (ok_or InvalidArtifact (try_from i64_max (length_bytes (su_raw_blob s)))) (\<lambda>raw_len.
           rbind (validate_candidates (su_candidates s) 1) (\<lambda>_. Ok (len, raw_len)))))) of
        Err e \<Rightarrow> (Err e, d)
      | Ok (len, raw_len) \<Rightarrow> settle_answer (transact fate d (complete_body env cx run s len raw_len)))"

definition complete_document ::
  "'u event_env \<Rightarrow> call_env \<Rightarrow> tx_fate \<Rightarrow> queued_run \<Rightarrow> string document \<Rightarrow> blob_ref \<Rightarrow> completed_fetch
   \<Rightarrow> candidate_decision list \<Rightarrow> resolution_step list \<Rightarrow> db \<Rightarrow> (consume_error, completion) res \<times> db" where
  "complete_document env cx fate run document ir_blob fetch cs steps =
     complete env cx fate run
       \<lparr>su_document = document, su_ir_blob = ir_blob, su_raw_blob = cf_raw_blob fetch, su_fetch = Some fetch,
        su_candidates = cs, su_steps = steps\<rparr>"

definition complete_blob_document ::
  "'u event_env \<Rightarrow> call_env \<Rightarrow> tx_fate \<Rightarrow> queued_run \<Rightarrow> string document \<Rightarrow> blob_ref \<Rightarrow> blob_ref
   \<Rightarrow> candidate_decision list \<Rightarrow> resolution_step list \<Rightarrow> db \<Rightarrow> (consume_error, completion) res \<times> db" where
  "complete_blob_document env cx fate run document ir_blob raw_blob cs steps =
     complete env cx fate run
       \<lparr>su_document = document, su_ir_blob = ir_blob, su_raw_blob = raw_blob, su_fetch = None,
        su_candidates = cs, su_steps = steps\<rparr>"

record rejection =
  rj_raw_blob :: blob_ref
  rj_fetch :: "completed_fetch option"
  rj_candidates :: "candidate_decision list"
  rj_failure_class :: string
  rj_steps :: "resolution_step list"

definition reject_body ::
  "'u event_env \<Rightarrow> call_env \<Rightarrow> uuid \<Rightarrow> rejection \<Rightarrow> nat \<Rightarrow> db \<Rightarrow> (consume_error, completion \<times> db) res" where
  "reject_body env cx run j raw_len d =
     rbind (finish_run cx Failed (Some (rj_failure_class j)) run d) (\<lambda>(context, d).
     case context of
       None \<Rightarrow> Ok (AlreadyTerminal, d)
     | Some ctx \<Rightarrow>
         rbind (insert_fetch_opt cx run (rj_fetch j) d) (\<lambda>d.
         rbind (insert_artifact cx 1 run ''raw_source'' (rj_raw_blob j) raw_len d) (\<lambda>d.
         rbind (insert_candidates cx 10 run (rj_candidates j) d) (\<lambda>d.
         rbind (insert_resolution_steps cx 11 run (rj_steps j) d) (\<lambda>d.
         rbind (enqueue_failed_report env cx ctx (rj_failure_class j) False d) (\<lambda>d. Ok (Completed, d)))))))"

definition reject ::
  "'u event_env \<Rightarrow> call_env \<Rightarrow> tx_fate \<Rightarrow> uuid \<Rightarrow> rejection \<Rightarrow> db \<Rightarrow> (consume_error, completion) res \<times> db" where
  "reject env cx fate run j d =
     (if \<not> failure_class_ok (rj_failure_class j) then (Err InvalidRunState, d)
      else case rbind (require_owned_sha256 (rj_raw_blob j)) (\<lambda>_.
                rbind (validate_candidates (rj_candidates j) 0) (\<lambda>_.
                ok_or InvalidArtifact (try_from i64_max (length_bytes (rj_raw_blob j))))) of
        Err e \<Rightarrow> (Err e, d)
      | Ok raw_len \<Rightarrow> transact fate d (reject_body env cx run j raw_len))"

definition reject_quality ::
  "'u event_env \<Rightarrow> call_env \<Rightarrow> tx_fate \<Rightarrow> uuid \<Rightarrow> completed_fetch \<Rightarrow> candidate_decision list \<Rightarrow> string
   \<Rightarrow> resolution_step list \<Rightarrow> db \<Rightarrow> (consume_error, completion) res \<times> db" where
  "reject_quality env cx fate run fetch cs failure_class steps =
     reject env cx fate run
       \<lparr>rj_raw_blob = cf_raw_blob fetch, rj_fetch = Some fetch, rj_candidates = cs,
        rj_failure_class = failure_class, rj_steps = steps\<rparr>"

definition reject_blob_quality ::
  "'u event_env \<Rightarrow> call_env \<Rightarrow> tx_fate \<Rightarrow> uuid \<Rightarrow> blob_ref \<Rightarrow> candidate_decision list \<Rightarrow> string
   \<Rightarrow> resolution_step list \<Rightarrow> db \<Rightarrow> (consume_error, completion) res \<times> db" where
  "reject_blob_quality env cx fate run raw_blob cs failure_class steps =
     reject env cx fate run
       \<lparr>rj_raw_blob = raw_blob, rj_fetch = None, rj_candidates = cs, rj_failure_class = failure_class,
        rj_steps = steps\<rparr>"

definition record_fetch ::
  "call_env \<Rightarrow> tx_fate \<Rightarrow> uuid \<Rightarrow> completed_fetch \<Rightarrow> db \<Rightarrow> (consume_error, unit) res \<times> db" where
  "record_fetch cx fate run fetch d =
     (case rbind (require_owned_sha256 (cf_raw_blob fetch)) (\<lambda>_.
           ok_or InvalidArtifact (try_from i64_max (length_bytes (cf_raw_blob fetch)))) of
        Err e \<Rightarrow> (Err e, d)
      | Ok raw_len \<Rightarrow>
          transact fate d (\<lambda>d.
            rbind (insert_fetch cx run fetch d) (\<lambda>d.
            rbind (insert_artifact cx 1 run ''raw_source'' (cf_raw_blob fetch) raw_len d) (\<lambda>d. Ok ((), d)))))"

text \<open>\<open>canonical\<close> is the canonical JSON of the document, or nothing when it does not serialize; the store
  receives it as one chunk.\<close>

definition store_document_ir ::
  "(string document \<Rightarrow> string option) \<Rightarrow> store_env \<Rightarrow> io_faults \<Rightarrow> blob_store \<Rightarrow> string \<Rightarrow> string document \<Rightarrow> fs
   \<Rightarrow> (consume_error, blob_ref) res \<times> fs" where
  "store_document_ir canonical env io s staging_id document fs =
     (case canonical document of
        None \<Rightarrow> (Err Command, fs)
      | Some bytes \<Rightarrow>
          (case store env io s staging_id ''application/json'' [Ok bytes] fs of
             (r, fs') \<Rightarrow> (map_err ArtifactStore r, fs')))"

section \<open>Effects on the database\<close>

lemma insert_fetch_core: "insert_fetch cx run f d = Ok e \<Longrightarrow> same_core d e"
  by (auto simp: insert_fetch_def same_core_def Let_def)

lemma insert_fetch_opt_core: "insert_fetch_opt cx run f d = Ok e \<Longrightarrow> same_core d e"
  by (auto simp: insert_fetch_opt_def insert_fetch_core split: option.splits)

lemma insert_artifact_core: "insert_artifact cx k run kind b len d = Ok e \<Longrightarrow> same_core d e"
  by (auto simp: insert_artifact_def same_core_def Let_def)

lemma insert_candidates_core: "insert_candidates cx k run cs d = Ok e \<Longrightarrow> same_core d e"
proof (induction cs arbitrary: k d)
  case (Cons c cs)
  then show ?case by (auto simp: Let_def same_core_def dest!: Cons.IH)
qed simp

lemma insert_resolution_steps_core: "insert_resolution_steps cx k run ss d = Ok e \<Longrightarrow> same_core d e"
proof (induction ss arbitrary: k d)
  case (Cons s ss)
  then show ?case by (auto simp: Let_def same_core_def dest!: Cons.IH)
qed simp

lemma enqueue_event_facts:
  "enqueue_event env cx k ctx subject v d = Ok e \<Longrightarrow>
   insert_outbox (fresh_outbox_row cx k (ev_id v) (ctx_command ctx) (ctx_operation ctx) subject v) d = Ok e"
  by (auto simp: enqueue_event_def enqueue_json_def to_value_def split: option.splits)

text \<open>The error that a failed report carries.\<close>

definition reports_failure :: "'u event_env \<Rightarrow> string \<Rightarrow> bool \<Rightarrow> outbox_row \<Rightarrow> bool" where
  "reports_failure env failure_class retryable ob =
     (case ev_payload (ob_payload ob) of
        Reported rep \<Rightarrow>
          rep_status rep = OpFailed \<and> rep_results rep = []
          \<and> (case rep_error rep of
               None \<Rightarrow> False
             | Some er \<Rightarrow> public_failure env failure_class = Ok (error_code er, error_message er)
                          \<and> error_retryable er = retryable)
      | _ \<Rightarrow> False)"

lemma enqueue_failed_report_facts:
  assumes "enqueue_failed_report env cx ctx failure_class retryable d = Ok e"
  shows "\<exists>ob. insert_outbox ob d = Ok e \<and> ob_causation ob = ctx_command ctx
    \<and> event_kind_of ob = Report OpFailed \<and> reports_failure env failure_class retryable ob \<and> just_enqueued cx ob"
  using assms unfolding enqueue_failed_report_def
  by (auto simp: set_payload_def fresh_outbox_row_def event_kind_of_def reports_failure_def just_enqueued_def
      dest!: enqueue_event_facts split: if_splits)

text \<open>The events of a success: the fact and the report when the fact fits, the report alone otherwise.\<close>

definition success_report ::
  "'u event_env \<Rightarrow> string document \<Rightarrow> blob_ref \<Rightarrow> bool \<Rightarrow> outbox_row \<Rightarrow> bool" where
  "success_report env document ir_blob ingested ob =
     (case ev_payload (ob_payload ob) of
        Reported rep \<Rightarrow>
          rep_status rep = (if ingested then OpSucceeded else OpPartiallySucceeded) \<and> rep_error rep = None
          \<and> map result_target (rep_results rep) = [document_ref env (document_id document)]
          \<and> map result_blob (rep_results rep) = [Some ir_blob]
          \<and> Ok (rep_warnings rep) = ingestion_warnings env ingested
      | _ \<Rightarrow> False)"

definition completion_events ::
  "'u event_env \<Rightarrow> string document \<Rightarrow> blob_ref \<Rightarrow> nat \<Rightarrow> bool \<Rightarrow> outbox_row list \<Rightarrow> bool" where
  "completion_events env document ir_blob m ingested os =
     (if ingested
      then (case os of
              [f, r] \<Rightarrow> ev_payload (ob_payload f) = DocumentExtracted document ir_blob
                        \<and> (case json_size env (ob_payload f) of None \<Rightarrow> False | Some n \<Rightarrow> n \<le> m)
                        \<and> success_report env document ir_blob True r
            | _ \<Rightarrow> False)
      else (case os of [r] \<Rightarrow> success_report env document ir_blob False r | _ \<Rightarrow> False))"

text \<open>The size of the fact, in the envelope of the run's own context, decides whether it is published.\<close>

definition fact_decides ::
  "'u event_env \<Rightarrow> call_env \<Rightarrow> completion_context \<Rightarrow> string document \<Rightarrow> blob_ref \<Rightarrow> nat \<Rightarrow> bool \<Rightarrow> bool" where
  "fact_decides env cx ctx document ir_blob m ingested =
     (\<exists>correlation tenant cause fact n.
        parse_entity_ref env (ctx_correlation ctx) = Some correlation
        \<and> parse_tenant_ref env (''user:'' @ uuid_text env (ctx_owner ctx)) = Some tenant
        \<and> parse_entity_ref env (''command:'' @ uuid_text env (ctx_command ctx)) = Some cause
        \<and> document_event env cx document ir_blob correlation tenant cause = Ok fact
        \<and> json_size env fact = Some n \<and> ingested = (n \<le> m))"

lemma success_report_kind:
  "success_report env document ir_blob ingested ob
   \<Longrightarrow> event_kind_of ob = Report (if ingested then OpSucceeded else OpPartiallySucceeded)"
  by (auto simp: success_report_def event_kind_of_def split: event_payload.splits)

lemma completion_events_log:
  assumes "completion_events env document ir_blob m ingested os"
  shows "log_matches Succeeded (Report OpQueued # map event_kind_of os)"
proof -
  have "event_kind_of ob = Fact" if "ev_payload (ob_payload ob) = DocumentExtracted document ir_blob" for ob
    using that by (simp add: event_kind_of_def)
  then show ?thesis
    using assms success_report_kind [of env document ir_blob True] success_report_kind [of env document ir_blob False]
    by (auto simp: completion_events_def split: if_splits list.splits option.splits)
qed

lemma enqueue_completion_events_facts:
  assumes "enqueue_completion_events env cx ctx document ir_blob m d = Ok (ingested, e)"
    and "admits d0 []" "outbox d = outbox d0" "inbox d = inbox d0"
  shows "\<exists>os. e = d\<lparr>outbox := outbox d @ os\<rparr> \<and> admits d0 os
    \<and> list_all (\<lambda>ob. ob_causation ob = ctx_command ctx) os \<and> completion_events env document ir_blob m ingested os
    \<and> fact_decides env cx ctx document ir_blob m ingested \<and> list_all (just_enqueued cx) os"
proof -
  obtain correlation tenant cause fact n d1 v where
    f: "document_event env cx document ir_blob correlation tenant cause = Ok fact"
    and own: "parse_entity_ref env (ctx_correlation ctx) = Some correlation"
      "parse_tenant_ref env (''user:'' @ uuid_text env (ctx_owner ctx)) = Some tenant"
      "parse_entity_ref env (''command:'' @ uuid_text env (ctx_command ctx)) = Some cause"
    and n: "json_size env fact = Some n" "ingested = (n \<le> m)"
    and d1: "(if ingested then enqueue_json cx 4 ctx DOCUMENT_SUBJECT (ev_id fact) fact d else Ok d) = Ok d1"
    and v: "enqueue_event env cx 6 ctx REPORT_SUBJECT v d1 = Ok e"
      "success_report env document ir_blob ingested
         (fresh_outbox_row cx 6 (ev_id v) (ctx_command ctx) (ctx_operation ctx) REPORT_SUBJECT v)"
    using assms(1) unfolding enqueue_completion_events_def Let_def
    by (auto simp: set_payload_def success_report_def fresh_outbox_row_def split: if_splits)
  let ?rep = "fresh_outbox_row cx 6 (ev_id v) (ctx_command ctx) (ctx_operation ctx) REPORT_SUBJECT v"
  let ?fact = "fresh_outbox_row cx 4 (ev_id fact) (ctx_command ctx) (ctx_operation ctx) DOCUMENT_SUBJECT fact"
  have k: "ev_payload (ob_payload ?fact) = DocumentExtracted document ir_blob" "ob_payload ?fact = fact"
    using f by (auto simp: document_event_def set_payload_def fresh_outbox_row_def split: if_splits)
  have c: "ob_causation ?fact = ctx_command ctx" "ob_causation ?rep = ctx_command ctx"
    by (simp_all add: fresh_outbox_row_def)
  note rep = enqueue_event_facts [OF v(1)]
  have sized: "fact_decides env cx ctx document ir_blob m ingested" using f own n unfolding fact_decides_def by blast
  show ?thesis
  proof (cases ingested)
    case True
    then have 1: "insert_outbox ?fact d = Ok d1" using d1 by (simp add: enqueue_json_def)
    from admits_snoc [OF assms(2) _ assms(4) 1] assms(3)
    have 2: "admits d0 [?fact]" "d1 = d\<lparr>outbox := outbox d0 @ [?fact]\<rparr>" by simp_all
    from admits_snoc [OF 2(1) _ _ rep] 2(2) assms(3,4)
    have 3: "admits d0 [?fact, ?rep]" "e = d1\<lparr>outbox := outbox d0 @ [?fact, ?rep]\<rparr>" by simp_all
    have "completion_events env document ir_blob m ingested [?fact, ?rep]"
      using True k n v(2) by (simp add: completion_events_def)
    with 2 3 c assms(3) sized show ?thesis
      by (intro exI [of _ "[?fact, ?rep]"]) (simp add: fresh_row_just_enqueued)
  next
    case False
    then have "d1 = d" using d1 by simp
    with admits_snoc [OF assms(2) _ assms(4)] rep assms(3)
    have "admits d0 [?rep]" "e = d\<lparr>outbox := outbox d0 @ [?rep]\<rparr>" by fastforce+
    with False c v(2) assms(3) sized show ?thesis
      by (intro exI [of _ "[?rep]"]) (simp add: completion_events_def fresh_row_just_enqueued)
  qed
qed

lemma finish_row_simps [simp]:
  "run_id (finish_row cx st f r) = run_id r" "run_command (finish_row cx st f r) = run_command r"
  "run_source (finish_row cx st f r) = run_source r" "run_status (finish_row cx st f r) = st"
  by (simp_all add: finish_row_def)

text \<open>A terminal transition as a whole: the run that was running is finished and its events are
  appended; commands, sources and budgets stay.\<close>

definition finishes ::
  "call_env \<Rightarrow> run_status \<Rightarrow> string option \<Rightarrow> run_row \<Rightarrow> outbox_row list \<Rightarrow> db \<Rightarrow> db \<Rightarrow> bool" where
  "finishes cx st failure r os d e =
     (r \<in> set (runs d) \<and> run_status r = Running \<and> run_row_ok (finish_row cx st failure r)
      \<and> runs e = update_where (\<lambda>q. run_id q = run_id r \<and> run_status q = Running) (finish_row cx st failure) (runs d)
      \<and> inbox e = inbox d \<and> sources e = sources d \<and> budgets e = budgets d \<and> outbox e = outbox d @ os
      \<and> admits d os \<and> list_all (\<lambda>ob. ob_causation ob = run_command r) os \<and> list_all (just_enqueued cx) os)"

lemma finish_run_cases:
  assumes "finish_run cx st failure run d = Ok (c, e)"
  obtains (none) "c = None" "e = d" "\<And>r. r \<in> set (runs d) \<Longrightarrow> run_id r = run \<Longrightarrow> run_status r \<noteq> Running"
  | (some) r where "c = Some (context_of r)" "r \<in> set (runs d)" "run_id r = run" "run_status r = Running"
      "run_row_ok (finish_row cx st failure r)"
      "e = d\<lparr>runs := update_where (\<lambda>q. run_id q = run \<and> run_status q = Running) (finish_row cx st failure) (runs d)\<rparr>"
proof (cases "List.find (\<lambda>r. run_id r = run \<and> run_status r = Running) (runs d)")
  case None
  with assms show thesis by (intro none) (auto simp: finish_run_def find_None_iff)
next
  case (Some r)
  then have "r \<in> set (runs d)" "run_id r = run" "run_status r = Running"
    by (auto simp: find_Some_iff)
  with Some assms show thesis by (intro some [of r]) (auto simp: finish_run_def)
qed

lemma finishes_inv:
  assumes inv: "db_inv d" and f: "finishes cx st failure r os d e"
    and log: "log_matches st (Report OpQueued # map event_kind_of os)" and st: "st \<noteq> Queued"
  shows "db_inv e \<and> later d e"
proof -
  have r: "r \<in> set (runs d)" "run_status r = Running" and row: "run_row_ok (finish_row cx st failure r)"
    and e: "runs e = update_where (\<lambda>q. run_id q = run_id r \<and> run_status q = Running) (finish_row cx st failure) (runs d)"
      "inbox e = inbox d" "sources e = sources d" "outbox e = outbox d @ os"
    and os: "admits d os" "list_all (\<lambda>ob. ob_causation ob = run_command r) os"
    using f by (simp_all add: finishes_def)
  have "command_log d (run_command r) = [Report OpQueued]"
    using inv r by (auto simp: db_inv_def runs_ok_def list_all_iff)
  with log have "db_inv e"
    by (intro db_inv_update_runs [OF inv r(1) e(2,3,4), where p = "\<lambda>q. run_status q = Running"
        and f = "finish_row cx st failure"]) (use r row e os in simp_all)
  moreover have "later d e"
    by (rule later_update_runs [OF e(2,4,1)]) (use st in \<open>auto simp: run_later_def terminal_def\<close>)
  ultimately show ?thesis ..
qed

lemma finishes_intro:
  assumes inv: "db_inv d" and r: "r \<in> set (runs d)" "run_status r = Running" "run_row_ok (finish_row cx st failure r)"
    and core: "same_core (d\<lparr>runs := update_where (\<lambda>q. run_id q = run_id r \<and> run_status q = Running)
        (finish_row cx st failure) (runs d)\<rparr>) d1"
    and ob: "insert_outbox ob d1 = Ok e" "ob_causation ob = run_command r" "just_enqueued cx ob"
  shows "finishes cx st failure r [ob] d e"
proof -
  have d1: "outbox d1 = outbox d @ []" "inbox d1 = inbox d" using core by (simp_all add: same_core_def)
  from admits_snoc [OF admits_Nil [OF inv] d1 ob(1)]
  have "admits d [ob]" "e = d1\<lparr>outbox := outbox d @ [ob]\<rparr>" by simp_all
  with core ob(2,3) r show ?thesis by (simp add: finishes_def same_core_def)
qed

text \<open>The three terminal transactions, each with its effect: nothing, or a whole terminal transition whose
  acknowledgement may be lost.\<close>

definition failed_effect ::
  "'u event_env \<Rightarrow> call_env \<Rightarrow> uuid \<Rightarrow> string \<Rightarrow> bool \<Rightarrow> db \<Rightarrow> db \<Rightarrow> bool" where
  "failed_effect env cx run c retryable d e =
     (\<exists>r ob. finishes cx Failed (Some c) r [ob] d e \<and> run_id r = run \<and> event_kind_of ob = Report OpFailed
        \<and> reports_failure env c retryable ob)"

definition completed_effect ::
  "'u event_env \<Rightarrow> call_env \<Rightarrow> queued_run \<Rightarrow> success \<Rightarrow> db \<Rightarrow> db \<Rightarrow> bool" where
  "completed_effect env cx run s d e =
     (\<exists>r os ingested. finishes cx Succeeded None r os d e \<and> run_id r = qr_run_id run
        \<and> completion_events env (su_document s) (su_ir_blob s) (qr_max_event_bytes run) ingested os
        \<and> fact_decides env cx (context_of r) (su_document s) (su_ir_blob s) (qr_max_event_bytes run) ingested)"

lemma fail_body:
  assumes inv: "db_inv d"
    and b: "rbind (finish_run cx Failed (Some c) run d) (\<lambda>(context, d).
        case context of
          None \<Rightarrow> Ok (AlreadyTerminal, d)
        | Some ctx \<Rightarrow>
            rbind (insert_resolution_steps cx 11 run steps d) (\<lambda>d.
            rbind (enqueue_failed_report env cx ctx c retryable d) (\<lambda>d. Ok (Completed, d)))) = Ok (y, e)"
  shows "y = AlreadyTerminal \<and> e = d \<or> y = Completed \<and> failed_effect env cx run c retryable d e"
proof -
  from b obtain ctx d1 where f: "finish_run cx Failed (Some c) run d = Ok (ctx, d1)" by auto
  then show ?thesis
  proof (cases rule: finish_run_cases)
    case none
    with b f show ?thesis by simp
  next
    case (some r)
    with b f obtain d2 where 2: "insert_resolution_steps cx 11 run steps d1 = Ok d2"
      "enqueue_failed_report env cx (context_of r) c retryable d2 = Ok e" "y = Completed" by auto
    obtain ob where ob: "insert_outbox ob d2 = Ok e" "ob_causation ob = run_command r"
      "event_kind_of ob = Report OpFailed" "reports_failure env c retryable ob" "just_enqueued cx ob"
      using enqueue_failed_report_facts [OF 2(2)] by (auto simp: context_of_def)
    have "finishes cx Failed (Some c) r [ob] d e"
      by (rule finishes_intro [OF inv some(2,4,5) _ ob(1,2,5)])
        (use insert_resolution_steps_core [OF 2(1)] some(3,6) in simp)
    with some(3) ob 2(3) show ?thesis unfolding failed_effect_def by blast
  qed
qed

lemma fail_run_effect:
  assumes inv: "db_inv d" and a: "fail_run env cx fate run c retryable steps d = (x, e)"
  shows "e = d \<and> x \<noteq> Ok Completed
    \<or> failed_effect env cx run c retryable d e \<and> (x = Ok Completed \<or> x = Err Database)"
proof (cases "failure_class_ok c")
  case False
  with a show ?thesis by (auto simp: fail_run_def)
next
  case True
  note t = a [unfolded fail_run_def, simplified True not_True_eq_False if_False]
  from transact_body [OF t, of "\<lambda>y e. y = AlreadyTerminal \<and> e = d \<or> y = Completed \<and> failed_effect env cx run c retryable d e"]
    fail_body [OF inv] show ?thesis by blast
qed

lemma reject_body_effect:
  assumes inv: "db_inv d" and b: "reject_body env cx run j raw_len d = Ok (y, e)"
  shows "y = AlreadyTerminal \<and> e = d \<or> y = Completed \<and> failed_effect env cx run (rj_failure_class j) False d e"
proof -
  from b obtain ctx d1 where f: "finish_run cx Failed (Some (rj_failure_class j)) run d = Ok (ctx, d1)"
    unfolding reject_body_def by auto
  then show ?thesis
  proof (cases rule: finish_run_cases)
    case none
    with b f show ?thesis by (simp add: reject_body_def)
  next
    case (some r)
    with b f obtain d2 d3 d4 d5 where 2: "insert_fetch_opt cx run (rj_fetch j) d1 = Ok d2"
      "insert_artifact cx 1 run ''raw_source'' (rj_raw_blob j) raw_len d2 = Ok d3"
      "insert_candidates cx 10 run (rj_candidates j) d3 = Ok d4"
      "insert_resolution_steps cx 11 run (rj_steps j) d4 = Ok d5"
      "enqueue_failed_report env cx (context_of r) (rj_failure_class j) False d5 = Ok e" "y = Completed"
      unfolding reject_body_def by auto
    obtain ob where ob: "insert_outbox ob d5 = Ok e" "ob_causation ob = run_command r"
      "event_kind_of ob = Report OpFailed" "reports_failure env (rj_failure_class j) False ob" "just_enqueued cx ob"
      using enqueue_failed_report_facts [OF 2(5)] by (auto simp: context_of_def)
    have "same_core d1 d5"
      using insert_fetch_opt_core [OF 2(1)] insert_artifact_core [OF 2(2)] insert_candidates_core [OF 2(3)]
        insert_resolution_steps_core [OF 2(4)] by (simp add: same_core_def)
    then have "finishes cx Failed (Some (rj_failure_class j)) r [ob] d e"
      by (intro finishes_intro [OF inv some(2,4,5) _ ob(1,2,5)]) (use some(3,6) in simp)
    with some(3) ob 2(6) show ?thesis unfolding failed_effect_def by blast
  qed
qed

lemma reject_effect:
  assumes inv: "db_inv d" and a: "reject env cx fate run j d = (x, e)"
  shows "e = d \<and> x \<noteq> Ok Completed
    \<or> failed_effect env cx run (rj_failure_class j) False d e \<and> (x = Ok Completed \<or> x = Err Database)"
proof -
  consider "e = d" "x \<noteq> Ok Completed" | raw_len where "transact fate d (reject_body env cx run j raw_len) = (x, e)"
    using a unfolding reject_def by (auto split: if_splits sum.splits)
  then show ?thesis
  proof cases
    case (2 raw_len)
    from transact_body [OF 2, of "\<lambda>y e. y = AlreadyTerminal \<and> e = d
        \<or> y = Completed \<and> failed_effect env cx run (rj_failure_class j) False d e"]
      reject_body_effect [OF inv] show ?thesis by blast
  qed simp
qed

lemma complete_body_effect:
  assumes inv: "db_inv d" and b: "complete_body env cx run s len raw_len d = Ok (y, e)"
  shows "y \<noteq> Ok Completed \<and> e = d \<or> y = Ok Completed \<and> completed_effect env cx run s d e"
proof -
  from b obtain ctx d1 where f: "finish_run cx Succeeded None (qr_run_id run) d = Ok (ctx, d1)"
    unfolding complete_body_def by auto
  then show ?thesis
  proof (cases rule: finish_run_cases)
    case none
    with b f show ?thesis by (auto simp: complete_body_def split: option.splits if_splits)
  next
    case (some r)
    with b f obtain d2 d3 d4 d5 d6 ingested where 2: "insert_fetch_opt cx (qr_run_id run) (su_fetch s) d1 = Ok d2"
      "insert_artifact cx 1 (qr_run_id run) ''raw_source'' (su_raw_blob s) raw_len d2 = Ok d3"
      "insert_artifact cx 2 (qr_run_id run) ''document_ir'' (su_ir_blob s) len d3 = Ok d4"
      "insert_candidates cx 10 (qr_run_id run) (su_candidates s) d4 = Ok d5"
      "insert_resolution_steps cx 11 (qr_run_id run) (su_steps s) d5 = Ok d6"
      "enqueue_completion_events env cx (context_of r) (su_document s) (su_ir_blob s) (qr_max_event_bytes run) d6
         = Ok (ingested, e)" "y = Ok Completed"
      unfolding complete_body_def by auto
    have core: "same_core d1 d6"
      using insert_fetch_opt_core [OF 2(1)] insert_artifact_core [OF 2(2)] insert_artifact_core [OF 2(3)]
        insert_candidates_core [OF 2(4)] insert_resolution_steps_core [OF 2(5)] by (simp add: same_core_def)
    obtain os where os: "e = d6\<lparr>outbox := outbox d6 @ os\<rparr>" "admits d os"
      "list_all (\<lambda>ob. ob_causation ob = ctx_command (context_of r)) os"
      "completion_events env (su_document s) (su_ir_blob s) (qr_max_event_bytes run) ingested os"
      "fact_decides env cx (context_of r) (su_document s) (su_ir_blob s) (qr_max_event_bytes run) ingested"
      "list_all (just_enqueued cx) os"
      using enqueue_completion_events_facts [OF 2(6) admits_Nil [OF inv]] core some(6)
      by (auto simp: same_core_def)
    have "finishes cx Succeeded None r os d e"
      using os core some unfolding finishes_def by (simp add: same_core_def context_of_def)
    with some(3) os(4,5) 2(7) show ?thesis unfolding completed_effect_def by blast
  qed
qed

lemma complete_effect:
  assumes inv: "db_inv d" and a: "complete env cx fate run s d = (x, e)"
  shows "e = d \<and> x \<noteq> Ok Completed \<or> completed_effect env cx run s d e \<and> (x = Ok Completed \<or> x = Err Database)"
proof -
  consider "e = d" "x \<noteq> Ok Completed"
    | len raw_len y where "transact fate d (complete_body env cx run s len raw_len) = (y, e)" "x = rbind y (\<lambda>z. z)"
    using a unfolding complete_def settle_answer_def by (auto split: sum.splits prod.splits)
  then show ?thesis
  proof cases
    case (2 len raw_len y)
    have "e = d \<and> (\<forall>z. y \<noteq> Ok z) \<or> (\<exists>z. (z \<noteq> Ok Completed \<and> e = d \<or> z = Ok Completed \<and> completed_effect env cx run s d e)
        \<and> (y = Ok z \<or> y = Err Database))"
      using 2(1) by (rule transact_body) (rule complete_body_effect [OF inv])
    with 2(2) show ?thesis by (cases y) auto
  qed simp
qed

lemma failed_effect_inv:
  assumes "db_inv d" "failed_effect env cx run c retryable d e"
  shows "db_inv e \<and> later d e"
proof -
  obtain r ob where f: "finishes cx Failed (Some c) r [ob] d e" "event_kind_of ob = Report OpFailed"
    using assms(2) unfolding failed_effect_def by blast
  show ?thesis by (rule finishes_inv [OF assms(1) f(1)]) (simp_all add: f(2))
qed

lemma completed_effect_inv:
  assumes "db_inv d" "completed_effect env cx run s d e"
  shows "db_inv e \<and> later d e"
proof -
  obtain r os ingested where f: "finishes cx Succeeded None r os d e"
    "completion_events env (su_document s) (su_ir_blob s) (qr_max_event_bytes run) ingested os"
    using assms(2) unfolding completed_effect_def by blast
  show ?thesis by (rule finishes_inv [OF assms(1) f(1) completion_events_log [OF f(2)]]) simp
qed

lemma record_fetch_core:
  assumes "record_fetch cx fate run f d = (x, e)"
  shows "same_core d e"
proof -
  consider "e = d" | raw_len where "transact fate d (\<lambda>d.
            rbind (insert_fetch cx run f d) (\<lambda>d.
            rbind (insert_artifact cx 1 run ''raw_source'' (cf_raw_blob f) raw_len d) (\<lambda>d. Ok ((), d)))) = (x, e)"
    using assms unfolding record_fetch_def by (auto split: sum.splits)
  then show ?thesis
  proof cases
    case (2 raw_len)
    then show ?thesis
      by (rule transact_inv) (auto dest!: insert_fetch_core insert_artifact_core intro: same_core_trans)
  qed simp
qed

end
