(* ===== verification/Outbox.thy ===== *)
theory Outbox
  imports EventStore
begin

text \<open>
  Lease-backed publication from the transactional outbox, \<open>crates/eventing/src/outbox.rs\<close>: one bounded
  pass over the due rows, the record of each outcome, and the health verdict. The broker is the argument
  \<open>answer\<close>: what a publication of a row returns. While a publication is awaited other processes may change the
  database, and every statement may fail. The server's payload limit is an argument of \<open>nats_publish\<close>.
\<close>

section \<open>Publishing\<close>

datatype publish_error = Transient | TooLarge

definition is_permanent :: "publish_error \<Rightarrow> bool" where
  "is_permanent e = (e = TooLarge)"

definition PAYLOAD_TOO_LARGE :: string where "PAYLOAD_TOO_LARGE = ''payload_too_large''"
definition PAYLOAD_UNSERIALIZABLE :: string where "PAYLOAD_UNSERIALIZABLE = ''payload_unserializable''"
definition PAYLOAD_HEADROOM_BYTES :: nat where "PAYLOAD_HEADROOM_BYTES = 1024"

fun error_class :: "publish_error \<Rightarrow> string" where
  "error_class Transient = ''publish_failed''"
| "error_class TooLarge = PAYLOAD_TOO_LARGE"

text \<open>\<open>broker\<close> tells whether the stream acknowledges the message.\<close>

definition nats_publish :: "nat \<Rightarrow> bool \<Rightarrow> nat \<Rightarrow> (publish_error, unit) res" where
  "nats_publish max_payload broker payload_len =
     (if payload_len > max_payload - PAYLOAD_HEADROOM_BYTES then Err TooLarge
      else if broker then Ok () else Err Transient)"

section \<open>One pass\<close>

record outbox_report =
  rep_claimed :: nat
  rep_published :: nat
  rep_failed :: nat
  rep_dead_lettered :: nat

definition due :: "nat \<Rightarrow> outbox_row \<Rightarrow> bool" where
  "due now r =
     (ob_published_at r = None \<and> ob_dead_at r = None \<and> ob_next_attempt r \<le> now
      \<and> (case ob_claimed_until r of None \<Rightarrow> True | Some t \<Rightarrow> t \<le> now))"

text \<open>\<open>order by next_attempt_at, enqueued_at limit $2 for update skip locked\<close>.\<close>

definition batch :: "nat \<Rightarrow> (uuid \<Rightarrow> bool) \<Rightarrow> int \<Rightarrow> outbox_row list \<Rightarrow> outbox_row list" where
  "batch now locked limit rows =
     take (nat (max 1 (min 1000 limit)))
       (sort_key ob_next_attempt (sort_key ob_enqueued (filter (\<lambda>r. due now r \<and> \<not> locked (ob_id r)) rows)))"

definition lease_row :: "nat \<Rightarrow> string \<Rightarrow> outbox_row \<Rightarrow> outbox_row" where
  "lease_row now claimed_by r =
     r\<lparr>ob_claimed_until := Some (now + seconds 30), ob_claimed_by := Some claimed_by\<rparr>"

definition claim_due ::
  "nat \<Rightarrow> (uuid \<Rightarrow> bool) \<Rightarrow> string \<Rightarrow> int \<Rightarrow> db \<Rightarrow> (consume_error, outbox_row list \<times> db) res" where
  "claim_due now locked claimed_by limit d =
     (let b = batch now locked limit (outbox d); ids = map ob_id b
      in checked (list_all (\<lambda>r. outbox_row_ok (lease_row now claimed_by r)) b)
           (map (lease_row now claimed_by) b,
            d\<lparr>outbox := update_where (\<lambda>r. ob_id r \<in> set ids) (lease_row now claimed_by) (outbox d)\<rparr>))"

definition mark_published :: "nat \<Rightarrow> outbox_row \<Rightarrow> outbox_row" where
  "mark_published now r =
     r\<lparr>ob_published_at := Some now, ob_claimed_until := None, ob_claimed_by := None, ob_last_error := None\<rparr>"

text \<open>\<open>least(300.0, power(2.0, least(attempts, 20)))\<close> seconds.\<close>

definition backoff_us :: "nat \<Rightarrow> nat" where
  "backoff_us attempts = seconds (min 300 (2 ^ min attempts 20))"

definition mark_transient :: "nat \<Rightarrow> string \<Rightarrow> outbox_row \<Rightarrow> outbox_row" where
  "mark_transient now cls r =
     r\<lparr>ob_attempts := ob_attempts r + 1, ob_last_error := Some cls, ob_claimed_until := None,
       ob_claimed_by := None, ob_next_attempt := now + backoff_us (ob_attempts r)\<rparr>"

definition mark_undeliverable :: "nat \<Rightarrow> string \<Rightarrow> outbox_row \<Rightarrow> outbox_row" where
  "mark_undeliverable now cls r =
     r\<lparr>ob_attempts := ob_attempts r + 1, ob_last_error := Some cls, ob_claimed_until := None,
       ob_claimed_by := None, ob_dead_at := Some now\<rparr>"

text \<open>The broker's answer to one row; \<open>None\<close> when its payload does not serialize.\<close>

definition outcome_of :: "(publish_error, unit) res option \<Rightarrow> nat \<Rightarrow> outbox_row \<Rightarrow> outbox_row" where
  "outcome_of a now =
     (case a of
        None \<Rightarrow> mark_undeliverable now PAYLOAD_UNSERIALIZABLE
      | Some (Ok _) \<Rightarrow> mark_published now
      | Some (Err e) \<Rightarrow> if is_permanent e then mark_undeliverable now (error_class e)
                         else mark_transient now (error_class e))"

definition count_outcome :: "(publish_error, unit) res option \<Rightarrow> outbox_report \<Rightarrow> outbox_report" where
  "count_outcome a r =
     (case a of
        None \<Rightarrow> r\<lparr>rep_dead_lettered := rep_dead_lettered r + 1\<rparr>
      | Some (Ok _) \<Rightarrow> r\<lparr>rep_published := rep_published r + 1\<rparr>
      | Some (Err e) \<Rightarrow> if is_permanent e then r\<lparr>rep_dead_lettered := rep_dead_lettered r + 1\<rparr>
                         else r\<lparr>rep_failed := rep_failed r + 1\<rparr>)"

definition settle_row :: "(publish_error, unit) res option \<Rightarrow> nat \<Rightarrow> uuid \<Rightarrow> db \<Rightarrow> (consume_error, unit \<times> db) res" where
  "settle_row a now i d =
     checked (list_all (\<lambda>r. ob_id r = i \<longrightarrow> outbox_row_ok (outcome_of a now r)) (outbox d))
       ((), d\<lparr>outbox := update_where (\<lambda>r. ob_id r = i) (outcome_of a now) (outbox d)\<rparr>)"

text \<open>What a pass meets at its \<open>k\<close>-th row: the broker's answer, the instant of the statement that
  records it, that statement's fate, and what other processes do to the database while the publication is
  awaited.\<close>

type_synonym row_event = "(publish_error, unit) res option \<times> nat \<times> tx_fate \<times> (db \<Rightarrow> db)"

fun settle_rows ::
  "(nat \<Rightarrow> row_event) \<Rightarrow> nat \<Rightarrow> outbox_row list \<Rightarrow> outbox_report \<Rightarrow> db \<Rightarrow> (consume_error, outbox_report) res \<times> db"
where
  "settle_rows ev k [] report d = (Ok report, d)"
| "settle_rows ev k (r # rs) report d =
     (case ev k of (a, now, fate, others) \<Rightarrow>
        (case transact fate (others d) (settle_row a now (ob_id r)) of
           (Err e, d') \<Rightarrow> (Err e, d')
         | (Ok _, d') \<Rightarrow> settle_rows ev (Suc k) rs (count_outcome a report) d'))"

definition run_outbox_once ::
  "nat \<Rightarrow> tx_fate \<Rightarrow> (uuid \<Rightarrow> bool) \<Rightarrow> string \<Rightarrow> int \<Rightarrow> (nat \<Rightarrow> row_event) \<Rightarrow> db
   \<Rightarrow> (consume_error, outbox_report) res \<times> db" where
  "run_outbox_once now fate locked claimed_by limit ev d =
     (case transact fate d (claim_due now locked claimed_by limit) of
        (Err e, d') \<Rightarrow> (Err e, d')
      | (Ok rows, d') \<Rightarrow>
          settle_rows ev 0 rows
            \<lparr>rep_claimed = length rows, rep_published = 0, rep_failed = 0, rep_dead_lettered = 0\<rparr> d')"

section \<open>Health\<close>

definition UNHEALTHY_ATTEMPTS :: nat where "UNHEALTHY_ATTEMPTS = 3"
definition UNHEALTHY_AGE_SECONDS :: nat where "UNHEALTHY_AGE_SECONDS = 300"

record oldest_unpublished_row =
  head_stuck :: bool
  head_last_error :: "string option"

text \<open>Identifiers are compared as byte strings, the order of PostgreSQL's \<open>uuid\<close>.\<close>

definition id_key :: "uuid \<Rightarrow> nat" where
  "id_key u = foldl (\<lambda>n b. 256 * n + unat b) 0 u"

definition oldest_unpublished :: "nat \<Rightarrow> db \<Rightarrow> oldest_unpublished_row option" where
  "oldest_unpublished now d =
     (case sort_key ob_enqueued (sort_key (\<lambda>r. id_key (ob_id r))
             (filter (\<lambda>r. ob_published_at r = None \<and> ob_dead_at r = None) (outbox d))) of
        [] \<Rightarrow> None
      | r # _ \<Rightarrow>
          Some \<lparr>head_stuck = (ob_attempts r \<ge> UNHEALTHY_ATTEMPTS \<or> ob_enqueued r + seconds UNHEALTHY_AGE_SECONDS < now),
                head_last_error = ob_last_error r\<rparr>)"

definition observe :: "nat \<Rightarrow> db \<Rightarrow> outbox_report \<Rightarrow> bool \<Rightarrow> bool" where
  "observe now d report healthy =
     (let head = oldest_unpublished now d
      in if rep_failed report > 0 then \<not> (case head of None \<Rightarrow> False | Some h \<Rightarrow> head_stuck h)
         else if rep_claimed report = 0 then head = None \<or> healthy
         else True)"

section \<open>Effects on the database\<close>

lemma batch_subset: "set (batch now locked limit rows) \<subseteq> {r \<in> set rows. due now r \<and> \<not> locked (ob_id r)}"
  by (auto simp: batch_def dest: in_set_takeD)

lemma batch_length: "length (batch now locked limit rows) \<le> 1000"
proof -
  have "nat (max 1 (min 1000 limit)) \<le> 1000" by linarith
  then show ?thesis by (simp add: batch_def min.coboundedI2)
qed

lemma distinct_batch: "distinct rows \<Longrightarrow> distinct (batch now locked limit rows)"
  by (simp add: batch_def)

lemma same_event_by_id: "db_inv d \<Longrightarrow> a \<in> set (outbox d) \<Longrightarrow> b \<in> set (outbox d) \<Longrightarrow> ob_id a = ob_id b \<Longrightarrow> a = b"
  by (auto simp: db_inv_def keys_ok_def distinct_map inj_on_def)

lemma in_batch_iff:
  assumes "db_inv d" "r \<in> set (outbox d)"
  shows "ob_id r \<in> ob_id ` set (batch now locked limit (outbox d)) \<longleftrightarrow> r \<in> set (batch now locked limit (outbox d))"
  using batch_subset [of now locked limit "outbox d"] same_event_by_id [OF assms] by blast

lemma claim_due_inv:
  assumes inv: "db_inv d" and a: "claim_due now locked w limit d = Ok (rows, e)"
  shows "db_inv e \<and> later d e"
proof -
  let ?b = "batch now locked limit (outbox d)"
  let ?p = "\<lambda>r. ob_id r \<in> ob_id ` set ?b"
  have e: "e = d\<lparr>outbox := update_where ?p (lease_row now w) (outbox d)\<rparr>"
    and ok: "list_all (\<lambda>r. outbox_row_ok (lease_row now w r)) ?b"
    using a by (auto simp: claim_due_def Let_def)
  have "db_inv e"
    by (rule db_inv_update_outbox [OF inv e])
      (use ok in_batch_iff [OF inv] in \<open>auto simp: lease_row_def list_all_iff\<close>)
  moreover have "later d e"
    by (rule later_update_outbox [OF e]) (simp add: event_later_def lease_row_def)
  ultimately show ?thesis ..
qed

lemma outcome_of_keeps:
  "ob_id (outcome_of a now r) = ob_id r" "ob_message (outcome_of a now r) = ob_message r"
  "ob_causation (outcome_of a now r) = ob_causation r" "ob_subject (outcome_of a now r) = ob_subject r"
  "ob_payload (outcome_of a now r) = ob_payload r"
  "ob_published_at r \<noteq> None \<Longrightarrow> ob_published_at (outcome_of a now r) \<noteq> None"
  "ob_dead_at r \<noteq> None \<Longrightarrow> ob_dead_at (outcome_of a now r) \<noteq> None"
  by (auto simp: outcome_of_def mark_published_def mark_transient_def mark_undeliverable_def
      split: option.splits sum.splits)

lemma settle_row_inv:
  assumes inv: "db_inv d" and a: "settle_row ans now i d = Ok (u, e)"
  shows "db_inv e \<and> later d e"
proof -
  have e: "e = d\<lparr>outbox := update_where (\<lambda>r. ob_id r = i) (outcome_of ans now) (outbox d)\<rparr>"
    and ok: "list_all (\<lambda>r. ob_id r = i \<longrightarrow> outbox_row_ok (outcome_of ans now r)) (outbox d)"
    using a by (auto simp: settle_row_def)
  have "db_inv e"
    by (rule db_inv_update_outbox [OF inv e]) (use ok in \<open>auto simp: outcome_of_keeps list_all_iff\<close>)
  moreover have "later d e"
    by (rule later_update_outbox [OF e]) (simp add: event_later_def outcome_of_keeps)
  ultimately show ?thesis ..
qed

lemma transact_keeps:
  assumes "db_inv d" "transact fate d body = (r, e)" "\<And>x f. body d = Ok (x, f) \<Longrightarrow> db_inv f \<and> later d f"
  shows "db_inv e \<and> later d e"
  using assms(2) by (rule transact_inv [where I = "\<lambda>e. db_inv e \<and> later d e"]) (use assms in auto)

section \<open>What a pass does to each row\<close>

definition settled :: "outbox_report \<Rightarrow> nat" where
  "settled rep = rep_published rep + rep_failed rep + rep_dead_lettered rep"

lemma settled_count: "settled (count_outcome a rep) = Suc (settled rep)" "rep_claimed (count_outcome a rep) = rep_claimed rep"
  by (auto simp: count_outcome_def settled_def split: option.splits sum.splits)

lemma backoff_bounds: "seconds 1 \<le> backoff_us n \<and> backoff_us n \<le> seconds 300"
  by (auto simp: backoff_us_def seconds_def min_def)

text \<open>What the record of an answer does to a row: it releases the lease and keeps the event. An acknowledged
  event is published; one that is too large or does not serialize is given up; after a transient failure it
  has one more attempt behind it and the next is due between one second and five minutes later.\<close>

definition relay_outcome :: "(publish_error, unit) res option \<Rightarrow> nat \<Rightarrow> outbox_row \<Rightarrow> outbox_row \<Rightarrow> bool" where
  "relay_outcome a t r q =
     (ob_id q = ob_id r \<and> ob_payload q = ob_payload r \<and> ob_claimed_until q = None \<and> ob_claimed_by q = None
      \<and> ob_published_at q = (if a = Some (Ok ()) then Some t else ob_published_at r)
      \<and> ob_dead_at q = (if a = None \<or> a = Some (Err TooLarge) then Some t else ob_dead_at r)
      \<and> (a = Some (Err Transient) \<longrightarrow> ob_attempts q = ob_attempts r + 1
           \<and> t + seconds 1 \<le> ob_next_attempt q \<and> ob_next_attempt q \<le> t + seconds 300))"

lemma outcome_of_relay: "relay_outcome a t r (outcome_of a t r)"
  using backoff_bounds [of "ob_attempts r"]
  by (auto simp: relay_outcome_def outcome_of_def mark_published_def mark_transient_def mark_undeliverable_def
      is_permanent_def split: option.splits sum.splits publish_error.splits)

lemma settle_row_outcome:
  assumes "settle_row a t i x = Ok (u, y)" "r \<in> set (outbox x)" "ob_id r = i"
  shows "\<exists>q\<in>set (outbox y). relay_outcome a t r q"
proof -
  have "outbox y = update_where (\<lambda>r. ob_id r = i) (outcome_of a t) (outbox x)"
    using assms(1) by (auto simp: settle_row_def)
  then have "outcome_of a t r \<in> set (outbox y)" using assms(2,3) unfolding update_where_def by force
  with outcome_of_relay show ?thesis by blast
qed

section \<open>A pass with a working broker\<close>

text \<open>Others only add events that become due after \<open>now\<close>.\<close>

definition enqueues_after :: "nat \<Rightarrow> db \<Rightarrow> db \<Rightarrow> bool" where
  "enqueues_after now d e = (\<exists>os. outbox e = outbox d @ os \<and> list_all (\<lambda>r. now < ob_next_attempt r) os)"

definition harmless :: "nat \<Rightarrow> (db \<Rightarrow> db) \<Rightarrow> bool" where
  "harmless now f = (\<forall>d. db_inv d \<longrightarrow> db_inv (f d) \<and> later d (f d) \<and> enqueues_after now d (f d))"

definition all_acknowledged :: "nat \<Rightarrow> (nat \<Rightarrow> row_event) \<Rightarrow> bool" where
  "all_acknowledged now ev = (\<forall>k. \<exists>t f. ev k = (Some (Ok ()), t, Commits, f) \<and> harmless now f)"

text \<open>The rows that can compete with those due at \<open>now\<close>.\<close>

definition backlog :: "nat \<Rightarrow> db \<Rightarrow> outbox_row set" where
  "backlog now d =
     {r \<in> set (outbox d). ob_published_at r = None \<and> ob_dead_at r = None \<and> ob_next_attempt r \<le> now}"

definition is_published_in :: "db \<Rightarrow> outbox_row \<Rightarrow> bool" where
  "is_published_in e r =
     (\<exists>q\<in>set (outbox e). ob_id q = ob_id r \<and> ob_payload q = ob_payload r \<and> ob_published_at q \<noteq> None)"

text \<open>A change of the outbox that publishes the rows with identifiers \<open>I\<close> and leaves every other one alone;
  what is new is due after \<open>now\<close>.\<close>

definition publishes :: "nat \<Rightarrow> uuid set \<Rightarrow> db \<Rightarrow> db \<Rightarrow> bool" where
  "publishes now I d e =
     ((\<forall>r\<in>set (outbox d). if ob_id r \<in> I then is_published_in e r else r \<in> set (outbox e))
      \<and> (\<forall>q\<in>set (outbox e). q \<in> set (outbox d) \<and> ob_id q \<notin> I \<or> ob_published_at q \<noteq> None \<or> now < ob_next_attempt q))"

lemma mark_published_ok: "outbox_row_ok r \<Longrightarrow> ob_dead_at r = None \<Longrightarrow> outbox_row_ok (mark_published now r)"
  by (auto simp: outbox_row_ok_def mark_published_def)

lemma update_where_hit: "r \<in> set xs \<Longrightarrow> p r \<Longrightarrow> f r \<in> set (update_where p f xs)"
  by (force simp: update_where_def)

lemma update_where_miss: "r \<in> set xs \<Longrightarrow> \<not> p r \<Longrightarrow> r \<in> set (update_where p f xs)"
  by (force simp: update_where_def)

lemma update_where_cases: "q \<in> set (update_where p f xs) \<Longrightarrow> q \<in> set xs \<and> \<not> p q \<or> (\<exists>r\<in>set xs. p r \<and> q = f r)"
  by (auto simp: update_where_def split: if_splits)

lemma settle_acknowledged:
  assumes inv: "db_inv d" and i: "i \<in> ob_id ` set (outbox d)" and f: "harmless now f"
    and live: "\<forall>r\<in>set (outbox d). ob_id r = i \<longrightarrow> ob_dead_at r = None"
  shows "\<exists>e. transact Commits (f d) (settle_row (Some (Ok ())) t i) = (Ok (), e) \<and> db_inv e \<and> later d e
    \<and> publishes now {i} d e \<and> (\<forall>q\<in>set (outbox e). ob_id q \<in> ob_id ` set (outbox d) \<longrightarrow>
         (\<exists>r\<in>set (outbox d). ob_id q = ob_id r \<and> ob_dead_at q = ob_dead_at r))"
proof -
  from f inv obtain os where 1: "db_inv (f d)" "later d (f d)" "outbox (f d) = outbox d @ os"
    "list_all (\<lambda>r. now < ob_next_attempt r) os" by (auto simp: harmless_def enqueues_after_def)
  then have new: "\<And>q. q \<in> set os \<Longrightarrow> ob_id q \<notin> ob_id ` set (outbox d)" by (auto simp: db_inv_def keys_ok_def)
  let ?e = "(f d)\<lparr>outbox := update_where (\<lambda>r. ob_id r = i) (mark_published t) (outbox (f d))\<rparr>"
  have "outbox_row_ok r" if "r \<in> set (outbox (f d))" for r
    using 1(1) that by (auto simp: db_inv_def outbox_ok_def list_all_iff)
  moreover have "ob_dead_at r = None" if "r \<in> set (outbox (f d))" "ob_id r = i" for r
    using that i live new 1(3) by auto
  ultimately have "list_all (\<lambda>r. ob_id r = i \<longrightarrow> outbox_row_ok (mark_published t r)) (outbox (f d))"
    using mark_published_ok by (auto simp: list_all_iff)
  then have s: "settle_row (Some (Ok ())) t i (f d) = Ok ((), ?e)"
    by (simp add: settle_row_def outcome_of_def checked_def)
  have e: "db_inv ?e" "later d ?e" using settle_row_inv [OF 1(1) s] later_trans 1(2) by blast+
  have out: "outbox ?e = update_where (\<lambda>r. ob_id r = i) (mark_published t) (outbox d @ os)" by (simp add: 1(3))
  have mark: "ob_id (mark_published t r) = ob_id r" "ob_payload (mark_published t r) = ob_payload r"
    "ob_dead_at (mark_published t r) = ob_dead_at r" "ob_published_at (mark_published t r) = Some t" for r
    by (simp_all add: mark_published_def)
  have from_e: "q \<in> set (outbox d) \<and> ob_id q \<noteq> i \<or> q \<in> set os
      \<or> (\<exists>r\<in>set (outbox d) \<union> set os. q = mark_published t r)" if "q \<in> set (outbox ?e)" for q
    using update_where_cases [OF that [unfolded out]] by auto
  have "if ob_id r \<in> {i} then is_published_in ?e r else r \<in> set (outbox ?e)" if r: "r \<in> set (outbox d)" for r
  proof (cases "ob_id r = i")
    case True
    with r have "mark_published t r \<in> set (outbox ?e)" unfolding out by (intro update_where_hit) auto
    then have "is_published_in ?e r" unfolding is_published_in_def by (rule bexI [rotated]) (simp add: mark)
    with True show ?thesis by simp
  next
    case False
    with r have "r \<in> set (outbox ?e)" unfolding out by (intro update_where_miss) auto
    with False show ?thesis by simp
  qed
  then have "publishes now {i} d ?e"
    using from_e 1(4) mark(4) unfolding publishes_def list_all_iff by (metis option.distinct(1) singletonD)
  moreover have "\<forall>q\<in>set (outbox ?e). ob_id q \<in> ob_id ` set (outbox d) \<longrightarrow>
         (\<exists>r\<in>set (outbox d). ob_id q = ob_id r \<and> ob_dead_at q = ob_dead_at r)"
    using from_e new mark(1,3) by (metis Un_iff)
  ultimately show ?thesis using s e by (intro exI [of _ ?e]) (simp add: transact_def)
qed

lemma is_published_in_later: "is_published_in e r \<Longrightarrow> later e f \<Longrightarrow> is_published_in f r"
  unfolding is_published_in_def later_def by (metis event_later_def)

lemma publishes_trans:
  assumes "publishes now {i} d e" "publishes now I e f" "later e f"
  shows "publishes now (insert i I) d f"
  using assms(1,2) is_published_in_later [OF _ assms(3)] unfolding publishes_def by (fastforce split: if_splits)

lemma settle_rows_acknowledged:
  assumes "all_acknowledged now ev"
  shows "db_inv d \<Longrightarrow> ob_id ` set rows \<subseteq> ob_id ` set (outbox d)
    \<Longrightarrow> \<forall>r\<in>set (outbox d). ob_id r \<in> ob_id ` set rows \<longrightarrow> ob_dead_at r = None
    \<Longrightarrow> \<exists>rep' e. settle_rows ev k rows rep d = (Ok rep', e) \<and> db_inv e \<and> later d e \<and> publishes now (ob_id ` set rows) d e"
proof (induction rows arbitrary: k rep d)
  case Nil
  have "publishes now {} d d" by (simp add: publishes_def)
  with Nil show ?case by (simp add: later_refl)
next
  case (Cons x rows)
  obtain t f where ev: "ev k = (Some (Ok ()), t, Commits, f)" "harmless now f"
    using assms unfolding all_acknowledged_def by blast
  obtain d1 where 1: "transact Commits (f d) (settle_row (Some (Ok ())) t (ob_id x)) = (Ok (), d1)" "db_inv d1"
    "later d d1" "publishes now {ob_id x} d d1" "\<forall>q\<in>set (outbox d1). ob_id q \<in> ob_id ` set (outbox d) \<longrightarrow>
         (\<exists>r\<in>set (outbox d). ob_id q = ob_id r \<and> ob_dead_at q = ob_dead_at r)"
    using settle_acknowledged [OF Cons.prems(1) _ ev(2), of "ob_id x" t] Cons.prems(2,3) by auto
  have "ob_id r \<in> ob_id ` set (outbox d1)" if "r \<in> set (outbox d)" for r
    using 1(3) that unfolding later_def event_later_def by (metis imageI)
  then have ids: "ob_id ` set rows \<subseteq> ob_id ` set (outbox d1)" using Cons.prems(2) by auto
  have "ob_dead_at q = None" if "q \<in> set (outbox d1)" "ob_id q \<in> ob_id ` set rows" for q
  proof -
    have q: "ob_id q \<in> ob_id ` set (x # rows)" using that(2) by simp
    then have "ob_id q \<in> ob_id ` set (outbox d)" using Cons.prems(2) by blast
    with 1(5) that(1) obtain r where "r \<in> set (outbox d)" "ob_id q = ob_id r" "ob_dead_at q = ob_dead_at r" by blast
    with Cons.prems(3) q show ?thesis by metis
  qed
  then obtain rep' e where 2: "settle_rows ev (Suc k) rows (count_outcome (Some (Ok ())) rep) d1 = (Ok rep', e)"
    "db_inv e" "later d1 e" "publishes now (ob_id ` set rows) d1 e"
    using Cons.IH [OF 1(2) ids] by blast
  with ev 1 publishes_trans [OF 1(4) 2(4,3)] later_trans [OF 1(3) 2(3)] show ?case by simp
qed

lemma lease_row_ok: "outbox_row_ok r \<Longrightarrow> between_chars 1 64 w \<Longrightarrow> outbox_row_ok (lease_row now w r)"
  by (auto simp: outbox_row_ok_def lease_row_def)

lemma run_outbox_once_acknowledged:
  assumes inv: "db_inv d" and w: "between_chars 1 64 w" and ev: "all_acknowledged now ev"
  shows "\<exists>rep e. run_outbox_once at Commits locked w limit ev d = (Ok rep, e) \<and> db_inv e \<and> later d e
    \<and> publishes now (ob_id ` set (batch at locked limit (outbox d))) d e"
proof -
  let ?b = "batch at locked limit (outbox d)" and ?rows = "map (lease_row at w) (batch at locked limit (outbox d))"
  let ?d = "d\<lparr>outbox := update_where (\<lambda>r. ob_id r \<in> ob_id ` set ?b) (lease_row at w) (outbox d)\<rparr>"
  have "outbox_row_ok r" if "r \<in> set (outbox d)" for r
    using inv that by (auto simp: db_inv_def outbox_ok_def list_all_iff)
  then have "list_all (\<lambda>r. outbox_row_ok (lease_row at w r)) ?b"
    using batch_subset [of at locked limit "outbox d"] lease_row_ok [OF _ w] by (auto simp: list_all_iff)
  then have s: "claim_due at locked w limit d = Ok (?rows, ?d)" by (simp add: claim_due_def Let_def checked_def)
  have d1: "db_inv ?d" "later d ?d" using claim_due_inv [OF inv s] by auto
  have keep: "ob_id (lease_row at w x) = ob_id x" "ob_payload (lease_row at w x) = ob_payload x"
    "ob_dead_at (lease_row at w x) = ob_dead_at x" for x by (simp_all add: lease_row_def)
  have ids: "ob_id ` set ?rows = ob_id ` set ?b" by (simp add: image_image keep)
  have sub: "set ?b \<subseteq> set (outbox d)" using batch_subset by blast
  have out: "outbox ?d = update_where (\<lambda>r. ob_id r \<in> ob_id ` set ?b) (lease_row at w) (outbox d)" by simp
  have hit: "lease_row at w r \<in> set (outbox ?d)" if "r \<in> set (outbox d)" "ob_id r \<in> ob_id ` set ?b" for r
    unfolding out using that by (rule update_where_hit)
  have from_d: "q \<in> set (outbox d) \<and> ob_id q \<notin> ob_id ` set ?b
      \<or> (\<exists>r\<in>set (outbox d). ob_id r \<in> ob_id ` set ?b \<and> q = lease_row at w r)" if "q \<in> set (outbox ?d)" for q
    using that unfolding out by (rule update_where_cases)
  have sub': "ob_id ` set ?rows \<subseteq> ob_id ` set (outbox ?d)" unfolding ids
  proof (rule image_subsetI)
    fix r assume "r \<in> set ?b"
    with sub have "lease_row at w r \<in> set (outbox ?d)" by (intro hit) auto
    then show "ob_id r \<in> ob_id ` set (outbox ?d)" by (metis imageI keep(1))
  qed
  have "ob_dead_at r = None" if "r \<in> set (outbox d)" "ob_id r \<in> ob_id ` set ?b" for r
    using in_batch_iff [OF inv that(1), of at locked limit] that(2) batch_subset [of at locked limit "outbox d"]
    by (auto simp: due_def)
  then have "\<forall>r\<in>set (outbox ?d). ob_id r \<in> ob_id ` set ?rows \<longrightarrow> ob_dead_at r = None"
    unfolding ids using from_d keep by metis
  from settle_rows_acknowledged [OF ev d1(1) sub' this] obtain rep' e where
    e: "settle_rows ev 0 ?rows \<lparr>rep_claimed = length ?rows, rep_published = 0, rep_failed = 0, rep_dead_lettered = 0\<rparr> ?d
      = (Ok rep', e)" "db_inv e" "later ?d e" "publishes now (ob_id ` set ?rows) ?d e" by blast
  have "if ob_id r \<in> ob_id ` set ?b then is_published_in e r else r \<in> set (outbox e)" if r: "r \<in> set (outbox d)" for r
  proof (cases "ob_id r \<in> ob_id ` set ?b")
    case True
    with e(4) hit [OF r True] have "is_published_in e (lease_row at w r)" unfolding ids publishes_def by (metis keep(1))
    with True show ?thesis by (simp add: is_published_in_def keep)
  next
    case False
    then have "r \<in> set (outbox ?d)" unfolding out by (intro update_where_miss [OF r])
    with e(4) False have "r \<in> set (outbox e)" unfolding ids publishes_def by metis
    with False show ?thesis by (simp only: if_False)
  qed
  moreover have "q \<in> set (outbox d) \<and> ob_id q \<notin> ob_id ` set ?b \<or> ob_published_at q \<noteq> None \<or> now < ob_next_attempt q"
    if "q \<in> set (outbox e)" for q
    using e(4) that from_d keep(1) unfolding ids publishes_def by metis
  ultimately have "publishes now (ob_id ` set ?b) d e" unfolding publishes_def by blast
  with e later_trans [OF d1(2) e(3)] s show ?thesis by (simp add: run_outbox_once_def transact_def)
qed

text \<open>A batch fills up with rows of the backlog, or takes every row that was due.\<close>

lemma batch_progress:
  assumes "now \<le> at" "k = nat (max 1 (min 1000 limit))" "b = batch at (\<lambda>_. False) limit rows"
  shows "length b = k \<and> (\<forall>r\<in>set b. ob_next_attempt r \<le> now) \<or> {r \<in> set rows. due now r} \<subseteq> set b"
proof -
  let ?xs = "sort_key ob_next_attempt (sort_key ob_enqueued (filter (due at) rows))"
  have b: "b = take k ?xs" using assms(2,3) by (simp add: batch_def)
  have due: "{r \<in> set rows. due now r} \<subseteq> set ?xs"
    using assms(1) by (auto simp: due_def split: option.splits)
  have split: "set ?xs = set b \<union> set (drop k ?xs)" unfolding b by (metis append_take_drop_id set_append)
  have "sorted (map ob_next_attempt (take k ?xs @ drop k ?xs))" by simp
  then have ord: "\<forall>r\<in>set b. \<forall>q\<in>set (drop k ?xs). ob_next_attempt r \<le> ob_next_attempt q"
    unfolding b map_append sorted_append by simp
  show ?thesis
  proof (cases "\<forall>r\<in>set b. ob_next_attempt r \<le> now")
    case True
    then show ?thesis using due unfolding b by (cases "k \<le> length ?xs") auto
  next
    case False
    then obtain r where "r \<in> set b" "now < ob_next_attempt r" by auto
    with ord have "\<forall>q\<in>set (drop k ?xs). now < ob_next_attempt q" by fastforce
    then have "\<forall>q\<in>set (drop k ?xs). \<not> due now q" by (auto simp: due_def)
    with due split show ?thesis by blast
  qed
qed

lemma backlog_enqueue: "enqueues_after now d e \<Longrightarrow> backlog now e = backlog now d"
  by (force simp: enqueues_after_def backlog_def list_all_iff)

lemma backlog_shrinks:
  assumes inv: "db_inv d" and p: "publishes now (ob_id ` set b) d e"
    and b: "b = batch at (\<lambda>_. False) limit (outbox d)" "\<forall>r\<in>set b. ob_next_attempt r \<le> now"
  shows "card (backlog now e) + length b \<le> card (backlog now d)"
proof -
  have sub: "set b \<subseteq> backlog now d"
    using batch_subset [of at "\<lambda>_. False" limit "outbox d"] b by (auto simp: backlog_def due_def)
  have "backlog now e \<subseteq> backlog now d - set b"
    using p unfolding publishes_def backlog_def by fastforce
  moreover have fin: "finite (backlog now d)" by (simp add: backlog_def)
  ultimately have "card (backlog now e) \<le> card (backlog now d) - card (set b)"
    using card_Diff_subset [OF finite_subset [OF sub fin] sub] card_mono [of "backlog now d - set b"] by simp
  moreover have "card (set b) \<le> card (backlog now d)" by (rule card_mono [OF fin sub])
  moreover have "distinct (outbox d)" using inv by (auto simp: db_inv_def keys_ok_def distinct_map)
  then have "card (set b) = length b" unfolding b(1) by (intro distinct_card distinct_batch)
  ultimately show ?thesis by simp
qed

text \<open>One pass publishes every row that was due, or shortens the backlog by a whole batch and leaves the rows
  it did not take due.\<close>

lemma pass_progress:
  assumes inv: "db_inv d" and w: "between_chars 1 64 w" and ev: "all_acknowledged now ev" and at: "now \<le> at"
  shows "\<exists>rep e. run_outbox_once at Commits (\<lambda>_. False) w limit ev d = (Ok rep, e) \<and> db_inv e \<and> later d e
    \<and> (\<forall>r\<in>set (outbox d). due now r \<longrightarrow> is_published_in e r
         \<or> r \<in> set (outbox e) \<and> card (backlog now e) + nat (max 1 (min 1000 limit)) \<le> card (backlog now d))"
proof -
  define b where "b = batch at (\<lambda>_. False) limit (outbox d)"
  obtain rep e where e: "run_outbox_once at Commits (\<lambda>_. False) w limit ev d = (Ok rep, e)" "db_inv e" "later d e"
    "publishes now (ob_id ` set b) d e"
    using run_outbox_once_acknowledged [OF inv w ev] unfolding b_def by blast
  have "is_published_in e r \<or> r \<in> set (outbox e) \<and> card (backlog now e) + nat (max 1 (min 1000 limit)) \<le> card (backlog now d)"
    if r: "r \<in> set (outbox d)" "due now r" for r
  proof (cases "ob_id r \<in> ob_id ` set b")
    case True
    with e(4) r(1) show ?thesis by (auto simp: publishes_def)
  next
    case False
    then have "r \<notin> set b" by blast
    with r batch_progress [OF at refl b_def] have
      "length b = nat (max 1 (min 1000 limit))" "\<forall>r\<in>set b. ob_next_attempt r \<le> now" by auto
    with backlog_shrinks [OF inv e(4) b_def] e(4) r(1) False show ?thesis by (simp add: publishes_def)
  qed
  with e show ?thesis by blast
qed

end
