(* ===== verification/Rendering.thy ===== *)
theory Rendering
  imports EventStore
begin

text \<open>
  The browser-rendering contract of \<open>crates/render-job/src/lib.rs\<close> and the extractor's side of it,
  \<open>crates/eventing/src/render.rs\<close>: the durable per-day budget and the bounded wait for a result.
\<close>

section \<open>Wire types\<close>

definition RENDER_REQUESTED_SUBJECT :: string where "RENDER_REQUESTED_SUBJECT = ''cmd.content.render.requested.v1''"
definition RENDER_COMPLETED_SUBJECT :: string where "RENDER_COMPLETED_SUBJECT = ''evt.content.render.completed.v1''"
definition RENDER_FAILED_SUBJECT :: string where "RENDER_FAILED_SUBJECT = ''evt.content.render.failed.v1''"

datatype render_failure_class =
    PolicyBlocked | NavigationTimeout | TotalTimeout | SizeLimit | NavigationFailed | BrowserUnavailable

fun render_class_str :: "render_failure_class \<Rightarrow> string" where
  "render_class_str PolicyBlocked = ''policy_blocked''"
| "render_class_str NavigationTimeout = ''navigation_timeout''"
| "render_class_str TotalTimeout = ''total_timeout''"
| "render_class_str SizeLimit = ''size_limit''"
| "render_class_str NavigationFailed = ''navigation_failed''"
| "render_class_str BrowserUnavailable = ''browser_unavailable''"

record render_budgets =
  navigation_timeout_ms :: nat
  total_timeout_ms :: nat
  max_dom_bytes :: nat

record render_command =
  rc_render_id :: uuid
  rc_operation_id :: uuid
  rc_correlation_id :: string
  rc_tenant_user_id :: uuid
  rc_url :: string
  rc_budgets :: render_budgets

record redirect_hop =
  hop_url :: string
  hop_status :: nat
  hop_media_type :: "string option"

record network_evidence =
  ne_hops :: "redirect_hop list"
  ne_blocked_requests :: nat

record render_completed =
  rd_render_id :: uuid
  rd_final_url :: string
  rd_dom :: blob_ref
  rd_evidence :: network_evidence

record render_failed =
  rf_render_id :: uuid
  rf_class :: render_failure_class

datatype render_outcome = RenderCompleted render_completed | RenderFailed render_failed
datatype render_request_error = RenderTransport | RenderTimeout

section \<open>The daily budget\<close>

datatype render_budget = Consumed int | Exhausted

text \<open>\<open>insert ... on conflict do nothing\<close>, then the guarded increment of the day's row.\<close>

fun bump :: "nat \<Rightarrow> int \<Rightarrow> (nat \<times> nat) list \<Rightarrow> int option \<times> (nat \<times> nat) list" where
  "bump day cap [] = (None, [])"
| "bump day cap ((k, n) # rest) =
     (if k = day then (if int n \<le> cap then (Some (int n + 1), (k, n + 1) # rest) else (None, (k, n) # rest))
      else (case bump day cap rest of (c, rest') \<Rightarrow> (c, (k, n) # rest')))"

definition consume_render_budget ::
  "tx_fate \<Rightarrow> nat \<Rightarrow> nat \<Rightarrow> db \<Rightarrow> (consume_error, render_budget) res \<times> db" where
  "consume_render_budget fate day max_escalations_per_day d =
     (case try_from i32_max max_escalations_per_day of
        None \<Rightarrow> (Err InvalidRunState, d)
      | Some m \<Rightarrow>
          let cap = int m - 1 in
          transact fate d (\<lambda>d.
            let seeded = (if day \<in> fst ` set (budgets d) then budgets d else budgets d @ [(day, 0)]) in
            case bump day cap seeded of (count, rows) \<Rightarrow>
              Ok (case count of None \<Rightarrow> Exhausted | Some n \<Rightarrow> Consumed n, d\<lparr>budgets := rows\<rparr>)))"

section \<open>Waiting for a result\<close>

text \<open>A delivery is a subject and a payload, or a receive error that ends the batch. The JSON decoders
  are arguments. A pass of the loop fetches one batch; \<open>pass k\<close> is what the \<open>k\<close>-th fetch yields
  (\<open>None\<close> for a transport error) and how many milliseconds it takes.\<close>

type_synonym render_delivery = "(string \<times> string) option"
type_synonym render_pass = "render_delivery list option \<times> nat"

fun scan_batch ::
  "(string \<Rightarrow> render_completed option) \<Rightarrow> (string \<Rightarrow> render_failed option) \<Rightarrow> uuid \<Rightarrow> render_delivery list
   \<Rightarrow> render_outcome option" where
  "scan_batch completed failed i [] = None"
| "scan_batch completed failed i (None # ds) = None"
| "scan_batch completed failed i (Some (subject, payload) # ds) =
     (case (if subject = RENDER_COMPLETED_SUBJECT
            then (case completed payload of
                    Some c \<Rightarrow> (if rd_render_id c = i then Some (RenderCompleted c) else None) | None \<Rightarrow> None)
            else None) of
        Some r \<Rightarrow> Some r
      | None \<Rightarrow>
          (case (if subject = RENDER_FAILED_SUBJECT
                 then (case failed payload of
                         Some f \<Rightarrow> (if rf_render_id f = i then Some (RenderFailed f) else None) | None \<Rightarrow> None)
                 else None) of
             Some r \<Rightarrow> Some r
           | None \<Rightarrow> scan_batch completed failed i ds))"

definition RENDER_POLL_INTERVAL :: nat where "RENDER_POLL_INTERVAL = 100"

function await_render ::
  "(render_delivery list \<Rightarrow> render_outcome option) \<Rightarrow> (nat \<Rightarrow> render_pass) \<Rightarrow> nat \<Rightarrow> nat \<Rightarrow> nat
   \<Rightarrow> (render_request_error, render_outcome) res \<times> nat" where
  "await_render scan pass deadline k now =
     (case pass k of (batch, took) \<Rightarrow>
        let now' = now + took in
        case batch of
          None \<Rightarrow> (Err RenderTransport, now')
        | Some ds \<Rightarrow>
            (case scan ds of
               Some r \<Rightarrow> (Ok r, now')
             | None \<Rightarrow>
                 if now' \<ge> deadline then (Err RenderTimeout, now')
                 else await_render scan pass deadline (Suc k) (now' + min RENDER_POLL_INTERVAL (deadline - now'))))"
  by pat_completeness auto
termination
  by (relation "measure (\<lambda>(_, _, deadline, _, now). deadline - now)") (auto simp: RENDER_POLL_INTERVAL_def)

text \<open>\<open>published\<close> and \<open>consumer\<close>: whether the command was acknowledged and the durable was obtained.\<close>

definition request_render ::
  "(string \<Rightarrow> render_completed option) \<Rightarrow> (string \<Rightarrow> render_failed option) \<Rightarrow> bool \<Rightarrow> bool \<Rightarrow> (nat \<Rightarrow> render_pass)
   \<Rightarrow> nat \<Rightarrow> render_command \<Rightarrow> (render_request_error, render_outcome) res \<times> nat" where
  "request_render completed failed published consumer pass now command =
     (if \<not> published \<or> \<not> consumer then (Err RenderTransport, now)
      else await_render (scan_batch completed failed (rc_render_id command)) pass
             (now + total_timeout_ms (rc_budgets command)) 0 now)"

section \<open>The budget holds\<close>

text \<open>The contract of a per-day budget: a granted request was below its limit and uses up one slot, and no
  request gives slots back.\<close>

locale daily_budget =
  fixes spend :: "'s \<Rightarrow> 'q \<Rightarrow> ('e, render_budget) res \<times> 's"
    and day_of :: "'q \<Rightarrow> nat" and limit_of :: "'q \<Rightarrow> nat" and used :: "'s \<Rightarrow> nat \<Rightarrow> nat"
  assumes granted: "spend s q = (Ok (Consumed n), s')
      \<Longrightarrow> used s (day_of q) < limit_of q \<and> used s' (day_of q) = used s (day_of q) + 1"
    and monotone: "spend s q = (r, s') \<Longrightarrow> used s day \<le> used s' day"
begin

definition is_granted :: "nat \<Rightarrow> 'q \<times> ('e, render_budget) res \<Rightarrow> bool" where
  "is_granted day = (\<lambda>(q, r). day_of q = day \<and> (case r of Ok (Consumed _) \<Rightarrow> True | _ \<Rightarrow> False))"

lemma grants_bounded:
  assumes "\<forall>q\<in>set qs. limit_of q \<le> m"
  shows "length (filter (is_granted day) (zip qs (fst (run_all spend s qs)))) \<le> m - used s day"
  using assms
proof (induction qs arbitrary: s)
  case (Cons q qs)
  obtain r s' where step: "spend s q = (r, s')" by fastforce
  let ?rest = "length (filter (is_granted day) (zip qs (fst (run_all spend s' qs))))"
  have rest: "?rest \<le> m - used s' day" using Cons by simp
  have split: "length (filter (is_granted day) (zip (q # qs) (fst (run_all spend s (q # qs)))))
      = (if is_granted day (q, r) then 1 else 0) + ?rest"
    by (simp add: step Let_def split_beta)
  show ?case
  proof (cases "is_granted day (q, r)")
    case True
    then obtain n where n: "r = Ok (Consumed n)" "day_of q = day"
      by (auto simp: is_granted_def split: sum.splits render_budget.splits)
    have "used s day < m" "used s' day = used s day + 1"
      using granted [OF step [unfolded n(1)]] n(2) Cons.prems by auto
    with rest split True show ?thesis by simp
  next
    case False
    with rest split monotone [OF step, of day] show ?thesis by simp
  qed
qed simp

end

definition budget_used :: "db \<Rightarrow> nat \<Rightarrow> nat" where
  "budget_used d day = (case map_of (budgets d) day of None \<Rightarrow> 0 | Some n \<Rightarrow> n)"

definition spend_budget :: "db \<Rightarrow> tx_fate \<times> nat \<times> nat \<Rightarrow> (consume_error, render_budget) res \<times> db" where
  "spend_budget d q = (case q of (fate, day, m) \<Rightarrow> consume_render_budget fate day m d)"

lemma bump_facts:
  "bump day cap rows = (c, rows') \<Longrightarrow>
     (\<forall>k. k \<noteq> day \<longrightarrow> map_of rows' k = map_of rows k)
   \<and> (case map_of rows day of
        None \<Rightarrow> c = None \<and> rows' = rows
      | Some n \<Rightarrow> if int n \<le> cap then c = Some (int n + 1) \<and> map_of rows' day = Some (n + 1)
                 else c = None \<and> rows' = rows)"
proof (induction rows arbitrary: c rows')
  case (Cons p rest)
  obtain k n where p: "p = (k, n)" by fastforce
  obtain c1 r1 where b: "bump day cap rest = (c1, r1)" by fastforce
  show ?case
  proof (cases "k = day")
    case True
    with Cons.prems p show ?thesis by (auto split: if_splits)
  next
    case False
    with Cons.prems p b have "c = c1" "rows' = (k, n) # r1" by auto
    with Cons.IH [OF b] False p show ?thesis by (auto split: option.splits if_splits)
  qed
qed simp

lemma seeded_lookup:
  "map_of (if day \<in> fst ` set rows then rows else rows @ [(day, 0)]) k
     = (if k = day \<and> map_of rows day = None then Some 0 else map_of rows k)"
  by (auto simp: map_of_eq_None_iff map_add_def split: option.splits)
    (metis map_of_eq_None_iff option.distinct(1))+

lemma consume_render_budget_facts:
  assumes "consume_render_budget fate day m d = (r, e)"
  shows "e = d \<and> (\<forall>n. r \<noteq> Ok (Consumed n))
    \<or> (\<forall>k. budget_used e k = budget_used d k + (if k = day \<and> budget_used d day < m then 1 else 0))
       \<and> (r = Err Database
          \<or> r = Ok (if budget_used d day < m then Consumed (int (budget_used d day) + 1) else Exhausted))
       \<and> inbox e = inbox d \<and> sources e = sources d \<and> runs e = runs d \<and> outbox e = outbox d"
proof (cases "m \<le> i32_max")
  case False
  with assms show ?thesis by (auto simp: consume_render_budget_def try_from_def)
next
  case True
  let ?seeded = "if day \<in> fst ` set (budgets d) then budgets d else budgets d @ [(day, 0)]"
  obtain c rows where b: "bump day (int m - 1) ?seeded = (c, rows)" by fastforce
  have look: "map_of ?seeded day = Some (budget_used d day)"
    using seeded_lookup [of day "budgets d" day] by (auto simp: budget_used_def split: option.splits)
  have used: "budget_used (d\<lparr>budgets := rows\<rparr>) k = budget_used d k + (if k = day \<and> budget_used d day < m then 1 else 0)" for k
    using bump_facts [OF b] look seeded_lookup [of day "budgets d" k]
    by (auto simp: budget_used_def split: option.splits if_splits)
  have ans: "(case c of None \<Rightarrow> Exhausted | Some n \<Rightarrow> Consumed n)
      = (if budget_used d day < m then Consumed (int (budget_used d day) + 1) else Exhausted)"
    using bump_facts [OF b] look by (auto split: if_splits)
  have "transact fate d (\<lambda>d. let seeded = (if day \<in> fst ` set (budgets d) then budgets d else budgets d @ [(day, 0)]) in
            case bump day (int m - 1) seeded of (count, rows) \<Rightarrow>
              Ok (case count of None \<Rightarrow> Exhausted | Some n \<Rightarrow> Consumed n, d\<lparr>budgets := rows\<rparr>)) = (r, e)"
    using assms True by (simp add: consume_render_budget_def try_from_def Let_def)
  then show ?thesis
  proof (cases rule: transact_cases)
    case 1
    then show ?thesis by simp
  next
    case (2 x)
    with b ans used show ?thesis by (auto simp: Let_def)
  next
    case (3 x)
    with b used show ?thesis by (auto simp: Let_def)
  qed
qed

interpretation budget: daily_budget spend_budget "\<lambda>(_, day, _). day" "\<lambda>(_, _, m). m" budget_used
proof
  fix s s' :: db and q :: "tx_fate \<times> nat \<times> nat" and n :: int
  obtain fate day m where q: "q = (fate, day, m)" by (metis prod_cases3)
  assume "spend_budget s q = (Ok (Consumed n), s')"
  then have c: "consume_render_budget fate day m s = (Ok (Consumed n), s')" by (simp add: spend_budget_def q)
  from consume_render_budget_facts [OF c]
  show "budget_used s (case q of (_, day, _) \<Rightarrow> day) < (case q of (_, _, m) \<Rightarrow> m)
      \<and> budget_used s' (case q of (_, day, _) \<Rightarrow> day) = budget_used s (case q of (_, day, _) \<Rightarrow> day) + 1"
    by (auto simp: q split: if_splits)
next
  fix s s' :: db and q :: "tx_fate \<times> nat \<times> nat" and r day
  obtain fate day' m where q: "q = (fate, day', m)" by (metis prod_cases3)
  assume "spend_budget s q = (r, s')"
  then have "consume_render_budget fate day' m s = (r, s')" by (simp add: spend_budget_def q)
  from consume_render_budget_facts [OF this] show "budget_used s day \<le> budget_used s' day" by auto
qed

text \<open>C15. Whatever the order and the fates of the transactions, the render requests granted on one UTC day
  never outnumber the configured maximum less what the day had already used.\<close>

theorem render_budget_is_respected:
  assumes "list_all (\<lambda>(fate, day', m). m \<le> cap) requests"
  shows "length (filter (\<lambda>((fate, day', m), answer). day' = day \<and> (case answer of Ok (Consumed _) \<Rightarrow> True | _ \<Rightarrow> False))
      (zip requests (fst (run_all spend_budget d requests)))) \<le> cap - budget_used d day"
proof -
  have "\<forall>q\<in>set requests. (case q of (_, _, m) \<Rightarrow> m) \<le> cap" using assms by (auto simp: list_all_iff)
  from budget.grants_bounded [OF this, of day d] show ?thesis
    unfolding budget.is_granted_def by (simp add: case_prod_beta')
qed

definition sample_requests :: "(tx_fate \<times> nat \<times> nat) list" where
  "sample_requests = [(Commits, 7, 2), (Commits, 7, 2), (Commits, 7, 2)]"

theorem render_budget_is_respected_witness:
  "length (filter (\<lambda>((fate, day', m), answer). day' = 7 \<and> (case answer of Ok (Consumed _) \<Rightarrow> True | _ \<Rightarrow> False))
      (zip sample_requests (fst (run_all spend_budget empty_db sample_requests)))) \<le> 2"
proof -
  have "list_all (\<lambda>(fate, day', m). m \<le> 2) sample_requests" by (simp add: sample_requests_def)
  from render_budget_is_respected [OF this, of 7 empty_db] show ?thesis
    by (simp add: budget_used_def empty_db_def)
qed

section \<open>The wait is bounded\<close>

lemma scan_batch_matches:
  "scan_batch completed failed i ds = Some r \<Longrightarrow>
   (case r of RenderCompleted c \<Rightarrow> rd_render_id c = i | RenderFailed f \<Rightarrow> rf_render_id f = i)"
  by (induction completed failed i ds rule: scan_batch.induct) (auto split: if_splits option.splits)

lemma await_render_bounded:
  "(\<And>k. snd (pass k) \<le> slow) \<Longrightarrow> now \<le> deadline \<Longrightarrow> await_render scan pass deadline k now = (r, t)
   \<Longrightarrow> t \<le> deadline + slow \<and> (r = Err RenderTimeout \<longrightarrow> deadline \<le> t)
     \<and> (\<forall>x. r = Ok x \<longrightarrow> (\<exists>ds. scan ds = Some x))"
proof (induction scan pass deadline k now rule: await_render.induct)
  case (1 scan pass deadline k now)
  obtain batch took where p: "pass k = (batch, took)" by fastforce
  have took: "took \<le> slow" using "1.prems"(1) [of k] p by simp
  note unfold = "1.prems"(3) [unfolded await_render.simps [of scan pass deadline k now]]
  consider (err) "batch = None" | (hit) ds x where "batch = Some ds" "scan ds = Some x"
    | (late) ds where "batch = Some ds" "scan ds = None" "now + took \<ge> deadline"
    | (again) ds where "batch = Some ds" "scan ds = None" "now + took < deadline"
    by (cases batch) (auto simp: not_le intro: option.exhaust, meson leI option.exhaust)
  then show ?case
  proof cases
    case (again ds)
    let ?next = "now + took + min RENDER_POLL_INTERVAL (deadline - (now + took))"
    have rec: "await_render scan pass deadline (Suc k) ?next = (r, t)"
      using unfold again p by (simp add: Let_def)
    have le: "?next \<le> deadline" using again(3) by simp
    show ?thesis
      by (rule "1.IH" [OF p [symmetric] refl again(1) again(2) _ "1.prems"(1) le rec]) (use again(3) in simp)
  qed (use unfold p took "1.prems"(2) in \<open>auto simp: Let_def\<close>)
qed

text \<open>C16. A render request always returns. If no single fetch takes longer than \<open>slow\<close>, it returns within
  its total budget plus one fetch; it reports a timeout only once the budget has elapsed; and every result it
  returns answers the very job it published, whatever other results share the durable.\<close>

theorem request_render_bounded_and_own:
  assumes "\<And>k. snd (pass k) \<le> slow"
  shows "case request_render completed failed published consumer pass now command of (r, t) \<Rightarrow>
      t \<le> now + total_timeout_ms (rc_budgets command) + slow
    \<and> (r = Err RenderTimeout \<longrightarrow> now + total_timeout_ms (rc_budgets command) \<le> t)
    \<and> (case r of
         Ok (RenderCompleted c) \<Rightarrow> rd_render_id c = rc_render_id command
       | Ok (RenderFailed f) \<Rightarrow> rf_render_id f = rc_render_id command
       | Err _ \<Rightarrow> True)"
proof (cases "\<not> published \<or> \<not> consumer")
  case True
  then show ?thesis by (auto simp: request_render_def)
next
  case False
  obtain r t where rt: "await_render (scan_batch completed failed (rc_render_id command)) pass
      (now + total_timeout_ms (rc_budgets command)) 0 now = (r, t)" by fastforce
  from await_render_bounded [OF assms _ rt] have b: "t \<le> now + total_timeout_ms (rc_budgets command) + slow"
    "r = Err RenderTimeout \<longrightarrow> now + total_timeout_ms (rc_budgets command) \<le> t"
    "\<And>x. r = Ok x \<Longrightarrow> \<exists>ds. scan_batch completed failed (rc_render_id command) ds = Some x" by auto
  have "case r of Ok (RenderCompleted c) \<Rightarrow> rd_render_id c = rc_render_id command
       | Ok (RenderFailed f) \<Rightarrow> rf_render_id f = rc_render_id command | Err _ \<Rightarrow> True"
    using b(3) scan_batch_matches [of completed failed "rc_render_id command"]
    by (fastforce split: sum.splits render_outcome.splits)
  with b False rt show ?thesis by (simp add: request_render_def)
qed

definition sample_render :: render_command where
  "sample_render = \<lparr>rc_render_id = [1], rc_operation_id = [2], rc_correlation_id = ''c'', rc_tenant_user_id = [3],
     rc_url = ''https://a.io'', rc_budgets = \<lparr>navigation_timeout_ms = 100, total_timeout_ms = 250, max_dom_bytes = 10\<rparr>\<rparr>"

definition quiet_pass :: "nat \<Rightarrow> render_pass" where
  "quiet_pass k = (Some [], 5)"

theorem request_render_bounded_and_own_witness:
  "snd (request_render (\<lambda>_. None) (\<lambda>_. None) True True quiet_pass 1000 sample_render) \<le> 1255"
proof -
  have "snd (quiet_pass k) \<le> 5" for k by (simp add: quiet_pass_def)
  then have "case request_render (\<lambda>_. None) (\<lambda>_. None) True True quiet_pass 1000 sample_render of (r, t) \<Rightarrow>
      t \<le> 1000 + total_timeout_ms (rc_budgets sample_render) + 5"
    using request_render_bounded_and_own [where pass = quiet_pass and slow = 5 and completed = "\<lambda>_. None"
        and failed = "\<lambda>_. None" and published = True and consumer = True and now = 1000 and command = sample_render]
    by (simp add: split_beta)
  then show ?thesis by (simp add: split_beta) (simp add: sample_render_def)
qed

end
