(* ===== verification/Consumer.thy ===== *)
theory Consumer
  imports Capture Outbox
begin

text \<open>
  The durable consumers the extractor depends on, \<open>crates/eventing/src/topology.rs\<close>, and the loop
  that consumes capture commands, \<open>crates/eventing/src/consumer.rs\<close>. The broker is a list of what the
  message stream yields.
\<close>

section \<open>Topology\<close>

definition CAPTURE_DURABLE :: string where "CAPTURE_DURABLE = ''ratatoskr_extractor_capture''"
definition CAPTURE_FILTER :: string where "CAPTURE_FILTER = ''cmd.content.capture.requested.v1''"
definition CAPTURE_ACK_WAIT :: nat where "CAPTURE_ACK_WAIT = 30"
definition CAPTURE_MAX_DELIVER :: int where "CAPTURE_MAX_DELIVER = 12"
definition RENDER_AWAITS_DURABLE :: string where "RENDER_AWAITS_DURABLE = ''ratatoskr_extractor_render_awaits''"
definition RENDER_AWAITS_FILTER :: string where "RENDER_AWAITS_FILTER = ''evt.content.render.>''"
definition RENDER_AWAITS_ACK_WAIT :: nat where "RENDER_AWAITS_ACK_WAIT = 30"

datatype ack_policy = AckExplicit | AckNone | AckOther
datatype deliver_policy = DeliverNew | DeliverOther

record consumer_config =
  durable_name :: "string option"
  filter_subject :: string
  ack_policy :: ack_policy
  ack_wait :: nat
  max_deliver :: int
  deliver_policy :: deliver_policy

text \<open>What a development process asks the broker to create; \<open>defaults\<close> is the client library's default.\<close>

definition capture_config :: "consumer_config \<Rightarrow> string \<Rightarrow> consumer_config" where
  "capture_config defaults name =
     defaults\<lparr>durable_name := Some name, filter_subject := CAPTURE_FILTER, ack_policy := AckExplicit,
       ack_wait := CAPTURE_ACK_WAIT, max_deliver := CAPTURE_MAX_DELIVER\<rparr>"

text \<open>The configuration the broker reports for a durable, or its absence.\<close>

definition capture_consumer :: "consumer_config option \<Rightarrow> string \<Rightarrow> (string, consumer_config) res" where
  "capture_consumer found name =
     (case found of
        None \<Rightarrow> Err name
      | Some c \<Rightarrow>
          if name = CAPTURE_DURABLE \<and> durable_name c = Some name \<and> filter_subject c = CAPTURE_FILTER
             \<and> ack_policy c = AckExplicit \<and> ack_wait c = CAPTURE_ACK_WAIT \<and> max_deliver c = CAPTURE_MAX_DELIVER
          then Ok c else Err name)"

definition render_awaits_consumer :: "consumer_config option \<Rightarrow> (string, consumer_config) res" where
  "render_awaits_consumer found =
     (case found of
        None \<Rightarrow> Err RENDER_AWAITS_DURABLE
      | Some c \<Rightarrow>
          if durable_name c = Some RENDER_AWAITS_DURABLE \<and> filter_subject c = RENDER_AWAITS_FILTER
             \<and> ack_policy c = AckNone \<and> deliver_policy c = DeliverNew \<and> ack_wait c = RENDER_AWAITS_ACK_WAIT
          then Ok c else Err RENDER_AWAITS_DURABLE)"

definition verify_bus_topology ::
  "consumer_config option \<Rightarrow> consumer_config option \<Rightarrow> string \<Rightarrow> (string, unit) res" where
  "verify_bus_topology capture awaits name =
     rbind (capture_consumer capture name) (\<lambda>_.
     rbind (render_awaits_consumer awaits) (\<lambda>_. Ok ()))"

text \<open>A durable created by a development process under the production name passes the verification.\<close>

lemma capture_config_verifies:
  "capture_consumer (Some (capture_config defaults CAPTURE_DURABLE)) CAPTURE_DURABLE
     = Ok (capture_config defaults CAPTURE_DURABLE)"
  by (simp add: capture_consumer_def capture_config_def)

lemma capture_consumer_only_production: "capture_consumer found name = Ok c \<Longrightarrow> name = CAPTURE_DURABLE"
  by (auto simp: capture_consumer_def split: option.splits if_splits)

section \<open>The consumer loop\<close>

record consumer_report =
  cr_applied :: nat
  cr_duplicates :: nat
  cr_malformed :: nat
  cr_failed :: nat

definition should_redeliver :: "consume_error \<Rightarrow> bool" where
  "should_redeliver e = (e = Database)"

text \<open>What the loop meets: cancellation, the end of the stream, a receive error, or a message with the
  surroundings of its processing and whether its acknowledgement reaches the broker.\<close>

datatype delivery =
    Cancelled
  | StreamEnd
  | DeliveryError
  | Message string string call_env tx_fate bool

definition count_reception :: "(consume_error, reception) res \<Rightarrow> consumer_report \<Rightarrow> consumer_report" where
  "count_reception r rep =
     (case r of
        Ok Received \<Rightarrow> rep\<lparr>cr_applied := cr_applied rep + 1\<rparr>
      | Ok DuplicateCommand \<Rightarrow> rep\<lparr>cr_duplicates := cr_duplicates rep + 1\<rparr>
      | Err e \<Rightarrow> if should_redeliver e then rep\<lparr>cr_failed := cr_failed rep + 1\<rparr>
                 else rep\<lparr>cr_malformed := cr_malformed rep + 1\<rparr>)"

definition acknowledges :: "(consume_error, reception) res \<Rightarrow> bool" where
  "acknowledges r = (case r of Ok _ \<Rightarrow> True | Err e \<Rightarrow> \<not> should_redeliver e)"

text \<open>The loop returns its report, the database and the outcome and acknowledgement of every message.\<close>

fun consume_loop ::
  "'u event_env \<Rightarrow> delivery list \<Rightarrow> consumer_report \<Rightarrow> db
   \<Rightarrow> consumer_report \<times> db \<times> (string \<times> string \<times> (consume_error, reception) res \<times> bool) list" where
  "consume_loop env [] rep d = (rep, d, [])"
| "consume_loop env (Cancelled # ms) rep d = (rep, d, [])"
| "consume_loop env (StreamEnd # ms) rep d = (rep, d, [])"
| "consume_loop env (DeliveryError # ms) rep d = consume_loop env ms (rep\<lparr>cr_failed := cr_failed rep + 1\<rparr>) d"
| "consume_loop env (Message subject payload cx fate ack_ok # ms) rep d =
     (case consume_capture env cx fate subject payload d of (r, d') \<Rightarrow>
        let rep = count_reception r rep;
            sends = acknowledges r;
            rep = (if sends \<and> \<not> ack_ok then rep\<lparr>cr_failed := cr_failed rep + 1\<rparr> else rep)
        in case consume_loop env ms rep d' of (rep', d'', log) \<Rightarrow>
             (rep', d'', (subject, payload, r, sends \<and> ack_ok) # log))"

text \<open>The broker's answers before the loop: whether stream and durable were created (\<open>provisioned\<close>), the
  durable it reports (\<open>found\<close>) and whether the message stream opened.\<close>

definition run_command_consumer ::
  "'u event_env \<Rightarrow> bool \<Rightarrow> bool \<Rightarrow> consumer_config option \<Rightarrow> bool \<Rightarrow> string \<Rightarrow> delivery list \<Rightarrow> db
   \<Rightarrow> (publish_error, consumer_report) res \<times> db \<times> (string \<times> string \<times> (consume_error, reception) res \<times> bool) list" where
  "run_command_consumer env provision_topology provisioned found opened name ms d =
     (if (if provision_topology then provisioned else is_ok (capture_consumer found name)) \<and> opened
      then (case consume_loop env ms \<lparr>cr_applied = 0, cr_duplicates = 0, cr_malformed = 0, cr_failed = 0\<rparr> d of
              (rep, d', log) \<Rightarrow> (Ok rep, d', log))
      else (Err Transient, d, []))"

section \<open>At most once\<close>

text \<open>\<open>history handle other s log s'\<close>: a handler is given messages one after the other, and between any two of
  them others change the state as \<open>other\<close> allows. The log has, for each message, the answer and whether
  handling it changed the state, which a caller who gets an error does not know.\<close>

inductive history ::
  "('s \<Rightarrow> 'm \<Rightarrow> ('e, reception) res \<times> 's) \<Rightarrow> ('s \<Rightarrow> 's \<Rightarrow> bool)
   \<Rightarrow> 's \<Rightarrow> ('m \<times> ('e, reception) res \<times> bool) list \<Rightarrow> 's \<Rightarrow> bool" for handle other where
  no_more: "history handle other s [] s"
| delivered: "handle s m = (r, s1) \<Longrightarrow> history handle other s1 log s'
    \<Longrightarrow> history handle other s ((m, r, s1 \<noteq> s) # log) s'"
| meanwhile: "other s s1 \<Longrightarrow> history handle other s1 log s' \<Longrightarrow> history handle other s log s'"

text \<open>The contract of a deduplicating handler: what it has seen it keeps, and so do the others; it changes the
  state only for a message whose key was unseen, which it then records; and it answers \<open>Received\<close> only for a
  change, \<open>DuplicateCommand\<close> only when nothing changed.\<close>

locale deduplicating =
  fixes handle :: "'s \<Rightarrow> 'm \<Rightarrow> ('e, reception) res \<times> 's" and other :: "'s \<Rightarrow> 's \<Rightarrow> bool"
    and key :: "'m \<Rightarrow> 'k option" and seen :: "'s \<Rightarrow> 'k \<Rightarrow> bool" and inv :: "'s \<Rightarrow> bool"
  assumes keeps: "inv s \<Longrightarrow> handle s m = (r, s') \<Longrightarrow> inv s' \<and> (\<forall>k. seen s k \<longrightarrow> seen s' k)"
    and others_keep: "inv s \<Longrightarrow> other s s' \<Longrightarrow> inv s' \<and> (\<forall>k. seen s k \<longrightarrow> seen s' k)"
    and first: "inv s \<Longrightarrow> handle s m = (r, s') \<Longrightarrow> s' \<noteq> s \<Longrightarrow> \<exists>k. key m = Some k \<and> \<not> seen s k \<and> seen s' k"
    and honest: "inv s \<Longrightarrow> handle s m = (Ok x, s') \<Longrightarrow> s' \<noteq> s \<longleftrightarrow> x = Received"
begin

definition applies :: "'k \<Rightarrow> 'm \<times> ('e, reception) res \<times> bool \<Rightarrow> bool" where
  "applies k = (\<lambda>(m, r, changed). key m = Some k \<and> changed)"

lemma at_most_once:
  "history handle other s log s' \<Longrightarrow> inv s
   \<Longrightarrow> inv s' \<and> length (filter (applies k) log) \<le> (if seen s k then 0 else 1)"
proof (induction rule: history.induct)
  case (delivered s m r s1 log s')
  have inv1: "inv s1" and mono: "seen s k \<Longrightarrow> seen s1 k" using keeps [OF delivered.prems delivered.hyps(1)] by auto
  note IH = delivered.IH [OF inv1]
  show ?case
  proof (cases "applies k (m, r, s1 \<noteq> s)")
    case True
    then have "key m = Some k" "s1 \<noteq> s" by (auto simp: applies_def)
    with first [OF delivered.prems delivered.hyps(1)] have "\<not> seen s k" "seen s1 k" by auto
    with IH True show ?thesis by simp
  next
    case False
    with IH mono show ?thesis by (auto split: if_splits)
  qed
next
  case (meanwhile s s1 log s')
  then show ?case using others_keep [OF meanwhile.prems meanwhile.hyps(1)] by (auto split: if_splits)
qed simp

lemma answers_are_honest:
  "history handle other s log s' \<Longrightarrow> inv s \<Longrightarrow> list_all (\<lambda>(m, r, changed). \<forall>x. r = Ok x \<longrightarrow> changed = (x = Received)) log"
proof (induction rule: history.induct)
  case (delivered s m r s1 log s')
  have "inv s1" using keeps [OF delivered.prems delivered.hyps(1)] by blast
  moreover have "\<forall>x. r = Ok x \<longrightarrow> (s1 \<noteq> s) = (x = Received)" using honest delivered.prems delivered.hyps(1) by blast
  ultimately show ?case using delivered.IH by simp
next
  case (meanwhile s s1 log s')
  then show ?case using others_keep by blast
qed simp

end

definition deliver ::
  "'u event_env \<Rightarrow> db \<Rightarrow> call_env \<times> tx_fate \<times> string \<times> string \<Rightarrow> (consume_error, reception) res \<times> db" where
  "deliver env d m = (case m of (cx, fate, subject, payload) \<Rightarrow> consume_capture env cx fate subject payload d)"

definition command_key :: "'u event_env \<Rightarrow> call_env \<times> tx_fate \<times> string \<times> string \<Rightarrow> uuid option" where
  "command_key env m =
     (case m of (cx, fate, subject, payload) \<Rightarrow>
        (case decode_capture env subject payload of Err _ \<Rightarrow> None | Ok c \<Rightarrow> Some (cc_command_id c)))"

lemma consume_capture_received:
  assumes "consume_capture env cx fate subject payload d = (Ok x, e)"
  obtains command where "decode_capture env subject payload = Ok command"
    "apply_command env cx subject command d = Ok (x, e)"
proof (cases "decode_capture env subject payload")
  case (Inr command)
  then have "transact fate d (apply_command env cx subject command) = (Ok x, e)"
    using assms by (simp add: consume_capture_def)
  then show thesis by (rule transact_cases) (use that Inr in auto)
qed (use assms in \<open>simp add: consume_capture_def\<close>)

text \<open>A delivery changes the database only by applying its command, whatever it answers.\<close>

lemma deliver_first:
  assumes inv: "db_inv s" and d: "deliver env s m = (r, s')" and ch: "s' \<noteq> s"
  shows "\<exists>k. command_key env m = Some k \<and> \<not> has_command s k \<and> has_command s' k"
proof -
  obtain cx fate subject payload where m: "m = (cx, fate, subject, payload)" by (metis prod_cases4)
  from d have a: "consume_capture env cx fate subject payload s = (r, s')" by (simp add: deliver_def m)
  then obtain command where c: "decode_capture env subject payload = Ok command"
    using ch by (cases "decode_capture env subject payload") (auto simp: consume_capture_def)
  with a have "transact fate s (apply_command env cx subject command) = (r, s')" by (simp add: consume_capture_def)
  then obtain x where x: "apply_command env cx subject command s = Ok (x, s')"
    by (rule transact_cases) (use ch in auto)
  have "\<not> has_command s (cc_command_id command)"
    using x ch by (auto simp: apply_command_def Let_def split: if_splits)
  moreover have "has_command s' (cc_command_id command)" using apply_command_inv [OF inv x] by blast
  ultimately show ?thesis
    by (intro exI [of _ "cc_command_id command"]) (simp add: command_key_def m c)
qed

lemma deliver_honest:
  assumes inv: "db_inv s" and d: "deliver env s m = (Ok x, s')"
  shows "s' \<noteq> s \<longleftrightarrow> x = Received"
proof -
  obtain cx fate subject payload where m: "m = (cx, fate, subject, payload)" by (metis prod_cases4)
  from d have "consume_capture env cx fate subject payload s = (Ok x, s')" by (simp add: deliver_def m)
  then obtain command where c: "apply_command env cx subject command s = Ok (x, s')"
    by (rule consume_capture_received)
  show ?thesis
  proof (cases x)
    case DuplicateCommand
    with c show ?thesis by (auto simp: apply_command_def Let_def split: if_splits)
  next
    case Received
    with c have "\<not> has_command s (cc_command_id command)" by (auto intro: apply_command_new)
    moreover have "has_command s' (cc_command_id command)" using apply_command_inv [OF inv c] by blast
    ultimately show ?thesis using Received by auto
  qed
qed

lemma deliver_keeps: "db_inv s \<Longrightarrow> deliver env s m = (r, s') \<Longrightarrow> db_inv s' \<and> later s s'"
  using consume_capture_inv by (fastforce simp: deliver_def split: prod.splits)

text \<open>Outcome and acknowledgement of each message of a consumer run.\<close>

lemma consume_loop_log:
  "db_inv d \<Longrightarrow> consume_loop env ms rep d = (rep', e, log) \<Longrightarrow> later d e
   \<and> list_all (\<lambda>(s, p, r, acked). acked \<longrightarrow> r \<noteq> Err Database
        \<and> (is_ok r \<longrightarrow> (case decode_capture env s p of Err _ \<Rightarrow> False | Ok c \<Rightarrow> has_command e (cc_command_id c)))) log"
proof (induction env ms rep d arbitrary: rep' e log rule: consume_loop.induct)
  case (5 env subject payload cx fate ack_ok ms rep d)
  obtain r d1 where c: "consume_capture env cx fate subject payload d = (r, d1)" by fastforce
  have 1: "db_inv d1" "later d d1" using consume_capture_inv [OF "5.prems"(1) c] by auto
  define rep1 where "rep1 = (if acknowledges r \<and> \<not> ack_ok
     then (count_reception r rep)\<lparr>cr_failed := cr_failed (count_reception r rep) + 1\<rparr> else count_reception r rep)"
  obtain rep2 e' log' where l: "consume_loop env ms rep1 d1 = (rep2, e', log')" by (metis prod_cases3)
  from "5.prems"(2) c l have out: "e = e'" "log = (subject, payload, r, acknowledges r \<and> ack_ok) # log'"
    by (simp_all add: Let_def rep1_def)
  have IH: "later d1 e \<and> list_all (\<lambda>(s, p, r, acked). acked \<longrightarrow> r \<noteq> Err Database
        \<and> (is_ok r \<longrightarrow> (case decode_capture env s p of Err _ \<Rightarrow> False | Ok c \<Rightarrow> has_command e (cc_command_id c)))) log'"
    unfolding out(1) by (rule "5.IH" [OF c [symmetric] refl refl refl 1(1) l [unfolded rep1_def]])
  have "case decode_capture env subject payload of Err _ \<Rightarrow> False | Ok c \<Rightarrow> has_command e (cc_command_id c)"
    if "is_ok r"
  proof -
    obtain x where "r = Ok x" using \<open>is_ok r\<close> by (auto simp: is_ok_iff)
    with c obtain command where k: "decode_capture env subject payload = Ok command"
      "apply_command env cx subject command d = Ok (x, d1)" by (auto elim: consume_capture_received)
    have "has_command d1 (cc_command_id command)" using apply_command_inv [OF "5.prems"(1) k(2)] by blast
    with IH k(1) show ?thesis by (simp add: later_def)
  qed
  moreover have "acknowledges r \<Longrightarrow> r \<noteq> Err Database" by (auto simp: acknowledges_def should_redeliver_def)
  moreover have "later d e" using 1(2) IH later_trans by blast
  ultimately show ?case using IH out(2) by simp
qed simp_all

end
