(* ===== verification/Eventing.thy ===== *)
theory Eventing
  imports Completion Outbox Rendering Consumer
begin

text \<open>
  The event components together. Every transaction of \<open>crates/eventing\<close> is one step of the relation
  \<open>db_step\<close>, labelled with the instant of its clock; any interleaving of the workers, the consumer
  and the relay is a sequence of such steps. The invariant \<open>db_inv\<close> and the order \<open>later\<close> hold along
  every sequence, and the properties of the pipeline follow from them.
\<close>

section \<open>Steps\<close>

inductive db_step :: "'u event_env \<Rightarrow> nat \<Rightarrow> db \<Rightarrow> db \<Rightarrow> bool" for env where
  capture: "consume_capture env cx fate subject payload d = (r, e) \<Longrightarrow> db_step env (now_us cx) d e"
| claim: "claim_queued_run env cx fate locked w l m d = (r, e) \<Longrightarrow> db_step env (now_us cx) d e"
| fail: "fail_run env cx fate run c retryable steps d = (r, e) \<Longrightarrow> db_step env (now_us cx) d e"
| complete: "complete env cx fate run s d = (r, e) \<Longrightarrow> db_step env (now_us cx) d e"
| reject: "reject env cx fate run j d = (r, e) \<Longrightarrow> db_step env (now_us cx) d e"
| record_fetch: "record_fetch cx fate run f d = (r, e) \<Longrightarrow> db_step env (now_us cx) d e"
| relay_claim: "transact fate d (claim_due now locked w limit) = (r, e) \<Longrightarrow> db_step env now d e"
| relay_settle: "transact fate d (settle_row a now i) = (r, e) \<Longrightarrow> db_step env now d e"
| budget: "consume_render_budget fate day m d = (r, e) \<Longrightarrow> db_step env now d e"

text \<open>\<open>evolves env T d e\<close>: some sequence of steps, all before instant \<open>T\<close>, leads from \<open>d\<close> to \<open>e\<close>.\<close>

inductive evolves :: "'u event_env \<Rightarrow> nat \<Rightarrow> db \<Rightarrow> db \<Rightarrow> bool" for env T where
  none: "evolves env T d d"
| step: "evolves env T d e \<Longrightarrow> db_step env t e f \<Longrightarrow> t < T \<Longrightarrow> evolves env T d f"

definition reachable :: "'u event_env \<Rightarrow> db \<Rightarrow> bool" where
  "reachable env d = (\<exists>T. evolves env T empty_db d)"

lemma consume_render_budget_inv:
  assumes "db_inv d" "consume_render_budget fate day m d = (r, e)"
  shows "db_inv e \<and> later d e"
proof -
  have "inbox e = inbox d" "sources e = sources d" "runs e = runs d" "outbox e = outbox d"
    using consume_render_budget_facts [OF assms(2)] by auto
  with assms(1) show ?thesis
    by (simp add: db_inv_def keys_ok_def inbox_ok_def runs_ok_def outbox_ok_def has_command_def command_log_def
        later_def run_later_in event_later_in)
qed

lemma db_step_inv:
  assumes "db_step env t d e" "db_inv d"
  shows "db_inv e \<and> later d e"
  using assms
proof (induction rule: db_step.induct)
  case (capture cx fate subject payload d r e)
  then show ?case using consume_capture_inv by blast
next
  case (claim cx fate locked w l m d r e)
  then show ?case using claim_queued_run_inv by blast
next
  case (fail cx fate run c retryable steps d r e)
  from fail_run_effect [OF fail(2,1)] show ?case
    using fail(2) failed_effect_inv [OF fail(2), of env cx run c retryable e] by (elim disjE) simp_all
next
  case (complete cx fate run s d r e)
  from complete_effect [OF complete(2,1)] show ?case
    using complete(2) completed_effect_inv [OF complete(2), of env cx run s e] by (elim disjE) simp_all
next
  case (reject cx fate run j d r e)
  from reject_effect [OF reject(2,1)] show ?case
    using reject(2) failed_effect_inv [OF reject(2), of env cx run "rj_failure_class j" False e]
    by (elim disjE) simp_all
next
  case (record_fetch cx fate run f d r e)
  from record_fetch_core [OF record_fetch(1)] record_fetch(2) show ?case
    by (simp add: same_core_inv same_core_later)
next
  case (relay_claim fate d now locked w limit r e)
  show ?case by (rule transact_keeps [OF relay_claim(2,1) claim_due_inv [OF relay_claim(2)]])
next
  case (relay_settle fate d a now i r e)
  show ?case by (rule transact_keeps [OF relay_settle(2,1) settle_row_inv [OF relay_settle(2)]])
next
  case (budget fate day m d r e now)
  then show ?case using consume_render_budget_inv by blast
qed

lemma evolves_inv:
  assumes "evolves env T d e" "db_inv d"
  shows "db_inv e \<and> later d e"
  using assms
proof (induction rule: evolves.induct)
  case (step d e t f)
  then have "db_inv e" "later d e" by auto
  moreover from db_step_inv [OF step(2)] this(1) have "db_inv f" "later e f" by auto
  ultimately show ?case using later_trans by blast
qed simp

lemma reachable_inv: "reachable env d \<Longrightarrow> db_inv d"
  unfolding reachable_def using evolves_inv empty_db_inv by blast

lemma evolves_mono: "evolves env T d e \<Longrightarrow> T \<le> T' \<Longrightarrow> evolves env T' d e"
  by (induction rule: evolves.induct) (auto intro: evolves.intros)


lemma reachable_step: "reachable env d \<Longrightarrow> db_step env t d e \<Longrightarrow> reachable env e"
proof -
  assume "reachable env d" and s: "db_step env t d e"
  then obtain T where "evolves env T empty_db d" by (auto simp: reachable_def)
  then have "evolves env (max T (Suc t)) empty_db d" by (rule evolves_mono) simp
  from evolves.step [OF this s] have "evolves env (max T (Suc t)) empty_db e" by simp
  then show "reachable env e" unfolding reachable_def by blast
qed

text \<open>The consumer deduplicates commands, whatever the other processes do between two deliveries.\<close>

definition goes_on :: "'u event_env \<Rightarrow> db \<Rightarrow> db \<Rightarrow> bool" where
  "goes_on env d e = (\<exists>T. evolves env T d e)"

lemma goes_on_inv: "goes_on env d e \<Longrightarrow> db_inv d \<Longrightarrow> db_inv e \<and> later d e"
  unfolding goes_on_def using evolves_inv by blast

interpretation commands: deduplicating "deliver env" "goes_on env" "command_key env" has_command db_inv
  for env :: "'u event_env"
proof
  show "db_inv s' \<and> (\<forall>k. has_command s k \<longrightarrow> has_command s' k)" if "db_inv s" "deliver env s m = (r, s')" for s s' m r
    using deliver_keeps [OF that] by (simp add: later_def)
  show "db_inv s' \<and> (\<forall>k. has_command s k \<longrightarrow> has_command s' k)" if "db_inv s" "goes_on env s s'" for s s'
    using goes_on_inv [OF that(2,1)] by (simp add: later_def)
qed (use deliver_first deliver_honest in blast)+

section \<open>A concrete deployment\<close>

text \<open>One blob command and the surroundings of its processing, used to evaluate the definitions.\<close>

definition sample_blob :: blob_ref where
  "sample_blob = \<lparr>owner_service = ''ratatoskr-extractor'', digest_algorithm = Sha256,
     digest_hex = replicate 64 (CHR ''a''), media_type = ''application/pdf'', length_bytes = 9\<rparr>"

definition sample_command :: command_envelope where
  "sample_command =
     \<lparr>ce_command_id = [1], ce_type = CAPTURE_COMMAND_TYPE, ce_producer = ''ratatoskr-x'', ce_tenant = Some ''user:7'',
      ce_aggregate = ''operation:2'', ce_correlation = ''c'', ce_issued_at = 5,
      ce_payload = Ok \<lparr>req_operation = [2], req_url = None, req_blob = Some sample_blob, req_idempotency = ''k''\<rparr>\<rparr>"

definition sample_event_env :: "sample_url event_env" where
  "sample_event_env =
     \<lparr>ee_api = sample_api, ee_sha256 = sample_sha256,
      decode_envelope = (\<lambda>p. if p = ''go'' then Ok sample_command
         else if p = ''go2'' then Ok (sample_command\<lparr>ce_command_id := [4]\<rparr>) else Err MalformedJson),
      parse_entity_ref = Some, parse_tenant_ref = Some, tenant_user = (\<lambda>_. [7]), parse_producer = Some,
      parse_error_code = Some, parse_safe_message = Some, parse_result_kind = Some, parse_blob_owner = Some,
      parse_digest = Some, parse_media = Some, operation_ref = (\<lambda>_. ''operation:2''),
      document_ref = (\<lambda>_. ''document:3''), uuid_text = (\<lambda>_. ''1''), report_event_type = ''r'',
      document_event_type = ''d'', payload_is_object = (\<lambda>_. True), json_size = (\<lambda>_. Some 100),
      fact_valid = (\<lambda>_ _. True), report_valid = (\<lambda>_. True)\<rparr>"

definition sample_cx :: "nat \<Rightarrow> call_env" where
  "sample_cx n = \<lparr>now_us = seconds n, new_id = (\<lambda>k. [of_nat n, of_nat k])\<rparr>"

definition received_db :: db where
  "received_db = snd (consume_capture sample_event_env (sample_cx 10) Commits CAPTURE_SUBJECT ''go'' empty_db)"

definition claimed_db :: db where
  "claimed_db = snd (claim_queued_run sample_event_env (sample_cx 11) Commits (\<lambda>_. False) ''w'' 60 500 received_db)"

definition sample_run :: queued_run where
  "sample_run = \<lparr>qr_run_id = [10, 1], qr_owner = [7], qr_url = ''u'', qr_classification = ''blob'',
     qr_blob = Some sample_blob, qr_max_event_bytes = 500\<rparr>"

definition failed_db :: db where
  "failed_db = snd (fail_run sample_event_env (sample_cx 12) Commits [10, 1] ''pdf_encrypted'' False [] claimed_db)"

lemma sample_received:
  "fst (consume_capture sample_event_env (sample_cx 10) Commits CAPTURE_SUBJECT ''go'' empty_db) = Ok Received"
  by code_simp

lemma sample_claimed:
  "fst (claim_queued_run sample_event_env (sample_cx 11) Commits (\<lambda>_. False) ''w'' 60 500 received_db)
     = Ok (Some (sample_run\<lparr>qr_url := ''urn:ratatoskr:blob:sha256:'' @ replicate 64 (CHR ''a'')\<rparr>))"
  by code_simp

lemma sample_failed:
  "fst (fail_run sample_event_env (sample_cx 12) Commits [10, 1] ''pdf_encrypted'' False [] claimed_db) = Ok Completed"
  by code_simp

lemma received_reachable: "reachable sample_event_env received_db"
proof -
  have "reachable sample_event_env empty_db" unfolding reachable_def by (blast intro: evolves.none)
  moreover have "db_step sample_event_env (now_us (sample_cx 10)) empty_db received_db"
    unfolding received_db_def by (rule db_step.capture) (rule surjective_pairing)
  ultimately show ?thesis by (rule reachable_step)
qed

lemma claimed_reachable: "reachable sample_event_env claimed_db"
proof (rule reachable_step [OF received_reachable])
  show "db_step sample_event_env (now_us (sample_cx 11)) received_db claimed_db"
    unfolding claimed_db_def by (rule db_step.claim) (rule surjective_pairing)
qed

lemma failed_reachable: "reachable sample_event_env failed_db"
proof (rule reachable_step [OF claimed_reachable])
  show "db_step sample_event_env (now_us (sample_cx 12)) claimed_db failed_db"
    unfolding failed_db_def by (rule db_step.fail) (rule surjective_pairing)
qed

section \<open>Properties\<close>

text \<open>C1. In every state any interleaving can reach, the tables satisfy their constraints and keys, every
  received command is applied and has exactly one run, and the events enqueued for a command are exactly
  those its run's status calls for: one queued report, then, once, either a failure report, or the document
  fact followed by a success report, or a partial-success report without a fact.\<close>

theorem every_run_has_its_exact_event_log:
  assumes "reachable env d"
  shows "keys_ok d \<and> inbox_ok d \<and> outbox_ok d
    \<and> list_all (\<lambda>r. run_row_ok r \<and> has_command d (run_command r)
         \<and> log_matches (run_status r) (command_log d (run_command r))) (runs d)"
  using reachable_inv [OF assms] by (auto simp: db_inv_def runs_ok_def list_all_iff)

theorem every_run_has_its_exact_event_log_witness:
  "command_log failed_db [1] = [Report OpQueued, Report OpFailed] \<and> keys_ok failed_db"
proof -
  have "list_ex (\<lambda>r. run_command r = [1] \<and> run_status r = Failed) (runs failed_db)" by code_simp
  with every_run_has_its_exact_event_log [OF failed_reachable] show ?thesis
    by (auto simp: list_ex_iff list_all_iff)
qed

text \<open>C2. Nothing recorded is ever lost or rewritten: from a reachable state, whatever happens next, commands
  stay in the inbox, a terminal run keeps its whole row and a started one never queues again, and an event
  keeps its identity, order of causation and content, and stays published or dead-lettered once it is.\<close>

theorem recorded_history_is_permanent:
  assumes "reachable env d" "evolves env T d e"
  shows "later d e"
  using evolves_inv [OF assms(2) reachable_inv [OF assms(1)]] by blast

theorem recorded_history_is_permanent_witness: "later received_db failed_db"
proof -
  have "db_step sample_event_env (now_us (sample_cx 11)) received_db claimed_db"
    unfolding claimed_db_def by (rule db_step.claim) (rule surjective_pairing)
  from evolves.step [OF evolves.none this] have a: "evolves sample_event_env (seconds 20) received_db claimed_db"
    by (simp add: sample_cx_def seconds_def)
  have "db_step sample_event_env (now_us (sample_cx 12)) claimed_db failed_db"
    unfolding failed_db_def by (rule db_step.fail) (rule surjective_pairing)
  from evolves.step [OF a this] have "evolves sample_event_env (seconds 20) received_db failed_db"
    by (simp add: sample_cx_def seconds_def)
  then show ?thesis by (rule recorded_history_is_permanent [OF received_reachable])
qed

text \<open>Once a delivery has changed the database, even if its acknowledgement was lost, every later delivery
  of the same message is answered as a duplicate and changes nothing.\<close>

lemma redelivery_is_absorbed:
  assumes d: "reachable env d" and c: "consume_capture env cx fate subject payload d = (r, d1)" "d1 \<noteq> d"
    and s: "evolves env T d1 d2"
  shows "consume_capture env cx' Commits subject payload d2 = (Ok DuplicateCommand, d2)"
proof -
  note inv = reachable_inv [OF d]
  obtain command where k: "decode_capture env subject payload = Ok command"
    using c by (cases "decode_capture env subject payload") (auto simp: consume_capture_def)
  then have t: "transact fate d (apply_command env cx subject command) = (r, d1)"
    using c(1) by (simp add: consume_capture_def)
  then obtain x where x: "apply_command env cx subject command d = Ok (x, d1)"
    by (rule transact_cases) (use c(2) in auto)
  have "has_command d1 (cc_command_id command)" "db_inv d1" using apply_command_inv [OF inv x] by auto
  with evolves_inv [OF s] have "has_command d2 (cc_command_id command)" by (simp add: later_def)
  moreover have "inbox_row_ok \<lparr>in_command = cc_command_id command, in_subject = subject, in_type = CAPTURE_COMMAND_TYPE,
      in_producer = cc_producer command, in_received = n, in_applied = None, in_outcome = None\<rparr>" for n
    using x by (auto simp: apply_command_def Let_def inbox_row_ok_def split: if_splits)
  ultimately show ?thesis
    using k by (simp add: consume_capture_def transact_def apply_command_def Let_def)
qed

lemma filter_key_le_one: "distinct (map f xs) \<Longrightarrow> length (filter (\<lambda>x. f x = c) xs) \<le> 1"
proof (induction xs)
  case (Cons x xs)
  then have "filter (\<lambda>y. f y = c) xs = []" if "f x = c" using that by (auto simp: filter_empty_conv) (metis imageI)
  with Cons show ?case by (cases "f x = c") auto
qed simp

text \<open>C3. A command is applied at most once. Take any history of deliveries to the consumer from a reachable
  database, with redeliveries, aborted transactions and commits whose acknowledgement is lost, and with any
  steps of the other processes in between. Of the deliveries that carry one command identifier at most one
  changes the database, whatever it was answered, and none when the command was there before; the database
  ends with at most one run of the command. A delivery is answered \<open>Received\<close> only when it changed the
  database and \<open>DuplicateCommand\<close> only when it did not.\<close>

theorem commands_are_applied_at_most_once:
  assumes "reachable env d" "history (deliver env) (\<lambda>d e. \<exists>T. evolves env T d e) d log e"
  shows "length (filter (\<lambda>(m, r, changed). command_key env m = Some c \<and> changed) log) \<le> (if has_command d c then 0 else 1)
    \<and> length (filter (\<lambda>q. run_command q = c) (runs e)) \<le> 1
    \<and> list_all (\<lambda>(m, r, changed). (r = Ok Received \<longrightarrow> changed) \<and> (r = Ok DuplicateCommand \<longrightarrow> \<not> changed)) log"
proof -
  note inv = reachable_inv [OF assms(1)]
  have h: "history (deliver env) (goes_on env) d log e" using assms(2) unfolding goes_on_def .
  have "list_all (\<lambda>(m, r, changed). (r = Ok Received \<longrightarrow> changed) \<and> (r = Ok DuplicateCommand \<longrightarrow> \<not> changed)) log"
    using commands.answers_are_honest [OF h inv] by (auto elim!: list.pred_mono_strong)
  moreover have e: "db_inv e"
    "length (filter (\<lambda>(m, r, changed). command_key env m = Some c \<and> changed) log) \<le> (if has_command d c then 0 else 1)"
    using commands.at_most_once [OF h inv, of c] unfolding commands.applies_def by auto
  moreover have "distinct (map run_command (runs e))" using e(1) by (simp add: db_inv_def keys_ok_def)
  then have "length (filter (\<lambda>q. run_command q = c) (runs e)) \<le> 1" by (rule filter_key_le_one)
  ultimately show ?thesis by blast
qed

text \<open>The first delivery commits and its acknowledgement is lost: it changes the database and fails. The
  redelivery is answered as a duplicate.\<close>

definition sample_deliveries :: "(call_env \<times> tx_fate \<times> string \<times> string) list" where
  "sample_deliveries = [(sample_cx 1, CommitUnacknowledged, CAPTURE_SUBJECT, ''go''),
     (sample_cx 2, Commits, CAPTURE_SUBJECT, ''go'')]"

theorem commands_are_applied_at_most_once_witness:
  "\<exists>e. history (deliver sample_event_env) (\<lambda>d e. \<exists>T. evolves sample_event_env T d e) empty_db
         [(sample_deliveries ! 0, Err Database, True), (sample_deliveries ! 1, Ok DuplicateCommand, False)] e
     \<and> length (filter (\<lambda>(m, r, changed). command_key sample_event_env m = Some [1] \<and> changed)
         [(sample_deliveries ! 0, Err Database, True), (sample_deliveries ! 1, Ok DuplicateCommand, False)]) \<le> 1
     \<and> length (filter (\<lambda>q. run_command q = [1]) (runs e)) \<le> 1"
proof -
  let ?h = "deliver sample_event_env" and ?m = "sample_deliveries ! 0" and ?n = "sample_deliveries ! 1"
  define d1 where "d1 = snd (?h empty_db ?m)"
  have 1: "?h empty_db ?m = (Err Database, d1)" unfolding d1_def by (simp add: prod_eq_iff) code_simp
  have "runs d1 \<noteq> []" unfolding d1_def by code_simp
  then have c: "d1 \<noteq> empty_db" by (auto simp: empty_db_def)
  have r: "reachable sample_event_env empty_db" unfolding reachable_def by (blast intro: evolves.none)
  have "?h d1 ?n = (Ok DuplicateCommand, d1)"
    using redelivery_is_absorbed [OF r _ c evolves.none] 1 by (simp add: deliver_def sample_deliveries_def)
  from history.delivered [where handle = ?h and other = "\<lambda>d e. \<exists>T. evolves sample_event_env T d e",
      OF this history.no_more]
  have "history ?h (\<lambda>d e. \<exists>T. evolves sample_event_env T d e) d1 [(?n, Ok DuplicateCommand, False)] d1" by simp
  from history.delivered [where handle = ?h, OF 1 this] c
  have h: "history ?h (\<lambda>d e. \<exists>T. evolves sample_event_env T d e) empty_db
      [(?m, Err Database, True), (?n, Ok DuplicateCommand, False)] d1" by simp
  have n: "\<not> has_command empty_db [1]" by (simp add: has_command_def empty_db_def)
  from commands_are_applied_at_most_once [OF r h, of "[1]", unfolded if_not_P [OF n]] h show ?thesis by blast
qed

section \<open>Leases\<close>

definition holds_lease :: "nat \<Rightarrow> uuid \<Rightarrow> db \<Rightarrow> bool" where
  "holds_lease T i d =
     (\<exists>r\<in>set (runs d). run_id r = i \<and> (terminal r \<or> run_status r = Running
        \<and> (case run_claimed_until r of None \<Rightarrow> False | Some u \<Rightarrow> T \<le> u)))"

lemma leased_not_claimable:
  assumes "db_inv d" "holds_lease T i d" "r \<in> set (runs d)" "run_id r = i" "now < T"
  shows "\<not> claimable now r"
proof -
  obtain q where q: "q \<in> set (runs d)" "run_id q = i" "terminal q \<or> run_status q = Running
      \<and> (case run_claimed_until q of None \<Rightarrow> False | Some u \<Rightarrow> T \<le> u)"
    using assms(2) by (auto simp: holds_lease_def)
  have "q = r" using same_run_by_id [OF assms(1,3) q(1)] q(2) assms(4) by simp
  with q(3) assms(5) show ?thesis by (auto simp: claimable_def terminal_def split: option.splits)
qed

lemma holds_lease_same_runs: "runs e = runs d \<Longrightarrow> holds_lease T i e = holds_lease T i d"
  by (simp add: holds_lease_def)

lemma holds_lease_append: "runs e = runs d @ rs \<Longrightarrow> holds_lease T i d \<Longrightarrow> holds_lease T i e"
  by (auto simp: holds_lease_def)

lemma holds_lease_finish:
  assumes "holds_lease T i d" "finishes cx st failure r os d e" "st = Succeeded \<or> st = Failed"
  shows "holds_lease T i e"
proof -
  obtain q where q: "q \<in> set (runs d)" "run_id q = i" "terminal q \<or> run_status q = Running
      \<and> (case run_claimed_until q of None \<Rightarrow> False | Some u \<Rightarrow> T \<le> u)"
    using assms(1) by (auto simp: holds_lease_def)
  have e: "runs e = update_where (\<lambda>q. run_id q = run_id r \<and> run_status q = Running) (finish_row cx st failure) (runs d)"
    using assms(2) by (simp add: finishes_def)
  have "\<exists>p\<in>set (runs e). (run_id p = run_id q \<and> terminal p) \<or> p = q"
    unfolding e by (rule update_where_rel [OF q(1)]) (use assms(3) in \<open>auto simp: terminal_def\<close>)
  with q(2,3) show ?thesis unfolding holds_lease_def by blast
qed

lemma holds_lease_claim:
  assumes inv: "db_inv d" and h: "holds_lease T i d" and a: "lease_next cx locked w l d = Ok (x, e)" and t: "now_us cx < T"
  shows "holds_lease T i e"
  using inv a
proof (cases rule: lease_next_cases)
  case none
  with h show ?thesis by simp
next
  case (some r s)
  then have "run_id r \<noteq> i" using leased_not_claimable [OF inv h _ _ t] by blast
  have keep: "q \<in> set (runs e)" if "q \<in> set (runs d)" "run_id q = i" for q
    using that \<open>run_id r \<noteq> i\<close> some(7) by (auto simp: update_where_def)
  from h obtain q where "q \<in> set (runs d)" "run_id q = i" "terminal q \<or> run_status q = Running
      \<and> (case run_claimed_until q of None \<Rightarrow> False | Some u \<Rightarrow> T \<le> u)" by (auto simp: holds_lease_def)
  with keep show ?thesis unfolding holds_lease_def by blast
qed

lemma transact_holds:
  assumes "transact fate d body = (r, e)" "holds_lease T i d" "\<And>x f. body d = Ok (x, f) \<Longrightarrow> holds_lease T i f"
  shows "holds_lease T i e"
  using assms by (rule transact_inv)

lemma apply_command_runs:
  assumes "apply_command env cx subject command d = Ok (x, e)"
  shows "\<exists>rs. runs e = runs d @ rs"
proof (cases x)
  case Received
  with assms show ?thesis by (auto elim: apply_command_new)
next
  case DuplicateCommand
  with assms show ?thesis by (auto simp: apply_command_def Let_def split: if_splits)
qed

lemma db_step_holds:
  assumes "db_step env t d e" "db_inv d" "holds_lease T i d" "t < T"
  shows "holds_lease T i e"
  using assms
proof (induction rule: db_step.induct)
  case (capture cx fate subject payload d r e)
  show ?case
  proof (cases "decode_capture env subject payload")
    case (Inr command)
    with capture(1) have "transact fate d (apply_command env cx subject command) = (r, e)"
      by (simp add: consume_capture_def)
    then show ?thesis
      by (rule transact_holds [OF _ capture(3)]) (use apply_command_runs holds_lease_append capture(3) in blast)
  qed (use capture in \<open>simp add: consume_capture_def\<close>)
next
  case (claim cx fate locked w l m d r e)
  from claim(1) obtain x where "transact fate d (lease_next cx locked w l) = (x, e)" by (rule claim_queued_run_cases)
  then show ?case by (rule transact_holds [OF _ claim(3)]) (rule holds_lease_claim [OF claim(2,3) _ claim(4)])
next
  case (fail cx fate run c retryable steps d r e)
  from fail_run_effect [OF fail(2,1)] show ?case
    using holds_lease_finish [OF fail(3)] fail(3) unfolding failed_effect_def by blast
next
  case (complete cx fate run s d r e)
  from complete_effect [OF complete(2,1)] show ?case
    using holds_lease_finish [OF complete(3)] complete(3) unfolding completed_effect_def by blast
next
  case (reject cx fate run j d r e)
  from reject_effect [OF reject(2,1)] show ?case
    using holds_lease_finish [OF reject(3)] reject(3) unfolding failed_effect_def by blast
next
  case (record_fetch cx fate run f d r e)
  then show ?case using record_fetch_core [OF record_fetch(1)]
    by (simp add: same_core_def holds_lease_same_runs [of e d])
next
  case (relay_claim fate d now locked w limit r e)
  show ?case
    by (rule transact_holds [OF relay_claim(1,3)])
      (use relay_claim(3) in \<open>auto simp: claim_due_def Let_def holds_lease_def\<close>)
next
  case (relay_settle fate d a now i' r e)
  show ?case
    by (rule transact_holds [OF relay_settle(1,3)])
      (use relay_settle(3) in \<open>auto simp: settle_row_def holds_lease_def\<close>)
next
  case (budget fate day m d r e now)
  have "runs e = runs d" using consume_render_budget_facts [OF budget(1)] by auto
  with budget(3) show ?case by (simp add: holds_lease_same_runs [of e d])
qed

lemma evolves_holds:
  assumes "evolves env T d e" "db_inv d" "holds_lease T i d"
  shows "holds_lease T i e"
  using assms
proof (induction rule: evolves.induct)
  case (step d e t f)
  have "db_inv e" using evolves_inv [OF step(1) step(5)] by blast
  with step db_step_holds [OF step(2)] show ?case by blast
qed simp

lemma claim_takes_lease:
  assumes inv: "db_inv d" and a: "claim_queued_run env cx fate locked w l m d = (Ok (Some q), e)"
  shows "\<exists>r\<in>set (runs d). run_id r = qr_run_id q \<and> claimable (now_us cx) r
    \<and> holds_lease (now_us cx + lease_us l) (qr_run_id q) e"
proof -
  obtain x where x: "transact fate d (lease_next cx locked w l) = (x, e)"
    "Ok (Some q) = (case x of Err y \<Rightarrow> Err y | Ok None \<Rightarrow> Ok None
        | Ok (Some (r, s)) \<Rightarrow> rbind (queued_run_of env m r s) (\<lambda>q. Ok (Some q)))"
    using a by (rule claim_queued_run_cases)
  obtain r' s where r': "x = Ok (Some (r', s))" "queued_run_of env m r' s = Ok q"
    using x(2) [symmetric] by (auto split: sum.splits option.splits prod.splits)
  then have "lease_next cx locked w l d = Ok (Some (r', s), e)"
    using x(1) by (auto elim: transact_cases)
  with inv show ?thesis
  proof (cases rule: lease_next_cases)
    case (some r s')
    have id: "qr_run_id q = run_id r" using queued_run_of_id [OF r'(2)] some(1) by simp
    have "take_lease cx w l r \<in> set (runs e)"
      using some(2,7) unfolding update_where_def by (auto intro: image_eqI [of _ _ r])
    then have "holds_lease (now_us cx + lease_us l) (qr_run_id q) e"
      unfolding holds_lease_def by (rule bexI [rotated]) (simp add: id)
    with some(2,3) id show ?thesis by auto
  qed simp
qed

lemma lease_excludes:
  assumes d: "reachable env d"
    and first: "claim_queued_run env cx fate locked w l m d = (Ok (Some q), d1)"
    and s: "evolves env (now_us cx + lease_us l) d1 d2"
    and second: "claim_queued_run env cx' fate' locked' w' l' m' d2 = (Ok (Some q'), d3)"
    and early: "now_us cx' < now_us cx + lease_us l"
  shows "qr_run_id q' \<noteq> qr_run_id q"
proof
  assume same: "qr_run_id q' = qr_run_id q"
  note inv = reachable_inv [OF d]
  have d1: "db_inv d1" using claim_queued_run_inv [OF inv first] by blast
  have h: "holds_lease (now_us cx + lease_us l) (qr_run_id q) d1" using claim_takes_lease [OF inv first] by blast
  have h2: "holds_lease (now_us cx + lease_us l) (qr_run_id q) d2" and d2: "db_inv d2"
    using evolves_holds [OF s d1 h] evolves_inv [OF s d1] by auto
  obtain r where "r \<in> set (runs d2)" "run_id r = qr_run_id q" "claimable (now_us cx') r"
    using claim_takes_lease [OF d2 second] same by auto
  with leased_not_claimable [OF d2 h2 _ _ early] show False by blast
qed

text \<open>C4. A leased run is leased to nobody else before its lease expires: whatever the workers, the consumer
  and the relay do meanwhile, no claim made before the expiry returns the same run again.\<close>

theorem leases_are_exclusive:
  assumes d: "reachable env d"
    and first: "claim_queued_run env cx fate locked w l m d = (Ok (Some q), d1)"
    and s: "evolves env (now_us cx + lease_us l) d1 d2"
    and second: "claim_queued_run env cx' fate' locked' w' l' m' d2 = (Ok (Some q'), d3)"
    and early: "now_us cx' < now_us cx + lease_us l"
  shows "qr_run_id q' \<noteq> qr_run_id q"
  using assms by (rule lease_excludes)

definition two_runs_db :: db where
  "two_runs_db = snd (consume_capture sample_event_env (sample_cx 20) Commits CAPTURE_SUBJECT ''go2'' claimed_db)"

lemma two_runs_evolve: "evolves sample_event_env (Suc (now_us (sample_cx 20))) claimed_db two_runs_db"
proof -
  have "db_step sample_event_env (now_us (sample_cx 20)) claimed_db two_runs_db"
    unfolding two_runs_db_def by (rule db_step.capture) (rule surjective_pairing)
  from evolves.step [OF evolves.none this] show ?thesis by simp
qed

lemma second_claim:
  obtains q d where
    "claim_queued_run sample_event_env (sample_cx 21) Commits (\<lambda>_. False) ''v'' 60 500 two_runs_db = (Ok (Some q), d)"
proof -
  have "case fst (claim_queued_run sample_event_env (sample_cx 21) Commits (\<lambda>_. False) ''v'' 60 500 two_runs_db) of
      Ok (Some _) \<Rightarrow> True | _ \<Rightarrow> False" by code_simp
  then show thesis
    using that by (metis (no_types, lifting) prod.collapse sum.case_eq_if option.case_eq_if option.collapse sum.collapse)
qed

theorem leases_are_exclusive_witness:
  "\<exists>q d. claim_queued_run sample_event_env (sample_cx 21) Commits (\<lambda>_. False) ''v'' 60 500 two_runs_db = (Ok (Some q), d)
     \<and> qr_run_id q \<noteq> [10, 1]"
proof -
  have a: "claim_queued_run sample_event_env (sample_cx 11) Commits (\<lambda>_. False) ''w'' 60 500 received_db
      = (Ok (Some (sample_run\<lparr>qr_url := ''urn:ratatoskr:blob:sha256:'' @ replicate 64 (CHR ''a'')\<rparr>)), claimed_db)"
    using sample_claimed unfolding claimed_db_def by (simp add: prod_eq_iff)
  have e: "evolves sample_event_env (now_us (sample_cx 11) + lease_us 60) claimed_db two_runs_db"
    by (rule evolves_mono [OF two_runs_evolve]) (simp add: sample_cx_def lease_us_def seconds_def)
  obtain q d where b: "claim_queued_run sample_event_env (sample_cx 21) Commits (\<lambda>_. False) ''v'' 60 500 two_runs_db
      = (Ok (Some q), d)" by (rule second_claim)
  have "now_us (sample_cx 21) < now_us (sample_cx 11) + lease_us 60"
    by (simp add: sample_cx_def lease_us_def seconds_def)
  from leases_are_exclusive [OF received_reachable a e b this] b show ?thesis by (auto simp: sample_run_def)
qed

section \<open>Outcomes of a run\<close>

text \<open>C10. A success is published truthfully. When completing a run succeeds, that run was running and is now
  succeeded, and the new events are exactly: the document fact followed by a success report, when the
  serialized fact fits the claiming worker's limit; otherwise a partial-success report alone, carrying the
  not-ingested warning. Either report names the document and its artifact.\<close>

theorem completion_publishes_what_fits:
  assumes "reachable env d" "complete env cx fate run s d = (Ok Completed, e)"
  shows "\<exists>r os ingested. r \<in> set (runs d) \<and> run_id r = qr_run_id run \<and> run_status r = Running
    \<and> finish_row cx Succeeded None r \<in> set (runs e) \<and> outbox e = outbox d @ os
    \<and> fact_decides env cx (context_of r) (su_document s) (su_ir_blob s) (qr_max_event_bytes run) ingested
    \<and> completion_events env (su_document s) (su_ir_blob s) (qr_max_event_bytes run) ingested os"
proof -
  have "completed_effect env cx run s d e" using complete_effect [OF reachable_inv [OF assms(1)] assms(2)] by simp
  then obtain r os ingested where f: "finishes cx Succeeded None r os d e" "run_id r = qr_run_id run"
    "completion_events env (su_document s) (su_ir_blob s) (qr_max_event_bytes run) ingested os"
    "fact_decides env cx (context_of r) (su_document s) (su_ir_blob s) (qr_max_event_bytes run) ingested"
    unfolding completed_effect_def by blast
  then have r: "r \<in> set (runs d)" "run_status r = Running" "outbox e = outbox d @ os"
    and e: "runs e = update_where (\<lambda>q. run_id q = run_id r \<and> run_status q = Running) (finish_row cx Succeeded None) (runs d)"
    by (simp_all add: finishes_def)
  have "finish_row cx Succeeded None r \<in> set (runs e)"
    unfolding e update_where_def using r by (auto intro: image_eqI [of _ _ r])
  with f r show ?thesis by blast
qed

definition sample_success :: success where
  "sample_success =
     \<lparr>su_document = \<lparr>document_id = [3], source_address = ''a'', content_digest = ''d'', doc_title = None,
        doc_language = None, doc_blocks = [], doc_provenance = []\<rparr>,
      su_ir_blob = sample_blob, su_raw_blob = sample_blob, su_fetch = None,
      su_candidates = [(evaluate_plain_text ''pdf'' [] None)\<lparr>selected := True\<rparr>], su_steps = []\<rparr>"

theorem completion_publishes_what_fits_witness:
  "\<exists>(r :: run_row) os. run_id r = [10, 1] \<and> run_status r = Running
     \<and> outbox (snd (complete sample_event_env (sample_cx 12) Commits sample_run sample_success claimed_db))
        = outbox claimed_db @ os"
proof -
  have "fst (complete sample_event_env (sample_cx 12) Commits sample_run sample_success claimed_db) = Ok Completed"
    by code_simp
  then have "complete sample_event_env (sample_cx 12) Commits sample_run sample_success claimed_db
      = (Ok Completed, snd (complete sample_event_env (sample_cx 12) Commits sample_run sample_success claimed_db))"
    by (metis prod.collapse)
  from completion_publishes_what_fits [OF claimed_reachable this] obtain r :: run_row and os where
    "run_id r = qr_run_id sample_run" "run_status r = Running"
    "outbox (snd (complete sample_event_env (sample_cx 12) Commits sample_run sample_success claimed_db)) = outbox claimed_db @ os"
    by blast
  moreover have "qr_run_id sample_run = [10, 1]" by (simp add: sample_run_def)
  ultimately show ?thesis by metis
qed

definition PUBLIC_CODES :: "string list" where
  "PUBLIC_CODES = [''content.extraction.no_text_layer'', ''content.extraction.encrypted'',
     ''content.extraction.unsupported_media'', ''content.extraction.source_unavailable'', ''content.extraction.failed'']"

lemma public_code_closed: "fst (public_code c) \<in> set PUBLIC_CODES"
  by (simp add: public_code_def PUBLIC_CODES_def)

text \<open>C11. A failure is reported without its internal class: when failing a run succeeds, the failure class is
  kept in the run's row only, and the single new event reports one of five public codes with its fixed
  message, as the table of \<open>public_failure\<close> gives them, and the caller's retryable flag.\<close>

theorem failures_report_public_codes_only:
  assumes "reachable env d" "fail_run env cx fate run c retryable steps d = (Ok Completed, e)"
    and "\<And>s t. parse_error_code env s = Some t \<Longrightarrow> t = s" "\<And>s t. parse_safe_message env s = Some t \<Longrightarrow> t = s"
  shows "\<exists>r ob rep er. finish_row cx Failed (Some c) r \<in> set (runs e) \<and> run_id r = run
    \<and> outbox e = outbox d @ [ob] \<and> ev_payload (ob_payload ob) = Reported rep \<and> rep_status rep = OpFailed
    \<and> rep_error rep = Some er \<and> error_code er \<in> set PUBLIC_CODES
    \<and> (error_code er, error_message er) = public_code c \<and> error_retryable er = retryable"
proof -
  have "failed_effect env cx run c retryable d e"
    using fail_run_effect [OF reachable_inv [OF assms(1)] assms(2)] by simp
  then obtain r ob where f: "finishes cx Failed (Some c) r [ob] d e" "run_id r = run"
    "reports_failure env c retryable ob" unfolding failed_effect_def by blast
  then have r: "r \<in> set (runs d)" "run_status r = Running" "outbox e = outbox d @ [ob]"
    and e: "runs e = update_where (\<lambda>q. run_id q = run_id r \<and> run_status q = Running) (finish_row cx Failed (Some c)) (runs d)"
    by (simp_all add: finishes_def)
  have row: "finish_row cx Failed (Some c) r \<in> set (runs e)"
    unfolding e update_where_def using r by (auto intro: image_eqI [of _ _ r])
  obtain rep er where p: "ev_payload (ob_payload ob) = Reported rep" "rep_status rep = OpFailed"
    "rep_error rep = Some er" "public_failure env c = Ok (error_code er, error_message er)" "error_retryable er = retryable"
    using f(3) by (auto simp: reports_failure_def split: event_payload.splits option.splits)
  have "(error_code er, error_message er) = public_code c"
    using p(4) assms(3,4) by (auto simp: public_failure_def split: prod.splits)
  with public_code_closed [of c] row f(2) r p show ?thesis by (metis fst_conv)
qed

theorem failures_report_public_codes_only_witness:
  "\<exists>ob. outbox failed_db = outbox claimed_db @ [ob]"
proof -
  have a: "fail_run sample_event_env (sample_cx 12) Commits [10, 1] ''pdf_encrypted'' False [] claimed_db = (Ok Completed, failed_db)"
    using sample_failed unfolding failed_db_def by (metis prod.collapse)
  have "parse_error_code sample_event_env s = Some t \<Longrightarrow> t = s" "parse_safe_message sample_event_env s = Some t \<Longrightarrow> t = s"
    for s t by (simp_all add: sample_event_env_def)
  from failures_report_public_codes_only [OF claimed_reachable a this] show ?thesis by blast
qed

section \<open>The relay\<close>









lemma apply_command_outbox:
  assumes "apply_command env cx subject command d = Ok (x, e)"
  shows "\<exists>os. outbox e = outbox d @ os \<and> list_all (just_enqueued cx) os"
proof (cases x)
  case Received
  with assms show ?thesis by (auto elim: apply_command_new)
next
  case DuplicateCommand
  with assms show ?thesis by (auto simp: apply_command_def Let_def split: if_splits)
qed










text \<open>Other processes take steps of theirs, and the only thing these do to the outbox is to add events that
  become due after \<open>now\<close>, as the consumer and the workers do; a second relay is excluded.\<close>

definition only_enqueues :: "'u event_env \<Rightarrow> nat \<Rightarrow> (db \<Rightarrow> db) \<Rightarrow> bool" where
  "only_enqueues env now f = (\<forall>d. (\<exists>T. evolves env T d (f d)) \<and> enqueues_after now d (f d))"

lemma only_enqueues_harmless: "only_enqueues env now f \<Longrightarrow> harmless now f"
  unfolding only_enqueues_def harmless_def using evolves_inv by blast

lemma consume_capture_only_enqueues:
  assumes "now < now_us cx"
  shows "only_enqueues env now (\<lambda>d. snd (consume_capture env cx fate subject payload d))"
proof -
  have "enqueues_after now d e" if c: "consume_capture env cx fate subject payload d = (r, e)" for r d e
  proof -
    have same: "enqueues_after now d d" by (simp add: enqueues_after_def)
    have "enqueues_after now d f" if "apply_command env cx subject command d = Ok (x, f)" for x f command
      using apply_command_outbox [OF that] assms by (auto simp: enqueues_after_def just_enqueued_def list_all_iff)
    with same c show ?thesis
      by (auto simp: consume_capture_def split: sum.splits elim!: transact_inv [where I = "enqueues_after now d"])
  qed
  moreover have "\<exists>T. evolves env T d (snd (consume_capture env cx fate subject payload d))" for d
    using evolves.step [OF evolves.none db_step.capture [OF surjective_pairing] lessI] by blast
  ultimately show ?thesis unfolding only_enqueues_def by (metis prod.collapse)
qed

section \<open>The command consumer\<close>

text \<open>C12. No acknowledged command is lost: whatever the stream delivers to a consumer started on a reachable
  database, and however its transactions end, a message is acknowledged only when its processing did not fail
  in the database, and when an acknowledged message was accepted its command is in the database the consumer
  leaves. The remaining acknowledged messages are the malformed ones.\<close>

theorem acknowledged_commands_are_durable:
  assumes "reachable env d" "run_command_consumer env provision provisioned found opened name ms d = (res, e, log)"
  shows "later d e \<and> list_all (\<lambda>(subject, payload, outcome, acked). acked \<longrightarrow>
     (case outcome of
        Ok _ \<Rightarrow> (case decode_capture env subject payload of Err _ \<Rightarrow> False | Ok c \<Rightarrow> has_command e (cc_command_id c))
      | Err x \<Rightarrow> x \<noteq> Database)) log"
proof (cases "(if provision then provisioned else is_ok (capture_consumer found name)) \<and> opened")
  case True
  obtain rep d' l where c: "consume_loop env ms \<lparr>cr_applied = 0, cr_duplicates = 0, cr_malformed = 0, cr_failed = 0\<rparr> d
      = (rep, d', l)" by (metis prod_cases3)
  from assms(2) have eq: "e = d'" "log = l" unfolding run_command_consumer_def if_P [OF True] c by simp_all
  from consume_loop_log [OF reachable_inv [OF assms(1)] c] show ?thesis
    unfolding eq by (auto elim!: list.pred_mono_strong split: sum.splits)
next
  case False
  from assms(2) have "e = d" "log = []" unfolding run_command_consumer_def if_not_P [OF False] by simp_all
  then show ?thesis by simp
qed

definition sample_messages :: "delivery list" where
  "sample_messages = [Message CAPTURE_SUBJECT ''go'' (sample_cx 20) CommitUnacknowledged True, DeliveryError,
     Message CAPTURE_SUBJECT ''go'' (sample_cx 21) Commits True, Message CAPTURE_SUBJECT ''?'' (sample_cx 22) Commits True]"

theorem acknowledged_commands_are_durable_witness:
  "has_command (fst (snd (run_command_consumer sample_event_env True True None True CAPTURE_DURABLE sample_messages empty_db))) [1]"
proof -
  let ?run = "run_command_consumer sample_event_env True True None True CAPTURE_DURABLE sample_messages empty_db"
  have "reachable sample_event_env empty_db" unfolding reachable_def by (blast intro: evolves.none)
  moreover have "?run = (fst ?run, fst (snd ?run), snd (snd ?run))" by simp
  ultimately have "list_all (\<lambda>(subject, payload, outcome, acked). acked \<longrightarrow>
     (case outcome of
        Ok _ \<Rightarrow> (case decode_capture sample_event_env subject payload of Err _ \<Rightarrow> False
                | Ok c \<Rightarrow> has_command (fst (snd ?run)) (cc_command_id c))
      | Err x \<Rightarrow> x \<noteq> Database)) (snd (snd ?run))"
    using acknowledged_commands_are_durable by blast
  moreover have "list_ex (\<lambda>(subject, payload, outcome, acked). acked \<and> outcome = Ok DuplicateCommand
      \<and> subject = CAPTURE_SUBJECT \<and> payload = ''go'') (snd (snd ?run))" by code_simp
  moreover have "rbind (decode_capture sample_event_env CAPTURE_SUBJECT ''go'') (\<lambda>c. Ok (cc_command_id c)) = Ok [1]"
    by code_simp
  ultimately show ?thesis by (auto simp: list_all_iff list_ex_iff split: sum.splits)
qed

end
