(* ===== verification/Pdf.thy ===== *)
theory Pdf
  imports DocumentIr
begin

text \<open>
  Bounded conversion of PDF bytes, \<open>crates/pdf/src/lib.rs\<close>. The PDF libraries (\<open>lopdf\<close>,
  \<open>pdf_extract\<close>) are the record \<open>pdf_lib\<close> over an abstract document. They may panic on hostile input:
  a call that can panic returns \<open>None\<close> when it does, and \<open>catch_unwind\<close> turns that into a typed error.
\<close>

definition DIRECT_PDF_STRATEGY :: string where
  "DIRECT_PDF_STRATEGY = ''direct_pdf''"

record 'a pdf_document_input =
  pdf_owner :: uuid
  pdf_address :: 'a
  pdf_blob :: blob_ref
  pdf_bytes :: string

record pdf_parse_limits =
  pdf_max_input_bytes :: nat
  pdf_max_pages :: nat
  pdf_max_text_bytes :: nat

record 'a pdf_extraction =
  pdf_document :: "'a document"
  pdf_candidates :: "candidate_decision list"

datatype pdf_error =
    PdfResourceLimit | PdfEncrypted | PdfMalformed | PdfNoTextLayer "candidate_decision list"
  | PdfInvalidIdentity | PdfSerialization

datatype pdf_object =
    PdfReference nat | PdfDictionary "(string \<times> pdf_object) list" | PdfString string | PdfOther

datatype decrypt_error = IncorrectPassword | OtherDecryption

record 'd pdf_lib =
  load_mem :: "string \<Rightarrow> 'd option option"
  encrypted :: "'d \<Rightarrow> bool"
  decrypt_blank :: "'d \<Rightarrow> (decrypt_error, 'd) res option"
  page_total :: "'d \<Rightarrow> nat option"
  trailer_info :: "'d \<Rightarrow> pdf_object option"
  get_object :: "'d \<Rightarrow> nat \<Rightarrow> pdf_object option"
  decode_text_string :: "string \<Rightarrow> string option option"
  output_doc_page :: "'d \<Rightarrow> nat \<Rightarrow> string option option"

fun decryption_failure :: "decrypt_error \<Rightarrow> pdf_error" where
  "decryption_failure IncorrectPassword = PdfEncrypted"
| "decryption_failure OtherDecryption = PdfMalformed"

definition pdf_identity_error :: "document_ir_error \<Rightarrow> pdf_error" where
  "pdf_identity_error e = (case e of Serialization \<Rightarrow> PdfSerialization | _ \<Rightarrow> PdfInvalidIdentity)"

definition resolved :: "'d pdf_lib \<Rightarrow> 'd \<Rightarrow> pdf_object \<Rightarrow> pdf_object option" where
  "resolved lib d obj = (case obj of PdfReference i \<Rightarrow> get_object lib d i | _ \<Rightarrow> Some obj)"

definition as_dict :: "pdf_object \<Rightarrow> (string \<times> pdf_object) list option" where
  "as_dict obj = (case obj of PdfDictionary entries \<Rightarrow> Some entries | _ \<Rightarrow> None)"

text \<open>The result is \<open>None\<close> for a panic, otherwise the title if there is one.\<close>

definition metadata_title :: "'d pdf_lib \<Rightarrow> 'd \<Rightarrow> string option option" where
  "metadata_title lib d =
     (case Option.bind (trailer_info lib d) (\<lambda>info.
           Option.bind (resolved lib d info) (\<lambda>info.
           Option.bind (as_dict info) (\<lambda>entries.
           Option.bind (map_of entries ''Title'') (resolved lib d)))) of
        Some (PdfString s) \<Rightarrow>
          (case decode_text_string lib s of
             None \<Rightarrow> None
           | Some None \<Rightarrow> Some None
           | Some (Some decoded) \<Rightarrow> Some (if trim decoded = [] then None else Some (trim decoded)))
      | _ \<Rightarrow> Some None)"

definition normalized_paragraph :: "string \<Rightarrow> string option" where
  "normalized_paragraph page_text =
     (let text = join_with '' '' (split_whitespace page_text) in if text = [] then None else Some text)"

definition extract_page_text :: "'d pdf_lib \<Rightarrow> 'd \<Rightarrow> nat \<Rightarrow> (pdf_error, string) res option" where
  "extract_page_text lib d n = map_option (ok_or PdfMalformed) (output_doc_page lib d n)"

fun read_pages ::
  "'d pdf_lib \<Rightarrow> 'd \<Rightarrow> nat \<Rightarrow> nat list \<Rightarrow> nat \<Rightarrow> document_block list \<Rightarrow> (pdf_error, document_block list) res option" where
  "read_pages lib d max_text [] sofar bs = Some (Ok bs)"
| "read_pages lib d max_text (n # ns) sofar bs =
     (case extract_page_text lib d n of
        None \<Rightarrow> None
      | Some (Err e) \<Rightarrow> Some (Err e)
      | Some (Ok text) \<Rightarrow>
          let sofar = sat_add usize_max sofar (length text) in
          if sofar > max_text then Some (Err PdfResourceLimit)
          else read_pages lib d max_text ns sofar
                 (case normalized_paragraph text of None \<Rightarrow> bs | Some p \<Rightarrow> bs @ [paragraph_block p]))"

definition finish_extraction ::
  "ir_env \<Rightarrow> 'a pdf_document_input \<Rightarrow> string option \<Rightarrow> document_block list \<Rightarrow> (pdf_error, 'a pdf_extraction) res" where
  "finish_extraction env input title bs =
     (let decision = evaluate_plain_text DIRECT_PDF_STRATEGY bs title in
      if \<not> accepted decision then Err (PdfNoTextLayer [decision])
      else rbind (ok_or PdfInvalidIdentity (parse_strategy env DIRECT_PDF_STRATEGY)) (\<lambda>strat.
           rbind (map_err pdf_identity_error
                    (assemble_document env (pdf_owner input) (pdf_address input) (pdf_blob input) strat title None bs))
             (\<lambda>document. Ok \<lparr>pdf_document = document, pdf_candidates = [decision\<lparr>selected := True\<rparr>]\<rparr>)))"

definition parse_pages ::
  "ir_env \<Rightarrow> 'd pdf_lib \<Rightarrow> 'a pdf_document_input \<Rightarrow> pdf_parse_limits \<Rightarrow> 'd \<Rightarrow> (pdf_error, 'a pdf_extraction) res option" where
  "parse_pages env lib input limits d =
     Option.bind (page_total lib d) (\<lambda>page_count.
       if page_count > pdf_max_pages limits then Some (Err PdfResourceLimit)
       else Option.bind (metadata_title lib d) (\<lambda>title.
         if page_count > u32_max then Some (Err PdfResourceLimit)
         else map_option (\<lambda>r. rbind r (finish_extraction env input title))
                (read_pages lib d (pdf_max_text_bytes limits) [1..<Suc page_count] 0 [])))"

definition parse_document ::
  "ir_env \<Rightarrow> 'd pdf_lib \<Rightarrow> 'a pdf_document_input \<Rightarrow> pdf_parse_limits \<Rightarrow> (pdf_error, 'a pdf_extraction) res option" where
  "parse_document env lib input limits =
     Option.bind (load_mem lib (pdf_bytes input)) (\<lambda>loaded.
       case loaded of
         None \<Rightarrow> Some (Err PdfMalformed)
       | Some d \<Rightarrow>
           if encrypted lib d
           then Option.bind (decrypt_blank lib d) (\<lambda>r.
                  case r of
                    Err e \<Rightarrow> Some (Err (decryption_failure e))
                  | Ok d' \<Rightarrow> parse_pages env lib input limits d')
           else parse_pages env lib input limits d)"

definition from_pdf ::
  "ir_env \<Rightarrow> 'd pdf_lib \<Rightarrow> 'a pdf_document_input \<Rightarrow> pdf_parse_limits \<Rightarrow> (pdf_error, 'a pdf_extraction) res" where
  "from_pdf env lib input limits =
     (if length (pdf_bytes input) > pdf_max_input_bytes limits then Err PdfResourceLimit
      else case parse_document env lib input limits of None \<Rightarrow> Err PdfMalformed | Some r \<Rightarrow> r)"

section \<open>Properties\<close>

text \<open>The page texts of a document, when every page can be read.\<close>

definition page_texts :: "'d pdf_lib \<Rightarrow> 'd \<Rightarrow> nat list \<Rightarrow> string list option" where
  "page_texts lib d ns =
     (if list_all (\<lambda>n. \<exists>t. output_doc_page lib d n = Some (Some t)) ns
      then Some (map (\<lambda>n. the (the (output_doc_page lib d n))) ns) else None)"

definition page_blocks :: "string list \<Rightarrow> document_block list" where
  "page_blocks texts = map paragraph_block (List.map_filter normalized_paragraph texts)"

lemma page_texts_simps [simp]:
  "page_texts lib d [] = Some []"
  "output_doc_page lib d n = Some (Some t) \<Longrightarrow> page_texts lib d (n # ns) = map_option ((#) t) (page_texts lib d ns)"
  by (auto simp: page_texts_def)

lemma page_blocks_simps [simp]:
  "page_blocks [] = []"
  "page_blocks (t # ts) = (case normalized_paragraph t of None \<Rightarrow> [] | Some p \<Rightarrow> [paragraph_block p]) @ page_blocks ts"
  by (auto simp: page_blocks_def List.map_filter_simps split: option.splits)

lemma read_pages_Ok:
  "read_pages lib d max_text ns sofar bs = Some (Ok bs') \<Longrightarrow> sofar \<le> max_text \<Longrightarrow> max_text < usize_max \<Longrightarrow>
   \<exists>ts. page_texts lib d ns = Some ts \<and> sofar + length (concat ts) \<le> max_text \<and> bs' = bs @ page_blocks ts"
proof (induction ns arbitrary: sofar bs)
  case (Cons n ns)
  from Cons.prems(1) obtain t where t: "output_doc_page lib d n = Some (Some t)"
    by (cases "output_doc_page lib d n"; cases "the (output_doc_page lib d n)") (auto simp: extract_page_text_def)
  let ?sofar = "sat_add usize_max sofar (length t)"
  let ?bs = "case normalized_paragraph t of None \<Rightarrow> bs | Some p \<Rightarrow> bs @ [paragraph_block p]"
  from Cons.prems(1) t have fits: "?sofar \<le> max_text" and
    rest: "read_pages lib d max_text ns ?sofar ?bs = Some (Ok bs')"
    by (auto simp: extract_page_text_def Let_def split: if_splits)
  from Cons.IH [OF rest fits Cons.prems(3)] obtain ts where ts: "page_texts lib d ns = Some ts"
    "?sofar + length (concat ts) \<le> max_text" "bs' = ?bs @ page_blocks ts" by blast
  have "?sofar = sofar + length t" using fits Cons.prems(3) by (simp add: sat_add_def min_def split: if_splits)
  with ts t show ?case by (auto split: option.splits)
qed simp

text \<open>The document that is read: the loaded one, or its decryption under the blank password.\<close>

definition readable :: "'d pdf_lib \<Rightarrow> string \<Rightarrow> 'd \<Rightarrow> bool" where
  "readable lib bytes d =
     (case load_mem lib bytes of
        Some (Some d0) \<Rightarrow> if encrypted lib d0 then decrypt_blank lib d0 = Some (Ok d) else d = d0
      | _ \<Rightarrow> False)"

lemma parse_document_Ok:
  assumes "parse_document env lib input limits = Some (Ok x)"
  obtains d title where "readable lib (pdf_bytes input) d" "metadata_title lib d = Some title"
    "parse_pages env lib input limits d = Some (Ok x)"
proof -
  obtain d0 where l: "load_mem lib (pdf_bytes input) = Some (Some d0)"
    using assms by (cases "load_mem lib (pdf_bytes input)"; cases "the (load_mem lib (pdf_bytes input))")
      (auto simp: parse_document_def)
  have "\<exists>d. readable lib (pdf_bytes input) d \<and> parse_pages env lib input limits d = Some (Ok x)"
  proof (cases "encrypted lib d0")
    case True
    with assms l obtain r where r: "decrypt_blank lib d0 = Some r" by (auto simp: parse_document_def bind_eq_Some_conv)
    with assms l True show ?thesis by (cases r) (auto simp: parse_document_def readable_def)
  qed (use assms l in \<open>simp add: parse_document_def readable_def\<close>)
  then show thesis using that by (auto simp: parse_pages_def bind_eq_Some_conv split: if_splits)
qed

lemma finish_extraction_Ok:
  assumes "finish_extraction env input title bs = Ok x"
  shows "accepted (evaluate_plain_text DIRECT_PDF_STRATEGY bs title)"
    "pdf_candidates x = [(evaluate_plain_text DIRECT_PDF_STRATEGY bs title)\<lparr>selected := True\<rparr>]"
    "map digest_block_of (doc_blocks (pdf_document x)) = map digest_block_of bs"
    "doc_title (pdf_document x) = title" "source_address (pdf_document x) = pdf_address input"
  using assms by (auto simp: finish_extraction_def Let_def split: if_splits dest: assembled_content)

text \<open>C33. A PDF that becomes a document is inside all three budgets and nothing of it is lost: its bytes, its
  pages and the text of all pages are within the limits, every page was read, the document has one paragraph
  for each page with any text, in page order, with its white space normalized and nothing else, the title is
  the one of the metadata, and the single candidate decision is accepted and selected. Encrypted documents
  are read only under the blank password.\<close>

theorem pdf_document_is_bounded_and_complete:
  assumes "from_pdf env lib input limits = Ok x" "pdf_max_text_bytes limits < usize_max"
  shows "\<exists>d texts title. readable lib (pdf_bytes input) d
    \<and> page_total lib d = Some (length texts) \<and> page_texts lib d [1..<Suc (length texts)] = Some texts
    \<and> length (pdf_bytes input) \<le> pdf_max_input_bytes limits \<and> length texts \<le> pdf_max_pages limits
    \<and> length (concat texts) \<le> pdf_max_text_bytes limits
    \<and> map digest_block_of (doc_blocks (pdf_document x)) = map digest_block_of (page_blocks texts)
    \<and> metadata_title lib d = Some title \<and> doc_title (pdf_document x) = title
    \<and> pdf_candidates x = [(evaluate_plain_text DIRECT_PDF_STRATEGY (page_blocks texts) title)\<lparr>selected := True\<rparr>]
    \<and> accepted (evaluate_plain_text DIRECT_PDF_STRATEGY (page_blocks texts) title)"
proof -
  from assms(1) have len: "length (pdf_bytes input) \<le> pdf_max_input_bytes limits"
    and "parse_document env lib input limits = Some (Ok x)"
    by (auto simp: from_pdf_def split: if_splits option.splits)
  from this(2) obtain d title where d: "readable lib (pdf_bytes input) d" "metadata_title lib d = Some title"
    "parse_pages env lib input limits d = Some (Ok x)" by (rule parse_document_Ok)
  from d(2,3) obtain n bs where n: "page_total lib d = Some n" "n \<le> pdf_max_pages limits"
    "read_pages lib d (pdf_max_text_bytes limits) [1..<Suc n] 0 [] = Some (Ok bs)"
    "finish_extraction env input title bs = Ok x"
    by (auto simp: parse_pages_def bind_eq_Some_conv split: if_splits)
  from read_pages_Ok [OF n(3) _ assms(2)] obtain ts where ts: "page_texts lib d [1..<Suc n] = Some ts"
    "length (concat ts) \<le> pdf_max_text_bytes limits" "bs = page_blocks ts" by auto
  have "length ts = n" using ts(1) by (auto simp: page_texts_def split: if_splits)
  with d n ts len finish_extraction_Ok [OF n(4)] show ?thesis by (intro exI [of _ d] exI [of _ ts] exI [of _ title]) simp
qed

definition sample_pdf_lib :: "string pdf_lib" where
  "sample_pdf_lib =
     \<lparr>load_mem = (\<lambda>b. Some (Some b)), encrypted = (\<lambda>_. False), decrypt_blank = (\<lambda>_. None), page_total = (\<lambda>_. Some 2),
      trailer_info = (\<lambda>_. Some (PdfReference 7)),
      get_object = (\<lambda>_ i. if i = 7 then Some (PdfDictionary [(''Title'', PdfString ''  Report '')]) else None),
      decode_text_string = (\<lambda>s. Some (Some s)),
      output_doc_page = (\<lambda>d n. Some (Some (if n = 1 then d else '' '')))\<rparr>"

definition sample_pdf :: "string pdf_document_input" where
  "sample_pdf = \<lparr>pdf_owner = replicate 16 1, pdf_address = ''https://a.io/x.pdf'', pdf_blob = sample_ref,
     pdf_bytes = concat (replicate 20 ''ab  cde '')\<rparr>"

definition sample_pdf_limits :: pdf_parse_limits where
  "sample_pdf_limits = \<lparr>pdf_max_input_bytes = 1000, pdf_max_pages = 5, pdf_max_text_bytes = 500\<rparr>"

lemma sample_pdf_ok: "is_ok (from_pdf sample_ir_env sample_pdf_lib sample_pdf sample_pdf_limits)"
  by code_simp

theorem pdf_document_is_bounded_and_complete_witness:
  "\<exists>x texts. from_pdf sample_ir_env sample_pdf_lib sample_pdf sample_pdf_limits = Ok x \<and> length texts = 2
     \<and> map digest_block_of (doc_blocks (pdf_document x)) = map digest_block_of (page_blocks texts)"
proof -
  obtain x where x: "from_pdf sample_ir_env sample_pdf_lib sample_pdf sample_pdf_limits = Ok x"
    using sample_pdf_ok by (auto simp: is_ok_iff)
  moreover have "pdf_max_text_bytes sample_pdf_limits < usize_max" by (simp add: sample_pdf_limits_def usize_max_def)
  moreover have "page_total sample_pdf_lib d = Some 2" for d by (simp add: sample_pdf_lib_def)
  ultimately show ?thesis using pdf_document_is_bounded_and_complete [OF x] by (metis option.inject)
qed

end
