(* ===== verification/Providers.thy ===== *)
theory Providers
  imports DocumentIr UrlRouting
begin

text \<open>
  Conversion of provider-native JSON, \<open>crates/providers/src\<close>: the request mapping and the shared
  conversion (\<open>lib.rs\<close>), the Hacker News item (\<open>hacker_news.rs\<close>) and the Reddit listing (\<open>reddit.rs\<close>).
  The JSON decoder is a parameter that yields the typed payload; a Reddit \<open>replies\<close> value is what it
  decodes to as a listing, or no listing. The document address is the text its parser accepts.
\<close>

section \<open>Types\<close>

datatype provider_route = HackerNewsItem | RedditPost

record provider_input =
  pi_owner :: uuid
  pi_address :: string
  pi_blob :: blob_ref
  pi_route :: provider_route
  pi_bytes :: string

record provider_limits =
  pl_max_input_bytes :: nat
  pl_max_blocks :: nat

record provider_extraction =
  pe_document :: "string document"
  pe_external_url :: "string option"
  pe_candidates :: "candidate_decision list"

datatype provider_error =
    ProviderResourceLimit | ProviderSchema | ProviderInvalidUrl | ProviderLowQuality "candidate_decision list"
  | ProviderSerialization

datatype algolia_item =
  AlgoliaItem (item_id: "int option") (item_text: "string option") (item_title: "string option")
    (item_url: "string option") (item_children: "algolia_item list")

datatype posting =
  Posting (post_kind: string) (post_body: "string option") (post_selftext: "string option")
    (post_title: "string option") (post_url: "string option") (post_replies: "reply_value option")
and reply_value = NotAListing | ReplyListing "posting list"

text \<open>\<open>pv_html\<close> parses an HTML fragment; the decoders return \<open>None\<close> when the bytes violate the schema.\<close>

record ('u, 'n) provider_env =
  pv_api :: "'u url_api"
  pv_ir :: ir_env
  pv_html :: "string \<Rightarrow> 'n html_dom"
  pv_algolia :: "string \<Rightarrow> algolia_item option"
  pv_listings :: "string \<Rightarrow> posting list list option"
  pv_address :: "string \<Rightarrow> string option"

type_synonym adapter_extraction = "string option \<times> string option \<times> document_block list \<times> candidate_decision"

section \<open>Hacker News\<close>

definition HACKER_NEWS_STRATEGY :: string where
  "HACKER_NEWS_STRATEGY = ''hacker_news_item''"

definition required_title :: "algolia_item \<Rightarrow> (provider_error, string) res" where
  "required_title item =
     (case item_title item of
        None \<Rightarrow> Err ProviderSchema
      | Some title \<Rightarrow> if trim title = [] then Err ProviderSchema else Ok (trim title))"

definition push_block :: "nat \<Rightarrow> string \<Rightarrow> document_block list \<Rightarrow> (provider_error, document_block list) res" where
  "push_block max_blocks text bs =
     (if length bs \<ge> max_blocks then Err ProviderResourceLimit else Ok (bs @ [paragraph_block text]))"

definition push_fragment ::
  "('u, 'n) provider_env \<Rightarrow> string option \<Rightarrow> nat \<Rightarrow> document_block list \<Rightarrow> (provider_error, document_block list) res" where
  "push_fragment env html max_blocks bs =
     (case Option.bind html (plain_text_fragment (pv_html env)) of
        None \<Rightarrow> Ok bs
      | Some text \<Rightarrow> push_block max_blocks text bs)"

fun collect_comments ::
  "('u, 'n) provider_env \<Rightarrow> algolia_item list \<Rightarrow> nat \<Rightarrow> document_block list \<Rightarrow> (provider_error, document_block list) res" where
  "collect_comments env [] max_blocks bs = Ok bs"
| "collect_comments env (AlgoliaItem _ text _ _ children # rest) max_blocks bs =
     rbind (push_fragment env text max_blocks bs) (\<lambda>bs.
     rbind (collect_comments env children max_blocks bs) (\<lambda>bs.
       collect_comments env rest max_blocks bs))"

definition from_algolia ::
  "('u, 'n) provider_env \<Rightarrow> string \<Rightarrow> provider_limits \<Rightarrow> (provider_error, adapter_extraction) res" where
  "from_algolia env bytes limits =
     (if length bytes > pl_max_input_bytes limits then Err ProviderResourceLimit
      else rbind (ok_or ProviderSchema (pv_algolia env bytes)) (\<lambda>item.
        if item_id item = None then Err ProviderSchema
        else rbind (required_title item) (\<lambda>title.
        rbind (push_fragment env (item_text item) (pl_max_blocks limits) [heading_block 1 title]) (\<lambda>bs.
        rbind (collect_comments env (item_children item) (pl_max_blocks limits) bs) (\<lambda>bs.
          Ok (Some title, item_url item, bs, evaluate_plain_text HACKER_NEWS_STRATEGY bs (Some title)))))))"

section \<open>Reddit\<close>

definition REDDIT_STRATEGY :: string where
  "REDDIT_STRATEGY = ''reddit_post''"

definition walk_replies :: "reply_value \<Rightarrow> posting list" where
  "walk_replies v = (case v of NotAListing \<Rightarrow> [] | ReplyListing ps \<Rightarrow> ps)"

definition push_text :: "string option \<Rightarrow> nat \<Rightarrow> document_block list \<Rightarrow> (provider_error, document_block list) res" where
  "push_text text max_blocks bs =
     (case text of
        None \<Rightarrow> Ok bs
      | Some t \<Rightarrow>
          if trim t = [] then Ok bs else push_block max_blocks (join_with '' '' (split_whitespace (trim t))) bs)"

text \<open>The queue of replies, breadth first.\<close>

definition reply_children :: "posting \<Rightarrow> posting list" where
  "reply_children p = (case post_replies p of None \<Rightarrow> [] | Some v \<Rightarrow> walk_replies v)"

lemma size_reply_children [termination_simp]: "size_list size (reply_children p) < size p"
proof (cases p)
  case (Posting a b c d e r)
  then show ?thesis
    by (cases r) (auto simp: reply_children_def walk_replies_def split: reply_value.splits)
qed

function drain_replies ::
  "posting list \<Rightarrow> nat \<Rightarrow> document_block list \<Rightarrow> (provider_error, document_block list) res" where
  "drain_replies [] max_blocks bs = Ok bs"
| "drain_replies (p # queue) max_blocks bs =
     rbind (if post_kind p = ''t1'' then push_text (post_body p) max_blocks bs else Ok bs) (\<lambda>bs.
       drain_replies (queue @ reply_children p) max_blocks bs)"
  by pat_completeness auto
termination
proof (relation "measure (\<lambda>(queue, _, _). size_list size queue)", goal_cases)
  case (2 p queue max_blocks bs x)
  have "size_list size (reply_children p) < size p" by (rule size_reply_children)
  then show ?case by (simp add: size_list_append)
qed simp

fun push_comments :: "posting list \<Rightarrow> nat \<Rightarrow> document_block list \<Rightarrow> (provider_error, document_block list) res" where
  "push_comments [] max_blocks bs = Ok bs"
| "push_comments (p # ps) max_blocks bs =
     rbind (if post_kind p = ''t1'' then push_text (post_body p) max_blocks bs else Ok bs)
       (push_comments ps max_blocks)"

text \<open>\<open>Iterator::find\<close> takes the first post and leaves the iterator after it.\<close>

fun find_post :: "posting list \<Rightarrow> (posting \<times> posting list) option" where
  "find_post [] = None"
| "find_post (p # ps) = (if post_kind p = ''t3'' then Some (p, ps) else find_post ps)"

definition from_listings ::
  "('u, 'n) provider_env \<Rightarrow> string \<Rightarrow> provider_limits \<Rightarrow> (provider_error, adapter_extraction) res" where
  "from_listings env bytes limits =
     rbind (ok_or ProviderSchema (pv_listings env bytes)) (\<lambda>listings.
     rbind (ok_or ProviderSchema (find_post (concat listings))) (\<lambda>(post, postings).
     rbind (ok_or ProviderSchema
              (Option.bind (post_title post) (\<lambda>t. if trim t = [] then None else Some (trim t)))) (\<lambda>title.
     rbind (push_text (post_selftext post) (pl_max_blocks limits) [heading_block 1 title]) (\<lambda>bs.
     rbind (drain_replies [post] (pl_max_blocks limits) bs) (\<lambda>bs.
     rbind (push_comments postings (pl_max_blocks limits) bs) (\<lambda>bs.
       Ok (Some title, post_url post, bs, evaluate_plain_text REDDIT_STRATEGY bs (Some title))))))))"

section \<open>Conversion\<close>

definition host_is :: "string option \<Rightarrow> string \<Rightarrow> bool" where
  "host_is host base =
     (case host of
        None \<Rightarrow> False
      | Some h \<Rightarrow> h = base \<or> (case strip_suffix base h of None \<Rightarrow> False | Some prefix \<Rightarrow> ends_with ''.'' prefix))"

definition points_back_to_provider :: "'u url_api \<Rightarrow> provider_route \<Rightarrow> string \<Rightarrow> bool" where
  "points_back_to_provider api route url =
     (case u_parse api url of
        None \<Rightarrow> True
      | Some u \<Rightarrow>
          (case route of
             HackerNewsItem \<Rightarrow> host_is (u_host_str api u) ''news.ycombinator.com''
           | RedditPost \<Rightarrow> host_is (u_host_str api u) ''reddit.com'' \<or> host_is (u_host_str api u) ''redd.it''))"

definition provider_identity_error :: "document_ir_error \<Rightarrow> provider_error" where
  "provider_identity_error e = (case e of Serialization \<Rightarrow> ProviderSerialization | _ \<Rightarrow> ProviderInvalidUrl)"

definition kept_external_url :: "'u url_api \<Rightarrow> provider_route \<Rightarrow> string option \<Rightarrow> string option" where
  "kept_external_url api route raw =
     (case raw of
        None \<Rightarrow> None
      | Some url \<Rightarrow> if trim url = [] \<or> points_back_to_provider api route (trim url) then None else Some (trim url))"

definition from_provider ::
  "('u, 'n) provider_env \<Rightarrow> provider_input \<Rightarrow> provider_limits \<Rightarrow> (provider_error, provider_extraction) res" where
  "from_provider env input limits =
     (if length (pi_bytes input) > pl_max_input_bytes limits then Err ProviderResourceLimit
      else
        let name = (case pi_route input of HackerNewsItem \<Rightarrow> HACKER_NEWS_STRATEGY | RedditPost \<Rightarrow> REDDIT_STRATEGY) in
        rbind (case pi_route input of
                 HackerNewsItem \<Rightarrow> from_algolia env (pi_bytes input) limits
               | RedditPost \<Rightarrow> from_listings env (pi_bytes input) limits)
          (\<lambda>(title, raw_external_url, _, decision).
             let external_url = kept_external_url (pv_api env) (pi_route input) raw_external_url in
             if \<not> accepted decision \<and> external_url = None then Err (ProviderLowQuality [decision])
             else
               rbind (ok_or ProviderSchema (parse_strategy (pv_ir env) name)) (\<lambda>strat.
               rbind (map_err provider_identity_error
                        (assemble_document (pv_ir env) (pi_owner input) (pi_address input) (pi_blob input) strat
                           title None (dec_blocks decision))) (\<lambda>document.
                 Ok \<lparr>pe_document = document, pe_external_url = external_url,
                     pe_candidates = [decision\<lparr>selected := True\<rparr>]\<rparr>))))"

section \<open>Requests\<close>

definition hacker_news_request :: "('u, 'n) provider_env \<Rightarrow> 'u \<Rightarrow> (provider_error, string option) res" where
  "hacker_news_request env u =
     (if \<not> host_is (u_host_str (pv_api env) u) ''news.ycombinator.com'' \<or> u_path (pv_api env) u \<noteq> ''/item'' then Ok None
      else case List.find (\<lambda>(k, _). k = ''id'') (u_query_pairs (pv_api env) u) of
        None \<Rightarrow> Ok None
      | Some (_, i) \<Rightarrow>
          if i = [] \<or> \<not> list_all is_ascii_digit i then Ok None
          else rbind (ok_or ProviderInvalidUrl (pv_address env (''https://hn.algolia.com/api/v1/items/'' @ i)))
                 (\<lambda>a. Ok (Some a)))"

fun trim_slashes_start :: "string \<Rightarrow> string" where
  "trim_slashes_start [] = []"
| "trim_slashes_start (c # cs) = (if c = CHR ''/'' then trim_slashes_start cs else c # cs)"

definition trim_slashes :: "string \<Rightarrow> string" where
  "trim_slashes s = rev (trim_slashes_start (rev (trim_slashes_start s)))"

definition is_comments_path :: "string list \<Rightarrow> bool" where
  "is_comments_path segments =
     (case segments of
        kind # subreddit # comments # rest \<Rightarrow>
          kind = ''r'' \<and> comments = ''comments'' \<and> subreddit \<noteq> [] \<and> list_all (\<lambda>s. s \<noteq> []) rest
      | _ \<Rightarrow> False)"

definition reddit_request :: "('u, 'n) provider_env \<Rightarrow> 'u \<Rightarrow> (provider_error, string option) res" where
  "reddit_request env u =
     (let api = pv_api env in
      if u_host_str api u \<noteq> Some ''www.reddit.com'' \<and> u_host_str api u \<noteq> Some ''reddit.com'' then Ok None
      else if \<not> is_comments_path (split_on (\<lambda>c. c = CHR ''/'') (trim_slashes (u_path api u))) then Ok None
      else
        let mapped = u_set_fragment api u None;
            path = u_path api mapped;
            json_path = (if ends_with ''/'' path then path else path @ ''/'') @ ''.json'';
            mapped = u_set_path api mapped json_path
        in rbind (ok_or ProviderInvalidUrl (pv_address env (u_as_str api mapped))) (\<lambda>a. Ok (Some a)))"

definition provider_request ::
  "('u, 'n) provider_env \<Rightarrow> provider_route \<Rightarrow> string \<Rightarrow> (provider_error, string option) res" where
  "provider_request env route url =
     rbind (ok_or ProviderInvalidUrl (u_parse (pv_api env) url)) (\<lambda>u.
       case route of HackerNewsItem \<Rightarrow> hacker_news_request env u | RedditPost \<Rightarrow> reddit_request env u)"

section \<open>What the adapters keep\<close>

text \<open>Appending paragraphs one by one under the block budget, as one step.\<close>

definition push_all :: "nat \<Rightarrow> string list \<Rightarrow> document_block list \<Rightarrow> (provider_error, document_block list) res" where
  "push_all max_blocks texts bs =
     (if texts = [] \<or> length bs + length texts \<le> max_blocks then Ok (bs @ map paragraph_block texts)
      else Err ProviderResourceLimit)"

lemma push_all_Nil [simp]: "push_all m [] bs = Ok bs"
  by (simp add: push_all_def)

lemma push_block_all: "push_block m text bs = push_all m [text] bs"
  by (simp add: push_block_def push_all_def Suc_le_eq)

lemma push_all_append: "rbind (push_all m xs bs) (push_all m ys) = push_all m (xs @ ys) bs"
  by (cases "xs = []"; cases "ys = []") (auto simp: push_all_def)

lemma push_all_bind:
  assumes "\<And>bs. f bs = push_all m ys bs"
  shows "rbind (push_all m xs bs) f = push_all m (xs @ ys) bs"
  using assms push_all_append [of m xs bs ys] by (metis ext)

definition fragment_texts :: "('u, 'n) provider_env \<Rightarrow> string option \<Rightarrow> string list" where
  "fragment_texts env html = (case Option.bind html (plain_text_fragment (pv_html env)) of None \<Rightarrow> [] | Some t \<Rightarrow> [t])"

definition comment_texts :: "string option \<Rightarrow> string list" where
  "comment_texts body =
     (case body of None \<Rightarrow> [] | Some t \<Rightarrow> if trim t = [] then [] else [join_with '' '' (split_whitespace (trim t))])"

lemma push_fragment_all: "push_fragment env html m bs = push_all m (fragment_texts env html) bs"
  by (simp add: push_fragment_def fragment_texts_def push_block_all split: option.splits)

lemma push_text_all: "push_text body m bs = push_all m (comment_texts body) bs"
  by (simp add: push_text_def comment_texts_def push_block_all split: option.splits)

text \<open>The texts of a thread: every item before its answers, in order.\<close>

fun preorder_texts :: "('u, 'n) provider_env \<Rightarrow> algolia_item list \<Rightarrow> string list" where
  "preorder_texts env [] = []"
| "preorder_texts env (AlgoliaItem _ text _ _ children # rest) =
     fragment_texts env text @ preorder_texts env children @ preorder_texts env rest"

lemma collect_comments_all: "collect_comments env items m bs = push_all m (preorder_texts env items) bs"
proof (induction env items arbitrary: bs rule: preorder_texts.induct)
  case (2 env i body title url children rest)
  have "rbind (collect_comments env children m bs) (collect_comments env rest m)
      = push_all m (preorder_texts env children @ preorder_texts env rest) bs" for bs
    unfolding "2.IH"(1) by (rule push_all_bind) (rule "2.IH"(2))
  from push_all_bind [OF this] show ?case by (simp add: push_fragment_all)
qed simp

text \<open>The texts of a Reddit discussion: the replies of the post level by level, then the comments.\<close>

definition reply_texts :: "posting \<Rightarrow> string list" where
  "reply_texts p = (if post_kind p = ''t1'' then comment_texts (post_body p) else [])"

function level_order :: "posting list \<Rightarrow> posting list" where
  "level_order [] = []"
| "level_order (p # queue) = p # level_order (queue @ reply_children p)"
  by pat_completeness auto
termination
proof (relation "measure (size_list size)", goal_cases)
  case (2 p queue)
  have "size_list size (reply_children p) < size p" by (rule size_reply_children)
  then show ?case by (simp add: size_list_append)
qed simp

lemma reply_texts_all: "(if post_kind p = ''t1'' then push_text (post_body p) m bs else Ok bs) = push_all m (reply_texts p) bs"
  by (simp add: reply_texts_def push_text_all)

lemma drain_replies_all: "drain_replies queue m bs = push_all m (concat (map reply_texts (level_order queue))) bs"
proof (induction queue arbitrary: bs rule: level_order.induct)
  case (2 p queue)
  from push_all_bind [OF "2.IH"] show ?case by (simp add: reply_texts_all)
qed simp

lemma push_comments_all: "push_comments ps m bs = push_all m (concat (map reply_texts ps)) bs"
proof (induction ps arbitrary: bs)
  case (Cons p ps)
  from push_all_bind [OF Cons.IH] show ?case by (simp add: reply_texts_all)
qed simp

lemma push_all_length: "push_all m texts bs = Ok bs' \<Longrightarrow> length bs \<le> max 1 m \<Longrightarrow> length bs' \<le> max 1 m"
  by (auto simp: push_all_def split: if_splits)

lemma push_all_heading:
  "push_all m texts [h] = (if texts = [] \<or> Suc (length texts) \<le> m then Ok (h # map paragraph_block texts)
     else Err ProviderResourceLimit)"
  by (simp add: push_all_def)

section \<open>Properties\<close>

text \<open>C34. A Hacker News thread is flattened completely and in order: for a payload inside the byte budget that
  decodes to an item with an identifier and a title, the blocks are the title as a heading and then one
  paragraph for every text of the item and of its answers, each item before its answers and siblings in
  order; the conversion fails only when these do not fit the block budget.\<close>

theorem hacker_news_thread_is_kept_in_order:
  assumes "length bytes \<le> pl_max_input_bytes limits" "pv_algolia env bytes = Some item"
    and "item_id item \<noteq> None" "item_title item = Some raw" "trim raw \<noteq> []"
    and "texts = preorder_texts env [item]"
  shows "from_algolia env bytes limits =
    (if texts = [] \<or> Suc (length texts) \<le> pl_max_blocks limits
     then let bs = heading_block 1 (trim raw) # map paragraph_block texts
          in Ok (Some (trim raw), item_url item, bs, evaluate_plain_text HACKER_NEWS_STRATEGY bs (Some (trim raw)))
     else Err ProviderResourceLimit)"
proof -
  have split: "texts = fragment_texts env (item_text item) @ preorder_texts env (item_children item)"
    unfolding assms(6) by (cases item) simp
  have step: "rbind (push_fragment env (item_text item) m [h]) (\<lambda>bs. rbind (collect_comments env (item_children item) m bs) f)
      = rbind (push_all m texts [h]) f" for m h f
    using push_all_append [of m "fragment_texts env (item_text item)" "[h]" "preorder_texts env (item_children item)"]
    by (cases "push_all m (fragment_texts env (item_text item)) [h]")
      (simp_all add: split push_fragment_all collect_comments_all [abs_def] del: rbind_Ok_iff, metis rbind_simps(1))
  let ?m = "pl_max_blocks limits" and ?h = "heading_block 1 (trim raw)"
  let ?f = "\<lambda>bs. Ok (Some (trim raw), item_url item, bs, evaluate_plain_text HACKER_NEWS_STRATEGY bs (Some (trim raw)))"
  have "from_algolia env bytes limits
      = rbind (push_fragment env (item_text item) ?m [?h]) (\<lambda>bs. rbind (collect_comments env (item_children item) ?m bs) ?f)"
    using assms(1-5) by (simp add: from_algolia_def required_title_def del: rbind_Ok_iff rbind_Err_iff not_None_eq)
  also have "\<dots> = rbind (push_all ?m texts [?h]) ?f" by (rule step)
  finally show ?thesis by (simp add: push_all_heading Let_def)
qed

definition sample_thread :: algolia_item where
  "sample_thread = AlgoliaItem (Some 1) (Some ''intro'') (Some '' Ask HN '') None
     [AlgoliaItem (Some 2) (Some ''first'') None None [AlgoliaItem (Some 3) (Some ''answer'') None None []],
      AlgoliaItem (Some 4) None None None [], AlgoliaItem (Some 5) (Some ''second'') None None []]"

definition text_dom :: "string \<Rightarrow> nat html_dom" where
  "text_dom s = \<lparr>nodes = [0, 1],
     node_value = (\<lambda>n. if n = 0 then \<lparr>node_name = ''body'', node_kind = Element []\<rparr> else \<lparr>node_name = [], node_kind = TextNode s\<rparr>),
     traversal = (\<lambda>n. [n, 1]), descendants = (\<lambda>n. [n, 1])\<rparr>"

definition sample_provider_env :: "(sample_url, nat) provider_env" where
  "sample_provider_env = \<lparr>pv_api = sample_api, pv_ir = sample_ir_env, pv_html = text_dom,
     pv_algolia = (\<lambda>_. Some sample_thread), pv_listings = (\<lambda>_. None), pv_address = Some\<rparr>"

lemma sample_thread_texts:
  "preorder_texts sample_provider_env [sample_thread] = [''intro'', ''first'', ''answer'', ''second'']"
  "trim '' Ask HN '' = ''Ask HN''"
  by code_simp+

theorem hacker_news_thread_is_kept_in_order_witness:
  "\<exists>d. from_algolia sample_provider_env ''{}'' \<lparr>pl_max_input_bytes = 10, pl_max_blocks = 5\<rparr> =
     Ok (Some ''Ask HN'', None, heading_block 1 ''Ask HN'' # map paragraph_block [''intro'', ''first'', ''answer'', ''second''], d)"
  using hacker_news_thread_is_kept_in_order [of "''{}''" "\<lparr>pl_max_input_bytes = 10, pl_max_blocks = 5\<rparr>" sample_provider_env
      sample_thread "'' Ask HN ''", OF _ _ _ _ _ sample_thread_texts(1) [symmetric]] sample_thread_texts(2)
  by (simp add: sample_provider_env_def sample_thread_def Let_def)

lemma from_algolia_Ok:
  assumes "from_algolia env bytes limits = Ok (title, url, bs, d)"
  shows "d = evaluate_plain_text HACKER_NEWS_STRATEGY bs title" "length bs \<le> max 1 (pl_max_blocks limits)"
proof -
  from assms obtain item t b1
    where steps: "push_fragment env (item_text item) (pl_max_blocks limits) [heading_block 1 t] = Ok b1"
      "collect_comments env (item_children item) (pl_max_blocks limits) b1 = Ok bs"
    and d: "d = evaluate_plain_text HACKER_NEWS_STRATEGY bs title"
    by (auto simp: from_algolia_def split: if_splits)
  show "length bs \<le> max 1 (pl_max_blocks limits)"
    using steps [unfolded push_fragment_all collect_comments_all, THEN push_all_length] by simp
  show "d = evaluate_plain_text HACKER_NEWS_STRATEGY bs title" by (rule d)
qed

lemma from_listings_Ok:
  assumes "from_listings env bytes limits = Ok (title, url, bs, d)"
  shows "d = evaluate_plain_text REDDIT_STRATEGY bs title" "length bs \<le> max 1 (pl_max_blocks limits)"
proof -
  from assms obtain post t b1 b2 ps
    where steps: "push_text (post_selftext post) (pl_max_blocks limits) [heading_block 1 t] = Ok b1"
    "drain_replies [post] (pl_max_blocks limits) b1 = Ok b2" "push_comments ps (pl_max_blocks limits) b2 = Ok bs"
    and d: "d = evaluate_plain_text REDDIT_STRATEGY bs title"
    by (auto simp: from_listings_def)
  show "length bs \<le> max 1 (pl_max_blocks limits)"
    using steps [unfolded push_text_all drain_replies_all push_comments_all, THEN push_all_length] by simp
  show "d = evaluate_plain_text REDDIT_STRATEGY bs title" by (rule d)
qed

text \<open>A provider payload becomes a document only inside its budgets, and only a link post may fall short of
  the quality thresholds: the payload is within its byte budget, the blocks within the block budget, the
  document holds exactly the evaluated blocks, the one candidate is selected, and it is accepted unless the
  payload names an external address. That address is trimmed, parses, and is not on a host of the provider.\<close>

theorem provider_document_is_bounded:
  assumes "from_provider env input limits = Ok x"
  shows "\<exists>d. length (pi_bytes input) \<le> pl_max_input_bytes limits
    \<and> length (dec_blocks d) \<le> max 1 (pl_max_blocks limits)
    \<and> map digest_block_of (doc_blocks (pe_document x)) = map digest_block_of (dec_blocks d)
    \<and> pe_candidates x = [d\<lparr>selected := True\<rparr>] \<and> (accepted d \<or> pe_external_url x \<noteq> None)
    \<and> (case pe_external_url x of None \<Rightarrow> True
       | Some url \<Rightarrow> url \<noteq> [] \<and> u_parse (pv_api env) url \<noteq> None \<and> \<not> points_back_to_provider (pv_api env) (pi_route input) url)"
proof -
  have len: "length (pi_bytes input) \<le> pl_max_input_bytes limits"
    using assms by (simp add: from_provider_def split: if_splits)
  let ?adapter = "case pi_route input of HackerNewsItem \<Rightarrow> from_algolia env (pi_bytes input) limits
               | RedditPost \<Rightarrow> from_listings env (pi_bytes input) limits"
  from assms len obtain title raw bs d strat where a: "?adapter = Ok (title, raw, bs, d)"
    and ext: "pe_external_url x = kept_external_url (pv_api env) (pi_route input) raw"
    and acc: "accepted d \<or> pe_external_url x \<noteq> None" and c: "pe_candidates x = [d\<lparr>selected := True\<rparr>]"
    and doc: "assemble_document (pv_ir env) (pi_owner input) (pi_address input) (pi_blob input) strat title None
        (dec_blocks d) = Ok (pe_document x)"
    by (auto simp: from_provider_def Let_def split: if_splits)
  have "dec_blocks d = bs \<and> length bs \<le> max 1 (pl_max_blocks limits)"
    using a from_algolia_Ok [of env "pi_bytes input" limits title raw bs d] from_listings_Ok [of env "pi_bytes input" limits title raw bs d]
    by (auto simp: evaluate_plain_text_def split: provider_route.splits prod.splits)
  moreover have "case pe_external_url x of None \<Rightarrow> True
       | Some url \<Rightarrow> url \<noteq> [] \<and> u_parse (pv_api env) url \<noteq> None \<and> \<not> points_back_to_provider (pv_api env) (pi_route input) url"
    unfolding ext by (auto simp: kept_external_url_def points_back_to_provider_def split: option.splits if_splits)
  ultimately show ?thesis using len assembled_content(1) [OF doc] acc c by blast
qed

definition linking_provider_env :: "(sample_url, nat) provider_env" where
  "linking_provider_env = sample_provider_env\<lparr>pv_algolia :=
     (\<lambda>_. Some (AlgoliaItem (Some 1) (Some ''intro'') (Some ''Link'') (Some '' https://a.io/p '') []))\<rparr>"

definition sample_provider_input :: provider_input where
  "sample_provider_input = \<lparr>pi_owner = replicate 16 1, pi_address = ''https://hn.io'', pi_blob = sample_ref,
     pi_route = HackerNewsItem, pi_bytes = ''{}''\<rparr>"

theorem provider_document_is_bounded_witness:
  "\<exists>x d. from_provider linking_provider_env sample_provider_input \<lparr>pl_max_input_bytes = 10, pl_max_blocks = 5\<rparr> = Ok x
     \<and> pe_external_url x = Some ''https://a.io/p'' \<and> length (dec_blocks d) \<le> 5 \<and> pe_candidates x = [d\<lparr>selected := True\<rparr>]"
proof -
  have "(case from_provider linking_provider_env sample_provider_input \<lparr>pl_max_input_bytes = 10, pl_max_blocks = 5\<rparr> of
      Ok x \<Rightarrow> pe_external_url x = Some ''https://a.io/p'' | Err _ \<Rightarrow> False)"
    by code_simp
  then obtain x where x: "from_provider linking_provider_env sample_provider_input \<lparr>pl_max_input_bytes = 10, pl_max_blocks = 5\<rparr> = Ok x"
    "pe_external_url x = Some ''https://a.io/p''"
    by (auto split: sum.splits)
  from provider_document_is_bounded [OF x(1)] x show ?thesis by auto
qed

end
