(* ===== verification/Lifecycle.thy ===== *)
theory Lifecycle
  imports Prelude
begin

text \<open>
  Readiness, admission and shutdown of the service process, \<open>services/extractor/src/lib.rs\<close>.
  The admission gate is shared by threads, so its model is a machine of atomic steps: every load, store and
  read-modify-write of \<open>AdmissionController\<close> and \<open>ShutdownCoordinator::shutdown\<close> is one step, and any
  interleaving is a sequence of them. \<open>tokio::sync::Notify\<close> is a counter of \<open>notify_waiters\<close> calls; a
  \<open>Notified\<close> future remembers the counter at its creation and completes once the counter has moved.

  The gate is closed by a \<open>Release\<close> store that is followed by \<open>Acquire\<close> loads of the counter. These orderings let
  the loads come before the other threads see the store, so the store has two steps: it is made, and at any later
  point it becomes visible, as from a store buffer. The other accesses are read-modify-writes, or loads that follow
  one, and act at once; the fields of \<open>RuntimeHealth\<close> decide readiness only.
\<close>

section \<open>Health\<close>

datatype run_state = Starting | Ready | Draining

record runtime_health =
  rh_state :: run_state
  dependencies_healthy :: bool
  publisher_healthy :: bool

definition health_new :: runtime_health where
  "health_new = \<lparr>rh_state = Starting, dependencies_healthy = False, publisher_healthy = True\<rparr>"

definition mark_ready :: "runtime_health \<Rightarrow> runtime_health" where
  "mark_ready h = h\<lparr>dependencies_healthy := True, rh_state := Ready\<rparr>"

definition mark_dependencies_healthy :: "bool \<Rightarrow> runtime_health \<Rightarrow> runtime_health" where
  "mark_dependencies_healthy b h = h\<lparr>dependencies_healthy := b\<rparr>"

definition mark_publisher_healthy :: "bool \<Rightarrow> runtime_health \<Rightarrow> runtime_health" where
  "mark_publisher_healthy b h = h\<lparr>publisher_healthy := b\<rparr>"

definition begin_drain :: "runtime_health \<Rightarrow> runtime_health" where
  "begin_drain h = h\<lparr>rh_state := Draining\<rparr>"

definition is_ready :: "runtime_health \<Rightarrow> bool" where
  "is_ready h = (rh_state h = Ready \<and> dependencies_healthy h \<and> publisher_healthy h)"

record admin_response =
  ar_status :: nat
  ar_cache_control :: string
  ar_body :: string

definition no_store :: "nat \<Rightarrow> string \<Rightarrow> admin_response" where
  "no_store status body = \<lparr>ar_status = status, ar_cache_control = ''no-store'', ar_body = body\<rparr>"

definition live_endpoint :: admin_response where
  "live_endpoint = no_store 200 ''live''"

definition ready_endpoint :: "runtime_health \<Rightarrow> admin_response" where
  "ready_endpoint h = (if is_ready h then no_store 200 ''ready'' else no_store 503 ''not ready'')"

definition metrics_endpoint :: "string \<Rightarrow> admin_response" where
  "metrics_endpoint rendered = no_store 200 rendered"

definition version_endpoint :: "string \<Rightarrow> admin_response" where
  "version_endpoint version = no_store 200 version"

text \<open>The routes of a \<open>GET\<close>; \<open>rendered\<close> is what the metrics renderer returns, and \<open>None\<close> leaves the answer to the
  HTTP library.\<close>

definition admin_router :: "runtime_health \<Rightarrow> string \<Rightarrow> string \<Rightarrow> string \<Rightarrow> admin_response option" where
  "admin_router h rendered version path =
     (if path = ''/health/live'' then Some live_endpoint
      else if path = ''/health/ready'' then Some (ready_endpoint h)
      else if path = ''/metrics'' then Some (metrics_endpoint rendered)
      else if path = ''/version'' then Some (version_endpoint version)
      else None)"

text \<open>No answer of the operator's routes is cached, and only readiness ever refuses.\<close>

lemma admin_router_answers:
  assumes "admin_router h rendered version path = Some r"
  shows "ar_cache_control r = ''no-store''" "ar_status r = 200 \<or> (ar_status r = 503 \<and> path = ''/health/ready'' \<and> \<not> is_ready h)"
  using assms
  by (auto simp: admin_router_def live_endpoint_def ready_endpoint_def metrics_endpoint_def version_endpoint_def
      no_store_def split: if_splits)

section \<open>The admission gate\<close>

text \<open>Where one operation stands in \<open>try_admit\<close>, in holding its permit, or in \<open>release_one\<close>.\<close>

datatype admit_pc = FirstLoad | AddActive | Recheck | Admitted | SubActive | NotifyDrained | Finished

text \<open>Where the shutdown stands; \<open>LoadActive g\<close> and \<open>Await g\<close> hold a \<open>Notified\<close> created at \<open>g\<close>.\<close>

datatype drain_pc =
    Idle | StoreAccepting | CloseLoad | CloseNotify | MakeNotified | LoadActive nat | Await nat
  | TimedOut | Drained | Cancelled

text \<open>\<open>accepting\<close> is what the other threads see; \<open>store_pending\<close> says that the closing store is made and not yet
  visible. \<open>raced\<close> only observes: it remembers that the shutdown returned on a count it had read meanwhile.\<close>

record gate =
  accepting :: bool
  store_pending :: bool
  raced :: bool
  active :: nat
  cancellation :: bool
  notified :: nat
  operations :: "admit_pc list"
  shutdown_pc :: drain_pc
  gate_health :: runtime_health

definition gate_new :: "runtime_health \<Rightarrow> gate" where
  "gate_new h = \<lparr>accepting = True, store_pending = False, raced = False, active = 0, cancellation = False, notified = 0, operations = [],
     shutdown_pc = Idle, gate_health = h\<rparr>"

definition fetch_add :: "gate \<Rightarrow> gate" where
  "fetch_add s = s\<lparr>active := (active s + 1) mod (usize_max + 1)\<rparr>"

definition fetch_sub :: "gate \<Rightarrow> gate" where
  "fetch_sub s = s\<lparr>active := (active s + usize_max) mod (usize_max + 1)\<rparr>"

text \<open>The next atomic step of an operation: \<open>try_admit\<close> with its second load, then the drop of the permit,
  which runs \<open>release_one\<close>.\<close>

fun operation_step :: "admit_pc \<Rightarrow> gate \<Rightarrow> admit_pc \<times> gate" where
  "operation_step FirstLoad s = (if accepting s then AddActive else Finished, s)"
| "operation_step AddActive s = (Recheck, fetch_add s)"
| "operation_step Recheck s = (if accepting s then Admitted else SubActive, s)"
| "operation_step Admitted s = (SubActive, s)"
| "operation_step SubActive s = (if active s = 1 then NotifyDrained else Finished, fetch_sub s)"
| "operation_step NotifyDrained s = (Finished, s\<lparr>notified := notified s + 1\<rparr>)"
| "operation_step Finished s = (Finished, s)"

text \<open>The next atomic step of \<open>shutdown\<close>: begin the drain, \<open>close\<close>, then the loop of \<open>drained\<close>.\<close>

fun shutdown_step :: "drain_pc \<Rightarrow> gate \<Rightarrow> drain_pc \<times> gate" where
  "shutdown_step Idle s = (StoreAccepting, s\<lparr>gate_health := begin_drain (gate_health s)\<rparr>)"
| "shutdown_step StoreAccepting s = (CloseLoad, s\<lparr>store_pending := True\<rparr>)"
| "shutdown_step CloseLoad s = (if active s = 0 then CloseNotify else MakeNotified, s)"
| "shutdown_step CloseNotify s = (MakeNotified, s\<lparr>notified := notified s + 1\<rparr>)"
| "shutdown_step MakeNotified s = (LoadActive (notified s), s)"
| "shutdown_step (LoadActive g) s = (if active s = 0 then (Drained, s\<lparr>raced := store_pending s\<rparr>) else (Await g, s))"
| "shutdown_step (Await g) s = (if notified s > g then MakeNotified else Await g, s)"
| "shutdown_step TimedOut s = (Cancelled, s\<lparr>cancellation := True\<rparr>)"
| "shutdown_step Drained s = (Drained, s)"
| "shutdown_step Cancelled s = (Cancelled, s)"

definition draining_pc :: "drain_pc \<Rightarrow> bool" where
  "draining_pc p = (case p of MakeNotified \<Rightarrow> True | LoadActive _ \<Rightarrow> True | Await _ \<Rightarrow> True | _ \<Rightarrow> False)"

definition run_operation :: "nat \<Rightarrow> gate \<Rightarrow> gate" where
  "run_operation i s = (case operation_step (operations s ! i) s of (p, s') \<Rightarrow> s'\<lparr>operations := (operations s)[i := p]\<rparr>)"

definition run_shutdown :: "gate \<Rightarrow> gate" where
  "run_shutdown s = (case shutdown_step (shutdown_pc s) s of (p, s') \<Rightarrow> s'\<lparr>shutdown_pc := p\<rparr>)"

inductive gate_step :: "gate \<Rightarrow> gate \<Rightarrow> bool" where
  call: "gate_step s (s\<lparr>operations := operations s @ [FirstLoad]\<rparr>)"
| operation: "i < length (operations s) \<Longrightarrow> gate_step s (run_operation i s)"
| shutdown: "gate_step s (run_shutdown s)"
| visible: "store_pending s \<Longrightarrow> gate_step s (s\<lparr>accepting := False, store_pending := False\<rparr>)"
| deadline: "draining_pc (shutdown_pc s) \<Longrightarrow> gate_step s (s\<lparr>shutdown_pc := TimedOut\<rparr>)"
| health: "rh_state h = rh_state (gate_health s) \<Longrightarrow> gate_step s (s\<lparr>gate_health := h\<rparr>)"

inductive gate_steps :: "gate \<Rightarrow> gate \<Rightarrow> bool" where
  refl: "gate_steps s s"
| step: "gate_steps s t \<Longrightarrow> gate_step t u \<Longrightarrow> gate_steps s u"

section \<open>Invariant\<close>

definition counted :: "admit_pc \<Rightarrow> bool" where
  "counted p = (p \<in> {Recheck, Admitted, SubActive})"

definition count_active :: "admit_pc list \<Rightarrow> nat" where
  "count_active ps = length (filter counted ps)"

definition closed_pc :: "drain_pc \<Rightarrow> bool" where
  "closed_pc p = (p \<notin> {Idle, StoreAccepting})"

text \<open>The counter is exact, the gate is closed or about to be once the shutdown has stored so, nobody holds a
  permit once it has seen the drained gate through a visible store, and a waiting shutdown that nobody is counted for has been or is about to be
  notified.\<close>

definition gate_inv :: "gate \<Rightarrow> bool" where
  "gate_inv s =
     (length (operations s) \<le> usize_max \<longrightarrow>
        active s = count_active (operations s)
        \<and> (closed_pc (shutdown_pc s) \<longrightarrow> \<not> accepting s \<or> store_pending s)
        \<and> (shutdown_pc s = Drained \<and> \<not> raced s \<longrightarrow> \<not> accepting s \<and> Admitted \<notin> set (operations s))
        \<and> (case shutdown_pc s of
             Await g \<Rightarrow> g \<le> notified s \<and> (count_active (operations s) = 0 \<longrightarrow> g < notified s \<or> NotifyDrained \<in> set (operations s))
           | LoadActive g \<Rightarrow> g \<le> notified s
           | _ \<Rightarrow> True))"

lemma count_update:
  assumes "i < length ps"
  shows "count_active (ps[i := p]) + (if counted (ps ! i) then 1 else 0) = count_active ps + (if counted p then 1 else 0)"
proof -
  have "count_active ps = count_active (take i ps @ ps ! i # drop (Suc i) ps)" by (simp add: assms id_take_nth_drop [symmetric])
  moreover have "ps[i := p] = take i ps @ p # drop (Suc i) ps" by (rule upd_conv_take_nth_drop [OF assms])
  ultimately show ?thesis by (simp add: count_active_def)
qed

lemma count_member: "i < length ps \<Longrightarrow> counted (ps ! i) \<Longrightarrow> 0 < count_active ps"
  unfolding count_active_def by (metis filter_empty_conv length_greater_0_conv nth_mem)

lemma count_others: "i < length ps \<Longrightarrow> \<not> counted (ps ! i) \<Longrightarrow> count_active ps < length ps"
  unfolding count_active_def by (rule length_filter_less) simp_all

lemma count_zero: "count_active ps = 0 \<Longrightarrow> Admitted \<notin> set ps"
  by (auto simp: count_active_def filter_empty_conv counted_def)

lemma sub_one: "0 < a \<Longrightarrow> a \<le> usize_max \<Longrightarrow> (a + usize_max) mod (usize_max + 1) = a - 1"
proof -
  assume "0 < a" "a \<le> usize_max"
  then have "a + usize_max = (a - 1) + (usize_max + 1)" "a - 1 < usize_max + 1" by simp_all
  then show ?thesis by (metis mod_add_self2 mod_less)
qed

lemma counted_simps [simp]:
  "counted Recheck" "counted Admitted" "counted SubActive" "\<not> counted FirstLoad" "\<not> counted AddActive"
  "\<not> counted NotifyDrained" "\<not> counted Finished"
  by (simp_all add: counted_def)

text \<open>An operation that keeps the counters consistent keeps the invariant.\<close>

lemma gate_inv_operation:
  assumes inv: "gate_inv s" and i: "i < length (operations s)"
    and t: "t = s\<lparr>active := a, notified := n, operations := (operations s)[i := p]\<rparr>"
    and a: "length (operations s) \<le> usize_max \<Longrightarrow> active s = count_active (operations s) \<Longrightarrow>
        a = count_active ((operations s)[i := p])"
    and adm: "p = Admitted \<Longrightarrow> accepting s" and n: "notified s \<le> n"
    and tells: "operations s ! i = NotifyDrained \<Longrightarrow> notified s < n"
    and last: "0 < count_active (operations s) \<Longrightarrow> count_active ((operations s)[i := p]) = 0 \<Longrightarrow> p = NotifyDrained"
  shows "gate_inv t"
proof (cases "length (operations s) \<le> usize_max")
  case True
  note f = inv [unfolded gate_inv_def, rule_format, OF True]
  have stays: "Admitted \<notin> set ((operations s)[i := p])" if "shutdown_pc s = Drained" "\<not> raced s"
    using f that adm set_update_subset_insert [of "operations s" i p] by auto
  have wake: "g < n \<or> NotifyDrained \<in> set ((operations s)[i := p])"
    if "shutdown_pc s = Await g" "count_active ((operations s)[i := p]) = 0" for g
  proof (cases "count_active (operations s) = 0")
    case True
    with f that(1) have "g < notified s \<or> NotifyDrained \<in> set (operations s)" "g \<le> notified s" by auto
    moreover have "NotifyDrained \<in> set ((operations s)[i := p])"
      if m: "NotifyDrained \<in> set (operations s)" and neq: "operations s ! i \<noteq> NotifyDrained"
    proof -
      obtain j where "j < length (operations s)" "operations s ! j = NotifyDrained"
        using m by (metis in_set_conv_nth)
      with neq show ?thesis by (metis length_list_update nth_list_update_neq nth_mem)
    qed
    ultimately show ?thesis using n tells by fastforce
  next
    case False
    with last that(2) i show ?thesis by (simp add: set_update_memI)
  qed
  show ?thesis unfolding gate_inv_def t using f True a n stays wake by (auto split: drain_pc.splits)
next
  case False
  then show ?thesis by (simp add: gate_inv_def t)
qed

text \<open>The step that gives a permit back: the counter is at least one, so it does not wrap.\<close>

lemma release_inv:
  assumes inv: "gate_inv s" and i: "i < length (operations s)" and SubActive: "operations s ! i = SubActive"
  shows "gate_inv (run_operation i s)"
proof -
  let ?c = "count_active (operations s)"
  note upd = count_update [OF i]
  have le: "?c \<le> length (operations s)" by (simp add: count_active_def)
  note rule = gate_inv_operation [OF inv i]
  let ?p = "if active s = 1 then NotifyDrained else Finished"
  have c: "0 < ?c" using count_member [OF i] SubActive by simp
  have u: "count_active ((operations s)[i := ?p]) = ?c - 1"
    using upd [of ?p] SubActive c by (cases "active s = 1") auto
  have le': "length (operations s) \<le> usize_max \<Longrightarrow> ?c \<le> usize_max" using le by simp
  show ?thesis
  proof (cases "length (operations s) \<le> usize_max")
    case True
    have "active s = ?c" using inv True by (simp add: gate_inv_def)
    moreover from this have "(active s + usize_max) mod (usize_max + 1) = ?c - 1"
      using sub_one [of ?c] c le' [OF True] by simp
    ultimately show ?thesis using SubActive c u
      by (intro rule [where a = "?c - 1" and n = "notified s" and p = ?p])
        (auto simp: run_operation_def fetch_sub_def split: if_splits)
  next
    case False
    then show ?thesis by (simp add: gate_inv_def run_operation_def split_beta SubActive fetch_sub_def)
  qed
qed

lemma operation_inv:
  assumes inv: "gate_inv s" and i: "i < length (operations s)"
  shows "gate_inv (run_operation i s)"
proof -
  let ?c = "count_active (operations s)"
  note upd = count_update [OF i]
  note rule = gate_inv_operation [OF inv i]
  show ?thesis
  proof (cases "operations s ! i")
    case AddActive
    then have "?c < length (operations s)" "count_active ((operations s)[i := Recheck]) = ?c + 1"
      using count_others [OF i] upd [of Recheck] by simp_all
    with AddActive show ?thesis
      by (intro rule [where a = "(active s + 1) mod (usize_max + 1)" and n = "notified s" and p = Recheck])
        (simp_all add: run_operation_def fetch_add_def)
  next
    case SubActive
    then show ?thesis by (rule release_inv [OF inv i])
  next
    case NotifyDrained
    then show ?thesis
      by (intro rule [where a = "active s" and n = "notified s + 1" and p = Finished])
        (use upd [of Finished] in \<open>simp_all add: run_operation_def\<close>)
  next
    case FirstLoad
    let ?p = "if accepting s then AddActive else Finished"
    show ?thesis
      by (rule rule [where a = "active s" and n = "notified s" and p = ?p])
        (use upd [of ?p] FirstLoad in \<open>auto simp: run_operation_def split: if_splits\<close>)
  next
    case Recheck
    let ?p = "if accepting s then Admitted else SubActive"
    show ?thesis
      by (rule rule [where a = "active s" and n = "notified s" and p = ?p])
        (use upd [of ?p] Recheck count_member [OF i] in \<open>auto simp: run_operation_def split: if_splits\<close>)
  next
    case Admitted
    show ?thesis
      by (rule rule [where a = "active s" and n = "notified s" and p = SubActive])
        (use upd [of SubActive] Admitted count_member [OF i] in \<open>simp_all add: run_operation_def\<close>)
  next
    case Finished
    show ?thesis
      by (rule rule [where a = "active s" and n = "notified s" and p = Finished])
        (use upd [of Finished] Finished in \<open>simp_all add: run_operation_def\<close>)
  qed
qed

lemma shutdown_inv:
  assumes inv: "gate_inv s"
  shows "gate_inv (run_shutdown s)"
proof (cases "length (operations s) \<le> usize_max")
  case True
  note f = inv [unfolded gate_inv_def, rule_format, OF True]
  then show ?thesis
    unfolding gate_inv_def run_shutdown_def
    by (cases "shutdown_pc s") (auto simp: closed_pc_def count_zero)
next
  case False
  have "operations (run_shutdown s) = operations s"
    by (cases "shutdown_pc s") (simp_all add: run_shutdown_def)
  with False show ?thesis by (simp add: gate_inv_def)
qed

lemma gate_step_inv: "gate_step s t \<Longrightarrow> gate_inv s \<Longrightarrow> gate_inv t"
proof (induction rule: gate_step.induct)
  case (call s)
  then show ?case by (auto simp: gate_inv_def count_active_def split: drain_pc.splits)
next
  case (visible s)
  then show ?case by (auto simp: gate_inv_def split: drain_pc.splits)
next
  case (deadline s)
  then show ?case by (auto simp: gate_inv_def closed_pc_def draining_pc_def split: drain_pc.splits)
next
  case (health h s)
  then show ?case by (auto simp: gate_inv_def split: drain_pc.splits)
qed (simp_all add: operation_inv shutdown_inv)

lemma gate_steps_inv: "gate_steps s t \<Longrightarrow> gate_inv s \<Longrightarrow> gate_inv t"
  by (induction rule: gate_steps.induct) (auto intro: gate_step_inv)

lemma gate_new_inv: "gate_inv (gate_new h)"
  by (simp add: gate_inv_def gate_new_def count_active_def closed_pc_def)

lemma operations_grow: "gate_steps s t \<Longrightarrow> length (operations s) \<le> length (operations t)"
proof (induction rule: gate_steps.induct)
  case (step s t u)
  have "length (operations t) \<le> length (operations u)"
    using step(2)
  proof (cases rule: gate_step.cases)
    case (operation i)
    then show ?thesis by (cases "operations t ! i") (simp_all add: run_operation_def fetch_add_def fetch_sub_def)
  next
    case shutdown
    then show ?thesis by (cases "shutdown_pc t") (simp_all add: run_shutdown_def)
  qed simp_all
  with step show ?case by simp
qed simp

lemma drained_is_final: "gate_steps s t \<Longrightarrow> shutdown_pc s = Drained \<Longrightarrow> shutdown_pc t = Drained \<and> raced t = raced s"
proof (induction rule: gate_steps.induct)
  case (step s t u)
  from step(2) show ?case
  proof (cases rule: gate_step.cases)
    case (operation i)
    with step show ?thesis by (cases "operations t ! i") (simp_all add: run_operation_def fetch_add_def fetch_sub_def)
  qed (use step in \<open>auto simp: run_shutdown_def draining_pc_def\<close>)
qed simp

section \<open>Properties\<close>

lemma shutdown_steps: "gate_steps s t \<Longrightarrow> gate_steps s (run_shutdown t)"
  by (rule gate_steps.step [OF _ gate_step.shutdown])

lemma operation_steps: "gate_steps s t \<Longrightarrow> i < length (operations t) \<Longrightarrow> gate_steps s (run_operation i t)"
  by (rule gate_steps.step [OF _ gate_step.operation])

lemma call_steps: "gate_steps s t \<Longrightarrow> gate_steps s (t\<lparr>operations := operations t @ [FirstLoad]\<rparr>)"
  by (rule gate_steps.step [OF _ gate_step.call])

text \<open>The store-buffering execution: an operation holds a permit while the shutdown makes its store and reads the
  count, and gives it back; the shutdown reads zero and returns before its store is visible; the next operation
  passes both checks.\<close>

definition first_admitted :: "runtime_health \<Rightarrow> gate" where
  "first_admitted h = run_operation 0 (run_operation 0 (run_operation 0 ((gate_new h)\<lparr>operations := [FirstLoad]\<rparr>)))"

definition raced_shutdown :: "runtime_health \<Rightarrow> gate" where
  "raced_shutdown h = run_shutdown (run_shutdown (run_operation 0 (run_operation 0 (run_operation 0
     (run_shutdown (run_shutdown (run_shutdown (first_admitted h))))))))"

definition late_permit :: "runtime_health \<Rightarrow> gate" where
  "late_permit h = run_operation 1 (run_operation 1 (run_operation 1
     ((raced_shutdown h)\<lparr>operations := operations (raced_shutdown h) @ [FirstLoad]\<rparr>)))"

lemma first_admitted_value:
  "first_admitted h = (gate_new h)\<lparr>operations := [Admitted], active := 1\<rparr>"
  by (simp add: first_admitted_def run_operation_def gate_new_def fetch_add_def usize_max_def)

lemma raced_shutdown_value:
  "raced_shutdown h = \<lparr>accepting = True, store_pending = True, raced = True, active = 0, cancellation = False, notified = 1,
     operations = [Finished], shutdown_pc = Drained, gate_health = begin_drain h\<rparr>"
  by (simp add: raced_shutdown_def first_admitted_value run_operation_def run_shutdown_def gate_new_def fetch_sub_def
      usize_max_def)

lemma first_admitted_reached: "gate_steps (gate_new h) (first_admitted h)"
proof -
  have "gate_steps (gate_new h) ((gate_new h)\<lparr>operations := [FirstLoad]\<rparr>)"
    using call_steps [OF gate_steps.refl, of "gate_new h"] by (simp add: gate_new_def)
  then show ?thesis
    unfolding first_admitted_def
    by (intro operation_steps) (simp_all add: run_operation_def gate_new_def fetch_add_def)
qed

lemma late_permit_reached: "gate_steps (gate_new h) (late_permit h)"
proof -
  have "gate_steps (gate_new h) (raced_shutdown h)"
    unfolding raced_shutdown_def
    by (intro shutdown_steps operation_steps first_admitted_reached)
      (simp_all add: first_admitted_value run_operation_def run_shutdown_def gate_new_def fetch_sub_def)
  from call_steps [OF this] show ?thesis
    unfolding late_permit_def
    by (intro operation_steps) (simp_all add: raced_shutdown_value run_operation_def fetch_add_def)
qed

lemma late_permit_facts: "shutdown_pc (late_permit h) = Drained" "Admitted \<in> set (operations (late_permit h))"
  by (simp_all add: late_permit_def raced_shutdown_value run_operation_def fetch_add_def)

text \<open>C31. What a drained shutdown guarantees under the orderings of the code. In every interleaving of
  admissions, permit drops and the shutdown, with at most \<open>usize::MAX\<close> operations over the life of the process,
  the active counter is exact: it is the number of operations that are between counting themselves in and out.
  Once the shutdown has returned because the gate was drained, and had not read the count while its closing
  store was still invisible, no operation holds a permit, and none ever will, although admissions that passed the first
  check before the gate closed may still be running. The exception is real: a \<open>Release\<close> store and a
  later \<open>Acquire\<close> load are not ordered, and there is an execution in which the shutdown has returned and an operation
  holds a permit.\<close>

theorem drained_shutdown_is_final_unless_raced:
  assumes "gate_steps (gate_new h) s" "gate_steps s t" "length (operations t) \<le> usize_max"
  shows "active s = count_active (operations s)
    \<and> (shutdown_pc s = Drained \<and> \<not> raced s \<longrightarrow> Admitted \<notin> set (operations s) \<and> Admitted \<notin> set (operations t))
    \<and> (\<exists>u. gate_steps (gate_new h) u \<and> shutdown_pc u = Drained \<and> Admitted \<in> set (operations u))"
proof -
  have s: "gate_inv s" using gate_steps_inv [OF assms(1) gate_new_inv] .
  have t: "gate_inv t" using gate_steps_inv [OF assms(2) s] .
  have "length (operations s) \<le> usize_max" using operations_grow [OF assms(2)] assms(3) by simp
  with s t assms(3) drained_is_final [OF assms(2)]
  have "active s = count_active (operations s)
      \<and> (shutdown_pc s = Drained \<and> \<not> raced s \<longrightarrow> Admitted \<notin> set (operations s) \<and> Admitted \<notin> set (operations t))"
    by (auto simp: gate_inv_def)
  with late_permit_reached [of h] late_permit_facts [of h] show ?thesis by blast
qed

text \<open>An orderly shutdown: the store is visible before the count is read.\<close>

definition orderly_shutdown :: gate where
  "orderly_shutdown = run_shutdown (run_shutdown (run_shutdown (run_shutdown
     ((run_shutdown (run_shutdown (gate_new health_new)))\<lparr>accepting := False, store_pending := False\<rparr>))))"

lemma orderly_shutdown_reached: "gate_steps (gate_new health_new) orderly_shutdown"
proof -
  have "gate_steps (gate_new health_new) (run_shutdown (run_shutdown (gate_new health_new)))"
    by (intro shutdown_steps gate_steps.refl)
  from gate_steps.step [OF this gate_step.visible] show ?thesis
    unfolding orderly_shutdown_def by (intro shutdown_steps) (simp_all add: run_shutdown_def gate_new_def)
qed

theorem drained_shutdown_is_final_unless_raced_witness:
  "shutdown_pc orderly_shutdown = Drained \<and> \<not> raced orderly_shutdown \<and> Admitted \<notin> set (operations orderly_shutdown)"
proof -
  have "shutdown_pc orderly_shutdown = Drained" "\<not> raced orderly_shutdown" "length (operations orderly_shutdown) \<le> usize_max"
    by (simp_all add: orderly_shutdown_def run_shutdown_def gate_new_def)
  with drained_shutdown_is_final_unless_raced [OF orderly_shutdown_reached gate_steps.refl] show ?thesis by blast
qed

text \<open>C32. No wake-up of the drain is lost. In every interleaving, when the shutdown waits for a notification
  and every operation has ended or was refused, the notification has been sent: the shutdown's own next three
  steps take it out of the wait and return, without anything else having to happen.\<close>

theorem drain_wakeup_is_not_lost:
  assumes "gate_steps (gate_new h) s" "length (operations s) \<le> usize_max" "shutdown_pc s = Await g"
    and "list_all (\<lambda>p. p = Finished) (operations s)"
  shows "shutdown_pc (run_shutdown (run_shutdown (run_shutdown s))) = Drained"
proof -
  have "gate_inv s" using gate_steps_inv [OF assms(1) gate_new_inv] .
  with assms(2) have f: "active s = count_active (operations s)"
    "count_active (operations s) = 0 \<longrightarrow> g < notified s \<or> NotifyDrained \<in> set (operations s)"
    using assms(3) by (auto simp: gate_inv_def)
  have z: "count_active (operations s) = 0" "NotifyDrained \<notin> set (operations s)"
    using assms(4) by (auto simp: count_active_def list_all_iff filter_empty_conv)
  with f have "g < notified s" "active s = 0" by auto
  with assms(3) show ?thesis by (simp add: run_shutdown_def)
qed

definition sample_drain :: gate where
  "sample_drain = run_operation 0 (run_operation 0 (run_operation 0
     (run_shutdown (run_shutdown (run_shutdown (run_shutdown (run_shutdown (first_admitted health_new))))))))"

lemma sample_drain_reached: "gate_steps (gate_new health_new) sample_drain"
proof -
  let ?w = "run_shutdown (run_shutdown (run_shutdown (run_shutdown (run_shutdown (first_admitted health_new)))))"
  have "gate_steps (gate_new health_new) ?w" by (intro shutdown_steps first_admitted_reached)
  moreover have "length (operations ?w) = 1" "length (operations (run_operation 0 ?w)) = 1"
    "length (operations (run_operation 0 (run_operation 0 ?w))) = 1" by code_simp+
  ultimately show ?thesis unfolding sample_drain_def by (intro operation_steps) simp_all
qed

theorem drain_wakeup_is_not_lost_witness:
  "shutdown_pc (run_shutdown (run_shutdown (run_shutdown sample_drain))) = Drained"
proof -
  have "shutdown_pc sample_drain = Await 0" "operations sample_drain = [Finished]" by code_simp+
  with drain_wakeup_is_not_lost [OF sample_drain_reached, of 0] show ?thesis by (simp add: usize_max_def)
qed

end
