(* ===== verification/Media.thy ===== *)
theory Media
  imports Completion Config
begin

text \<open>
  Persistence facts and media accounting, \<open>crates/persistence/src/records.rs\<close>, and the gated archival of
  one video, \<open>services/extractor/src/youtube_media.rs\<close>.

  The table \<open>media_archives\<close> stands beside the tables of \<open>db\<close>. Read queries take whether the database
  answers; a write takes the fate of its transaction. The confined downloader is a child process: what it
  does to the file system and how it ends are the fields of \<open>child\<close>.
\<close>

section \<open>Persistence\<close>

datatype persistence_error =
    PConnect | PSchema | PQuery | PValueOverflow | PInvalidArtifact | POwnerMismatch

record media_row =
  md_id :: uuid
  md_run :: uuid
  md_video :: string
  md_digest :: string
  md_media :: string
  md_length :: nat
  md_created :: nat
  md_expires :: nat

definition media_row_ok :: "media_row \<Rightarrow> bool" where
  "media_row_ok r =
     (between_chars 1 32 (md_video r) \<and> is_sha256_hex (md_digest r) \<and> 0 < md_length r \<and> md_created r < md_expires r)"

datatype artifact_kind = RawSource | DocumentIrKind | Diagnostics | ArchivedMedia

fun kind_str :: "artifact_kind \<Rightarrow> string" where
  "kind_str RawSource = ''raw_source''"
| "kind_str DocumentIrKind = ''document_ir''"
| "kind_str Diagnostics = ''diagnostics''"
| "kind_str ArchivedMedia = ''archived_media''"

definition require_own_reference :: "blob_ref \<Rightarrow> (persistence_error, nat) res" where
  "require_own_reference b =
     (if owner_service b \<noteq> OWNER \<or> digest_algorithm b \<noteq> Sha256 then Err PInvalidArtifact
      else ok_or PValueOverflow (try_from i64_max (length_bytes b)))"

text \<open>\<open>insert ... select ... from extraction_runs where ...\<close>: one row for every run that matches; every row
  is checked.\<close>

definition artifact_of :: "call_env \<Rightarrow> nat \<Rightarrow> uuid \<Rightarrow> string \<Rightarrow> blob_ref \<Rightarrow> nat \<Rightarrow> artifact_row" where
  "artifact_of cx k run kind b len =
     \<lparr>art_id = new_id cx k, art_run = run, art_kind = kind, art_owner = OWNER, art_digest = digest_hex b,
      art_media = media_type b, art_length = len, art_created = now_us cx\<rparr>"

fun insert_artifacts :: "artifact_row list \<Rightarrow> db \<Rightarrow> (persistence_error, db) res" where
  "insert_artifacts [] d = Ok d"
| "insert_artifacts (r # rs) d =
     (if artifact_row_ok r \<and> art_id r \<notin> art_id ` set (artifacts d) \<and> has_run d (art_run r)
      then insert_artifacts rs (d\<lparr>artifacts := artifacts d @ [r]\<rparr>) else Err PQuery)"

definition owned :: "nat \<Rightarrow> (persistence_error, unit) res" where
  "owned rows_affected = (if rows_affected = 0 then Err POwnerMismatch else Ok ())"

text \<open>The fate of one autocommitted statement or transaction.\<close>

definition commit :: "tx_fate \<Rightarrow> 's \<Rightarrow> (persistence_error, 'a \<times> 's) res \<Rightarrow> (persistence_error, 'a) res \<times> 's" where
  "commit fate s r =
     (case fate of
        Aborts \<Rightarrow> (Err PQuery, s)
      | Commits \<Rightarrow> (case r of Err e \<Rightarrow> (Err e, s) | Ok (x, s') \<Rightarrow> (Ok x, s'))
      | CommitUnacknowledged \<Rightarrow> (case r of Err e \<Rightarrow> (Err e, s) | Ok (x, s') \<Rightarrow> (Err PQuery, s')))"

text \<open>A single statement reports how many rows it wrote only after it has been committed.\<close>

definition record_artifact ::
  "call_env \<Rightarrow> tx_fate \<Rightarrow> uuid \<Rightarrow> uuid \<Rightarrow> artifact_kind \<Rightarrow> blob_ref \<Rightarrow> db \<Rightarrow> (persistence_error, unit) res \<times> db" where
  "record_artifact cx fate run own kind reference d =
     (case require_own_reference reference of
        Err e \<Rightarrow> (Err e, d)
      | Ok len \<Rightarrow>
          let rows = map (\<lambda>_. artifact_of cx 0 run (kind_str kind) reference len)
                       (filter (\<lambda>r. run_id r = run \<and> run_owner r = own) (runs d))
          in (case commit fate d (rbind (insert_artifacts rows d) (\<lambda>d'. Ok (length rows, d'))) of
                (r, d') \<Rightarrow> (rbind r owned, d')))"

definition unexpired :: "nat \<Rightarrow> media_row \<Rightarrow> bool" where
  "unexpired now r = (now < md_expires r)"

definition media_bytes :: "nat \<Rightarrow> media_row list \<Rightarrow> nat" where
  "media_bytes now m = sum_list (map md_length (filter (unexpired now) m))"

text \<open>The sum is cast to \<open>bigint\<close>.\<close>

definition unexpired_media_bytes :: "bool \<Rightarrow> nat \<Rightarrow> media_row list \<Rightarrow> (persistence_error, nat) res" where
  "unexpired_media_bytes up now m =
     (if \<not> up then Err PQuery else ok_or PQuery (try_from i64_max (media_bytes now m)))"

definition has_unexpired_media_for_video :: "bool \<Rightarrow> nat \<Rightarrow> string \<Rightarrow> media_row list \<Rightarrow> (persistence_error, bool) res" where
  "has_unexpired_media_for_video up now video m =
     (if \<not> up then Err PQuery else Ok (list_ex (\<lambda>r. md_video r = video \<and> unexpired now r) m))"

record media_archive_record =
  mar_run :: uuid
  mar_video :: string
  mar_reference :: blob_ref
  mar_retention_hours :: nat

definition hours_us :: "nat \<Rightarrow> nat" where
  "hours_us h = h * 3600 * 1000000"

fun insert_media :: "db \<Rightarrow> media_row list \<Rightarrow> media_row list \<Rightarrow> (persistence_error, media_row list) res" where
  "insert_media d [] m = Ok m"
| "insert_media d (r # rs) m =
     (if media_row_ok r \<and> md_id r \<notin> md_id ` set m \<and> has_run d (md_run r)
      then insert_media d rs (m @ [r]) else Err PQuery)"

text \<open>The reservation: the advisory lock makes reservations exclude each other, so each is one step. It
  answers \<open>False\<close> and rolls back when the budget has no room.\<close>

definition reserve_body ::
  "call_env \<Rightarrow> media_archive_record \<Rightarrow> nat \<Rightarrow> nat \<Rightarrow> db \<times> media_row list
   \<Rightarrow> (persistence_error, bool \<times> db \<times> media_row list) res" where
  "reserve_body cx rec len budget = (\<lambda>(d, m).
     rbind (ok_or PQuery (try_from i64_max (media_bytes (now_us cx) m))) (\<lambda>used.
     if sat_add i64_max used len > budget then Ok (False, d, m)
     else
       let matching = filter (\<lambda>r. run_id r = mar_run rec \<and> run_status r = Succeeded) (runs d);
           arts = map (\<lambda>_. artifact_of cx 0 (mar_run rec) ''archived_media'' (mar_reference rec) len) matching;
           rows = map (\<lambda>_. \<lparr>md_id = new_id cx 1, md_run = mar_run rec, md_video = mar_video rec,
                            md_digest = digest_hex (mar_reference rec), md_media = media_type (mar_reference rec),
                            md_length = len, md_created = now_us cx,
                            md_expires = now_us cx + hours_us (mar_retention_hours rec)\<rparr>) matching
       in rbind (insert_artifacts arts d) (\<lambda>d.
          rbind (insert_media d rows m) (\<lambda>m.
          rbind (owned (length rows)) (\<lambda>_. Ok (True, d, m))))))"

definition reserve_media_archive ::
  "call_env \<Rightarrow> tx_fate \<Rightarrow> media_archive_record \<Rightarrow> nat \<Rightarrow> db \<times> media_row list
   \<Rightarrow> (persistence_error, bool) res \<times> db \<times> media_row list" where
  "reserve_media_archive cx fate rec budget s =
     (case require_own_reference (mar_reference rec) of
        Err e \<Rightarrow> (Err e, s)
      | Ok len \<Rightarrow> commit fate s (reserve_body cx rec len budget s))"

text \<open>Three statements, each its own transaction with its own clock.\<close>

definition delete_expired_media ::
  "nat \<times> nat \<times> nat \<Rightarrow> bool \<Rightarrow> tx_fate \<Rightarrow> tx_fate \<Rightarrow> db \<times> media_row list
   \<Rightarrow> (persistence_error, string list) res \<times> db \<times> media_row list" where
  "delete_expired_media clocks up fate fate' s =
     (case (clocks, s) of ((t1, t2, t3), d, m) \<Rightarrow>
        if \<not> up then (Err PQuery, d, m)
        else
          let digests = map md_digest (filter (\<lambda>r. \<not> unexpired t1 r) m);
              expired = md_digest ` set (filter (\<lambda>r. \<not> unexpired t2 r) m)
          in (case commit fate d (Ok ((), d\<lparr>artifacts :=
                  filter (\<lambda>a. \<not> (art_kind a = ''archived_media'' \<and> art_digest a \<in> expired)) (artifacts d)\<rparr>)) of
                (Err e, d') \<Rightarrow> (Err e, d', m)
              | (Ok _, d') \<Rightarrow>
                  (case commit fate' m (Ok ((), filter (unexpired t3) m)) of
                     (Err e, m') \<Rightarrow> (Err e, d', m')
                   | (Ok _, m') \<Rightarrow> (Ok digests, d', m'))))"

section \<open>Archival\<close>

datatype archival_outcome =
    Disabled | SkippedDuplicate | SkippedBudgetExhausted | SkippedBudgetRace
  | Stored string nat | FailedDownload string

record yt_dlp_downloader =
  dl_binary_path :: string
  dl_timeout_secs :: nat
  dl_max_height :: nat

definition from_parts :: "string \<Rightarrow> nat \<Rightarrow> nat \<Rightarrow> yt_dlp_downloader" where
  "from_parts binary_path timeout_secs max_height =
     \<lparr>dl_binary_path = binary_path, dl_timeout_secs = timeout_secs, dl_max_height = max_height\<rparr>"

datatype child_exit = WaitFailed | Exited bool

text \<open>The child process: whether it starts, what each read of its standard error returns (a length, or a
  failure), how long it runs and how it ends, and what it leaves in the file system.\<close>

record child =
  ch_spawns :: bool
  ch_stderr :: "nat option list"
  ch_runs_secs :: nat
  ch_exit :: child_exit
  ch_effect :: "path \<Rightarrow> fs \<Rightarrow> fs"
  ch_metadata_fault :: bool
  ch_dir_length :: nat
  ch_remove_fault :: bool

definition STDERR_CAP_BYTES :: nat where
  "STDERR_CAP_BYTES = 64 * 1024"

fun stderr_guard :: "nat option list \<Rightarrow> nat \<Rightarrow> bool" where
  "stderr_guard [] seen = True"
| "stderr_guard (None # rest) seen = False"
| "stderr_guard (Some n # rest) seen =
     (if n = 0 then True else if seen + n > STDERR_CAP_BYTES then False else stderr_guard rest (seen + n))"

definition yt_dlp_arguments :: "(nat \<Rightarrow> string) \<Rightarrow> yt_dlp_downloader \<Rightarrow> string \<Rightarrow> string \<Rightarrow> string list" where
  "yt_dlp_arguments show_nat dl out url =
     [''--no-playlist'', ''--no-part'', ''-f'',
      ''bv*[height<='' @ show_nat (dl_max_height dl) @ '']+ba/b[height<='' @ show_nat (dl_max_height dl) @ '']'',
      ''-o'', out, url]"

definition file_length :: "nat \<Rightarrow> node option \<Rightarrow> nat option" where
  "file_length dir_length n =
     (case n of None \<Rightarrow> None | Some Directory \<Rightarrow> Some dir_length | Some (RegFile b) \<Rightarrow> Some (length b))"

definition download ::
  "yt_dlp_downloader \<Rightarrow> child \<Rightarrow> nat \<Rightarrow> path \<Rightarrow> fs \<Rightarrow> (string, path \<times> nat) res \<times> fs" where
  "download dl ch max_item_bytes working_dir fs =
     (let output = working_dir @ [''media.mp4''] in
      if \<not> ch_spawns ch then (Err ''media_download_io'', fs)
      else
        let fs = ch_effect ch working_dir fs in
        if ch_runs_secs ch > dl_timeout_secs dl then (Err ''media_download_timeout'', fs)
        else case ch_exit ch of
          WaitFailed \<Rightarrow> (Err ''media_download_io'', fs)
        | Exited success \<Rightarrow>
            if \<not> stderr_guard (ch_stderr ch) 0 then (Err ''media_download_output'', fs)
            else if \<not> success then (Err ''media_download_exit'', fs)
            else (case (if ch_metadata_fault ch then None else file_length (ch_dir_length ch) (fs output)) of
              None \<Rightarrow> (Err ''media_download_io'', fs)
            | Some len \<Rightarrow>
                if len > max_item_bytes
                then (Err ''media_over_item_cap'',
                      if ch_remove_fault ch then fs
                      else case fs_remove_file output fs of Err _ \<Rightarrow> fs | Ok fs' \<Rightarrow> fs')
                else (Ok (output, len), fs)))"

definition retention_hours :: "nat \<Rightarrow> nat" where
  "retention_hours configured = (if configured > i32_max then i32_max else configured)"

definition CHUNK_BYTES :: nat where
  "CHUNK_BYTES = 64 * 1024"

lemma CHUNK_BYTES_pos [simp]: "0 < CHUNK_BYTES" "CHUNK_BYTES \<noteq> 0"
  by (simp_all add: CHUNK_BYTES_def)

text \<open>The \<open>k\<close>-th \<open>read\<close> of the file fails or returns at most the bytes that \<open>rd k\<close> allows, at least one
  while any are left.\<close>

definition chunk_read :: "nat \<Rightarrow> string \<Rightarrow> nat" where
  "chunk_read n content = min (length content) (min CHUNK_BYTES (max 1 n))"

function capped_file_stream ::
  "(nat \<Rightarrow> (unit, nat) res) \<Rightarrow> nat \<Rightarrow> nat \<Rightarrow> string \<Rightarrow> nat \<Rightarrow> (unit, string) res list" where
  "capped_file_stream rd k cap content got =
     (case rd k of
        Err _ \<Rightarrow> [Err ()]
      | Ok n \<Rightarrow>
          let read = chunk_read n content in
          if read = 0 then []
          else if got \<ge> cap then [Err ()]
          else if min read (cap - got) < read then [Err ()]
          else Ok (take read content) #
               (if read < CHUNK_BYTES then []
                else capped_file_stream rd (Suc k) cap (drop read content) (got + read)))"
  by pat_completeness auto
termination
  by (relation "measure (\<lambda>(_, _, _, content, _). length content)")
    (auto simp: chunk_read_def CHUNK_BYTES_def min_def max_def split: if_splits)

declare capped_file_stream.simps [simp del]

text \<open>What one attempt meets: the database at each of its three queries, the concurrent changes of the tables
  before the reservation, and the file system.\<close>

record archive_env =
  av_up :: "nat \<Rightarrow> bool"
  av_now :: "nat \<Rightarrow> nat"
  av_cx :: call_env
  av_fate :: tx_fate
  av_others :: "db \<times> media_row list \<Rightarrow> db \<times> media_row list"
  av_temp_dir :: path
  av_uuid :: string
  av_mkdir_fault :: "io_kind option"
  av_not_removed :: "path \<Rightarrow> bool"
  av_open_fault :: "io_kind option"
  av_reads :: "nat \<Rightarrow> (unit, nat) res"
  av_io :: io_faults
  av_store_env :: store_env
  av_staging :: string
  av_child :: child

definition working_dir :: "archive_env \<Rightarrow> path" where
  "working_dir v = av_temp_dir v @ [''ratatoskr-youtube-media-'' @ av_uuid v]"

text \<open>\<open>remove_dir_all\<close>, whose failure is ignored and may leave some entries.\<close>

definition remove_dir :: "archive_env \<Rightarrow> fs \<Rightarrow> fs" where
  "remove_dir v fs =
     (\<lambda>q. if take (length (working_dir v)) q = working_dir v \<and> \<not> av_not_removed v q then None else fs q)"

text \<open>Opening the file and what its stream yields; a directory opens and fails to be read.\<close>

definition open_media :: "archive_env \<Rightarrow> nat \<Rightarrow> node option \<Rightarrow> (io_kind, (unit, string) res list) res" where
  "open_media v cap n =
     (case av_open_fault v of
        Some e \<Rightarrow> Err e
      | None \<Rightarrow>
          (case n of
             None \<Rightarrow> Err NotFound
           | Some Directory \<Rightarrow> Ok [Err ()]
           | Some (RegFile content) \<Rightarrow> Ok (capped_file_stream (av_reads v) 0 cap content 0)))"

definition budget_of :: "youtube_media_config \<Rightarrow> nat" where
  "budget_of media = min (media_total_budget_bytes media) i64_max"

text \<open>The second half: the capped copy into the store and the reservation.\<close>

definition store_media ::
  "archive_env \<Rightarrow> blob_store \<Rightarrow> youtube_media_config \<Rightarrow> uuid \<Rightarrow> string \<Rightarrow> nat \<Rightarrow> path \<times> nat \<Rightarrow> (db \<times> media_row list) \<Rightarrow> fs
   \<Rightarrow> (io_kind, archival_outcome) res \<times> (db \<times> media_row list) \<times> fs" where
  "store_media v s media run video used downloaded t fs =
     (if snd downloaded > media_max_item_bytes media
      then (Ok (FailedDownload ''media_over_item_cap''), t, remove_dir v fs)
      else
        let budget = budget_of media;
            copy_cap = min (media_max_item_bytes media) (budget - used) in
        case open_media v copy_cap (fs (fst downloaded)) of
          Err e \<Rightarrow> (Err e, t, remove_dir v fs)
        | Ok stream \<Rightarrow>
            (case store (av_store_env v) (av_io v) s (av_staging v) ''video/mp4'' stream fs of
               (Err StreamFailed, fs) \<Rightarrow> (Ok (FailedDownload ''media_over_item_cap''), t, remove_dir v fs)
             | (Err e, fs) \<Rightarrow> (Err OtherIo, t, remove_dir v fs)
             | (Ok reference, fs) \<Rightarrow>
                 (case reserve_media_archive (av_cx v) (av_fate v)
                         \<lparr>mar_run = run, mar_video = video, mar_reference = reference,
                          mar_retention_hours = retention_hours (media_retention_hours media)\<rparr>
                         budget (av_others v t) of
                    (Ok True, t') \<Rightarrow> (Ok (Stored (digest_hex reference) (length_bytes reference)), t', remove_dir v fs)
                  | (Ok False, t') \<Rightarrow> (Ok SkippedBudgetRace, t', remove_dir v fs)
                  | (Err _, t') \<Rightarrow> (Err OtherIo, t', remove_dir v fs))))"

definition archive_video ::
  "archive_env \<Rightarrow> blob_store \<Rightarrow> youtube_media_config \<Rightarrow> yt_dlp_downloader \<Rightarrow> uuid \<Rightarrow> string \<Rightarrow> (db \<times> media_row list) \<Rightarrow> fs
   \<Rightarrow> (io_kind, archival_outcome) res \<times> (db \<times> media_row list) \<times> fs" where
  "archive_video v s media dl run video t fs =
     (if \<not> media_enabled media then (Ok Disabled, t, fs)
      else case has_unexpired_media_for_video (av_up v 0) (av_now v 0) video (snd t) of
        Err _ \<Rightarrow> (Err OtherIo, t, fs)
      | Ok True \<Rightarrow> (Ok SkippedDuplicate, t, fs)
      | Ok False \<Rightarrow>
          (case unexpired_media_bytes (av_up v 1) (av_now v 1) (snd t) of
             Err _ \<Rightarrow> (Err OtherIo, t, fs)
           | Ok used \<Rightarrow>
               if used \<ge> budget_of media then (Ok SkippedBudgetExhausted, t, fs)
               else
                 (case (case av_mkdir_fault v of Some e \<Rightarrow> Err e | None \<Rightarrow> fs_create_dir_all (working_dir v) fs) of
                    Err e \<Rightarrow> (Err e, t, fs)
                  | Ok fs \<Rightarrow>
                      (case download dl (av_child v) (media_max_item_bytes media) (working_dir v) fs of
                         (Err class, fs) \<Rightarrow> (Ok (FailedDownload class), t, remove_dir v fs)
                       | (Ok downloaded, fs) \<Rightarrow> store_media v s media run video used downloaded t fs))))"

section \<open>The media budget\<close>

lemma commit_cases:
  assumes "commit fate s r = (x, s')"
  obtains "s' = s" "\<And>y. x \<noteq> Ok y" | y where "r = Ok (y, s')" "x = Ok y \<or> x = Err PQuery"
  using assms unfolding commit_def by (cases fate; cases r) auto

lemma media_bytes_append: "media_bytes t (m @ m') = media_bytes t m + media_bytes t m'"
  by (simp add: media_bytes_def)

lemma media_bytes_mono: "t \<le> t' \<Longrightarrow> media_bytes t' m \<le> media_bytes t m"
  by (induction m) (auto simp: media_bytes_def unexpired_def)

lemma media_bytes_filter: "media_bytes t (filter P m) \<le> media_bytes t m"
  by (induction m) (auto simp: media_bytes_def)

lemma insert_media_Ok: "insert_media d rows m = Ok m' \<Longrightarrow> m' = m @ rows \<and> list_all media_row_ok rows
    \<and> (distinct (map md_id m) \<longrightarrow> distinct (map md_id m'))"
  by (induction rows arbitrary: m) (fastforce split: if_splits)+

lemma insert_artifacts_Ok: "insert_artifacts rows d = Ok d' \<Longrightarrow> d' = d\<lparr>artifacts := artifacts d @ rows\<rparr>"
  by (induction rows arbitrary: d) (fastforce split: if_splits)+

text \<open>A granted reservation: one row for the one succeeded run, inside the budget at the transaction's clock.
  Run identifiers are a key, so at most one run matches.\<close>

lemma reserve_body_granted:
  assumes "reserve_body cx rec len budget (d, m) = Ok (True, d', m')" "distinct (map run_id (runs d))"
    and "budget < i64_max"
  obtains row r where "m' = m @ [row]" "md_length row = len" "md_digest row = digest_hex (mar_reference rec)"
    "md_video row = mar_video rec" "md_run row = mar_run rec" "media_row_ok row" "md_created row = now_us cx"
    "md_expires row = now_us cx + hours_us (mar_retention_hours rec)"
    "media_bytes (now_us cx) m + len \<le> budget" "r \<in> set (runs d)" "run_id r = mar_run rec" "run_status r = Succeeded"
    "d' = d\<lparr>artifacts := artifacts d @ [artifact_of cx 0 (mar_run rec) ''archived_media'' (mar_reference rec) len]\<rparr>"
proof -
  let ?match = "filter (\<lambda>r. run_id r = mar_run rec \<and> run_status r = Succeeded) (runs d)"
  let ?row = "\<lparr>md_id = new_id cx 1, md_run = mar_run rec, md_video = mar_video rec,
     md_digest = digest_hex (mar_reference rec), md_media = media_type (mar_reference rec),
     md_length = len, md_created = now_us cx, md_expires = now_us cx + hours_us (mar_retention_hours rec)\<rparr>"
  let ?art = "artifact_of cx 0 (mar_run rec) ''archived_media'' (mar_reference rec) len"
  have fits: "media_bytes (now_us cx) m \<le> i64_max" "sat_add i64_max (media_bytes (now_us cx) m) len \<le> budget"
    and arts: "insert_artifacts (map (\<lambda>_. ?art) ?match) d = Ok d'"
    and rows: "insert_media d' (map (\<lambda>_. ?row) ?match) m = Ok m'" and some: "?match \<noteq> []"
    using assms(1) by (auto simp: reserve_body_def owned_def Let_def split: if_splits)
  obtain r rest where r: "?match = r # rest" using some by (cases ?match) auto
  have "rest = []"
  proof (rule ccontr)
    assume "rest \<noteq> []"
    then obtain q rest' where "?match = r # q # rest'" using r by (cases rest) auto
    moreover have "distinct (map run_id ?match)" using assms(2) by (simp add: distinct_map_filter)
    moreover have "\<forall>x\<in>set ?match. run_id x = mar_run rec" by simp
    ultimately show False by (metis distinct_length_2_or_more list.simps(9) list.set_intros(1,2))
  qed
  then have m': "m' = m @ [?row]" and d': "d' = d\<lparr>artifacts := artifacts d @ [?art]\<rparr>" and ok: "media_row_ok ?row"
    using insert_media_Ok [OF rows] insert_artifacts_Ok [OF arts] r by simp_all
  have rin: "r \<in> set ?match" unfolding r by simp
  show thesis
    by (rule that [of ?row r]) (use m' d' ok rin fits assms(3) in \<open>auto simp: sat_add_def min_def split: if_splits\<close>)
qed

text \<open>The life of the table: time passes, the other tables change, reservations are made with clocks that are
  not in the future (a transaction's clock is its start, which may lie before that of an earlier reservation),
  and expired rows are purged.\<close>

inductive media_life :: "nat \<Rightarrow> nat \<Rightarrow> db \<times> media_row list \<Rightarrow> bool" for B :: nat where
  life_start: "distinct (map run_id (runs d)) \<Longrightarrow> media_life B t (d, [])"
| life_tick: "media_life B t s \<Longrightarrow> t \<le> t' \<Longrightarrow> media_life B t' s"
| life_other: "media_life B t (d, m) \<Longrightarrow> distinct (map run_id (runs d')) \<Longrightarrow> media_life B t (d', m)"
| life_reserve: "media_life B t s \<Longrightarrow> now_us cx \<le> t \<Longrightarrow> budget \<le> B
    \<Longrightarrow> reserve_media_archive cx fate rec budget s = (r, s') \<Longrightarrow> media_life B t s'"
| life_purge: "media_life B t s \<Longrightarrow> delete_expired_media clocks up fate fate' s = (r, s') \<Longrightarrow> media_life B t s'"

lemma delete_expired_media_tables:
  assumes "delete_expired_media clocks up fate fate' (d, m) = (r, d', m')"
  shows "runs d' = runs d" "\<exists>P. m' = filter P m"
  using assms
  by (auto simp: delete_expired_media_def commit_def Let_def
      intro: exI [where x = "\<lambda>_. True"] split: prod.splits if_splits tx_fate.splits)

lemma reserve_tables:
  assumes "reserve_media_archive cx fate rec budget (d, m) = (r, d', m')" "distinct (map run_id (runs d))" "budget < i64_max"
  obtains "d' = d" "m' = m" "r \<noteq> Ok True"
  | row where "m' = m @ [row]" "md_length row = length_bytes (mar_reference rec)"
    "media_bytes (now_us cx) m + md_length row \<le> budget" "runs d' = runs d" "r = Ok True \<or> r = Err PQuery"
proof (cases "require_own_reference (mar_reference rec)")
  case (Inl e)
  with assms(1) show thesis by (intro that(1)) (auto simp: reserve_media_archive_def)
next
  case (Inr len)
  then have len: "len = length_bytes (mar_reference rec)"
    by (simp add: require_own_reference_def split: if_splits)
  from assms(1) Inr have "commit fate (d, m) (reserve_body cx rec len budget (d, m)) = (r, d', m')"
    by (simp add: reserve_media_archive_def)
  then show thesis
  proof (cases rule: commit_cases)
    case 1
    then show thesis by (intro that(1)) auto
  next
    case (2 y)
    show thesis
    proof (cases y)
      case True
      with 2(1) have "reserve_body cx rec len budget (d, m) = Ok (True, d', m')" by simp
      then show thesis using assms(2,3)
        by (rule reserve_body_granted) (use 2(2) True len in \<open>auto intro!: that(2)\<close>)
    next
      case False
      with 2(1) have "d' = d" "m' = m" by (auto simp: reserve_body_def Let_def split: if_splits)
      with 2(2) False show thesis by (intro that(1)) auto
    qed
  qed
qed

lemma media_life_budget:
  assumes "media_life B t s" "B < i64_max"
  shows "media_bytes t (snd s) \<le> B \<and> distinct (map run_id (runs (fst s)))"
  using assms(1)
proof induction
  case (life_tick t s t')
  then show ?case using media_bytes_mono [of t t' "snd s"] by linarith
next
  case (life_reserve t s cx budget fate rec r s')
  obtain d m d' m' where s: "s = (d, m)" "s' = (d', m')" by fastforce
  have "distinct (map run_id (runs d))" "budget < i64_max" using life_reserve.IH life_reserve(3) s assms(2) by auto
  with life_reserve(4) [unfolded s] show ?case
  proof (cases rule: reserve_tables)
    case (2 row)
    then have "media_bytes t m' \<le> B"
      using life_reserve(2,3) media_bytes_mono [OF life_reserve(2), of m]
      by (simp add: media_bytes_append) (simp add: media_bytes_def)
    with 2 life_reserve.IH s show ?thesis by simp
  qed (use life_reserve.IH s in simp)
next
  case (life_purge t s clocks up fate fate' r s')
  obtain d m d' m' where s: "s = (d, m)" "s' = (d', m')" by fastforce
  from delete_expired_media_tables [OF life_purge(2) [unfolded s]] life_purge.IH s media_bytes_filter [of t _ m]
  show ?case by (auto intro: order_trans)
qed (simp_all add: media_bytes_def)

section \<open>The capped copy\<close>

lemma capped_file_stream_bound:
  assumes "capped_file_stream rd k cap content got = map Inr chunks" "got \<le> cap"
  shows "got + length (concat chunks) \<le> cap"
  using assms
proof (induction rd k cap content got arbitrary: chunks rule: capped_file_stream.induct)
  case (1 rd k cap content got)
  show ?case
  proof (cases chunks)
    case (Cons c cs)
    from "1.prems" Cons obtain n where n: "rd k = Ok n" "chunk_read n content \<noteq> 0" "got < cap"
      "chunk_read n content \<le> cap - got" "c = take (chunk_read n content) content"
      and rest: "map Inr cs = (if chunk_read n content < CHUNK_BYTES then []
        else capped_file_stream rd (Suc k) cap (drop (chunk_read n content) content) (got + chunk_read n content))"
      by (subst (asm) capped_file_stream.simps) (auto simp: Let_def split: sum.splits if_splits)
    have c: "length c = chunk_read n content" unfolding n(5) by (simp add: chunk_read_def)
    show ?thesis
    proof (cases "chunk_read n content < CHUNK_BYTES")
      case False
      with rest have "capped_file_stream rd (Suc k) cap (drop (chunk_read n content) content) (got + chunk_read n content) = map Inr cs"
        by simp
      from "1.IH" [OF n(1) refl n(2) _ _ False this] n(3,4)
      have "got + chunk_read n content + length (concat cs) \<le> cap" by simp
      with c Cons show ?thesis by simp
    qed (use rest n c Cons in simp)
  qed (use "1.prems" in simp)
qed

lemma capped_file_stream_full:
  assumes "\<exists>n\<ge>CHUNK_BYTES. rd k = Ok n" "got \<le> cap"
  shows "capped_file_stream rd k cap content got =
    (if content = [] then []
     else if cap - got < min (length content) CHUNK_BYTES then [Inl ()]
     else if length content < CHUNK_BYTES then [Inr content]
     else Inr (take CHUNK_BYTES content) # capped_file_stream rd (Suc k) cap (drop CHUNK_BYTES content) (got + CHUNK_BYTES))"
proof -
  obtain n where n: "rd k = Ok n" "CHUNK_BYTES \<le> n" using assms(1) by blast
  have c: "chunk_read n content = min (length content) CHUNK_BYTES"
    using n(2) CHUNK_BYTES_pos by (simp add: chunk_read_def min_def max_def)
  show ?thesis using assms(2)
    by (subst capped_file_stream.simps) (auto simp: n(1) c Let_def min_def not_less)
qed

text \<open>The copy of a downloaded file into the store is capped and exact. As long as the file hands out full
  chunks, the stream that the store receives is the whole content when it fits the cap, and otherwise ends in
  an error, which makes the store discard its staging file; never a prefix that looks complete.\<close>

theorem capped_copy_is_exact:
  assumes "\<And>k. \<exists>n\<ge>CHUNK_BYTES. rd k = Ok n" "got \<le> cap"
  shows "if length content \<le> cap - got
    then \<exists>chunks. capped_file_stream rd k cap content got = map Inr chunks \<and> concat chunks = content
    else \<exists>chunks. capped_file_stream rd k cap content got = map Inr chunks @ [Inl ()]"
  using assms(2)
proof (induction "length content" arbitrary: k content got rule: less_induct)
  case less
  let ?rest = "drop CHUNK_BYTES content" and ?got = "got + CHUNK_BYTES"
  note unfold = capped_file_stream_full [of rd k got cap content, OF assms(1) less.prems]
  show ?case
  proof (cases "length content < CHUNK_BYTES \<or> cap - got < CHUNK_BYTES")
    case True
    then show ?thesis
      by (auto simp: unfold min_def intro: exI [where x = "[]"] exI [where x = "[content]"])
  next
    case False
    then have "length ?rest < length content" "?got \<le> cap"
      using CHUNK_BYTES_pos(1) by (simp_all add: not_less, linarith+)
    note IH = less.hyps [OF this]
    have fit: "length ?rest \<le> cap - ?got \<longleftrightarrow> length content \<le> cap - got" using False by (simp, linarith)
    have *: "capped_file_stream rd k cap content got
        = Inr (take CHUNK_BYTES content) # capped_file_stream rd (Suc k) cap ?rest ?got"
      using False CHUNK_BYTES_pos unfolding unfold by (auto simp: min_def)
    show ?thesis
    proof (cases "length content \<le> cap - got")
      case True
      with IH [of "Suc k", unfolded fit] obtain chunks where
        "capped_file_stream rd (Suc k) cap ?rest ?got = map Inr chunks" "concat chunks = ?rest" by auto
      with True * show ?thesis by (auto intro!: exI [where x = "take CHUNK_BYTES content # chunks"])
    next
      case big: False
      with IH [of "Suc k", unfolded fit] obtain chunks where
        "capped_file_stream rd (Suc k) cap ?rest ?got = map Inr chunks @ [Inl ()]" by auto
      with big * show ?thesis by (auto intro!: exI [where x = "take CHUNK_BYTES content # chunks"])
    qed
  qed
qed

theorem capped_copy_is_exact_witness:
  "\<exists>chunks. capped_file_stream (\<lambda>_. Ok CHUNK_BYTES) 0 3 ''abc'' 0 = map Inr chunks \<and> concat chunks = ''abc''"
  using capped_copy_is_exact [of "\<lambda>_. Ok CHUNK_BYTES" 0 3 "''abc''" 0] by simp

text \<open>A read that returns fewer bytes than a chunk before the end of the file, which \<open>AsyncRead\<close> allows, is
  taken for the end: the rest is dropped and the stream still looks complete.\<close>

lemma short_read_truncates_the_copy:
  "capped_file_stream (\<lambda>_. Ok 1) 0 10 ''abc'' 0 = [Inr ''a'']"
  by (subst capped_file_stream.simps) (simp add: chunk_read_def CHUNK_BYTES_def)

section \<open>Properties\<close>

text \<open>C35. The archive of media never outgrows its budget. Whatever the interleaving of reservations, purges,
  changes of the other tables and the passing of time, also with commits whose acknowledgement is lost, the
  unexpired rows hold at most the largest budget that a reservation was made with.\<close>

theorem media_budget_is_respected:
  assumes "media_life B t (d, m)" "B < i64_max"
  shows "media_bytes t m \<le> B"
  using media_life_budget [OF assms] by simp

definition succeeded_run :: run_row where
  "succeeded_run = \<lparr>run_id = [1], run_command = [2], run_operation = [3], run_owner = [4], run_correlation = ''c'',
     run_source = [5], run_status = Succeeded, run_policy = ''p'', run_normalizer = ''n'', run_parser = ''y'',
     run_queued_at = 1, run_started_at = Some 2, run_completed_at = Some 3, run_error = None,
     run_claimed_until = None, run_claimed_by = None, run_blob_owner = None, run_blob_media = None,
     run_blob_length = None\<rparr>"

definition archived_db :: db where
  "archived_db = empty_db\<lparr>runs := [succeeded_run]\<rparr>"

definition media_cx :: call_env where
  "media_cx = \<lparr>now_us = 50, new_id = (\<lambda>k. [of_nat k])\<rparr>"

definition sample_media_record :: media_archive_record where
  "sample_media_record = \<lparr>mar_run = [1], mar_video = ''abcdefghijk'', mar_reference = sample_ref, mar_retention_hours = 24\<rparr>"

lemma sample_reservation:
  "fst (reserve_media_archive media_cx Commits sample_media_record 5 (archived_db, [])) = Ok True"
  "map md_length (snd (snd (reserve_media_archive media_cx Commits sample_media_record 5 (archived_db, [])))) = [3]"
  "fst (reserve_media_archive media_cx Commits sample_media_record 5
     (snd (reserve_media_archive media_cx Commits sample_media_record 5 (archived_db, [])))) = Ok False"
  by code_simp+

theorem media_budget_is_respected_witness:
  "media_bytes 60 (snd (snd (reserve_media_archive media_cx Commits sample_media_record 5 (archived_db, [])))) \<le> 5"
proof -
  obtain r d m where r: "reserve_media_archive media_cx Commits sample_media_record 5 (archived_db, []) = (r, d, m)"
    by (metis prod.exhaust)
  have "media_life 5 60 (archived_db, [])"
    by (rule life_start) (simp add: archived_db_def)
  then have "media_life 5 60 (d, m)"
    by (rule life_reserve [OF _ _ order_refl r]) (simp add: media_cx_def)
  from media_budget_is_respected [OF this] r show ?thesis by (simp add: i64_max_def)
qed

text \<open>The purge goes by digest, and equal bytes share one digest: purging an expired archive also deletes the
  artifact row of an archive of the same bytes that has not expired, and hands out its digest for removal.\<close>

definition shared_media :: "media_row list" where
  "shared_media =
     [\<lparr>md_id = [1], md_run = [1], md_video = ''aaaaaaaaaaa'', md_digest = ''d'', md_media = ''video/mp4'', md_length = 3,
       md_created = 1, md_expires = 10\<rparr>,
      \<lparr>md_id = [2], md_run = [2], md_video = ''bbbbbbbbbbb'', md_digest = ''d'', md_media = ''video/mp4'', md_length = 3,
       md_created = 5, md_expires = 100\<rparr>]"

lemma purge_drops_shared_artifacts:
  assumes "artifacts d = [\<lparr>art_id = [9], art_run = [2], art_kind = ''archived_media'', art_owner = OWNER, art_digest = ''d'',
     art_media = ''video/mp4'', art_length = 3, art_created = 5\<rparr>]"
  shows "\<exists>d' m'. delete_expired_media (20, 20, 20) True Commits Commits (d, shared_media) = (Ok [''d''], d', m')
    \<and> artifacts d' = [] \<and> map md_video m' = [''bbbbbbbbbbb'']"
  using assms by (simp add: delete_expired_media_def commit_def shared_media_def unexpired_def Let_def) force

lemma store_media_Stored:
  assumes "store_media v s media run video used downloaded t fs = (Ok (Stored digest len), t', fs')"
  obtains stream reference fs2 where
    "open_media v (min (media_max_item_bytes media) (budget_of media - used)) (fs (fst downloaded)) = Ok stream"
    "store (av_store_env v) (av_io v) s (av_staging v) ''video/mp4'' stream fs = (Ok reference, fs2)"
    "digest = digest_hex reference" "len = length_bytes reference"
    "reserve_media_archive (av_cx v) (av_fate v)
       \<lparr>mar_run = run, mar_video = video, mar_reference = reference,
        mar_retention_hours = retention_hours (media_retention_hours media)\<rparr> (budget_of media) (av_others v t) = (Ok True, t')"
  using assms unfolding store_media_def Let_def
  by (auto split: if_splits sum.splits prod.splits blob_store_error.splits bool.splits)

lemma archive_video_Stored:
  assumes "archive_video v s media dl run video t fs = (Ok (Stored digest len), t', fs')"
  obtains used downloaded fs1 where "media_enabled media"
    "store_media v s media run video used downloaded t fs1 = (Ok (Stored digest len), t', fs')"
  using assms unfolding archive_video_def
  by (auto split: if_splits sum.splits prod.splits bool.splits)

lemma open_media_bound:
  assumes "open_media v cap n = Ok (map Inr chunks)"
  shows "length (concat chunks) \<le> cap"
  using assms capped_file_stream_bound [of "av_reads v" 0 cap _ 0 chunks]
  by (auto simp: open_media_def split: option.splits node.splits)

text \<open>What is archived is bounded and accounted for. When an attempt reports a stored video, archival is
  enabled, the stored bytes are within the per-item cap, the run it belongs to succeeded and is left as it
  was, the accounting row names the video, the run, the digest and the length and expires after the
  retention window, and the unexpired archive is within the configured budget, although other reservations
  may have been made since the budget was first read.\<close>

theorem archived_media_is_bounded:
  assumes "archive_video v s media dl run video t fs = (Ok (Stored digest len), (d', m'), fs')"
    and "distinct (map run_id (runs (fst (av_others v t))))" "media_total_budget_bytes media < i64_max"
  shows "media_enabled media \<and> 0 < len \<and> len \<le> media_max_item_bytes media
    \<and> media_bytes (now_us (av_cx v)) m' \<le> media_total_budget_bytes media
    \<and> runs d' = runs (fst (av_others v t)) \<and> run \<in> run_id ` {r \<in> set (runs d'). run_status r = Succeeded}
    \<and> (\<exists>row. row \<in> set m' \<and> md_video row = video \<and> md_run row = run \<and> md_digest row = digest \<and> md_length row = len
         \<and> md_expires row = now_us (av_cx v) + hours_us (min (media_retention_hours media) i32_max))"
  using assms(1)
proof (cases rule: archive_video_Stored)
  case (1 used downloaded fs1)
  from 1(2) show ?thesis
  proof (cases rule: store_media_Stored)
    case st: (1 stream reference fs2)
    obtain d m where t: "av_others v t = (d, m)" by fastforce
    let ?rec = "\<lparr>mar_run = run, mar_video = video, mar_reference = reference,
        mar_retention_hours = retention_hours (media_retention_hours media)\<rparr>"
    have B: "budget_of media = media_total_budget_bytes media" "budget_of media < i64_max"
      using assms(3) by (simp_all add: budget_of_def min_def)
    have len: "len \<le> media_max_item_bytes media"
      using st(2) by (rule store_Ok) (use open_media_bound st(1,4) in fastforce)
    have body: "reserve_body (av_cx v) ?rec len (budget_of media) (d, m) = Ok (True, d', m')"
      using st(5) by (auto simp: reserve_media_archive_def t require_own_reference_def commit_def st(4)
          split: if_splits sum.splits tx_fate.splits)
    have key: "distinct (map run_id (runs d))" using assms(2) t by simp
    show ?thesis
      by (rule reserve_body_granted [OF body key B(2)])
        (use 1(1) len B t st(3) in \<open>auto simp: media_bytes_append media_row_ok_def media_bytes_def retention_hours_def
          min_def split: if_splits\<close>)
  qed
qed

definition sample_child :: child where
  "sample_child = \<lparr>ch_spawns = True, ch_stderr = [Some 12, Some 0], ch_runs_secs = 5, ch_exit = Exited True,
     ch_effect = (\<lambda>dir fs. fs(dir @ [''media.mp4''] \<mapsto> RegFile ''abc'')), ch_metadata_fault = False,
     ch_dir_length = 0, ch_remove_fault = False\<rparr>"

definition sample_archive :: archive_env where
  "sample_archive = \<lparr>av_up = (\<lambda>_. True), av_now = (\<lambda>_. 40), av_cx = media_cx, av_fate = Commits, av_others = (\<lambda>t. t),
     av_temp_dir = [''tmp''], av_uuid = ''u'', av_mkdir_fault = None, av_not_removed = (\<lambda>_. False), av_open_fault = None,
     av_reads = (\<lambda>_. Ok CHUNK_BYTES), av_io = calm_io, av_store_env = sample_env, av_staging = ''s'', av_child = sample_child\<rparr>"

definition sample_media_config :: youtube_media_config where
  "sample_media_config = \<lparr>media_enabled = True, media_max_item_bytes = 4, media_total_budget_bytes = 9,
     media_retention_hours = 24, media_timeout_secs = 60, media_max_height = 720, media_binary_path = ''/yt''\<rparr>"

lemma sample_archived:
  "case fst (archive_video sample_archive sample_store sample_media_config (from_parts ''/yt'' 60 720) [1] ''abcdefghijk''
     (archived_db, []) Map.empty) of Ok (Stored digest len) \<Rightarrow> len = 3 | _ \<Rightarrow> False"
  by code_simp

theorem archived_media_is_bounded_witness:
  "\<exists>digest len t' fs'. archive_video sample_archive sample_store sample_media_config (from_parts ''/yt'' 60 720) [1]
     ''abcdefghijk'' (archived_db, []) Map.empty = (Ok (Stored digest len), t', fs')
     \<and> len \<le> 4 \<and> media_bytes 50 (snd t') \<le> 9"
proof -
  obtain x d' m' fs' where x: "archive_video sample_archive sample_store sample_media_config (from_parts ''/yt'' 60 720) [1]
     ''abcdefghijk'' (archived_db, []) Map.empty = (x, (d', m'), fs')"
    by (metis prod.exhaust)
  with sample_archived obtain digest len where "x = Ok (Stored digest len)"
    by (auto split: sum.splits archival_outcome.splits)
  with x archived_media_is_bounded [of sample_archive sample_store sample_media_config "from_parts ''/yt'' 60 720" "[1]"
      "''abcdefghijk''" "(archived_db, [])" Map.empty digest len d' m' fs']
  show ?thesis
    by (simp add: sample_archive_def archived_db_def sample_media_config_def i64_max_def media_cx_def)
qed

end
