(* ===== verification/Records.thy ===== *)
theory Records
  imports Media
begin

text \<open>
  The rest of \<open>crates/persistence\<close>: \<open>Database::apply_schema\<close> of \<open>lib.rs\<close>, with which every starting process
  brings the schema up under an advisory lock, and the two facts of \<open>records.rs\<close> that \<open>Media\<close> leaves out,
  \<open>record_fetch\<close> (here \<open>persist_fetch\<close>) and \<open>record_candidate\<close>.

  Several processes start against one database. Each statement of \<open>apply_schema\<close> is one step, the steps of the
  processes interleave, and a statement may fail, which rolls the transaction back and releases the lock.
\<close>

section \<open>Schema\<close>

text \<open>The state of one call. \<open>SchemaConflict\<close> and \<open>SchemaFault\<close> are the same error of the code, the schema that
  exists already and every other failure of the database.\<close>

datatype schema_pc =
    Begin
  | TakeLock
  | LookupNamespace
  | ExecuteSchema
  | CommitSchema bool
  | SchemaApplied
  | SchemaConflict
  | SchemaFault

record schema_db =
  namespace :: bool
  lock_holder :: "nat option"
  executions :: nat

datatype statement_fate = Answers | Fails | AnswerLost

text \<open>The lock is bound to the transaction: it is released when the transaction ends.\<close>

definition end_transaction :: "schema_db \<Rightarrow> schema_db" where
  "end_transaction d = d\<lparr>lock_holder := None\<rparr>"

definition commit_schema :: "bool \<Rightarrow> schema_db \<Rightarrow> schema_db" where
  "commit_schema created d =
     end_transaction (if created then d\<lparr>namespace := True, executions := executions d + 1\<rparr> else d)"

fun apply_schema :: "nat \<Rightarrow> statement_fate \<Rightarrow> schema_pc \<Rightarrow> schema_db \<Rightarrow> schema_pc \<times> schema_db" where
  "apply_schema p Answers Begin d = (TakeLock, d)"
| "apply_schema p Answers TakeLock d =
     (if lock_holder d = None then (LookupNamespace, d\<lparr>lock_holder := Some p\<rparr>) else (TakeLock, d))"
| "apply_schema p Answers LookupNamespace d = (if namespace d then CommitSchema False else ExecuteSchema, d)"
| "apply_schema p Answers ExecuteSchema d =
     (if namespace d then (SchemaConflict, end_transaction d) else (CommitSchema True, d))"
| "apply_schema p Answers (CommitSchema created) d = (SchemaApplied, commit_schema created d)"
| "apply_schema p AnswerLost (CommitSchema created) d = (SchemaFault, commit_schema created d)"
| "apply_schema p fate SchemaApplied d = (SchemaApplied, d)"
| "apply_schema p fate SchemaConflict d = (SchemaConflict, d)"
| "apply_schema p fate SchemaFault d = (SchemaFault, d)"
| "apply_schema p fate Begin d = (SchemaFault, d)"
| "apply_schema p fate TakeLock d = (SchemaFault, d)"
| "apply_schema p fate pc d = (SchemaFault, end_transaction d)"

text \<open>The processes that start against one database, each with where its call stands.\<close>

type_synonym schema_state = "schema_pc list \<times> schema_db"

definition run_process :: "nat \<Rightarrow> statement_fate \<Rightarrow> schema_state \<Rightarrow> schema_state" where
  "run_process p fate s =
     (case s of (pcs, d) \<Rightarrow> case apply_schema p fate (pcs ! p) d of (pc, d') \<Rightarrow> (pcs[p := pc], d'))"

definition fresh_start :: "nat \<Rightarrow> bool \<Rightarrow> schema_state" where
  "fresh_start n present = (replicate n Begin, \<lparr>namespace = present, lock_holder = None, executions = 0\<rparr>)"

inductive schema_reachable :: "nat \<Rightarrow> bool \<Rightarrow> schema_state \<Rightarrow> bool" for n present where
  start: "schema_reachable n present (fresh_start n present)"
| step: "schema_reachable n present s \<Longrightarrow> p < n \<Longrightarrow> schema_reachable n present (run_process p fate s)"

text \<open>Only the holder of the lock is inside the transaction's body; the schema is missing while it is being
  executed; it was executed exactly when it was missing at first and is there now.\<close>

definition inside :: "schema_pc \<Rightarrow> bool" where
  "inside pc = (pc = LookupNamespace \<or> pc = ExecuteSchema \<or> (\<exists>b. pc = CommitSchema b))"

definition pc_sound :: "bool \<Rightarrow> schema_pc \<Rightarrow> bool" where
  "pc_sound there pc =
     (case pc of
        ExecuteSchema \<Rightarrow> \<not> there
      | CommitSchema created \<Rightarrow> there \<noteq> created
      | SchemaApplied \<Rightarrow> there
      | SchemaConflict \<Rightarrow> False
      | _ \<Rightarrow> True)"

definition schema_inv :: "nat \<Rightarrow> bool \<Rightarrow> schema_state \<Rightarrow> bool" where
  "schema_inv n present s =
     (case s of (pcs, d) \<Rightarrow>
        length pcs = n
        \<and> (\<forall>i<n. inside (pcs ! i) \<longleftrightarrow> lock_holder d = Some i)
        \<and> (\<forall>i<n. pc_sound (namespace d) (pcs ! i))
        \<and> (present \<longrightarrow> namespace d)
        \<and> executions d = (if namespace d \<and> \<not> present then 1 else 0))"

lemma inside_simps [simp]:
  "\<not> inside Begin" "\<not> inside TakeLock" "inside LookupNamespace" "inside ExecuteSchema" "inside (CommitSchema b)"
  "\<not> inside SchemaApplied" "\<not> inside SchemaConflict" "\<not> inside SchemaFault"
  by (simp_all add: inside_def)

lemma pc_sound_simps [simp]:
  "pc_sound t Begin" "pc_sound t TakeLock" "pc_sound t LookupNamespace" "pc_sound t ExecuteSchema = (\<not> t)"
  "pc_sound t (CommitSchema c) = (t \<noteq> c)" "pc_sound t SchemaApplied = t" "\<not> pc_sound t SchemaConflict"
  "pc_sound t SchemaFault"
  by (simp_all add: pc_sound_def)

text \<open>What one statement of process \<open>p\<close> does, when it holds the lock exactly inside the body.\<close>

lemma apply_schema_step:
  assumes "apply_schema p fate pc d = (pc', d')" "inside pc \<longleftrightarrow> lock_holder d = Some p" "pc_sound (namespace d) pc"
  shows "inside pc' \<longleftrightarrow> lock_holder d' = Some p" "pc_sound (namespace d') pc'"
    and "d' = d \<or> (pc = TakeLock \<and> lock_holder d = None \<and> d' = d\<lparr>lock_holder := Some p\<rparr>)
         \<or> (lock_holder d = Some p \<and> lock_holder d' = None \<and>
             (namespace d' = namespace d \<and> executions d' = executions d
              \<or> \<not> namespace d \<and> namespace d' \<and> executions d' = executions d + 1))"
  using assms
  by (induction p fate pc d rule: apply_schema.induct)
    (auto simp: end_transaction_def commit_schema_def split: if_splits)

lemma schema_inv_step:
  assumes "schema_inv n present s" "p < n"
  shows "schema_inv n present (run_process p fate s)"
proof -
  obtain pcs d where s: "s = (pcs, d)" by fastforce
  obtain pc' d' where r: "apply_schema p fate (pcs ! p) d = (pc', d')" by fastforce
  have len: "length pcs = n" and lock: "\<And>i. i < n \<Longrightarrow> inside (pcs ! i) \<longleftrightarrow> lock_holder d = Some i"
    and sound: "\<And>i. i < n \<Longrightarrow> pc_sound (namespace d) (pcs ! i)"
    and count: "present \<longrightarrow> namespace d" "executions d = (if namespace d \<and> \<not> present then 1 else 0)"
    using assms(1) by (auto simp: schema_inv_def s)
  note own = apply_schema_step [OF r lock [OF assms(2)] sound [OF assms(2)]]
  have other: "(inside (pcs ! i) \<longleftrightarrow> lock_holder d' = Some i) \<and> pc_sound (namespace d') (pcs ! i)"
    if "i < n" "i \<noteq> p" for i
    using own(3) lock [OF that(1)] sound [OF that(1)] that(2)
    by (cases "pcs ! i") auto
  show ?thesis
    using own other len count assms(2)
    by (auto simp: schema_inv_def run_process_def s r nth_list_update)
qed

lemma schema_reachable_inv: "schema_reachable n present s \<Longrightarrow> schema_inv n present s"
proof (induction rule: schema_reachable.induct)
  case start
  then show ?case by (simp add: schema_inv_def fresh_start_def)
qed (simp add: schema_inv_step)


text \<open>A process that nobody blocks and whose statements are answered is done after at most five statements.\<close>

definition undisturbed :: "nat \<Rightarrow> schema_pc \<times> schema_db \<Rightarrow> schema_pc \<times> schema_db" where
  "undisturbed p x = (case x of (pc, d) \<Rightarrow> apply_schema p Answers pc d)"

lemma run_process_undisturbed:
  assumes "p < length pcs"
  shows "((run_process p Answers) ^^ k) (pcs, d)
    = (case (undisturbed p ^^ k) (pcs ! p, d) of (pc, d') \<Rightarrow> (pcs[p := pc], d'))"
proof (induction k)
  case (Suc k)
  obtain pc d' where r: "(undisturbed p ^^ k) (pcs ! p, d) = (pc, d')" by fastforce
  show ?case using Suc assms by (simp add: r undisturbed_def run_process_def split: prod.splits)
qed simp

lemma undisturbed_applies:
  assumes "pc_sound (namespace d) pc" "pc \<noteq> SchemaFault" "inside pc \<or> lock_holder d = None"
  shows "fst ((undisturbed p ^^ 5) (pc, d)) = SchemaApplied"
  using assms
  by (cases pc) (auto simp: numeral_eq_Suc undisturbed_def commit_schema_def end_transaction_def)

text \<open>C40. Processes that start together apply the schema once. Whatever the interleaving of their statements and
  whichever of them fail, the schema is executed at most once and never over an existing one, no process
  fails because another created the schema first, a process that got its answer finds the schema there, and a
  process that nobody blocks is done after five answered statements.\<close>

theorem concurrent_starts_apply_the_schema_once:
  assumes "schema_reachable n present s"
  shows "executions (snd s) = (if namespace (snd s) \<and> \<not> present then 1 else 0)
    \<and> SchemaConflict \<notin> set (fst s)
    \<and> (SchemaApplied \<in> set (fst s) \<longrightarrow> namespace (snd s))
    \<and> (\<forall>p<n. fst s ! p \<noteq> SchemaFault \<longrightarrow> lock_holder (snd s) \<in> {None, Some p} \<longrightarrow>
         fst (((run_process p Answers) ^^ 5) s) ! p = SchemaApplied)"
proof -
  obtain pcs d where s: "s = (pcs, d)" by fastforce
  have len: "length pcs = n" and lock: "\<And>i. i < n \<Longrightarrow> inside (pcs ! i) \<longleftrightarrow> lock_holder d = Some i"
    and sound: "\<And>i. i < n \<Longrightarrow> pc_sound (namespace d) (pcs ! i)"
    and count: "executions d = (if namespace d \<and> \<not> present then 1 else 0)"
    using schema_reachable_inv [OF assms] by (auto simp: schema_inv_def s)
  have "pc_sound (namespace d) pc" if "pc \<in> set pcs" for pc
    using that sound len by (auto simp: in_set_conv_nth)
  then have "SchemaConflict \<notin> set pcs" "SchemaApplied \<in> set pcs \<longrightarrow> namespace d"
    by (metis pc_sound_simps(7), metis pc_sound_simps(6))
  moreover have "fst (((run_process p Answers) ^^ 5) (pcs, d)) ! p = SchemaApplied"
    if "p < n" "pcs ! p \<noteq> SchemaFault" "lock_holder d \<in> {None, Some p}" for p
  proof -
    have "fst ((undisturbed p ^^ 5) (pcs ! p, d)) = SchemaApplied"
      using undisturbed_applies [OF sound [OF that(1)] that(2)] lock [OF that(1)] that(3) by blast
    then show ?thesis
      using that(1) len by (simp only: run_process_undisturbed) (auto split: prod.splits)
  qed
  ultimately show ?thesis using count by (simp add: s)
qed

theorem concurrent_starts_apply_the_schema_once_witness:
  "executions (snd (((run_process 1 Answers) ^^ 5) (((run_process 0 Answers) ^^ 5) (run_process 1 Answers (fresh_start 2 False))))) = 1"
proof -
  let ?s = "((run_process 1 Answers) ^^ 5) (((run_process 0 Answers) ^^ 5) (run_process 1 Answers (fresh_start 2 False)))"
  have again: "schema_reachable 2 False ((run_process p Answers ^^ k) s)" if "schema_reachable 2 False s" "p < 2" for s p k
    using that by (induction k) (auto intro: schema_reachable.step)
  have "schema_reachable 2 False ?s"
    by (intro again schema_reachable.step schema_reachable.start) simp_all
  moreover have "namespace (snd ?s)"
    by (simp add: numeral_eq_Suc run_process_def fresh_start_def commit_schema_def end_transaction_def)
  ultimately show ?thesis using concurrent_starts_apply_the_schema_once [of 2 False ?s] by simp
qed

section \<open>Fetch facts\<close>

record fetch_record =
  fr_run :: uuid
  fr_owner :: uuid
  fr_final_url :: string
  fr_http_status :: nat
  fr_media_type :: string
  fr_wire_bytes :: nat
  fr_decoded_bytes :: nat
  fr_attempts :: nat
  fr_cache_outcome :: string
  fr_etag :: "string option"
  fr_last_modified :: "string option"

definition owned_runs :: "uuid \<Rightarrow> uuid \<Rightarrow> db \<Rightarrow> run_row list" where
  "owned_runs run own d = filter (\<lambda>r. run_id r = run \<and> run_owner r = own) (runs d)"

definition fetch_row_of :: "call_env \<Rightarrow> fetch_record \<Rightarrow> nat \<Rightarrow> nat \<Rightarrow> nat \<Rightarrow> fetch_row" where
  "fetch_row_of cx r wire decoded attempts =
     \<lparr>ft_id = new_id cx 0, ft_run = fr_run r, ft_final_url = fr_final_url r, ft_status = fr_http_status r,
      ft_media = fr_media_type r, ft_wire = wire, ft_decoded = decoded, ft_attempts = attempts,
      ft_cache = fr_cache_outcome r, ft_etag = fr_etag r, ft_last_modified = fr_last_modified r, ft_at = now_us cx\<rparr>"

fun insert_fetches :: "fetch_row list \<Rightarrow> db \<Rightarrow> (persistence_error, db) res" where
  "insert_fetches [] d = Ok d"
| "insert_fetches (r # rs) d =
     (if fetch_row_ok r \<and> ft_id r \<notin> ft_id ` set (fetches d) \<and> has_run d (ft_run r)
      then insert_fetches rs (d\<lparr>fetches := fetches d @ [r]\<rparr>) else Err PQuery)"

definition persist_fetch :: "call_env \<Rightarrow> tx_fate \<Rightarrow> fetch_record \<Rightarrow> db \<Rightarrow> (persistence_error, unit) res \<times> db" where
  "persist_fetch cx fate r d =
     (case rbind (ok_or PValueOverflow (try_from i64_max (fr_wire_bytes r))) (\<lambda>wire.
           rbind (ok_or PValueOverflow (try_from i64_max (fr_decoded_bytes r))) (\<lambda>decoded.
           rbind (ok_or PValueOverflow (try_from i32_max (fr_attempts r))) (\<lambda>attempts.
             Ok (fetch_row_of cx r wire decoded attempts)))) of
        Err e \<Rightarrow> (Err e, d)
      | Ok row \<Rightarrow>
          let rows = map (\<lambda>_. row) (owned_runs (fr_run r) (fr_owner r) d)
          in (case commit fate d (rbind (insert_fetches rows d) (\<lambda>d'. Ok (length rows, d'))) of
                (x, d') \<Rightarrow> (rbind x owned, d')))"

section \<open>Candidate facts\<close>

text \<open>The columns of \<open>extractor.candidates\<close> that the caller gives; \<open>'j\<close> is a JSON value and \<open>'f\<close> a double. The
  rows that a terminal transition writes (\<open>candidate_row\<close>) are the ones with the metrics of the evaluator.\<close>

record ('j, 'f) candidate_columns =
  cn_run :: uuid
  cn_strategy :: string
  cn_version :: string
  cn_metrics :: 'j
  cn_score :: "'f option"
  cn_reasons :: "'j list"
  cn_selected :: bool
  cn_artifact :: "uuid option"

record ('j, 'f) candidate_record =
  cn_owner :: uuid
  cn_columns :: "('j, 'f) candidate_columns"

record ('j, 'f) candidate_fact =
  cnd_id :: uuid
  cnd_created :: nat
  cnd_columns :: "('j, 'f) candidate_columns"

definition candidate_key :: "('j, 'f) candidate_columns \<Rightarrow> uuid \<times> string \<times> string" where
  "candidate_key c = (cn_run c, cn_strategy c, cn_version c)"

definition fact_key :: "('j, 'f) candidate_fact \<Rightarrow> uuid \<times> string \<times> string" where
  "fact_key x = candidate_key (cnd_columns x)"

text \<open>\<open>unit_interval\<close> tells whether a double is between 0.0 and 1.0.\<close>

definition columns_ok :: "('f \<Rightarrow> bool) \<Rightarrow> db \<Rightarrow> ('j, 'f) candidate_columns \<Rightarrow> bool" where
  "columns_ok unit_interval d c =
     (between_chars 1 64 (cn_strategy c) \<and> (case cn_score c of None \<Rightarrow> True | Some x \<Rightarrow> unit_interval x)
      \<and> (case cn_artifact c of None \<Rightarrow> True | Some a \<Rightarrow> a \<in> art_id ` set (artifacts d)) \<and> has_run d (cn_run c))"

definition selected_elsewhere :: "('j, 'f) candidate_columns \<Rightarrow> ('j, 'f) candidate_fact list \<Rightarrow> bool" where
  "selected_elsewhere c t =
     list_ex (\<lambda>x. cn_run (cnd_columns x) = cn_run c \<and> cn_selected (cnd_columns x) \<and> fact_key x \<noteq> candidate_key c) t"

text \<open>\<open>insert ... on conflict (run_id, strategy, extractor_version) do update\<close>: the conflicting row keeps its
  identifier and instant; the checks, the references and the other unique indexes hold afterwards.\<close>

definition upsert_candidate ::
  "('f \<Rightarrow> bool) \<Rightarrow> db \<Rightarrow> uuid \<Rightarrow> nat \<Rightarrow> ('j, 'f) candidate_columns \<Rightarrow> ('j, 'f) candidate_fact list
   \<Rightarrow> (persistence_error, ('j, 'f) candidate_fact list) res" where
  "upsert_candidate unit_interval d i now c t =
     (if \<not> columns_ok unit_interval d c \<or> (cn_selected c \<and> selected_elsewhere c t) then Err PQuery
      else if candidate_key c \<in> fact_key ` set t
      then Ok (map (\<lambda>x. if fact_key x = candidate_key c then x\<lparr>cnd_columns := c\<rparr> else x) t)
      else if i \<in> cnd_id ` set t then Err PQuery
      else Ok (t @ [\<lparr>cnd_id = i, cnd_created = now, cnd_columns = c\<rparr>]))"

text \<open>\<open>run_id\<close> is the primary key of the runs, so the statement proposes at most one row.\<close>

definition record_candidate ::
  "('f \<Rightarrow> bool) \<Rightarrow> call_env \<Rightarrow> tx_fate \<Rightarrow> db \<Rightarrow> ('j, 'f) candidate_record \<Rightarrow> ('j, 'f) candidate_fact list
   \<Rightarrow> (persistence_error, unit) res \<times> ('j, 'f) candidate_fact list" where
  "record_candidate unit_interval cx fate d r t =
     (case commit fate t
             (if owned_runs (cn_run (cn_columns r)) (cn_owner r) d = [] then Ok (0, t)
              else rbind (upsert_candidate unit_interval d (new_id cx 0) (now_us cx) (cn_columns r) t) (\<lambda>t'. Ok (1, t'))) of
        (x, t') \<Rightarrow> (rbind x owned, t'))"

section \<open>Facts belong to the owner\<close>

text \<open>The constraints of the table: every row is valid, keys are unique, a run has at most one selected candidate.\<close>

definition one_selected :: "('j, 'f) candidate_fact list \<Rightarrow> bool" where
  "one_selected t =
     (\<forall>x\<in>set t. \<forall>y\<in>set t. cn_selected (cnd_columns x) \<longrightarrow> cn_selected (cnd_columns y)
        \<longrightarrow> cn_run (cnd_columns x) = cn_run (cnd_columns y) \<longrightarrow> fact_key x = fact_key y)"

definition candidates_ok :: "('f \<Rightarrow> bool) \<Rightarrow> db \<Rightarrow> ('j, 'f) candidate_fact list \<Rightarrow> bool" where
  "candidates_ok unit_interval d t =
     (list_all (\<lambda>x. columns_ok unit_interval d (cnd_columns x)) t \<and> distinct (map cnd_id t) \<and> distinct (map fact_key t)
      \<and> one_selected t)"

definition overwrite :: "('j, 'f) candidate_columns \<Rightarrow> ('j, 'f) candidate_fact \<Rightarrow> ('j, 'f) candidate_fact" where
  "overwrite c x = (if fact_key x = candidate_key c then x\<lparr>cnd_columns := c\<rparr> else x)"

lemma overwrite_keys [simp]:
  "cnd_id (overwrite c x) = cnd_id x" "fact_key (overwrite c x) = fact_key x" "overwrite c (overwrite c x) = overwrite c x"
  by (simp_all add: overwrite_def fact_key_def)

lemma overwrite_columns:
  "cnd_columns (overwrite c x) = (if fact_key x = candidate_key c then c else cnd_columns x)"
  by (simp add: overwrite_def)

lemma selected_elsewhere_iff:
  "selected_elsewhere c t \<longleftrightarrow>
     (\<exists>x\<in>set t. cn_run (cnd_columns x) = cn_run c \<and> cn_selected (cnd_columns x) \<and> fact_key x \<noteq> candidate_key c)"
  by (simp add: selected_elsewhere_def list_ex_iff)

lemma one_selected_overwrite:
  assumes "one_selected t" "cn_selected c \<Longrightarrow> \<not> selected_elsewhere c t"
  shows "one_selected (map (overwrite c) t)"
proof -
  have "fact_key x = fact_key y"
    if "x \<in> set t" "y \<in> set t" "cn_selected (cnd_columns (overwrite c x))" "cn_selected (cnd_columns (overwrite c y))"
      "cn_run (cnd_columns (overwrite c x)) = cn_run (cnd_columns (overwrite c y))" for x y
  proof (cases "fact_key x = candidate_key c \<longleftrightarrow> fact_key y = candidate_key c")
    case True
    show ?thesis
    proof (cases "fact_key x = candidate_key c")
      case False
      with True that have "cn_selected (cnd_columns x)" "cn_selected (cnd_columns y)"
        "cn_run (cnd_columns x) = cn_run (cnd_columns y)" by (simp_all add: overwrite_columns)
      with that(1,2) assms(1) show ?thesis unfolding one_selected_def by blast
    qed (use True in simp)
  next
    case False
    then have "selected_elsewhere c t \<and> cn_selected c"
    proof (cases "fact_key x = candidate_key c")
      case True
      with False that(2-5) show ?thesis
        unfolding overwrite_columns selected_elsewhere_iff by (intro conjI bexI [of _ y]) simp_all
    next
      case False
      with \<open>\<not> (fact_key x = candidate_key c \<longleftrightarrow> fact_key y = candidate_key c)\<close> that(1,3-5) show ?thesis
        unfolding overwrite_columns selected_elsewhere_iff by (intro conjI bexI [of _ x]) simp_all
    qed
    then show ?thesis using assms(2) by blast
  qed
  note same = this
  show ?thesis
    unfolding one_selected_def set_map
  proof (intro ballI impI)
    fix x y assume "x \<in> overwrite c ` set t" "y \<in> overwrite c ` set t"
      and sel: "cn_selected (cnd_columns x)" "cn_selected (cnd_columns y)" "cn_run (cnd_columns x) = cn_run (cnd_columns y)"
    then obtain x' y' where "x' \<in> set t" "y' \<in> set t" "x = overwrite c x'" "y = overwrite c y'" by blast
    then show "fact_key x = fact_key y" using same [of x' y'] sel by (simp only: overwrite_keys)
  qed
qed

lemma one_selected_insert:
  assumes "one_selected t" "cn_selected c \<Longrightarrow> \<not> selected_elsewhere c t" "candidate_key c \<notin> fact_key ` set t"
  shows "one_selected (t @ [\<lparr>cnd_id = i, cnd_created = now, cnd_columns = c\<rparr>])"
proof -
  have new: "cn_run (cnd_columns x) \<noteq> cn_run c" if "x \<in> set t" "cn_selected c" "cn_selected (cnd_columns x)" for x
  proof -
    have "fact_key x \<noteq> candidate_key c" using assms(3) imageI [OF that(1), of fact_key] by auto
    then show ?thesis using assms(2) [OF that(2)] that(1,3) unfolding selected_elsewhere_iff by blast
  qed
  show ?thesis
    unfolding one_selected_def
  proof (intro ballI impI)
    fix x y
    assume x: "x \<in> set (t @ [\<lparr>cnd_id = i, cnd_created = now, cnd_columns = c\<rparr>])"
      and y: "y \<in> set (t @ [\<lparr>cnd_id = i, cnd_created = now, cnd_columns = c\<rparr>])"
      and sel: "cn_selected (cnd_columns x)" "cn_selected (cnd_columns y)" "cn_run (cnd_columns x) = cn_run (cnd_columns y)"
    show "fact_key x = fact_key y"
    proof (cases "x \<in> set t \<and> y \<in> set t")
      case True
      with assms(1) sel show ?thesis unfolding one_selected_def by blast
    next
      case False
      with x y sel new [of x] new [of y] show ?thesis by auto
    qed
  qed
qed

text \<open>The effect of a successful upsert: one row replaced in place, or one appended.\<close>

lemma upsert_candidate_cases:
  assumes "upsert_candidate u d i now c t = Ok t'"
  obtains "candidate_key c \<in> fact_key ` set t" "t' = map (overwrite c) t"
  | "candidate_key c \<notin> fact_key ` set t" "i \<notin> cnd_id ` set t" "t' = t @ [\<lparr>cnd_id = i, cnd_created = now, cnd_columns = c\<rparr>]"
proof -
  have "(\<lambda>x. if fact_key x = candidate_key c then x\<lparr>cnd_columns := c\<rparr> else x) = overwrite c"
    by (simp add: overwrite_def fun_eq_iff)
  with assms that show thesis unfolding upsert_candidate_def by (auto split: if_splits)
qed

lemma upsert_candidate_guard:
  assumes "upsert_candidate u d i now c t = Ok t'"
  shows "columns_ok u d c" "cn_selected c \<Longrightarrow> \<not> selected_elsewhere c t"
  using assms by (auto simp: upsert_candidate_def split: if_splits)

lemma upsert_candidate_ok:
  assumes "candidates_ok u d t" "upsert_candidate u d i now c t = Ok t'"
  shows "candidates_ok u d t'"
  using assms(2)
proof (cases rule: upsert_candidate_cases)
  case 1
  then show ?thesis
    using assms(1) one_selected_overwrite [of t c] upsert_candidate_guard [OF assms(2)]
    by (auto simp: candidates_ok_def list_all_iff overwrite_columns comp_def)
next
  case 2
  then show ?thesis
    using assms(1) one_selected_insert [of t c i now] upsert_candidate_guard [OF assms(2)]
    by (simp add: candidates_ok_def) (simp add: fact_key_def)
qed

lemma upsert_candidate_keeps:
  assumes "upsert_candidate u d i now c t = Ok t'"
  shows "c \<in> cnd_columns ` set t'" "x \<in> set t \<Longrightarrow> fact_key x \<noteq> candidate_key c \<Longrightarrow> x \<in> set t'"
    and "set (map cnd_id t) \<subseteq> set (map cnd_id t')"
proof -
  show "c \<in> cnd_columns ` set t'"
    using assms
  proof (cases rule: upsert_candidate_cases)
    case 1
    then obtain x where "x \<in> set t" "fact_key x = candidate_key c" by auto
    then show ?thesis using 1(2) overwrite_columns [of c x] by force
  qed simp
  show "x \<in> set t'" if "x \<in> set t" "fact_key x \<noteq> candidate_key c"
    using assms
  proof (cases rule: upsert_candidate_cases)
    case 1
    have "overwrite c x = x" using that(2) by (simp add: overwrite_def)
    with that(1) 1(2) show ?thesis by force
  qed (use that in simp)
  show "set (map cnd_id t) \<subseteq> set (map cnd_id t')"
    using assms by (cases rule: upsert_candidate_cases) (auto simp: image_image)
qed

lemma overwrite_idle: "candidate_key c \<notin> fact_key ` set t \<Longrightarrow> map (overwrite c) t = t"
  by (rule map_idI) (metis imageI overwrite_def)

lemma upsert_candidate_again:
  assumes "upsert_candidate u d i now c t = Ok t'"
  shows "upsert_candidate u d j now2 c t' = Ok t'"
proof -
  have "candidate_key c \<in> fact_key ` set t'" using upsert_candidate_keeps(1) [OF assms] by (auto simp: fact_key_def)
  moreover have "map (overwrite c) t' = t'"
    using assms
  proof (cases rule: upsert_candidate_cases)
    case 2
    then show ?thesis using overwrite_idle [OF 2(1)] by (simp add: overwrite_def fact_key_def)
  qed (simp add: comp_def)
  moreover have "\<not> selected_elsewhere c t'" if "cn_selected c"
    using assms upsert_candidate_guard(2) [OF assms that]
    by (cases rule: upsert_candidate_cases) (auto simp: selected_elsewhere_iff overwrite_columns fact_key_def)
  ultimately show ?thesis
    using upsert_candidate_guard(1) [OF assms] by (auto simp: upsert_candidate_def overwrite_def [abs_def])
qed

text \<open>Recording a candidate keeps the constraints of its table and every other candidate. Only the owner of the
  run records one: for anybody else the table stays and the answer is an error. What was recorded is
  there, and recording it again, whenever and under whichever fresh identifier, changes nothing.\<close>

theorem record_candidate_is_an_owned_upsert:
  assumes "candidates_ok u d t" "record_candidate u cx fate d r t = (x, t')"
  shows "candidates_ok u d t'"
    and "f \<in> set t \<Longrightarrow> fact_key f \<noteq> candidate_key (cn_columns r) \<Longrightarrow> f \<in> set t'"
    and "owned_runs (cn_run (cn_columns r)) (cn_owner r) d = [] \<Longrightarrow> t' = t \<and> (\<exists>e. x = Err e)"
    and "x = Ok () \<Longrightarrow> cn_columns r \<in> cnd_columns ` set t' \<and> record_candidate u cx' Commits d r t' = (Ok (), t')"
proof -
  let ?c = "cn_columns r" and ?mine = "owned_runs (cn_run (cn_columns r)) (cn_owner r) d"
  obtain y where c: "commit fate t (if ?mine = [] then Ok (0, t)
        else rbind (upsert_candidate u d (new_id cx 0) (now_us cx) ?c t) (\<lambda>t'. Ok (1, t'))) = (y, t')" "x = rbind y owned"
    using assms(2) by (auto simp: record_candidate_def split: prod.splits)
  consider (kept) "t' = t" "\<exists>e. x = Err e"
    | (written) "?mine \<noteq> []" "upsert_candidate u d (new_id cx 0) (now_us cx) ?c t = Ok t'"
    using c(1)
  proof (cases rule: commit_cases)
    case 1
    then show thesis using c(2) that(1) by (cases y) auto
  next
    case (2 z)
    then show thesis
      using c(2) that by (cases "upsert_candidate u d (new_id cx 0) (now_us cx) ?c t") (auto simp: owned_def split: if_splits)
  qed
  note cases = this
  show "candidates_ok u d t'" using cases by cases (auto simp: assms(1) upsert_candidate_ok [OF assms(1)])
  show "f \<in> set t'" if "f \<in> set t" "fact_key f \<noteq> candidate_key ?c"
    using cases that by cases (auto dest: upsert_candidate_keeps(2))
  show "t' = t \<and> (\<exists>e. x = Err e)" if "?mine = []" using cases that by cases auto
  show "?c \<in> cnd_columns ` set t' \<and> record_candidate u cx' Commits d r t' = (Ok (), t')" if "x = Ok ()"
    using cases
  proof cases
    case written
    then show ?thesis
      using upsert_candidate_keeps(1) [OF written(2)] upsert_candidate_again [OF written(2)]
      by (simp add: record_candidate_def commit_def owned_def)
  qed (use that in auto)
qed

text \<open>A fetch is recorded whole or not at all: the owner's answer means exactly one row more, with the sizes given,
  which fit their columns.\<close>

lemma persist_fetch_outcome:
  assumes "persist_fetch cx fate r d = (x, d')" "distinct (map run_id (runs d))"
  shows "d' = d \<or> (\<exists>row. d' = d\<lparr>fetches := fetches d @ [row]\<rparr> \<and> fetch_row_ok row \<and> ft_run row = fr_run r
            \<and> ft_wire row = fr_wire_bytes r \<and> ft_wire row \<le> i64_max)"
    and "x = Ok () \<Longrightarrow> length (fetches d') = length (fetches d) + 1 \<and> owned_runs (fr_run r) (fr_owner r) d \<noteq> []"
proof -
  have one: "length (owned_runs (fr_run r) (fr_owner r) d) \<le> 1"
  proof -
    have "distinct (map run_id (owned_runs (fr_run r) (fr_owner r) d))"
      unfolding owned_runs_def by (rule distinct_map_filter [OF assms(2)])
    from distinct_card [OF this] card_mono [of "{fr_run r}" "set (map run_id (owned_runs (fr_run r) (fr_owner r) d))"]
    show ?thesis by (auto simp: owned_runs_def)
  qed
  then consider "owned_runs (fr_run r) (fr_owner r) d = []" | a where "owned_runs (fr_run r) (fr_owner r) d = [a]"
    by (cases "owned_runs (fr_run r) (fr_owner r) d") auto
  note runs = this
  show "d' = d \<or> (\<exists>row. d' = d\<lparr>fetches := fetches d @ [row]\<rparr> \<and> fetch_row_ok row \<and> ft_run row = fr_run r
            \<and> ft_wire row = fr_wire_bytes r \<and> ft_wire row \<le> i64_max)"
    using runs assms(1)
    by cases (auto simp: persist_fetch_def Let_def commit_def fetch_row_of_def split: sum.splits prod.splits tx_fate.splits if_splits)
  show "length (fetches d') = length (fetches d) + 1 \<and> owned_runs (fr_run r) (fr_owner r) d \<noteq> []" if "x = Ok ()"
    using runs assms(1) that
    by cases (auto simp: persist_fetch_def Let_def commit_def owned_def split: sum.splits prod.splits tx_fate.splits if_splits)
qed

end
