(* ===== verification/Youtube.thy ===== *)
theory Youtube
  imports DocumentIr UrlRouting
begin

text \<open>
  Video identities and player responses, \<open>crates/youtube/src/lib.rs\<close>, \<open>identity.rs\<close> and \<open>player.rs\<close>: the
  URL forms that name a video, the scan for the embedded player response, and the choice of a caption track.
  The JSON decoder is a parameter that yields the tolerant view of the response.
\<close>

section \<open>Types\<close>

definition YOUTUBE_STRATEGY :: string where
  "YOUTUBE_STRATEGY = ''youtube_transcript''"

record youtube_limits =
  yl_max_page_bytes :: nat
  yl_max_track_bytes :: nat
  yl_max_blocks :: nat
  yl_max_segments :: nat
  yl_max_segment_characters :: nat

datatype youtube_error =
    YResourceLimit | YSchema | YNoTranscript | YNoLanguageMatch | YInvalidIdentity | YSerialization

datatype identity_error = NotAVideo | MalformedId

datatype track_kind = Manual | AutoGenerated

record caption_track =
  ct_language_code :: string
  ct_name :: "string option"
  ct_kind :: track_kind
  ct_base_url :: string

record player_meta =
  pm_title :: "string option"
  pm_channel :: "string option"
  pm_duration_seconds :: "nat option"
  pm_tracks :: "caption_track list"

record video_details =
  vd_title :: "string option"
  vd_author :: "string option"
  vd_length_seconds :: "string option"

record track_name_view =
  tn_simple_text :: "string option"
  tn_runs :: "string option list option"

record track_entry =
  te_base_url :: "string option"
  te_language_code :: "string option"
  te_name :: "track_name_view option"
  te_kind :: "string option"

record player_response =
  pr_video_details :: "video_details option"
  pr_captions :: "track_entry list option"

section \<open>Identities\<close>

definition is_documented_host :: "string \<Rightarrow> string \<Rightarrow> bool" where
  "is_documented_host host documented =
     (host = documented
      \<or> (case strip_suffix documented host of None \<Rightarrow> False | Some rest \<Rightarrow> ends_with ''.'' rest))"

definition first_path_segment :: "string \<Rightarrow> string option" where
  "first_path_segment path = map_option (\<lambda>p. hd (split_on (\<lambda>c. c = CHR ''/'') p)) (strip_prefix ''/'' path)"

definition path_candidate :: "'u url_api \<Rightarrow> 'u \<Rightarrow> string option" where
  "path_candidate api u =
     (case filter (\<lambda>s. s \<noteq> []) (split_on (\<lambda>c. c = CHR ''/'') (u_path api u)) of
        [a] \<Rightarrow>
          if a = ''watch'' then map_option snd (List.find (\<lambda>(name, _). name = ''v'') (u_query_pairs api u)) else None
      | [a, i] \<Rightarrow> if a = ''shorts'' \<or> a = ''live'' \<or> a = ''embed'' \<or> a = ''v'' then Some i else None
      | _ \<Rightarrow> None)"

definition id_char :: "char \<Rightarrow> bool" where
  "id_char c = (is_ascii_alphanumeric c \<or> c = CHR ''-'' \<or> c = CHR ''_'')"

definition validated_id :: "string \<Rightarrow> (identity_error, string) res" where
  "validated_id candidate = (if length candidate = 11 \<and> list_all id_char candidate then Ok candidate else Err MalformedId)"

definition canonical_watch :: "string \<Rightarrow> string" where
  "canonical_watch video_id = ''https://www.youtube.com/watch?v='' @ video_id"

definition resolve_identity :: "'u url_api \<Rightarrow> string \<Rightarrow> (identity_error, string \<times> string) res" where
  "resolve_identity api url =
     rbind (ok_or NotAVideo (u_parse api url)) (\<lambda>u.
     rbind (ok_or NotAVideo (u_host_str api u)) (\<lambda>host.
     let lowered = to_ascii_lowercase host;
         on_youtube_com = is_documented_host lowered ''youtube.com'';
         on_short_host = is_documented_host lowered ''youtu.be'';
         on_nocookie = is_documented_host lowered ''youtube-nocookie.com'' in
     if \<not> on_youtube_com \<and> \<not> on_short_host \<and> \<not> on_nocookie then Err NotAVideo
     else
       case (if on_short_host \<and> \<not> on_nocookie then first_path_segment (u_path api u) else path_candidate api u) of
         None \<Rightarrow> Err NotAVideo
       | Some candidate \<Rightarrow>
           rbind (validated_id candidate) (\<lambda>video_id. Ok (video_id, canonical_watch video_id))))"

section \<open>The player response\<close>

definition PLAYER_RESPONSE_MARKER :: string where
  "PLAYER_RESPONSE_MARKER = ''ytInitialPlayerResponse''"

text \<open>The scan of \<open>balanced_object_text\<close>, byte by byte: a continuation byte belongs to the character before
  it, so it is neither counted nor looked at. The scanned text is kept in reverse.\<close>

definition is_continuation :: "char \<Rightarrow> bool" where
  "is_continuation c = (128 \<le> byte_of c \<and> byte_of c < 192)"

fun scan_object :: "nat \<Rightarrow> nat \<Rightarrow> bool \<Rightarrow> bool \<Rightarrow> nat \<Rightarrow> string \<Rightarrow> string \<Rightarrow> (youtube_error, string) res" where
  "scan_object cap depth in_string escaped scanned taken [] = Err YSchema"
| "scan_object cap depth in_string escaped scanned taken (c # cs) =
     (if is_continuation c then scan_object cap depth in_string escaped scanned (c # taken) cs
      else if scanned + 1 > cap then Err YSchema
      else if in_string then
        (if escaped then scan_object cap depth True False (scanned + 1) (c # taken) cs
         else if c = CHR 0x5C then scan_object cap depth True True (scanned + 1) (c # taken) cs
         else if c = CHR 0x22 then scan_object cap depth False False (scanned + 1) (c # taken) cs
         else scan_object cap depth True False (scanned + 1) (c # taken) cs)
      else if c = CHR 0x22 then scan_object cap depth True escaped (scanned + 1) (c # taken) cs
      else if c = CHR ''{'' then scan_object cap (depth + 1) False escaped (scanned + 1) (c # taken) cs
      else if c = CHR ''}'' then
        (if depth = 0 then Err YSchema
         else if depth = 1 then Ok (rev (c # taken))
         else scan_object cap (depth - 1) False escaped (scanned + 1) (c # taken) cs)
      else scan_object cap depth False escaped (scanned + 1) (c # taken) cs)"

definition balanced_object_text :: "string \<Rightarrow> nat \<Rightarrow> youtube_limits \<Rightarrow> (youtube_error, string) res" where
  "balanced_object_text tail_text scanned_before_tail limits =
     scan_object (yl_max_page_bytes limits) 0 False False scanned_before_tail [] tail_text"

definition embedded_json_payload :: "string \<Rightarrow> youtube_limits \<Rightarrow> (youtube_error, string) res" where
  "embedded_json_payload page_html limits =
     rbind (ok_or YSchema (split_once PLAYER_RESPONSE_MARKER page_html)) (\<lambda>(before, after_marker).
     rbind (ok_or YSchema (strip_prefix ''='' (trim_start after_marker))) (\<lambda>tail_text.
       balanced_object_text tail_text (length before + length PLAYER_RESPONSE_MARKER) limits))"

definition track_name :: "track_name_view option \<Rightarrow> string option" where
  "track_name name =
     (case name of
        None \<Rightarrow> None
      | Some n \<Rightarrow>
          (case tn_simple_text n of
             Some t \<Rightarrow> Some t
           | None \<Rightarrow>
               (case tn_runs n of
                  None \<Rightarrow> None
                | Some runs \<Rightarrow>
                    Option.bind (List.find (\<lambda>t. case t of None \<Rightarrow> False | Some s \<Rightarrow> s \<noteq> []) runs) (\<lambda>t. t))))"

definition advertised_track :: "track_entry \<Rightarrow> caption_track option" where
  "advertised_track e =
     (case te_base_url e of
        None \<Rightarrow> None
      | Some base_url \<Rightarrow>
          (case te_language_code e of
             None \<Rightarrow> None
           | Some language_code \<Rightarrow>
               Some \<lparr>ct_language_code = language_code, ct_name = track_name (te_name e),
                     ct_kind = (if te_kind e = Some ''asr'' then AutoGenerated else Manual), ct_base_url = base_url\<rparr>))"

definition advertised_tracks :: "track_entry list \<Rightarrow> caption_track list" where
  "advertised_tracks entries = List.map_filter advertised_track entries"

definition extract_player_response ::
  "(string \<Rightarrow> player_response option) \<Rightarrow> string \<Rightarrow> youtube_limits \<Rightarrow> (youtube_error, player_meta) res" where
  "extract_player_response decode page_html limits =
     (if length page_html > yl_max_page_bytes limits then Err YResourceLimit
      else
        rbind (embedded_json_payload page_html limits) (\<lambda>payload.
        rbind (ok_or YSchema (decode payload)) (\<lambda>response.
        let details = (case pr_video_details response of
              None \<Rightarrow> \<lparr>vd_title = None, vd_author = None, vd_length_seconds = None\<rparr> | Some d \<Rightarrow> d) in
        Ok \<lparr>pm_title = vd_title details, pm_channel = vd_author details,
            pm_duration_seconds = Option.bind (vd_length_seconds details) (parse_unsigned u64_max),
            pm_tracks = (case pr_captions response of None \<Rightarrow> [] | Some entries \<Rightarrow> advertised_tracks entries)\<rparr>)))"

section \<open>Track selection\<close>

definition has_usable_location :: "'u url_api \<Rightarrow> string \<Rightarrow> bool" where
  "has_usable_location api base_url =
     (case u_parse api base_url of
        None \<Rightarrow> False
      | Some u \<Rightarrow>
          if u_scheme api u \<noteq> ''https'' then False
          else case u_host_str api u of
            None \<Rightarrow> False
          | Some host \<Rightarrow>
              let lowered = to_ascii_lowercase host in
              is_documented_host lowered ''youtube.com'' \<or> is_documented_host lowered ''youtu.be''
              \<or> is_documented_host lowered ''youtube-nocookie.com'')"

fun preferred_track :: "caption_track list \<Rightarrow> string list \<Rightarrow> (youtube_error, caption_track) res" where
  "preferred_track usable [] = Err YNoLanguageMatch"
| "preferred_track usable (language # languages) =
     (case List.find (\<lambda>t. ct_kind t = Manual \<and> ct_language_code t = language) usable of
        Some t \<Rightarrow> Ok t
      | None \<Rightarrow>
          (case List.find (\<lambda>t. ct_kind t = AutoGenerated \<and> ct_language_code t = language) usable of
             Some t \<Rightarrow> Ok t
           | None \<Rightarrow> preferred_track usable languages))"

definition select_track :: "'u url_api \<Rightarrow> caption_track list \<Rightarrow> string list \<Rightarrow> (youtube_error, caption_track) res" where
  "select_track api tracks languages =
     (let usable = filter (\<lambda>t. has_usable_location api (ct_base_url t)) tracks in
      if usable = [] then Err YNoTranscript else preferred_track usable languages)"

section \<open>Properties\<close>

text \<open>JSON text as far as the scan can see it: characters outside strings, strings with their escapes, and
  objects.\<close>

datatype string_piece = StringChar char | StringEscape char

datatype json_piece = Plain char | Quoted "string_piece list" | Braced "json_piece list"

fun string_text :: "string_piece list \<Rightarrow> string" where
  "string_text [] = []"
| "string_text (StringChar c # ps) = c # string_text ps"
| "string_text (StringEscape c # ps) = CHR 0x5C # c # string_text ps"

fun json_text :: "json_piece list \<Rightarrow> string" where
  "json_text [] = []"
| "json_text (Plain c # ps) = c # json_text ps"
| "json_text (Quoted s # ps) = CHR 0x22 # string_text s @ CHR 0x22 # json_text ps"
| "json_text (Braced qs # ps) = CHR ''{'' # json_text qs @ CHR ''}'' # json_text ps"

fun string_ok :: "string_piece list \<Rightarrow> bool" where
  "string_ok [] = True"
| "string_ok (StringChar c # ps) = (c \<noteq> CHR 0x22 \<and> c \<noteq> CHR 0x5C \<and> string_ok ps)"
| "string_ok (StringEscape c # ps) = (\<not> is_continuation c \<and> string_ok ps)"

fun json_ok :: "json_piece list \<Rightarrow> bool" where
  "json_ok [] = True"
| "json_ok (Plain c # ps) = (c \<noteq> CHR 0x22 \<and> c \<noteq> CHR ''{'' \<and> c \<noteq> CHR ''}'' \<and> json_ok ps)"
| "json_ok (Quoted s # ps) = (string_ok s \<and> json_ok ps)"
| "json_ok (Braced qs # ps) = (json_ok qs \<and> json_ok ps)"

lemma is_continuation_ascii [simp]:
  "\<not> is_continuation (CHR 0x22)" "\<not> is_continuation (CHR 0x5C)" "\<not> is_continuation (CHR ''{'')" "\<not> is_continuation (CHR ''}'')"
  by code_simp+

lemma char_count_simps [simp]:
  "char_count [] = 0" "char_count (c # cs) = (if is_continuation c then 0 else 1) + char_count cs"
  "char_count (xs @ ys) = char_count xs + char_count ys"
  by (simp_all add: char_count_def is_continuation_def)

lemma scan_string:
  "string_ok s \<Longrightarrow> scanned + char_count (string_text s) \<le> cap \<Longrightarrow>
   scan_object cap depth True False scanned taken (string_text s @ rest)
     = scan_object cap depth True False (scanned + char_count (string_text s)) (rev (string_text s) @ taken) rest"
  by (induction s arbitrary: scanned taken rule: string_text.induct) auto

lemma scan_pieces:
  "json_ok ps \<Longrightarrow> 0 < depth \<Longrightarrow> scanned + char_count (json_text ps) \<le> cap \<Longrightarrow>
   scan_object cap depth False False scanned taken (json_text ps @ rest)
     = scan_object cap depth False False (scanned + char_count (json_text ps)) (rev (json_text ps) @ taken) rest"
proof (induction ps arbitrary: depth scanned taken rest rule: json_text.induct)
  case (3 s ps)
  then show ?case by (simp add: scan_string add.assoc)
next
  case (4 qs ps)
  then show ?case by (simp add: add.assoc)
qed auto

lemma ws_len_append: "ws_len s \<noteq> 0 \<Longrightarrow> ws_len (s @ t) = ws_len s \<and> ws_len s \<le> length s"
  by (cases s; cases "tl s"; cases "tl (tl s)") (auto simp: ws_len_def split: if_splits)

lemma trim_start_append: "trim_start ws = [] \<Longrightarrow> trim_start (ws @ s) = trim_start s"
proof (induction ws rule: trim_start.induct)
  case (2 c cs)
  then have n: "ws_len (c # cs) \<noteq> 0" "trim_start (drop (ws_len (c # cs) - 1) cs) = []"
    by (auto simp: Let_def split: if_splits)
  with "2.IH" [OF refl] ws_len_append [OF n(1), of s] show ?case by (simp add: Let_def)
qed simp

lemma char_count_le: "char_count s \<le> length s"
  by (simp add: char_count_def)

lemma scan_plain:
  "list_all (\<lambda>c. c \<noteq> CHR 0x22 \<and> c \<noteq> CHR ''{'' \<and> c \<noteq> CHR ''}'') sp \<Longrightarrow> scanned + char_count sp \<le> cap \<Longrightarrow>
   scan_object cap depth False False scanned taken (sp @ rest)
     = scan_object cap depth False False (scanned + char_count sp) (rev sp @ taken) rest"
  by (induction sp arbitrary: scanned taken) auto

text \<open>The embedded player response is found exactly. Let the page be within its budget and let its first
  marker be followed by white space, an equals sign, other characters without quotes or braces, and an object;
  braces and quotes inside its strings, escaped or not, do not matter. Then the text that is handed to the
  JSON decoder ends with the brace that closes this object, whatever follows on the page.\<close>

theorem embedded_object_is_found:
  assumes "length page \<le> yl_max_page_bytes limits"
    and "split_once PLAYER_RESPONSE_MARKER page = Some (before, ws @ ''='' @ sp @ json_text [Braced qs] @ rest)"
    and "all_whitespace ws" "json_ok qs" "list_all (\<lambda>c. c \<noteq> CHR 0x22 \<and> c \<noteq> CHR ''{'' \<and> c \<noteq> CHR ''}'') sp"
  shows "embedded_json_payload page limits = Ok (sp @ json_text [Braced qs])"
proof -
  let ?n = "length before + length PLAYER_RESPONSE_MARKER"
  have page: "page = before @ PLAYER_RESPONSE_MARKER @ ws @ ''='' @ sp @ json_text [Braced qs] @ rest"
    using split_once_Some [OF assms(2)] by simp
  have "ws_len (CHR ''='' # x) = 0" for x by (simp add: ws_len_def byte_of_def split: list.splits)
  then have ws: "strip_prefix ''='' (trim_start (ws @ ''='' @ x)) = Some x" for x
    using trim_start_append [of ws "''='' @ x"] assms(3)
    by (simp add: all_whitespace_def strip_prefix_def starts_with_def)
  have "?n + char_count sp + Suc (char_count (json_text qs)) + 1 \<le> yl_max_page_bytes limits"
    using assms(1) char_count_le [of sp] char_count_le [of "json_text qs"] unfolding page by simp
  then have "scan_object (yl_max_page_bytes limits) 0 False False ?n [] (sp @ json_text [Braced qs] @ rest)
      = Ok (sp @ json_text [Braced qs])"
    using scan_plain [OF assms(5)] scan_pieces [OF assms(4)] by simp
  then show ?thesis using ws by (simp add: embedded_json_payload_def assms(2) balanced_object_text_def)
qed

definition sample_watch_page :: string where
  "sample_watch_page = ''<p>ytInitialPlayerResponse = {a:'' @ [CHR 0x22] @ ''}'' @ [CHR 0x5C, CHR 0x22] @ ''{'' @ [CHR 0x22] @ ''};x}''"

definition sample_youtube_limits :: youtube_limits where
  "sample_youtube_limits = \<lparr>yl_max_page_bytes = 100, yl_max_track_bytes = 100, yl_max_blocks = 2, yl_max_segments = 9,
     yl_max_segment_characters = 20\<rparr>"

theorem embedded_object_is_found_witness:
  "embedded_json_payload sample_watch_page sample_youtube_limits
     = Ok ('' {a:'' @ [CHR 0x22] @ ''}'' @ [CHR 0x5C, CHR 0x22] @ ''{'' @ [CHR 0x22] @ ''}'')"
proof -
  have m: "split_once PLAYER_RESPONSE_MARKER sample_watch_page
      = Some (''<p>'', '' '' @ ''='' @ '' '' @ json_text [Braced [Plain (CHR ''a''), Plain (CHR '':''),
          Quoted [StringChar (CHR ''}''), StringEscape (CHR 0x22), StringChar (CHR ''{'')]]] @ '';x}'')"
    by code_simp
  have "length sample_watch_page \<le> yl_max_page_bytes sample_youtube_limits" "all_whitespace '' ''" by code_simp+
  from embedded_object_is_found [OF this(1) m this(2)] show ?thesis by (simp add: is_continuation_def byte_of_def)
qed

lemma preferred_track_spec:
  "case preferred_track usable languages of
     Ok t \<Rightarrow> \<exists>pre post. languages = pre @ ct_language_code t # post \<and> t \<in> set usable
         \<and> (\<forall>u\<in>set usable. ct_language_code u \<notin> set pre)
         \<and> (ct_kind t = AutoGenerated \<longrightarrow> (\<forall>u\<in>set usable. ct_language_code u = ct_language_code t \<longrightarrow> ct_kind u = AutoGenerated))
   | Err e \<Rightarrow> e = YNoLanguageMatch \<and> (\<forall>u\<in>set usable. ct_language_code u \<notin> set languages)"
proof (induction languages)
  case (Cons l ls)
  let ?manual = "List.find (\<lambda>t. ct_kind t = Manual \<and> ct_language_code t = l) usable"
  let ?auto = "List.find (\<lambda>t. ct_kind t = AutoGenerated \<and> ct_language_code t = l) usable"
  show ?case
  proof (cases ?manual)
    case (Some t)
    then have "t \<in> set usable \<and> ct_kind t = Manual \<and> ct_language_code t = l"
      by (auto simp: find_Some_iff in_set_conv_nth)
    with Some show ?thesis by (auto intro: exI [where x = ls] exI [where x = "[]"])
  next
    case manual: None
    then have auto_only: "\<forall>u\<in>set usable. ct_language_code u = l \<longrightarrow> ct_kind u = AutoGenerated"
      by (auto simp: find_None_iff intro: track_kind.exhaust)
    show ?thesis
    proof (cases ?auto)
      case (Some t)
      then have "t \<in> set usable \<and> ct_language_code t = l" by (auto simp: find_Some_iff in_set_conv_nth)
      with Some manual auto_only show ?thesis by (auto intro: exI [where x = ls] exI [where x = "[]"])
    next
      case None
      with auto_only have other: "\<forall>u\<in>set usable. ct_language_code u \<noteq> l" by (auto simp: find_None_iff)
      show ?thesis
      proof (cases "preferred_track usable ls")
        case (Inr t)
        with Cons.IH obtain pre post where "ls = pre @ ct_language_code t # post" "t \<in> set usable"
          "\<forall>u\<in>set usable. ct_language_code u \<notin> set pre"
          "ct_kind t = AutoGenerated \<longrightarrow> (\<forall>u\<in>set usable. ct_language_code u = ct_language_code t \<longrightarrow> ct_kind u = AutoGenerated)"
          by auto
        with Inr manual None other show ?thesis
          by (auto intro: exI [where x = "l # pre"] exI [where x = post])
      qed (use Cons.IH manual None other in auto)
    qed
  qed
qed simp

definition usable_tracks :: "'u url_api \<Rightarrow> caption_track list \<Rightarrow> caption_track set" where
  "usable_tracks api tracks = {u \<in> set tracks. has_usable_location api (ct_base_url u)}"

text \<open>The caption track that is fetched is the preferred one. A selected track is advertised, lies on a
  documented host under HTTPS, no usable track has a language that is preferred to its own, and it is machine
  generated only when no usable track of that language was authored. Selection fails for want of a transcript
  exactly when no track has a usable location, and for want of a language exactly when no usable track has one
  of the preferred languages.\<close>

theorem select_track_takes_the_preferred:
  "case select_track api tracks languages of
     Ok t \<Rightarrow> \<exists>pre post. languages = pre @ ct_language_code t # post \<and> t \<in> usable_tracks api tracks
         \<and> ct_language_code ` usable_tracks api tracks \<inter> set pre = {}
         \<and> (ct_kind t = AutoGenerated \<longrightarrow>
              ct_kind ` {u \<in> usable_tracks api tracks. ct_language_code u = ct_language_code t} = {AutoGenerated})
   | Err e \<Rightarrow> ct_language_code ` usable_tracks api tracks \<inter> set languages = {}
         \<and> e = (if usable_tracks api tracks = {} then YNoTranscript else YNoLanguageMatch)"
proof -
  let ?u = "filter (\<lambda>t. has_usable_location api (ct_base_url t)) tracks"
  have u: "set ?u = usable_tracks api tracks" by (auto simp: usable_tracks_def)
  have empty: "?u = [] \<longleftrightarrow> usable_tracks api tracks = {}" by (metis set_empty u)
  show ?thesis
  proof (cases "usable_tracks api tracks = {}")
    case True
    then show ?thesis by (simp add: select_track_def empty)
  next
    case False
    with preferred_track_spec [of ?u languages] show ?thesis
      unfolding select_track_def Let_def empty u by (auto split: sum.splits)
  qed
qed

definition sample_tracks :: "caption_track list" where
  "sample_tracks =
     [\<lparr>ct_language_code = ''en'', ct_name = None, ct_kind = Manual, ct_base_url = ''https://evil.io/t''\<rparr>,
      \<lparr>ct_language_code = ''en'', ct_name = None, ct_kind = AutoGenerated, ct_base_url = ''https://www.youtube.com/t''\<rparr>]"

theorem select_track_takes_the_preferred_witness:
  "\<exists>t. select_track sample_api sample_tracks [''de'', ''en''] = Ok t \<and> has_usable_location sample_api (ct_base_url t)"
proof -
  have "is_ok (select_track sample_api sample_tracks [''de'', ''en''])" by code_simp
  then obtain t where "select_track sample_api sample_tracks [''de'', ''en''] = Ok t" by (auto simp: is_ok_iff)
  with select_track_takes_the_preferred [of sample_api sample_tracks "[''de'', ''en'']"] show ?thesis
    by (auto simp: usable_tracks_def)
qed

end
