(* ===== verification/TimedText.thy ===== *)
theory TimedText
  imports Youtube "HOL-Library.Log_Nat"
begin

text \<open>
  Timed-text payloads, \<open>crates/youtube/src/timedtext.rs\<close>: the XML and the JSON3 wire format, both under
  byte, segment and text budgets. Seconds are parsed as the 64-bit floating-point numbers that the code
  uses: the decimal text is rounded to the nearest double, ties to even, and so is its product with 1000.
  The JSON decoder is a parameter.
\<close>

section \<open>Floating-point seconds\<close>

text \<open>A double as far as the code looks at it: not finite, or a rational number; both zeros are 0.\<close>

datatype f64_value = NonFinite | Finite rat

text \<open>The position of the leading binary digit of a positive number.\<close>

definition ilog2 :: "rat \<Rightarrow> int" where
  "ilog2 q =
     (if 1 \<le> q then int (floorlog 2 (nat \<lfloor>q\<rfloor>)) - 1 else - int (floorlog 2 (nat \<lceil>1 / q\<rceil> - 1)))"

definition round_half_even :: "rat \<Rightarrow> int" where
  "round_half_even q =
     (let f = \<lfloor>q\<rfloor>; d = q - of_int f in if d < 1 / 2 \<or> (d = 1 / 2 \<and> even f) then f else f + 1)"

text \<open>Rounding a number that is not negative to 53 significant bits, or to the grid of the subnormal numbers.\<close>

definition round_f64 :: "rat \<Rightarrow> rat" where
  "round_f64 q =
     (if q = 0 then 0
      else let e = max (-1074) (ilog2 q - 52) in of_int (round_half_even (q / 2 powi e)) * 2 powi e)"

definition f64_of :: "bool \<Rightarrow> rat \<Rightarrow> f64_value" where
  "f64_of negative q =
     (let r = round_f64 q in if r \<ge> 2 ^ 1024 then NonFinite else Finite (if negative then - r else r))"

text \<open>\<open>f64::from_str\<close>: an optional sign, then a name of a special value or digits with an optional point and
  exponent.\<close>

definition parse_exponent :: "string \<Rightarrow> int option" where
  "parse_exponent s =
     (case s of
        [] \<Rightarrow> Some 0
      | c # r \<Rightarrow>
          if c \<noteq> CHR ''e'' \<and> c \<noteq> CHR ''E'' then None
          else
            let (negative, ds) = (case r of
                  d # ds \<Rightarrow> if d = CHR ''-'' then (True, ds) else if d = CHR ''+'' then (False, ds) else (False, r)
                | [] \<Rightarrow> (False, r))
            in if ds \<noteq> [] \<and> list_all is_ascii_digit ds
               then Some (if negative then - int (digits_value ds) else int (digits_value ds)) else None)"

definition parse_number :: "string \<Rightarrow> rat option" where
  "parse_number s =
     (let whole = takeWhile is_ascii_digit s;
          r = dropWhile is_ascii_digit s;
          (frac, r) = (case r of
            c # cs \<Rightarrow> if c = CHR ''.'' then (takeWhile is_ascii_digit cs, dropWhile is_ascii_digit cs) else ([], r)
          | [] \<Rightarrow> ([], r))
      in if whole = [] \<and> frac = [] then None
         else map_option (\<lambda>e. of_nat (digits_value (whole @ frac)) * 10 powi (e - int (length frac))) (parse_exponent r))"

definition parse_f64 :: "string \<Rightarrow> f64_value option" where
  "parse_f64 s =
     (let (negative, r) = (case s of
            c # cs \<Rightarrow> if c = CHR ''-'' then (True, cs) else if c = CHR ''+'' then (False, cs) else (False, s)
          | [] \<Rightarrow> (False, s));
          name = to_ascii_lowercase r
      in if name = ''inf'' \<or> name = ''infinity'' \<or> name = ''nan'' then Some NonFinite
         else map_option (f64_of negative) (parse_number r))"

definition seconds_to_millis :: "string \<Rightarrow> (youtube_error, nat) res" where
  "seconds_to_millis raw =
     (case parse_f64 (trim raw) of
        None \<Rightarrow> Err YSchema
      | Some NonFinite \<Rightarrow> Err YSchema
      | Some (Finite seconds) \<Rightarrow>
          if seconds < 0 \<or> 9223372036854 \<le> seconds then Err YSchema
          else Ok (nat \<lfloor>round_f64 (seconds * 1000) + 1 / 2\<rfloor>))"

section \<open>Segments\<close>

record segment =
  start_ms :: nat
  duration_ms :: nat
  seg_text :: string

definition collect_segment ::
  "segment list \<Rightarrow> nat \<times> nat \<Rightarrow> string \<Rightarrow> youtube_limits \<Rightarrow> (youtube_error, segment list) res" where
  "collect_segment segments timing body limits =
     (if char_count body > yl_max_segment_characters limits then Err YResourceLimit
      else if length segments \<ge> yl_max_segments limits then Err YResourceLimit
      else Ok (segments @ [\<lparr>start_ms = fst timing, duration_ms = snd timing, seg_text = body\<rparr>]))"

section \<open>The XML format\<close>

lemma strip_prefix_Some: "strip_prefix p s = Some r \<longleftrightarrow> s = p @ r"
  by (auto simp: strip_prefix_def starts_with_iff)

text \<open>The value of the first attribute whose name ends with the wanted one.\<close>

function attribute_value :: "string \<Rightarrow> string \<Rightarrow> string option" where
  "attribute_value attributes name =
     (case split_once ''='' attributes of
        None \<Rightarrow> None
      | Some (key, r) \<Rightarrow>
          (case strip_prefix [CHR 0x22] r of
             None \<Rightarrow> None
           | Some quoted \<Rightarrow>
               (case split_once [CHR 0x22] quoted of
                  None \<Rightarrow> None
                | Some (v, behind) \<Rightarrow> if ends_with name (trim key) then Some v else attribute_value behind name)))"
  by pat_completeness auto
termination
  by (relation "measure (\<lambda>(attributes, _). length attributes)")
    (auto simp: strip_prefix_Some dest!: split_once_Some)

declare attribute_value.simps [simp del]

definition timing_from_attributes :: "string \<Rightarrow> (youtube_error, nat \<times> nat) res" where
  "timing_from_attributes attributes =
     (case (attribute_value attributes ''start'', attribute_value attributes ''dur'') of
        (Some start, Some dur) \<Rightarrow>
          rbind (seconds_to_millis start) (\<lambda>s. rbind (seconds_to_millis dur) (\<lambda>d. Ok (s, d)))
      | _ \<Rightarrow>
          (case (attribute_value attributes ''t'', attribute_value attributes ''d'') of
             (Some tick, Some span_ms) \<Rightarrow>
               rbind (ok_or YSchema (parse_unsigned u64_max (trim tick))) (\<lambda>s.
               rbind (ok_or YSchema (parse_unsigned u64_max (trim span_ms))) (\<lambda>d. Ok (s, d)))
           | _ \<Rightarrow> Err YSchema))"

text \<open>The UTF-8 bytes of a Unicode scalar value.\<close>

definition utf8_encode :: "nat \<Rightarrow> string" where
  "utf8_encode n =
     map char_of (if n < 128 then [n]
       else if n < 2048 then [192 + n div 64, 128 + n mod 64]
       else if n < 65536 then [224 + n div 4096, 128 + n div 64 mod 64, 128 + n mod 64]
       else [240 + n div 262144, 128 + n div 4096 mod 64, 128 + n div 64 mod 64, 128 + n mod 64])"

definition from_u32 :: "nat \<Rightarrow> string option" where
  "from_u32 n = (if n < 55296 \<or> (57344 \<le> n \<and> n < 1114112) then Some (utf8_encode n) else None)"

definition hex_value :: "char \<Rightarrow> nat option" where
  "hex_value c =
     (if is_ascii_digit c then Some (byte_of c - 48)
      else if 65 \<le> byte_of c \<and> byte_of c \<le> 70 then Some (byte_of c - 55)
      else if 97 \<le> byte_of c \<and> byte_of c \<le> 102 then Some (byte_of c - 87) else None)"

definition parse_hex_u32 :: "string \<Rightarrow> nat option" where
  "parse_hex_u32 s =
     (let ds = (case s of c # cs \<Rightarrow> if c = CHR ''+'' then cs else s | [] \<Rightarrow> s);
          v = foldl (\<lambda>acc c. 16 * acc + the (hex_value c)) 0 ds
      in if ds \<noteq> [] \<and> list_all (\<lambda>c. hex_value c \<noteq> None) ds \<and> v \<le> u32_max then Some v else None)"

definition entity :: "string \<Rightarrow> string option" where
  "entity token =
     (case (case strip_prefix ''#x'' token of Some ds \<Rightarrow> Some ds | None \<Rightarrow> strip_prefix ''#X'' token) of
        Some ds \<Rightarrow> Option.bind (parse_hex_u32 ds) from_u32
      | None \<Rightarrow>
          (case strip_prefix ''#'' token of
             Some ds \<Rightarrow> Option.bind (parse_unsigned u32_max ds) from_u32
           | None \<Rightarrow>
               if token = ''amp'' then Some ''&'' else if token = ''lt'' then Some ''<''
               else if token = ''gt'' then Some ''>'' else if token = ''quot'' then Some [CHR 0x22]
               else if token = ''apos'' then Some [CHR 0x27] else None))"

text \<open>The semicolon is looked for among the ten bytes after the ampersand.\<close>

definition entity_at :: "string \<Rightarrow> (string \<times> nat) option" where
  "entity_at r =
     (case split_once '';'' (take 10 r) of
        None \<Rightarrow> None
      | Some (token, _) \<Rightarrow> map_option (\<lambda>c. (c, Suc (length token))) (entity token))"

function decode_rest :: "string \<Rightarrow> string" where
  "decode_rest s =
     (case split_once ''&'' s of
        None \<Rightarrow> s
      | Some (pre, r) \<Rightarrow>
          (case entity_at r of
             Some (c, n) \<Rightarrow> pre @ c @ decode_rest (drop n r)
           | None \<Rightarrow> pre @ ''&'' @ decode_rest r))"
  by pat_completeness auto
termination
  by (relation "measure length") (auto dest!: split_once_Some)

declare decode_rest.simps [simp del]

definition decode_entities :: "string \<Rightarrow> (youtube_error, string) res" where
  "decode_entities input = Ok (if contains_str ''&'' input then decode_rest input else input)"

function xml_segments :: "string \<Rightarrow> youtube_limits \<Rightarrow> segment list \<Rightarrow> (youtube_error, segment list) res" where
  "xml_segments cursor limits segments =
     (case split_once ''<'' cursor of
        None \<Rightarrow> Ok segments
      | Some (_, after_open) \<Rightarrow>
          let name = takeWhile (\<lambda>c. c \<noteq> CHR '' '' \<and> c \<noteq> CHR ''>'') after_open in
          if length name = length after_open then Err YSchema
          else if name \<noteq> ''text'' \<and> name \<noteq> ''p'' then xml_segments after_open limits segments
          else
            (case split_once ''>'' after_open of
               None \<Rightarrow> Err YSchema
             | Some (head_text, body_rest) \<Rightarrow>
                 (case split_once (''</'' @ name @ ''>'') body_rest of
                    None \<Rightarrow> Err YSchema
                  | Some (raw_text, behind) \<Rightarrow>
                      (case rbind (timing_from_attributes (drop (length name) head_text)) (\<lambda>timing.
                            rbind (decode_entities raw_text) (\<lambda>body.
                              collect_segment segments timing body limits)) of
                         Err e \<Rightarrow> Err e
                       | Ok segments' \<Rightarrow> xml_segments behind limits segments'))))"
  by pat_completeness auto
termination
  by (relation "measure (\<lambda>(cursor, _, _). length cursor)") (auto dest!: split_once_Some)

declare xml_segments.simps [simp del]

section \<open>The JSON3 format\<close>

record json3_event =
  t_start_ms :: "int option"
  d_duration_ms :: "int option"
  segs :: "string option list option"

definition non_negative :: "int option \<Rightarrow> (youtube_error, nat) res" where
  "non_negative v = (let n = (case v of None \<Rightarrow> 0 | Some n \<Rightarrow> n) in if n < 0 then Err YSchema else Ok (nat n))"

fun json3_segments :: "json3_event list \<Rightarrow> youtube_limits \<Rightarrow> segment list \<Rightarrow> (youtube_error, segment list) res" where
  "json3_segments [] limits segments = Ok segments"
| "json3_segments (e # es) limits segments =
     rbind (non_negative (t_start_ms e)) (\<lambda>start.
     rbind (non_negative (d_duration_ms e)) (\<lambda>duration.
     case segs e of
       None \<Rightarrow> json3_segments es limits segments
     | Some parts \<Rightarrow>
         rbind (collect_segment segments (start, duration)
                  (concat (map (\<lambda>p. case p of None \<Rightarrow> [] | Some fragment \<Rightarrow> fragment) parts)) limits)
           (json3_segments es limits)))"

section \<open>Payloads\<close>

text \<open>\<open>std::str::from_utf8\<close>: the length of the well-formed character at the start, 0 for none.\<close>

definition utf8_len :: "string \<Rightarrow> nat" where
  "utf8_len s =
     (let b = (\<lambda>k. if k < length s then byte_of (s ! k) else 0);
          cont = (\<lambda>k. 128 \<le> b k \<and> b k < 192);
          a = b 0
      in if s = [] then 0
         else if a < 128 then 1
         else if 194 \<le> a \<and> a \<le> 223 \<and> cont 1 then 2
         else if 224 \<le> a \<and> a \<le> 239 \<and> cont 1 \<and> cont 2 \<and> (a = 224 \<longrightarrow> 160 \<le> b 1) \<and> (a = 237 \<longrightarrow> b 1 < 160) then 3
         else if 240 \<le> a \<and> a \<le> 244 \<and> cont 1 \<and> cont 2 \<and> cont 3 \<and> (a = 240 \<longrightarrow> 144 \<le> b 1) \<and> (a = 244 \<longrightarrow> b 1 < 144)
              then 4 else 0)"

function valid_utf8 :: "string \<Rightarrow> bool" where
  "valid_utf8 s = (if s = [] then True else if utf8_len s = 0 then False else valid_utf8 (drop (utf8_len s) s))"
  by pat_completeness auto
termination
  by (relation "measure length") auto

declare valid_utf8.simps [simp del]

definition parse_timedtext ::
  "(string \<Rightarrow> json3_event list option) \<Rightarrow> string \<Rightarrow> youtube_limits \<Rightarrow> (youtube_error, segment list) res" where
  "parse_timedtext decode_json3 bytes limits =
     (if length bytes > yl_max_track_bytes limits then Err YResourceLimit
      else if \<not> valid_utf8 bytes then Err YSchema
      else
        rbind (case trim_start bytes of
                 [] \<Rightarrow> Err YSchema
               | c # cs \<Rightarrow>
                   if c = CHR ''<'' then xml_segments (c # cs) limits []
                   else if c = CHR ''{''
                   then rbind (ok_or YSchema (decode_json3 (c # cs))) (\<lambda>events. json3_segments events limits [])
                   else Err YSchema) (\<lambda>segments.
          if segments = [] then Err YSchema else Ok segments))"

section \<open>Rounding\<close>

lemma floorlog_2:
  assumes "0 < m"
  obtains k where "floorlog 2 m = Suc k" "2 ^ k \<le> (of_nat m :: rat)" "of_nat m + 1 \<le> (2 :: rat) ^ Suc k"
proof -
  have b: "2 ^ (floorlog 2 m - 1) \<le> m" "m < 2 ^ floorlog 2 m"
    using floorlog_bounds [OF assms, of 2] by simp_all
  obtain k where k: "floorlog 2 m = Suc k" using b(2) assms by (cases "floorlog 2 m") auto
  have "of_nat (2 ^ k) \<le> (of_nat m :: rat)" "of_nat (Suc m) \<le> (of_nat (2 ^ Suc k) :: rat)"
    using b unfolding k of_nat_le_iff by simp_all
  then show thesis by (intro that [OF k]) (simp_all add: add.commute)
qed

lemma ilog2_bounds:
  assumes "0 < q"
  shows "2 powi ilog2 q \<le> q" "q < 2 powi (ilog2 q + 1)"
proof -
  have "2 powi ilog2 q \<le> q \<and> q < 2 powi (ilog2 q + 1)"
  proof (cases "1 \<le> q")
    case True
    define m where "m = nat \<lfloor>q\<rfloor>"
    have m: "0 < m" "of_nat m \<le> q" "q < of_nat m + 1"
      using True by (auto simp: m_def) linarith+
    obtain k where k: "floorlog 2 m = Suc k" "2 ^ k \<le> (of_nat m :: rat)" "of_nat m + 1 \<le> (2 :: rat) ^ Suc k"
      using m(1) by (rule floorlog_2)
    have e: "ilog2 q + 1 = int (Suc k)" "ilog2 q = int k"
      using True k(1) by (simp_all add: ilog2_def m_def)
    have "(2 :: rat) powi ilog2 q = 2 ^ k" "(2 :: rat) powi (ilog2 q + 1) = 2 ^ Suc k"
      by (metis e(2) power_int_of_nat, metis e(1) power_int_of_nat)
    then show ?thesis using m(2,3) k(2,3) by linarith
  next
    case False
    define m where "m = nat \<lceil>1 / q\<rceil> - 1"
    have "1 < 1 / q" using False assms by simp
    then have m: "0 < m" "of_nat m < 1 / q" "1 / q \<le> of_nat m + 1"
      by (auto simp: m_def of_nat_diff) linarith+
    obtain k where k: "floorlog 2 m = Suc k" "2 ^ k \<le> (of_nat m :: rat)" "of_nat m + 1 \<le> (2 :: rat) ^ Suc k"
      using m(1) by (rule floorlog_2)
    have e: "ilog2 q + 1 = - int k" "ilog2 q = - int (Suc k)"
      using False k(1) by (simp_all add: ilog2_def m_def)
    have p: "(2 :: rat) powi ilog2 q = 1 / 2 ^ Suc k" "(2 :: rat) powi (ilog2 q + 1) = 1 / 2 ^ k"
      by (metis e(2) power_int_minus power_int_of_nat inverse_eq_divide,
          metis e(1) power_int_minus power_int_of_nat inverse_eq_divide)
    have "(2 :: rat) ^ k < 1 / q" "1 / q \<le> (2 :: rat) ^ Suc k" using m(2,3) k(2,3) by linarith+
    then show ?thesis unfolding p using assms by (simp add: field_simps)
  qed
  then show "2 powi ilog2 q \<le> q" "q < 2 powi (ilog2 q + 1)" by simp_all
qed

lemma round_half_even_error: "\<bar>of_int (round_half_even q) - q\<bar> \<le> 1 / 2"
proof -
  have "0 \<le> q - of_int \<lfloor>q\<rfloor>" "q - of_int \<lfloor>q\<rfloor> < 1" by linarith+
  then show ?thesis unfolding round_half_even_def Let_def by (auto simp: abs_if) linarith+
qed

text \<open>The relative error of rounding a normal number.\<close>

lemma round_f64_error:
  assumes "1 / 2 ^ 100 \<le> q"
  shows "\<bar>round_f64 q - q\<bar> \<le> q / 2 ^ 53"
proof -
  have pos: "0 < q" using assms by (rule less_le_trans [rotated]) simp
  let ?e = "ilog2 q - 52"
  have "(2 :: rat) powi (-100) < 2 powi (ilog2 q + 1)"
    using assms ilog2_bounds(2) [OF pos] by (simp add: power_int_def inverse_eq_divide power_one_over)
  then have "-100 < ilog2 q + 1" using power_int_increasing [of "ilog2 q + 1" "-100" "2 :: rat"] by linarith
  then have e: "max (-1074) ?e = ?e" by simp
  let ?u = "(2 :: rat) powi ?e"
  have u: "0 < ?u" by simp
  have "round_f64 q - q = (of_int (round_half_even (q / ?u)) - q / ?u) * ?u"
    using pos u by (simp add: round_f64_def Let_def e left_diff_distrib)
  then have "\<bar>round_f64 q - q\<bar> \<le> 1 / 2 * ?u"
    using u round_half_even_error [of "q / ?u"] by (simp add: abs_mult mult_right_mono)
  also have "\<dots> = 2 powi ilog2 q / 2 ^ 53" by (simp add: power_int_diff)
  also have "\<dots> \<le> q / 2 ^ 53" using ilog2_bounds(1) [OF pos] by (simp add: divide_right_mono)
  finally show ?thesis .
qed

text \<open>Milliseconds below \<open>2 ^ 50\<close> survive the way through a double and back.\<close>

lemma millis_survive:
  assumes "n < 2 ^ 50"
  shows "\<lfloor>round_f64 (round_f64 (of_nat n / 1000) * 1000) + 1 / 2\<rfloor> = int n"
    and "0 \<le> round_f64 (of_nat n / 1000)" "round_f64 (of_nat n / 1000) < 9223372036854"
proof -
  let ?x = "of_nat n / 1000 :: rat"
  let ?s = "round_f64 ?x"
  let ?y = "?s * 1000"
  have big: "(of_nat n :: rat) < 2 ^ 50" using assms by (metis of_nat_less_iff of_nat_numeral of_nat_power)
  have all: "\<lfloor>round_f64 ?y + 1 / 2\<rfloor> = int n \<and> 0 \<le> ?s \<and> ?s < 9223372036854"
  proof (cases "n = 0")
    case False
    then have one: "(1 :: rat) \<le> of_nat n" by simp
    have "1 / 2 ^ 100 \<le> (1 :: rat) / 1000" by simp
    also have "\<dots> \<le> ?x" using one by (simp add: divide_right_mono)
    finally have s: "\<bar>?s - ?x\<bar> \<le> ?x / 2 ^ 53" by (rule round_f64_error)
    then have y: "\<bar>?y - of_nat n\<bar> \<le> of_nat n / 2 ^ 53" by (simp add: abs_if field_simps split: if_splits)
    have half: "of_nat n / 2 ^ 53 \<le> (of_nat n / 2 :: rat)" by (rule divide_left_mono) simp_all
    have ylow: "1 / 2 \<le> ?y" and yhigh: "?y \<le> 2 * of_nat n" using y half one by linarith+
    have "1 / 2 ^ 100 \<le> ?y" by (rule order_trans [OF _ ylow]) simp
    then have r: "\<bar>round_f64 ?y - ?y\<bar> \<le> ?y / 2 ^ 53" by (rule round_f64_error)
    have "?y / 2 ^ 53 \<le> 2 * of_nat n / 2 ^ 53" using yhigh by (rule divide_right_mono) simp
    then have "\<bar>round_f64 ?y - of_nat n\<bar> \<le> of_nat n / 2 ^ 53 + 2 * of_nat n / 2 ^ 53"
      using r y by linarith
    also have "\<dots> < 1 / 2" using big by (simp add: field_simps)
    finally have "\<bar>round_f64 ?y - of_nat n\<bar> < 1 / 2" .
    then have "of_nat n - 1 / 2 < round_f64 ?y" "round_f64 ?y < of_nat n + 1 / 2" unfolding abs_less_iff by linarith+
    then have "\<lfloor>round_f64 ?y + 1 / 2\<rfloor> = int n" by (intro floor_unique) simp_all
    moreover have "0 \<le> ?s" "?s < 9223372036854" using ylow yhigh big by simp_all
    ultimately show ?thesis by simp
  qed (auto simp: round_f64_def intro: floor_unique)
  then show "\<lfloor>round_f64 ?y + 1 / 2\<rfloor> = int n" "0 \<le> ?s" "?s < 9223372036854" by simp_all
qed

section \<open>Decimal text\<close>

definition digit_char :: "nat \<Rightarrow> char" where
  "digit_char k = char_of (48 + k)"

fun decimal :: "nat \<Rightarrow> string" where
  "decimal n = (if n < 10 then [digit_char n] else decimal (n div 10) @ [digit_char (n mod 10)])"

declare decimal.simps [simp del]

definition show_seconds :: "nat \<Rightarrow> string" where
  "show_seconds n =
     decimal (n div 1000) @ ''.'' @ map digit_char [n div 100 mod 10, n div 10 mod 10, n mod 10]"

lemma digit_char: "k < 10 \<Longrightarrow> is_ascii_digit (digit_char k) \<and> digit_value (digit_char k) = k"
  by (simp add: is_ascii_digit_def digit_value_def digit_char_def byte_of_def)

lemma digits_value_snoc [simp]: "digits_value (s @ [c]) = 10 * digits_value s + digit_value c"
  by (simp add: digits_value_def)

lemma decimal_digits: "list_all is_ascii_digit (decimal n) \<and> digits_value (decimal n) = n \<and> decimal n \<noteq> []"
proof (induction n rule: decimal.induct)
  case (1 n)
  show ?case
  proof (cases "n < 10")
    case True
    then show ?thesis by (simp add: decimal.simps [of n] digit_char) (simp add: digits_value_def digit_char)
  next
    case False
    with 1 have IH: "list_all is_ascii_digit (decimal (n div 10))" "digits_value (decimal (n div 10)) = n div 10" by simp_all
    have eq: "decimal n = decimal (n div 10) @ [digit_char (n mod 10)]" using False by (simp add: decimal.simps [of n])
    show ?thesis unfolding eq using IH digit_char [of "n mod 10"] by simp
  qed
qed

lemma show_seconds_number: "parse_number (show_seconds n) = Some (of_nat n / 1000)"
proof -
  let ?d = "decimal (n div 1000)" and ?f = "map digit_char [n div 100 mod 10, n div 10 mod 10, n mod 10]"
  note d = decimal_digits [of "n div 1000"]
  have f: "list_all is_ascii_digit ?f" by (simp add: digit_char)
  have dot: "\<not> is_ascii_digit (CHR ''.'')" by (simp add: is_ascii_digit_def byte_of_def)
  have whole: "takeWhile is_ascii_digit (?d @ ''.'' @ ?f) = ?d" "dropWhile is_ascii_digit (?d @ ''.'' @ ?f) = ''.'' @ ?f"
    using d dot by (simp_all add: list_all_iff)
  have frac: "takeWhile is_ascii_digit ?f = ?f" "dropWhile is_ascii_digit ?f = []"
    using f by (simp_all add: list_all_iff)
  have "digits_value (?d @ ?f) = ((n div 1000 * 10 + n div 100 mod 10) * 10 + n div 10 mod 10) * 10 + n mod 10"
    using d digits_value_snoc [of "?d @ [digit_char (n div 100 mod 10), digit_char (n div 10 mod 10)]"]
      digits_value_snoc [of "?d @ [digit_char (n div 100 mod 10)]"]
    by (simp add: digit_char)
  also have "\<dots> = n"
  proof -
    have "n div 100 = n div 10 div 10" "n div 1000 = n div 10 div 10 div 10" by (simp_all flip: div_mult2_eq)
    then show ?thesis by (simp only: div_mult_mod_eq)
  qed
  finally have v: "digits_value (?d @ ?f) = n" .
  show ?thesis
    unfolding parse_number_def show_seconds_def Let_def whole using d v frac
    by (simp add: parse_exponent_def power_int_minus inverse_eq_divide)
qed

lemma trim_visible:
  assumes "list_all (\<lambda>c. 33 \<le> byte_of c \<and> byte_of c < 128) s"
  shows "trim s = s"
proof -
  have ws: "ws_len (c # cs) = 0" if "33 \<le> byte_of c" "byte_of c < 128" for c cs
    using that by (simp add: ws_len_def split: list.splits)
  have "trim_start s = s" if "list_all (\<lambda>c. 33 \<le> byte_of c \<and> byte_of c < 128) s" for s
    using that by (cases s) (simp_all add: ws)
  note start = this
  have "trim_end s = s" using assms by (induction s) (simp_all add: all_whitespace_def ws)
  with start [OF assms] show ?thesis by (simp add: trim_def)
qed

lemma show_seconds_chars: "list_all (\<lambda>c. is_ascii_digit c \<or> c = CHR ''.'') (show_seconds n)"
  using decimal_digits [of "n div 1000"] digit_char
  by (auto simp: show_seconds_def list_all_iff)

lemma show_seconds_shape: "\<exists>c cs. show_seconds n = c # cs \<and> is_ascii_digit c"
  using decimal_digits [of "n div 1000"] by (cases "decimal (n div 1000)") (auto simp: show_seconds_def)

lemma parse_show_seconds: "parse_f64 (show_seconds n) = Some (f64_of False (of_nat n / 1000))"
proof -
  obtain c cs where s: "show_seconds n = c # cs" "is_ascii_digit c" using show_seconds_shape by blast
  then have low: "ascii_lower c = c" by (simp add: ascii_lower_def is_ascii_digit_def)
  have "to_ascii_lowercase (c # cs) \<noteq> d # ds" if "\<not> is_ascii_digit d" for d ds
    using s(2) that low by (auto simp: to_ascii_lowercase_def)
  then have "to_ascii_lowercase (c # cs) \<noteq> ''inf''" "to_ascii_lowercase (c # cs) \<noteq> ''infinity''"
    "to_ascii_lowercase (c # cs) \<noteq> ''nan''" "c \<noteq> CHR ''-''" "c \<noteq> CHR ''+''"
    using s(2) by (auto simp: is_ascii_digit_def byte_of_def)
  with s show ?thesis using show_seconds_number [of n] by (simp add: parse_f64_def Let_def)
qed

text \<open>Seconds with three decimals give back their milliseconds exactly.\<close>

lemma seconds_round_trip:
  assumes "n < 2 ^ 50"
  shows "seconds_to_millis (show_seconds n) = Ok n"
proof -
  have "trim (show_seconds n) = show_seconds n"
    using show_seconds_chars [of n] by (intro trim_visible) (auto simp: list_all_iff is_ascii_digit_def byte_of_def)
  moreover have "(2 :: rat) ^ 1024 > 9223372036854" by simp
  then have "f64_of False (of_nat n / 1000) = Finite (round_f64 (of_nat n / 1000))"
    using millis_survive(3) [OF assms] by (simp add: f64_of_def Let_def)
  ultimately show ?thesis using millis_survive [OF assms] parse_show_seconds [of n]
    by (simp add: seconds_to_millis_def)
qed

section \<open>Entities\<close>

definition escape_char :: "char \<Rightarrow> string" where
  "escape_char c =
     (if c = CHR ''&'' then ''&amp;'' else if c = CHR ''<'' then ''&lt;'' else if c = CHR ''>'' then ''&gt;''
      else if c = CHR 0x22 then ''&quot;'' else if c = CHR 0x27 then ''&#39;'' else [c])"

definition escape_text :: "string \<Rightarrow> string" where
  "escape_text s = concat (map escape_char s)"

lemma starts_with_char [simp]: "starts_with [c] (d # s) \<longleftrightarrow> d = c"
  by (simp add: starts_with_def)

lemma decode_rest_plain: "c \<noteq> CHR ''&'' \<Longrightarrow> decode_rest (c # s) = c # decode_rest s"
  by (subst (1 2) decode_rest.simps) (auto split: option.splits)

lemma decode_rest_entity:
  assumes "entity_at (e @ s) = Some (c, length e)"
  shows "decode_rest (CHR ''&'' # e @ s) = c @ decode_rest s"
  using assms by (subst decode_rest.simps) simp

lemma entity_at_token:
  assumes "list_all (\<lambda>c. c \<noteq> CHR '';'') token" "length token \<le> 9" "entity token = Some c"
  shows "entity_at ((token @ '';'') @ s) = Some (c, length (token @ '';''))"
proof -
  have "split_once '';'' (token @ CHR '';'' # t) = Some (token, t)" for t
    using assms(1) by (induction token) simp_all
  moreover have "take 10 ((token @ '';'') @ s) = token @ CHR '';'' # take (9 - length token) s"
  proof -
    have "10 - length token = Suc (9 - length token)" using assms(2) by simp
    then show ?thesis using assms(2) by simp
  qed
  ultimately show ?thesis using assms(3) by (simp add: entity_at_def)
qed

lemma decode_escape: "decode_rest (escape_text s) = s"
proof (induction s)
  case Nil
  show ?case by (subst decode_rest.simps) (simp add: escape_text_def)
next
  case (Cons c s)
  have step: "decode_rest (CHR ''&'' # (token @ '';'') @ escape_text s) = x @ s"
    if "list_all (\<lambda>c. c \<noteq> CHR '';'') token" "length token \<le> 9" "entity token = Some x" for token x
    using decode_rest_entity [OF entity_at_token [OF that]] Cons.IH by simp
  have e: "entity ''amp'' = Some ''&''" "entity ''lt'' = Some ''<''" "entity ''gt'' = Some ''>''"
    "entity ''quot'' = Some [CHR 0x22]" "entity ''#39'' = Some [CHR 0x27]" by code_simp+
  have "escape_text (c # s) = escape_char c @ escape_text s" by (simp add: escape_text_def)
  then show ?case
    using step [OF _ _ e(1)] step [OF _ _ e(2)] step [OF _ _ e(3)] step [OF _ _ e(4)] step [OF _ _ e(5)]
      decode_rest_plain [of c "escape_text s"] Cons.IH
    by (simp add: escape_char_def)
qed

lemma decode_entities_escape: "decode_entities (escape_text s) = Ok s"
proof (cases "split_once ''&'' (escape_text s)")
  case None
  then have "decode_rest (escape_text s) = escape_text s" by (subst decode_rest.simps) simp
  then show ?thesis using None by (simp add: decode_entities_def contains_str_def decode_escape)
qed (simp add: decode_entities_def contains_str_def decode_escape)

section \<open>The round trip\<close>

definition render_segment :: "segment \<Rightarrow> string" where
  "render_segment g =
     ''<text start='' @ [CHR 0x22] @ show_seconds (start_ms g) @ [CHR 0x22] @ '' dur='' @ [CHR 0x22]
     @ show_seconds (duration_ms g) @ [CHR 0x22] @ ''>'' @ escape_text (seg_text g) @ ''</text>''"

definition render_timedtext :: "segment list \<Rightarrow> string" where
  "render_timedtext gs = ''<transcript>'' @ concat (map render_segment gs) @ ''</transcript>''"

lemma split_once_first: "c \<notin> set w \<Longrightarrow> split_once (c # p) (w @ (c # p) @ t) = Some (w, t)"
proof (induction w)
  case Nil
  show ?case by (simp add: starts_with_def)
next
  case (Cons d w)
  then show ?case by (auto simp: starts_with_def)
qed

lemma split_once_first_char: "c \<notin> set w \<Longrightarrow> split_once [c] (w @ c # t) = Some (w, t)"
  using split_once_first [of c w "[]" t] by simp

lemma show_seconds_avoids: "c \<in> set (show_seconds n) \<Longrightarrow> c \<noteq> CHR 0x22 \<and> c \<noteq> CHR ''>''"
  using show_seconds_chars [of n] by (auto simp: list_all_iff is_ascii_digit_def byte_of_def)

lemma escape_text_avoids: "CHR ''<'' \<notin> set (escape_text s)"
  by (auto simp: escape_text_def escape_char_def split: if_splits)

lemma attribute_step:
  assumes "CHR ''='' \<notin> set key" "CHR 0x22 \<notin> set v"
  shows "attribute_value (key @ CHR ''='' # CHR 0x22 # v @ CHR 0x22 # r) name =
    (if ends_with name (trim key) then Some v else attribute_value r name)"
  using assms by (subst attribute_value.simps) (simp add: split_once_first_char strip_prefix_def)

lemma timing_rendered:
  assumes "n < 2 ^ 50" "k < 2 ^ 50"
  shows "timing_from_attributes ('' start='' @ [CHR 0x22] @ show_seconds n @ [CHR 0x22] @ '' dur='' @ [CHR 0x22]
     @ show_seconds k @ [CHR 0x22]) = Ok (n, k)"
proof -
  have q: "CHR 0x22 \<notin> set (show_seconds m)" for m using show_seconds_avoids by blast
  have t: "trim '' start'' = ''start''" "trim '' dur'' = ''dur''" by code_simp+
  have e: "ends_with ''start'' ''start''" "\<not> ends_with ''dur'' ''start''" "ends_with ''dur'' ''dur''" by code_simp+
  have "attribute_value ('' start='' @ [CHR 0x22] @ show_seconds n @ [CHR 0x22] @ '' dur='' @ [CHR 0x22]
     @ show_seconds k @ [CHR 0x22]) name =
     (if ends_with name ''start'' then Some (show_seconds n) else if ends_with name ''dur'' then Some (show_seconds k)
      else attribute_value [] name)" for name
    using attribute_step [of "'' start''" "show_seconds n" "'' dur='' @ [CHR 0x22] @ show_seconds k @ [CHR 0x22]" name]
      attribute_step [of "'' dur''" "show_seconds k" "[]" name] q t by simp
  then show ?thesis using seconds_round_trip assms e by (simp add: timing_from_attributes_def)
qed

text \<open>One element, from the parts its scan finds.\<close>

lemma xml_segments_text:
  assumes "takeWhile (\<lambda>c. c \<noteq> CHR '' '' \<and> c \<noteq> CHR ''>'') after = ''text''" "4 < length after"
    and "split_once ''>'' after = Some (''text'' @ attrs, body)" "split_once ''</text>'' body = Some (raw, r)"
    and "timing_from_attributes attrs = Ok timing" "decode_entities raw = Ok x"
  shows "xml_segments (CHR ''<'' # after) limits acc =
    (case collect_segment acc timing x limits of Err e \<Rightarrow> Err e | Ok acc' \<Rightarrow> xml_segments r limits acc')"
  using assms by (subst xml_segments.simps) (simp add: Let_def)

lemma xml_segments_render:
  assumes "start_ms g < 2 ^ 50" "duration_ms g < 2 ^ 50"
  shows "xml_segments (render_segment g @ r) limits acc =
    (case collect_segment acc (start_ms g, duration_ms g) (seg_text g) limits of
       Err e \<Rightarrow> Err e | Ok acc' \<Rightarrow> xml_segments r limits acc')"
proof -
  let ?attrs = "'' start='' @ [CHR 0x22] @ show_seconds (start_ms g) @ [CHR 0x22] @ '' dur='' @ [CHR 0x22]
     @ show_seconds (duration_ms g) @ [CHR 0x22]"
  let ?body = "escape_text (seg_text g) @ ''</text>'' @ r"
  let ?after = "''text'' @ ?attrs @ CHR ''>'' # ?body"
  have head: "render_segment g @ r = CHR ''<'' # ?after" by (simp add: render_segment_def)
  have name: "takeWhile (\<lambda>c. c \<noteq> CHR '' '' \<and> c \<noteq> CHR ''>'') ?after = ''text''" "4 < length ?after" by simp_all
  have "CHR ''>'' \<notin> set (''text'' @ ?attrs)" using show_seconds_avoids by auto
  then have tag: "split_once ''>'' ?after = Some (''text'' @ ?attrs, ?body)"
    using split_once_first_char [of "CHR ''>''" "''text'' @ ?attrs" ?body] by simp
  have closing: "split_once ''</text>'' ?body = Some (escape_text (seg_text g), r)"
    using split_once_first [OF escape_text_avoids, of "''/text>''" "seg_text g" r] by simp
  show ?thesis unfolding head
    by (rule xml_segments_text [OF name tag closing timing_rendered [OF assms] decode_entities_escape])
qed

lemma xml_segments_skip:
  assumes "takeWhile (\<lambda>c. c \<noteq> CHR '' '' \<and> c \<noteq> CHR ''>'') after = name" "length name < length after"
    and "name \<noteq> ''text''" "name \<noteq> ''p''"
  shows "xml_segments (CHR ''<'' # after) limits acc = xml_segments after limits acc"
  using assms by (subst xml_segments.simps) (simp add: Let_def)

lemma xml_segments_before: "CHR ''<'' \<notin> set w \<Longrightarrow> xml_segments (w @ CHR ''<'' # r) limits acc = xml_segments (CHR ''<'' # r) limits acc"
  by (subst (1 2) xml_segments.simps) (simp add: split_once_first_char)

lemma xml_segments_after: "CHR ''<'' \<notin> set w \<Longrightarrow> xml_segments w limits acc = Ok acc"
proof -
  assume "CHR ''<'' \<notin> set w"
  then have "split_once ''<'' w = None" by (induction w) auto
  then show ?thesis by (subst xml_segments.simps) simp
qed

lemma xml_segments_rendered:
  assumes "list_all (\<lambda>g. start_ms g < 2 ^ 50 \<and> duration_ms g < 2 ^ 50 \<and> char_count (seg_text g) \<le> yl_max_segment_characters limits) gs"
    and "length acc + length gs \<le> yl_max_segments limits"
  shows "xml_segments (concat (map render_segment gs) @ r) limits acc = xml_segments r limits (acc @ gs)"
  using assms
proof (induction gs arbitrary: acc)
  case (Cons g gs)
  have "collect_segment acc (start_ms g, duration_ms g) (seg_text g) limits = Ok (acc @ [g])"
    using Cons.prems by (simp add: collect_segment_def)
  then show ?case using Cons.IH [of "acc @ [g]"] Cons.prems by (simp add: xml_segments_render)
qed simp

text \<open>C36. Captions survive the wire. A transcript document whose elements carry their start and duration in
  seconds with three decimals, and their text with the reserved characters as entities, is parsed back to
  exactly the segments it was written from, in order, although the times pass through binary floating point:
  for times below \<open>2 ^ 50\<close> milliseconds, inside the byte, segment and text budgets.\<close>

theorem timed_text_round_trip:
  assumes "gs \<noteq> []" "length gs \<le> yl_max_segments limits"
    and "list_all (\<lambda>g. start_ms g < 2 ^ 50 \<and> duration_ms g < 2 ^ 50 \<and> char_count (seg_text g) \<le> yl_max_segment_characters limits) gs"
    and "length (render_timedtext gs) \<le> yl_max_track_bytes limits" "valid_utf8 (render_timedtext gs)"
  shows "parse_timedtext decode_json3 (render_timedtext gs) limits = Ok gs"
proof -
  let ?body = "concat (map render_segment gs) @ ''</transcript>''"
  obtain b where b: "?body = CHR ''<'' # b" using assms(1) by (cases gs) (simp_all add: render_segment_def)
  have "xml_segments (CHR ''<'' # (''transcript>'' @ ?body)) limits [] = xml_segments (''transcript>'' @ ?body) limits []"
    by (rule xml_segments_skip [where name = "''transcript''"]) simp_all
  also have "\<dots> = xml_segments ?body limits []" unfolding b by (rule xml_segments_before) simp
  also have "\<dots> = xml_segments ''</transcript>'' limits gs" using xml_segments_rendered [OF assms(3), of "[]"] assms(2) by simp
  also have "\<dots> = xml_segments ''/transcript>'' limits gs"
    by (rule xml_segments_skip [where name = "''/transcript''"]) simp_all
  also have "\<dots> = Ok gs" by (rule xml_segments_after) simp
  finally have "xml_segments (render_timedtext gs) limits [] = Ok gs" by (simp add: render_timedtext_def)
  moreover have "render_timedtext gs = CHR ''<'' # (''transcript>'' @ ?body)" by (simp add: render_timedtext_def)
  moreover have "ws_len (CHR ''<'' # x) = 0" for x by (simp add: ws_len_def byte_of_def split: list.splits)
  ultimately show ?thesis using assms by (simp add: parse_timedtext_def Let_def)
qed

definition sample_segments :: "segment list" where
  "sample_segments = [\<lparr>start_ms = 1500, duration_ms = 2250, seg_text = ''a<b & c''\<rparr>, \<lparr>start_ms = 3750, duration_ms = 1, seg_text = ''x''\<rparr>]"

theorem timed_text_round_trip_witness:
  "parse_timedtext (\<lambda>_. None) (render_timedtext sample_segments) (sample_youtube_limits\<lparr>yl_max_track_bytes := 200\<rparr>) = Ok sample_segments"
proof -
  have a: "length (render_timedtext sample_segments) \<le> 200" "valid_utf8 (render_timedtext sample_segments)" by code_simp+
  have b: "list_all (\<lambda>g. start_ms g < 2 ^ 50 \<and> duration_ms g < 2 ^ 50 \<and> char_count (seg_text g) \<le> 20) sample_segments" by code_simp
  show ?thesis
    by (rule timed_text_round_trip) (use a b in \<open>simp_all add: sample_youtube_limits_def\<close>, simp_all add: sample_segments_def)
qed

text \<open>A wanted attribute is also found under a longer name that ends with it: the duration of this element is
  taken from its \<open>id\<close>.\<close>

lemma attribute_found_by_its_ending:
  "timing_from_attributes ('' id='' @ [CHR 0x22] @ ''7'' @ [CHR 0x22] @ '' t='' @ [CHR 0x22] @ ''100'' @ [CHR 0x22] @ '' d=''
     @ [CHR 0x22] @ ''500'' @ [CHR 0x22]) = Ok (100, 7)"
  by code_simp

end
