(* ===== verification/Transcript.thy ===== *)
theory Transcript
  imports TimedText
begin

text \<open>
  From transcript segments to a document, \<open>crates/youtube/src/convert.rs\<close>, with the timing sidecar of
  \<open>crates/youtube/src/sidecar.rs\<close>. Segment counts are bounded by memory, so the products of the grouping
  stay far below the size of a machine word.
\<close>

section \<open>Definitions\<close>

record block_timing =
  bt_block_index :: nat
  bt_start_ms :: nat
  bt_end_ms :: nat

record timing_sidecar =
  ts_strategy :: string
  ts_language :: string
  ts_title :: "string option"
  ts_channel :: "string option"
  ts_duration_seconds :: "nat option"
  ts_segment_count :: nat
  ts_blocks :: "block_timing list"

record transcript_input =
  ti_owner :: uuid
  ti_address :: string
  ti_blob :: blob_ref
  ti_meta :: player_meta
  ti_segments :: "segment list"
  ti_language :: string

record transcript_extraction =
  te_document :: "string document"
  te_candidate :: candidate_decision
  te_sidecar :: timing_sidecar

text \<open>The loop over the segments of one group: the text, the first start and the last end.\<close>

fun merge_segments :: "segment list \<Rightarrow> nat \<Rightarrow> string \<times> nat \<times> nat \<Rightarrow> string \<times> nat \<times> nat" where
  "merge_segments [] position acc = acc"
| "merge_segments (g # gs) position (body, start, finish) =
     merge_segments gs (Suc position)
       ((if position > 0 then body @ '' '' else body) @ seg_text g,
        (if position = 0 then start_ms g else start),
        sat_add u64_max (start_ms g) (duration_ms g))"

definition group_range :: "nat \<Rightarrow> nat \<Rightarrow> nat \<Rightarrow> 'a list \<Rightarrow> 'a list" where
  "group_range count groups g xs =
     (let first = count * g div groups; past = count * (g + 1) div groups in take (past - first) (drop first xs))"

fun grouped_from ::
  "segment list \<Rightarrow> nat \<Rightarrow> nat list \<Rightarrow> (youtube_error, document_block list \<times> block_timing list) res" where
  "grouped_from segments groups [] = Ok ([], [])"
| "grouped_from segments groups (g # gs) =
     (case merge_segments (group_range (length segments) groups g segments) 0 ([], 0, 0) of (body, start, finish) \<Rightarrow>
        rbind (ok_or YResourceLimit (try_from u32_max g)) (\<lambda>index.
        rbind (grouped_from segments groups gs) (\<lambda>(blocks, timings).
          Ok (paragraph_block body # blocks,
              \<lparr>bt_block_index = index, bt_start_ms = start, bt_end_ms = finish\<rparr> # timings))))"

definition grouped_blocks ::
  "segment list \<Rightarrow> nat \<Rightarrow> (youtube_error, document_block list \<times> block_timing list) res" where
  "grouped_blocks segments max_blocks =
     (let groups = min max_blocks (length segments) in grouped_from segments groups [0..<groups])"

definition selected_transcript_decision :: "candidate_decision \<Rightarrow> candidate_decision" where
  "selected_transcript_decision decision = decision\<lparr>selected := True\<rparr>"

definition normalized_title :: "string option \<Rightarrow> string option" where
  "normalized_title raw = (case raw of None \<Rightarrow> None | Some t \<Rightarrow> if trim t = [] then None else Some (trim t))"

definition transcript_identity_error :: "document_ir_error \<Rightarrow> youtube_error" where
  "transcript_identity_error e = (case e of Serialization \<Rightarrow> YSerialization | _ \<Rightarrow> YInvalidIdentity)"

definition from_transcript ::
  "ir_env \<Rightarrow> transcript_input \<Rightarrow> youtube_limits \<Rightarrow> (youtube_error, transcript_extraction) res" where
  "from_transcript env input limits =
     (if yl_max_blocks limits = 0 then Err YResourceLimit
      else if ti_segments input = [] then Err YSchema
      else
        let title = normalized_title (pm_title (ti_meta input)) in
        rbind (grouped_blocks (ti_segments input) (yl_max_blocks limits)) (\<lambda>(blocks, timings).
        let candidate = selected_transcript_decision (evaluate_plain_text YOUTUBE_STRATEGY blocks title) in
        rbind (ok_or YInvalidIdentity (parse_strategy env YOUTUBE_STRATEGY)) (\<lambda>strat.
        rbind (ok_or YInvalidIdentity (parse_language env (ti_language input))) (\<lambda>language.
        rbind (map_err transcript_identity_error
                 (assemble_document env (ti_owner input) (ti_address input) (ti_blob input) strat title
                    (Some language) blocks)) (\<lambda>document.
          Ok \<lparr>te_document = document, te_candidate = candidate,
              te_sidecar = \<lparr>ts_strategy = YOUTUBE_STRATEGY, ts_language = ti_language input,
                            ts_title = pm_title (ti_meta input), ts_channel = pm_channel (ti_meta input),
                            ts_duration_seconds = pm_duration_seconds (ti_meta input),
                            ts_segment_count = length (ti_segments input), ts_blocks = timings\<rparr>\<rparr>)))))"

section \<open>The grouping\<close>

lemma merge_segments_tail:
  "0 < k \<Longrightarrow> merge_segments gs k (body, start, finish) =
     (body @ concat (map (\<lambda>g. '' '' @ seg_text g) gs), start,
      (if gs = [] then finish else sat_add u64_max (start_ms (last gs)) (duration_ms (last gs))))"
  by (induction gs arbitrary: k body finish) auto

lemma join_with_Cons: "join_with sep (x # xs) = x @ concat (map (\<lambda>y. sep @ y) xs)"
  by (induction xs arbitrary: x) auto

lemma merge_segments_group:
  assumes "gs \<noteq> []"
  shows "merge_segments gs 0 ([], 0, 0) =
    (join_with '' '' (map seg_text gs), start_ms (hd gs), sat_add u64_max (start_ms (last gs)) (duration_ms (last gs)))"
proof -
  obtain g rest where gs: "gs = g # rest" using assms by (cases gs) auto
  show ?thesis
    by (cases rest) (simp_all add: gs merge_segments_tail join_with_Cons o_def)
qed

text \<open>The groups cut the segments into consecutive pieces, none of them empty.\<close>

lemma concat_ranges:
  assumes "mono f" "f 0 = 0"
  shows "concat (map (\<lambda>g. take (f (Suc g) - f g) (drop (f g) xs)) [0..<k]) = take (f k) xs"
proof (induction k)
  case (Suc k)
  have "f k \<le> f (Suc k)" using assms(1) by (simp add: monoD)
  then have "take (f (Suc k)) xs = take (f k) xs @ take (f (Suc k) - f k) (drop (f k) xs)"
    by (metis le_add_diff_inverse take_add)
  with Suc.IH show ?case by simp
qed (simp add: assms(2))

lemma groups_cover:
  assumes "0 < groups"
  shows "concat (map (\<lambda>g. group_range (length xs) groups g xs) [0..<groups]) = xs"
proof -
  let ?f = "\<lambda>g. length xs * g div groups"
  have "concat (map (\<lambda>g. take (?f (Suc g) - ?f g) (drop (?f g) xs)) [0..<groups]) = take (?f groups) xs"
    by (rule concat_ranges) (auto simp: mono_def div_le_mono)
  then show ?thesis using assms by (simp add: group_range_def Let_def)
qed

lemma group_range_nonempty:
  assumes "groups \<le> length xs" "g < groups"
  shows "group_range (length xs) groups g xs \<noteq> []"
proof -
  let ?n = "length xs"
  have "?n * g div groups + 1 \<le> (?n * g + groups) div groups" using assms by simp
  also have "\<dots> \<le> (?n * g + ?n) div groups" using assms(1) by (simp add: div_le_mono)
  finally have more: "?n * g div groups < ?n * (g + 1) div groups" by (simp add: algebra_simps)
  have "?n * (g + 1) div groups \<le> ?n * groups div groups" using assms(2) by (intro div_le_mono mult_le_mono) simp_all
  then have "?n * g div groups < ?n" using more assms(2) by simp
  then show ?thesis using more by (simp add: group_range_def Let_def)
qed

lemma grouped_from_Ok:
  assumes "grouped_from segments groups gs = Ok (blocks, timings)"
  shows "length blocks = length gs \<and> length timings = length gs
    \<and> (\<forall>i < length gs. case merge_segments (group_range (length segments) groups (gs ! i) segments) 0 ([], 0, 0) of
         (body, start, finish) \<Rightarrow> blocks ! i = paragraph_block body
           \<and> timings ! i = \<lparr>bt_block_index = gs ! i, bt_start_ms = start, bt_end_ms = finish\<rparr>)"
  using assms
proof (induction gs arbitrary: blocks timings)
  case (Cons g gs)
  from Cons.prems obtain body start finish bs ts where
    m: "merge_segments (group_range (length segments) groups g segments) 0 ([], 0, 0) = (body, start, finish)"
    and rest: "grouped_from segments groups gs = Ok (bs, ts)"
    and out: "blocks = paragraph_block body # bs"
      "timings = \<lparr>bt_block_index = g, bt_start_ms = start, bt_end_ms = finish\<rparr> # ts"
    by (auto simp: try_from_def split: prod.splits if_splits)
  show ?case using Cons.IH [OF rest] m out by (auto simp: nth_Cons' less_Suc_eq_0_disj split: prod.splits)
qed simp

text \<open>The pieces a transcript is cut into, and what one piece contributes.\<close>

definition transcript_pieces :: "segment list \<Rightarrow> nat \<Rightarrow> segment list list" where
  "transcript_pieces segments groups = map (\<lambda>g. group_range (length segments) groups g segments) [0..<groups]"

definition piece_block :: "segment list \<Rightarrow> document_block" where
  "piece_block p = paragraph_block (join_with '' '' (map seg_text p))"

definition piece_timing :: "nat \<Rightarrow> segment list \<Rightarrow> block_timing" where
  "piece_timing i p = \<lparr>bt_block_index = i, bt_start_ms = start_ms (hd p),
     bt_end_ms = sat_add u64_max (start_ms (last p)) (duration_ms (last p))\<rparr>"

lemma grouped_blocks_Ok:
  assumes "grouped_blocks segments max_blocks = Ok (blocks, timings)"
  defines "pieces \<equiv> transcript_pieces segments (min max_blocks (length segments))"
  shows "blocks = map piece_block pieces" "timings = map2 piece_timing [0..<length pieces] pieces"
proof -
  let ?n = "min max_blocks (length segments)"
  have g: "grouped_from segments ?n [0..<?n] = Ok (blocks, timings)"
    using assms(1) by (simp add: grouped_blocks_def Let_def)
  have len: "length pieces = ?n" by (simp add: pieces_def transcript_pieces_def)
  have at: "blocks ! i = piece_block (pieces ! i) \<and> timings ! i = piece_timing i (pieces ! i)" if "i < ?n" for i
  proof -
    have "group_range (length segments) ?n i segments \<noteq> []" using that by (intro group_range_nonempty) simp_all
    then show ?thesis using grouped_from_Ok [OF g] that
      by (auto simp: merge_segments_group pieces_def transcript_pieces_def piece_block_def piece_timing_def)
  qed
  show "blocks = map piece_block pieces" "timings = map2 piece_timing [0..<length pieces] pieces"
    using grouped_from_Ok [OF g] at by (auto intro!: nth_equalityI simp: len)
qed

text \<open>C37. A converted transcript loses nothing and invents nothing. Its segments are cut into as many
  consecutive non-empty pieces as the block limit allows, and never more; each piece is one paragraph of the
  document, its texts joined by blanks, and one entry of the sidecar, with the paragraph's number, the start
  of the first and the saturated end of the last segment of the piece. The document carries the trimmed title
  and the given address; the one candidate is selected.\<close>

theorem transcript_document_covers_every_segment:
  assumes "from_transcript env input limits = Ok x"
  shows "\<exists>pieces. concat pieces = ti_segments input \<and> [] \<notin> set pieces
    \<and> length pieces = min (yl_max_blocks limits) (length (ti_segments input)) \<and> 0 < length pieces
    \<and> map digest_block_of (doc_blocks (te_document x)) = map (digest_block_of \<circ> piece_block) pieces
    \<and> ts_blocks (te_sidecar x) = map2 piece_timing [0..<length pieces] pieces
    \<and> ts_segment_count (te_sidecar x) = length (ti_segments input)
    \<and> doc_title (te_document x) = normalized_title (pm_title (ti_meta input))
    \<and> source_address (te_document x) = ti_address input
    \<and> te_candidate x = (evaluate_plain_text YOUTUBE_STRATEGY (map piece_block pieces)
                          (normalized_title (pm_title (ti_meta input))))\<lparr>selected := True\<rparr>"
proof -
  let ?segments = "ti_segments input" and ?title = "normalized_title (pm_title (ti_meta input))"
  let ?n = "min (yl_max_blocks limits) (length ?segments)"
  let ?pieces = "transcript_pieces ?segments ?n"
  from assms obtain blocks timings strat language where
    pos: "0 < yl_max_blocks limits" "?segments \<noteq> []"
    and g: "grouped_blocks ?segments (yl_max_blocks limits) = Ok (blocks, timings)"
    and doc: "assemble_document env (ti_owner input) (ti_address input) (ti_blob input) strat ?title
        (Some language) blocks = Ok (te_document x)"
    and x: "ts_blocks (te_sidecar x) = timings" "ts_segment_count (te_sidecar x) = length ?segments"
      "te_candidate x = (evaluate_plain_text YOUTUBE_STRATEGY blocks ?title)\<lparr>selected := True\<rparr>"
    by (auto simp: from_transcript_def Let_def selected_transcript_decision_def split: if_splits)
  have "0 < ?n" using pos by simp
  then have "concat ?pieces = ?segments" unfolding transcript_pieces_def by (rule groups_cover)
  moreover have "[] \<notin> set ?pieces" using group_range_nonempty [of ?n ?segments] by (force simp: transcript_pieces_def)
  moreover have "length ?pieces = ?n" by (simp add: transcript_pieces_def)
  ultimately show ?thesis using \<open>0 < ?n\<close> grouped_blocks_Ok [OF g] x assembled_content [OF doc]
    by (intro exI [of _ ?pieces]) simp
qed

definition sample_transcript :: transcript_input where
  "sample_transcript = \<lparr>ti_owner = replicate 16 1, ti_address = ''https://www.youtube.com/watch?v=abcdefghijk'',
     ti_blob = sample_ref,
     ti_meta = \<lparr>pm_title = Some '' Talk '', pm_channel = None, pm_duration_seconds = Some 9, pm_tracks = []\<rparr>,
     ti_segments = [\<lparr>start_ms = 0, duration_ms = 900, seg_text = ''one''\<rparr>,
       \<lparr>start_ms = 900, duration_ms = 100, seg_text = ''two''\<rparr>, \<lparr>start_ms = 1500, duration_ms = 500, seg_text = ''three''\<rparr>],
     ti_language = ''en''\<rparr>"

lemma sample_transcript_ok: "is_ok (from_transcript sample_ir_env sample_transcript sample_youtube_limits)"
  by code_simp

theorem transcript_document_covers_every_segment_witness:
  "\<exists>x pieces. from_transcript sample_ir_env sample_transcript sample_youtube_limits = Ok x
     \<and> length pieces = 2 \<and> concat pieces = ti_segments sample_transcript
     \<and> map digest_block_of (doc_blocks (te_document x)) = map (digest_block_of \<circ> piece_block) pieces"
proof -
  obtain x where x: "from_transcript sample_ir_env sample_transcript sample_youtube_limits = Ok x"
    using sample_transcript_ok by (auto simp: is_ok_iff)
  have "min (yl_max_blocks sample_youtube_limits) (length (ti_segments sample_transcript)) = 2"
    by (simp add: sample_youtube_limits_def sample_transcript_def)
  then show ?thesis using transcript_document_covers_every_segment [OF x] x by metis
qed

end
