(* ===== verification/PipelineCore.thy ===== *)
theory PipelineCore
  imports SafeFetch Rendering Eventing Pdf Providers Media Transcript
begin

text \<open>
  What the per-run pipeline of \<open>services/extractor\<close> is made of: the state a run works on, the effects it
  performs one after the other, the error type of \<open>pipeline.rs\<close> and the escalation policy of
  \<open>escalation.rs\<close>. An effect is one awaited call. Before effect number \<open>k\<close> the rest of the system acts on the
  database, the archived media and the files as \<open>px_others env k\<close> says; every outcome the effect does not
  determine itself (commit, I/O, network, panic, broker) is read from the environment at \<open>k\<close>. The trace
  records which URLs are fetched, which budget slots are spent, which render commands are sent and which
  bytes are parsed; no operation reads it.
\<close>

section \<open>State and effects\<close>

datatype process_error =
    BlobFailed blob_store_error | FetchFailed safe_fetch_error | TelemetryFailed | IoFailed io_kind
  | DatabaseFailed persistence_error | BusFailed | TopologyFailed | EventingFailed consume_error | JoinFailed
  | BackgroundStopped | DocumentIdentity | ProviderFailed provider_error

datatype pipeline_event =
    Fetched string | BudgetSpent | RenderAsked render_command | Parsed string

record 'u pstate =
  ps_db :: db
  ps_media :: "media_row list"
  ps_world :: "'u world"
  ps_tick :: nat
  ps_trace :: "pipeline_event list"

record ('u, 'n, 'd) penv =
  px_event :: "'u event_env"
  px_provider :: "('u, 'n) provider_env"
  px_pdf :: "'d pdf_lib"
  px_player :: "string \<Rightarrow> player_response option"
  px_json3 :: "string \<Rightarrow> json3_event list option"
  px_document_json :: "string document \<Rightarrow> string option"
  px_diagnostics_json :: "timing_sidecar \<Rightarrow> string \<Rightarrow> string option"
  px_render_completed :: "string \<Rightarrow> render_completed option"
  px_render_failed :: "string \<Rightarrow> render_failed option"
  px_blob :: store_env
  px_fetcher :: "'u fetcher"
  px_others :: "nat \<Rightarrow> db \<times> media_row list \<times> fs \<Rightarrow> db \<times> media_row list \<times> fs"
  px_cx :: "nat \<Rightarrow> call_env"
  px_fate :: "nat \<Rightarrow> tx_fate"
  px_query_up :: "nat \<Rightarrow> bool"
  px_day :: "nat \<Rightarrow> nat"
  px_net :: "nat \<Rightarrow> 'u net"
  px_io :: "nat \<Rightarrow> io_faults"
  px_staging :: "nat \<Rightarrow> string"
  px_read :: "nat \<Rightarrow> io_kind option"
  px_joined :: "nat \<Rightarrow> bool"
  px_published :: "nat \<Rightarrow> bool"
  px_consumer :: "nat \<Rightarrow> bool"
  px_pass :: "nat \<Rightarrow> nat \<Rightarrow> render_pass"
  px_archive :: "nat \<Rightarrow> archive_env"

record handles =
  h_store :: blob_store
  h_telegram :: blob_store
  h_parser :: parser_config
  h_pdf :: pdf_config
  h_providers :: providers_config
  h_render :: render_config
  h_youtube :: youtube_config

type_synonym ('u, 'a) act = "'u pstate \<Rightarrow> (process_error, 'a) res \<times> 'u pstate"

definition preturn :: "'a \<Rightarrow> ('u, 'a) act" where
  "preturn x = (\<lambda>s. (Ok x, s))"

definition pfail :: "process_error \<Rightarrow> ('u, 'a) act" where
  "pfail e = (\<lambda>s. (Err e, s))"

definition pbind :: "('u, 'a) act \<Rightarrow> ('a \<Rightarrow> ('u, 'b) act) \<Rightarrow> ('u, 'b) act" where
  "pbind m f = (\<lambda>s. case m s of (Err e, s') \<Rightarrow> (Err e, s') | (Ok x, s') \<Rightarrow> f x s')"

lemma pbind_Ok: "m s = (Ok x, u) \<Longrightarrow> pbind m f s = f x u"
  by (simp add: pbind_def)

lemma pbind_Err: "m s = (Err e, u) \<Longrightarrow> pbind m f s = (Err e, u)"
  by (simp add: pbind_def)

definition lift :: "(process_error, 'a) res \<Rightarrow> ('u, 'a) act" where
  "lift r = (case r of Err e \<Rightarrow> pfail e | Ok x \<Rightarrow> preturn x)"

definition disturbed :: "('u, 'n, 'd) penv \<Rightarrow> 'u pstate \<Rightarrow> 'u pstate" where
  "disturbed env s =
     (case px_others env (ps_tick s) (ps_db s, ps_media s, files (ps_world s)) of (d, m, f) \<Rightarrow>
        s\<lparr>ps_db := d, ps_media := m, ps_world := (ps_world s)\<lparr>files := f\<rparr>, ps_tick := Suc (ps_tick s)\<rparr>)"

definition effect :: "('u, 'n, 'd) penv \<Rightarrow> (nat \<Rightarrow> ('u, 'a) act) \<Rightarrow> ('u, 'a) act" where
  "effect env f = (\<lambda>s. f (ps_tick s) (disturbed env s))"

text \<open>A transaction, and a read of the database that may fail.\<close>

definition on_db :: "('u, 'n, 'd) penv \<Rightarrow> (nat \<Rightarrow> db \<Rightarrow> (consume_error, 'a) res \<times> db) \<Rightarrow> ('u, 'a) act" where
  "on_db env f = effect env (\<lambda>k s. case f k (ps_db s) of (r, d) \<Rightarrow> (map_err EventingFailed r, s\<lparr>ps_db := d\<rparr>))"

definition safe_fetch :: "('u, 'n, 'd) penv \<Rightarrow> string \<Rightarrow> ('u, (safe_fetch_error, 'u fetch_result) res) act" where
  "safe_fetch env url = effect env (\<lambda>k s.
     case fetch_url (px_net env k) (px_fetcher env) (request_new url) (ps_world s) of
       (r, w) \<Rightarrow> (Ok r, s\<lparr>ps_world := w, ps_trace := ps_trace s @ [Fetched url]\<rparr>))"

definition verified :: "('u, 'n, 'd) penv \<Rightarrow> blob_store \<Rightarrow> blob_ref \<Rightarrow> ('u, (blob_store_error, path) res) act" where
  "verified env bs ref = effect env (\<lambda>k s. (Ok (verify (px_blob env) (px_io env k) bs ref (files (ps_world s))), s))"

definition read_file :: "('u, 'n, 'd) penv \<Rightarrow> path \<Rightarrow> ('u, (io_kind, string) res) act" where
  "read_file env p = effect env (\<lambda>k s.
     (Ok (case px_read env k of Some e \<Rightarrow> Err e | None \<Rightarrow> fs_open p (files (ps_world s))), s))"

definition read_or_fail :: "('u, 'n, 'd) penv \<Rightarrow> path \<Rightarrow> ('u, string) act" where
  "read_or_fail env p = pbind (read_file env p) (\<lambda>r. lift (map_err IoFailed r))"

definition store_bytes :: "('u, 'n, 'd) penv \<Rightarrow> blob_store \<Rightarrow> string \<Rightarrow> string \<Rightarrow> ('u, blob_ref) act" where
  "store_bytes env bs media bytes = effect env (\<lambda>k s.
     case store (px_blob env) (px_io env k) bs (px_staging env k) media [Ok bytes] (files (ps_world s)) of
       (r, f) \<Rightarrow> (map_err BlobFailed r, s\<lparr>ps_world := (ps_world s)\<lparr>files := f\<rparr>\<rparr>))"

definition store_ir :: "('u, 'n, 'd) penv \<Rightarrow> blob_store \<Rightarrow> string document \<Rightarrow> ('u, blob_ref) act" where
  "store_ir env bs document = effect env (\<lambda>k s.
     case store_document_ir (px_document_json env) (px_blob env) (px_io env k) bs (px_staging env k) document
            (files (ps_world s)) of
       (r, f) \<Rightarrow> (map_err EventingFailed r, s\<lparr>ps_world := (ps_world s)\<lparr>files := f\<rparr>\<rparr>))"

text \<open>\<open>spawn_blocking(...).await?\<close>: the result of the parser, or a panicked task.\<close>

definition blocking :: "('u, 'n, 'd) penv \<Rightarrow> string \<Rightarrow> 'a \<Rightarrow> ('u, 'a) act" where
  "blocking env bytes x = effect env (\<lambda>k s.
     (if px_joined env k then Ok x else Err JoinFailed, s\<lparr>ps_trace := ps_trace s @ [Parsed bytes]\<rparr>))"

definition document_address :: "('u, 'n, 'd) penv \<Rightarrow> string \<Rightarrow> ('u, string) act" where
  "document_address env text = lift (ok_or DocumentIdentity (pv_address (px_provider env) text))"

section \<open>The escalation policy\<close>

record escalation_inputs =
  ei_quality_rejected :: bool
  ei_empty_shell_evidence :: bool
  ei_host :: "string option"
  ei_config :: render_config
  ei_budget_remaining :: bool

datatype escalation_denial =
  QualityNotRejected | RenderingDisabled | NotAnEmptyShell | HostNotAllowed | DailyBudgetExhausted

fun denial_str :: "escalation_denial \<Rightarrow> string" where
  "denial_str QualityNotRejected = ''quality_not_rejected''"
| "denial_str RenderingDisabled = ''rendering_disabled''"
| "denial_str NotAnEmptyShell = ''not_an_empty_shell''"
| "denial_str HostNotAllowed = ''host_not_allowed''"
| "denial_str DailyBudgetExhausted = ''daily_budget_exhausted''"

datatype escalation_decision = Escalate | Denied escalation_denial

definition host_allowed :: "string option \<Rightarrow> string list \<Rightarrow> bool" where
  "host_allowed host allowed_hosts =
     (case host of
        None \<Rightarrow> allowed_hosts = []
      | Some h \<Rightarrow> allowed_hosts = [] \<or> to_ascii_lowercase h \<in> set allowed_hosts)"

definition decide :: "escalation_inputs \<Rightarrow> escalation_decision" where
  "decide i =
     (if \<not> ei_quality_rejected i then Denied QualityNotRejected
      else if \<not> render_enabled (ei_config i) then Denied RenderingDisabled
      else if \<not> ei_empty_shell_evidence i then Denied NotAnEmptyShell
      else if \<not> host_allowed (ei_host i) (render_allowed_hosts (ei_config i)) then Denied HostNotAllowed
      else if \<not> ei_budget_remaining i then Denied DailyBudgetExhausted
      else Escalate)"

lemma decide_Escalate:
  "decide i = Escalate \<longleftrightarrow>
     ei_quality_rejected i \<and> render_enabled (ei_config i) \<and> ei_empty_shell_evidence i
     \<and> host_allowed (ei_host i) (render_allowed_hosts (ei_config i)) \<and> ei_budget_remaining i"
  by (simp add: decide_def)

section \<open>Runs that are settled\<close>

definition run_started :: "db \<Rightarrow> uuid \<Rightarrow> bool" where
  "run_started d i = (\<exists>r\<in>set (runs d). run_id r = i \<and> run_status r \<noteq> Queued)"

definition run_settled :: "db \<Rightarrow> uuid \<Rightarrow> bool" where
  "run_settled d i = (\<exists>r\<in>set (runs d). run_id r = i \<and> terminal r)"

definition keeps :: "db \<Rightarrow> db \<Rightarrow> bool" where
  "keeps d e = (db_inv d \<longrightarrow> db_inv e \<and> later d e)"

lemma keeps_refl [simp]: "keeps d d"
  by (simp add: keeps_def)

lemma keeps_trans: "keeps d e \<Longrightarrow> keeps e f \<Longrightarrow> keeps d f"
  using later_trans by (auto simp: keeps_def)

lemma settled_later: "run_settled d i \<Longrightarrow> later d e \<Longrightarrow> run_settled e i"
  unfolding run_settled_def later_def run_later_def by metis

lemma started_later: "run_started d i \<Longrightarrow> later d e \<Longrightarrow> run_started e i"
  unfolding run_started_def later_def run_later_def by metis

lemma not_running_is_settled:
  assumes "run_started d i" "\<And>r. r \<in> set (runs d) \<Longrightarrow> run_id r = i \<Longrightarrow> run_status r \<noteq> Running"
  shows "run_settled d i"
  using assms unfolding run_started_def run_settled_def terminal_def by (metis insertI1 insertI2 run_status.exhaust)

text \<open>The contract of the transactions that end a run: whatever happens to the commit the history is kept,
  and an answer means that the run is terminal.\<close>

locale run_ender =
  fixes op :: "db \<Rightarrow> (consume_error, completion) res \<times> db" and i :: uuid
  assumes keeps: "op d = (r, e) \<Longrightarrow> keeps d e"
    and ends: "op d = (Ok c, e) \<Longrightarrow> db_inv d \<Longrightarrow> run_started d i \<Longrightarrow> run_settled e i"

lemma finishes_settles: "finishes cx st failure r os d e \<Longrightarrow> st \<in> {Succeeded, Failed} \<Longrightarrow> run_settled e (run_id r)"
  unfolding finishes_def run_settled_def by (auto simp: update_where_def terminal_def intro!: bexI [where x = "finish_row cx st failure r"])

lemma finish_run_settles:
  assumes "finish_run cx st failure i d = Ok (c, e)" "run_started d i" "st \<in> {Succeeded, Failed}"
  shows "run_settled e i"
  using assms(1)
proof (cases rule: finish_run_cases)
  case none
  then show ?thesis using not_running_is_settled [OF assms(2)] by blast
next
  case (some r)
  then show ?thesis using assms(3)
    by (auto simp: run_settled_def update_where_def terminal_def intro!: bexI [where x = "finish_row cx st failure r"])
qed

lemma transact_Ok: "transact fate d body = (Ok x, e) \<Longrightarrow> body d = Ok (x, e)"
  by (erule transact_cases) auto

lemma settled_runs: "runs e = runs d \<Longrightarrow> run_settled e i = run_settled d i"
  by (simp add: run_settled_def)

lemma fail_run_ends:
  assumes "fail_run env cx fate i c retryable steps d = (Ok x, e)" "db_inv d" "run_started d i"
  shows "run_settled e i"
proof (cases x)
  case Completed
  with fail_run_effect [OF assms(2,1)] show ?thesis
    unfolding failed_effect_def using finishes_settles by fastforce
next
  case AlreadyTerminal
  with assms(1) have "finish_run cx Failed (Some c) i d = Ok (None, e)"
    by (auto simp: fail_run_def split: if_splits option.splits dest!: transact_Ok)
  then show ?thesis using assms(3) by (rule finish_run_settles) simp
qed

lemma reject_ends:
  assumes "reject env cx fate i j d = (Ok x, e)" "db_inv d" "run_started d i"
  shows "run_settled e i"
proof (cases x)
  case Completed
  with reject_effect [OF assms(2,1)] show ?thesis
    unfolding failed_effect_def using finishes_settles by fastforce
next
  case AlreadyTerminal
  with assms(1) have "finish_run cx Failed (Some (rj_failure_class j)) i d = Ok (None, e)"
    by (auto simp: reject_def reject_body_def split: if_splits option.splits sum.splits dest!: transact_Ok)
  then show ?thesis using assms(3) by (rule finish_run_settles) simp
qed

lemma complete_ends:
  assumes "Completion.complete env cx fate run v d = (Ok x, e)" "db_inv d" "run_started d (qr_run_id run)"
  shows "run_settled e (qr_run_id run)"
proof (cases x)
  case Completed
  with complete_effect [OF assms(2,1)] show ?thesis
    unfolding completed_effect_def using finishes_settles by fastforce
next
  case AlreadyTerminal
  with assms(1) have "finish_run cx Succeeded None (qr_run_id run) d = Ok (None, e)"
    by (auto simp: Completion.complete_def settle_answer_def complete_body_def
        split: if_splits option.splits sum.splits prod.splits dest!: transact_Ok)
  then show ?thesis using assms(3) by (rule finish_run_settles) simp
qed

lemma db_step_keeps: "db_step env t d e \<Longrightarrow> keeps d e"
  using db_step_inv by (auto simp: keeps_def)

interpretation failing: run_ender "fail_run env cx fate i c retryable steps" i
  for env cx fate i c retryable steps
  by unfold_locales (blast intro: db_step_keeps db_step.fail fail_run_ends)+

interpretation rejecting: run_ender "reject env cx fate i j" i for env cx fate i j
  by unfold_locales (blast intro: db_step_keeps db_step.reject reject_ends)+

interpretation completing: run_ender "Completion.complete env cx fate run v" "qr_run_id run" for env cx fate run v
  by unfold_locales (blast intro: db_step_keeps db_step.complete complete_ends)+

section \<open>Actions that keep the history, and actions that settle their run\<close>

text \<open>The rest of the system keeps the history: its steps are the transactions of the other workers, the
  relay and the consumer.\<close>

definition steady :: "('u, 'n, 'd) penv \<Rightarrow> bool" where
  "steady env =
     ((\<forall>k d m f. keeps d (fst (px_others env k (d, m, f))))
      \<and> (\<forall>k t. keeps (fst t) (fst (av_others (px_archive env k) t))))"

definition careful :: "('u, 'a) act \<Rightarrow> bool" where
  "careful m = (\<forall>s r s'. m s = (r, s') \<longrightarrow> keeps (ps_db s) (ps_db s'))"

text \<open>\<open>ends_when i Q m\<close>: when \<open>m\<close> answers with a value in \<open>Q\<close>, run \<open>i\<close> is terminal.\<close>

definition ends_when :: "uuid \<Rightarrow> ('a \<Rightarrow> bool) \<Rightarrow> ('u, 'a) act \<Rightarrow> bool" where
  "ends_when i Q m =
     (careful m \<and> (\<forall>s x s'. m s = (Ok x, s') \<longrightarrow> Q x \<longrightarrow> db_inv (ps_db s) \<longrightarrow> run_started (ps_db s) i
        \<longrightarrow> run_settled (ps_db s') i))"

abbreviation settles :: "uuid \<Rightarrow> ('u, 'a) act \<Rightarrow> bool" where
  "settles i \<equiv> ends_when i (\<lambda>_. True)"

named_theorems careful_intros \<open>actions that keep the history\<close>
named_theorems settles_intros \<open>actions that settle their run\<close>

lemma careful_return [careful_intros]: "careful (preturn x)"
  by (simp add: careful_def preturn_def)

lemma careful_fail [careful_intros]: "careful (pfail e)"
  by (simp add: careful_def pfail_def)

lemma careful_lift [careful_intros]: "careful (lift r)"
  by (cases r) (simp_all add: lift_def careful_intros)

lemma careful_bind [careful_intros]: "careful m \<Longrightarrow> (\<And>x. careful (f x)) \<Longrightarrow> careful (pbind m f)"
  unfolding careful_def pbind_def by (auto split: prod.splits sum.splits) (metis keeps_trans)

lemma disturbed_keeps: "steady env \<Longrightarrow> keeps (ps_db s) (ps_db (disturbed env s))"
  unfolding steady_def disturbed_def by (auto split: prod.splits) (metis fst_conv)

lemma careful_effect:
  assumes "steady env" "\<And>k s r s'. f k s = (r, s') \<Longrightarrow> keeps (ps_db s) (ps_db s')"
  shows "careful (effect env f)"
  unfolding careful_def effect_def using assms disturbed_keeps keeps_trans by blast

lemma careful_on_db:
  assumes "steady env" "\<And>k d r e. f k d = (r, e) \<Longrightarrow> keeps d e"
  shows "careful (on_db env f)"
  unfolding on_db_def using assms by (intro careful_effect) (auto split: prod.splits)

lemma careful_effects [careful_intros]:
  assumes "steady env"
  shows "careful (safe_fetch env url)" "careful (verified env bs ref)" "careful (read_file env p)"
    "careful (store_bytes env bs media bytes)" "careful (store_ir env bs document)" "careful (blocking env bytes x)"
  unfolding safe_fetch_def verified_def read_file_def store_bytes_def store_ir_def blocking_def
  by (auto intro!: careful_effect [OF assms] split: prod.splits)

lemma careful_read_or_fail [careful_intros]: "steady env \<Longrightarrow> careful (read_or_fail env p)"
  unfolding read_or_fail_def by (intro careful_intros)

lemma careful_document_address [careful_intros]: "careful (document_address env text)"
  unfolding document_address_def by (rule careful_lift)

lemma ends_when_careful: "ends_when i Q m \<Longrightarrow> careful m"
  by (simp add: ends_when_def)

lemma ends_when_fail [settles_intros]: "ends_when i Q (pfail e)"
  by (simp add: ends_when_def careful_intros) (simp add: pfail_def)

lemma ends_when_return: "\<not> Q x \<Longrightarrow> ends_when i Q (preturn x)"
  by (simp add: ends_when_def careful_intros) (simp add: preturn_def)

text \<open>Once the first action has ended the run, the rest only has to keep the history.\<close>

lemma ends_when_then:
  assumes "ends_when i Q m" "\<And>x. Q x \<Longrightarrow> careful (f x)" "\<And>x. \<not> Q x \<Longrightarrow> ends_when i R (f x)"
  shows "ends_when i R (pbind m f)"
proof -
  have m: "careful m" using assms(1) by (rule ends_when_careful)
  have f: "careful (f x)" for x using assms(2,3) [of x] by (cases "Q x") (auto simp: ends_when_def)
  have "run_settled (ps_db t) i"
    if u: "m s = (Ok x, u)" and t: "f x u = (Ok y, t)" and s: "db_inv (ps_db s)" "run_started (ps_db s) i" and y: "R y"
    for s t u x y
  proof -
    have d: "db_inv (ps_db u)" "later (ps_db s) (ps_db u)" "later (ps_db u) (ps_db t)"
      using m f [of x] u t s(1) by (auto simp: careful_def keeps_def)
    show ?thesis
    proof (cases "Q x")
      case True
      then have "run_settled (ps_db u) i" using assms(1) u s by (auto simp: ends_when_def)
      then show ?thesis using d(3) by (rule settled_later)
    next
      case False
      then show ?thesis using assms(3) t y d(1) started_later [OF s(2) d(2)] by (auto simp: ends_when_def)
    qed
  qed
  moreover have "careful (pbind m f)" using m f by (rule careful_bind)
  ultimately show ?thesis unfolding ends_when_def pbind_def by (fastforce split: prod.splits sum.splits)
qed

lemma ends_when_bind [settles_intros]: "careful m \<Longrightarrow> (\<And>x. ends_when i Q (f x)) \<Longrightarrow> ends_when i Q (pbind m f)"
  by (rule ends_when_then [where Q = "\<lambda>_. False"]) (simp_all add: ends_when_def)

lemma settles_then: "settles i m \<Longrightarrow> (\<And>x. careful (f x)) \<Longrightarrow> ends_when i R (pbind m f)"
  by (rule ends_when_then [where Q = "\<lambda>_. True"]) simp_all

lemma settles_on_db:
  assumes "steady env" "\<And>k. run_ender (f k) i"
  shows "settles i (on_db env f)"
proof -
  have "careful (on_db env f)" using assms by (intro careful_on_db) (auto simp: run_ender_def)
  moreover have "run_settled e i"
    if "f k (ps_db (disturbed env s)) = (Ok x, e)" "db_inv (ps_db s)" "run_started (ps_db s) i" for k s x e
  proof -
    have "db_inv (ps_db (disturbed env s))" "run_started (ps_db (disturbed env s)) i"
      using disturbed_keeps [OF assms(1), of s] that(2) started_later [OF that(3)] by (auto simp: keeps_def)
    then show ?thesis using that(1) assms(2) [of k] by (auto simp: run_ender_def)
  qed
  ultimately show ?thesis unfolding ends_when_def on_db_def effect_def by (auto split: prod.splits)
qed

lemma settles_ending:
  assumes "steady env" "\<And>k. run_ender (f k) i"
  shows "settles i (pbind (on_db env f) (\<lambda>_. preturn ()))"
  using settles_on_db [OF assms] by (rule settles_then) (rule careful_return)

section \<open>What an action does to the outside\<close>

text \<open>A property of the events of an action, graded by a number: nothing happens for nothing, and grades
  add up along a sequence. The rules of the locale follow the shape of an action.\<close>

locale graded_trace =
  fixes P :: "nat \<Rightarrow> pipeline_event list \<Rightarrow> bool"
  assumes none: "P 0 []"
    and together: "P m a \<Longrightarrow> P n b \<Longrightarrow> P (m + n) (a @ b)"
    and weaker: "P m a \<Longrightarrow> m \<le> n \<Longrightarrow> P n a"
begin

definition emits :: "nat \<Rightarrow> ('u, 'a) act \<Rightarrow> bool" where
  "emits n m = (\<forall>s r s'. m s = (r, s') \<longrightarrow> (\<exists>t. ps_trace s' = ps_trace s @ t \<and> P n t))"

lemma emits_mono: "emits m a \<Longrightarrow> m \<le> n \<Longrightarrow> emits n a"
  unfolding emits_def using weaker by blast

lemma silent: "P n []"
  using weaker [OF none] by simp

lemma emits_silent: "(\<And>s r s'. m s = (r, s') \<Longrightarrow> ps_trace s' = ps_trace s) \<Longrightarrow> emits n m"
  unfolding emits_def using silent by force

lemma emits_return: "emits n (preturn x)"
  by (rule emits_silent) (simp add: preturn_def)

lemma emits_fail: "emits n (pfail e)"
  by (rule emits_silent) (simp add: pfail_def)

lemma emits_lift: "emits n (lift r)"
  by (cases r) (simp_all add: lift_def emits_return emits_fail)

lemma emits_bind_value:
  assumes "emits m a" "\<And>x s u. a s = (Ok x, u) \<Longrightarrow> emits n (f x)"
  shows "emits (m + n) (pbind a f)"
proof -
  have "\<exists>t. ps_trace s' = ps_trace s @ t \<and> P (m + n) t" if "pbind a f s = (r, s')" for s r s'
  proof -
    obtain y u where a: "a s = (y, u)" by force
    then obtain t where t: "ps_trace u = ps_trace s @ t" "P m t" using assms(1) unfolding emits_def by blast
    show ?thesis
    proof (cases y)
      case (Inl e)
      then show ?thesis using that a t weaker [of m t "m + n"] by (auto simp: pbind_def)
    next
      case (Inr x)
      then have "f x u = (r, s')" "emits n (f x)" using that a assms(2) [of s x u] by (simp_all add: pbind_def)
      then obtain v where "ps_trace s' = ps_trace u @ v" "P n v" unfolding emits_def by blast
      then show ?thesis using t together [of m t n v] by (intro exI [of _ "t @ v"]) simp
    qed
  qed
  then show ?thesis unfolding emits_def by blast
qed

lemma emits_bind: "emits m a \<Longrightarrow> (\<And>x. emits n (f x)) \<Longrightarrow> emits (m + n) (pbind a f)"
  by (rule emits_bind_value)

lemma emits_then: "emits 0 a \<Longrightarrow> (\<And>x. emits n (f x)) \<Longrightarrow> emits n (pbind a f)"
  using emits_bind [of 0 a n f] by simp

lemma emits_effect:
  assumes "\<And>k s r s'. f k s = (r, s') \<Longrightarrow> \<exists>t. ps_trace s' = ps_trace s @ t \<and> P n t"
  shows "emits n (effect env f)"
proof -
  have "ps_trace (disturbed env s) = ps_trace s" for s by (simp add: disturbed_def split: prod.splits)
  then show ?thesis unfolding emits_def effect_def using assms by metis
qed

lemma emits_fetch: "P n [Fetched url] \<Longrightarrow> emits n (safe_fetch env url)"
  unfolding safe_fetch_def by (rule emits_effect) (auto split: prod.splits)

lemma emits_blocking: "P n [Parsed bytes] \<Longrightarrow> emits n (blocking env bytes x)"
  unfolding blocking_def by (rule emits_effect) auto

lemma emits_fetch_bind: "P k [Fetched url] \<Longrightarrow> (\<And>x. emits n (f x)) \<Longrightarrow> emits (k + n) (pbind (safe_fetch env url) f)"
  by (intro emits_bind emits_fetch)

lemma emits_fetch_once: "P k [Fetched url] \<Longrightarrow> (\<And>x. emits 0 (f x)) \<Longrightarrow> emits k (pbind (safe_fetch env url) f)"
  using emits_fetch_bind [of k url 0 f] by simp

lemma emits_quiet:
  "emits n (on_db env g)" "emits n (verified env bs ref)" "emits n (read_file env p)"
  "emits n (store_bytes env bs media bytes)" "emits n (store_ir env bs document)"
  unfolding on_db_def verified_def read_file_def store_bytes_def store_ir_def
  by (rule emits_effect, auto simp: silent split: prod.splits)+

lemma emits_read_or_fail: "emits n (read_or_fail env p)"
  unfolding read_or_fail_def by (intro emits_then emits_quiet emits_lift)

lemma emits_document_address: "emits n (document_address env text)"
  unfolding document_address_def by (rule emits_lift)

lemmas emits_rules = emits_return emits_fail emits_lift emits_quiet emits_read_or_fail emits_document_address

end

end
