(* ===== verification/Pipeline.thy ===== *)
theory Pipeline
  imports PipelineCore
begin

text \<open>
  The branches of a run for web pages, renderings, provider documents and PDF files: \<open>pipeline.rs\<close>,
  \<open>pdf_run.rs\<close> and \<open>provider_continuation.rs\<close> of \<open>services/extractor\<close>. Log messages and metrics are not modelled.
\<close>

section \<open>Shared steps\<close>

definition completed_fetch_of :: "'u url_api \<Rightarrow> 'u fetch_result \<Rightarrow> completed_fetch" where
  "completed_fetch_of api x =
     \<lparr>cf_final_url = u_as_str api (final_url x), cf_http_status = status x, cf_media_type = result_media_type x,
      cf_wire_bytes = wire_bytes x, cf_decoded_bytes = decoded_bytes x, cf_attempts = attempts (metadata x),
      cf_cache_outcome = (case cache_outcome (metadata x) of Fresh \<Rightarrow> ''fresh'' | Revalidated \<Rightarrow> ''revalidated''),
      cf_etag = etag (metadata x), cf_last_modified = last_modified (metadata x), cf_raw_blob = artifact x\<rparr>"

definition fetch_retryable :: "safe_fetch_error \<Rightarrow> bool" where
  "fetch_retryable e =
     (e \<in> {Transport, DnsFailed, TimeoutTotal, TimeoutFirstByte, TimeoutReadIdle, Overloaded})"

abbreviation api_of :: "('u, 'n, 'd) penv \<Rightarrow> 'u url_api" where
  "api_of env \<equiv> pv_api (px_provider env)"

definition fail_with ::
  "('u, 'n, 'd) penv \<Rightarrow> queued_run \<Rightarrow> string \<Rightarrow> bool \<Rightarrow> resolution_step list \<Rightarrow> ('u, unit) act" where
  "fail_with env run class retryable steps =
     pbind (on_db env (\<lambda>k. fail_run (px_event env) (px_cx env k) (px_fate env k) (qr_run_id run) class retryable steps))
       (\<lambda>_. preturn ())"

definition reject_with ::
  "('u, 'n, 'd) penv \<Rightarrow> queued_run \<Rightarrow> 'u fetch_result \<Rightarrow> candidate_decision list \<Rightarrow> string \<Rightarrow> resolution_step list
   \<Rightarrow> ('u, unit) act" where
  "reject_with env run fetched cs class steps =
     pbind (on_db env (\<lambda>k. reject_quality (px_event env) (px_cx env k) (px_fate env k) (qr_run_id run)
                             (completed_fetch_of (api_of env) fetched) cs class steps))
       (\<lambda>_. preturn ())"

definition note_fetch :: "('u, 'n, 'd) penv \<Rightarrow> queued_run \<Rightarrow> 'u fetch_result \<Rightarrow> ('u, unit) act" where
  "note_fetch env run fetched =
     on_db env (\<lambda>k. record_fetch (px_cx env k) (px_fate env k) (qr_run_id run)
                      (completed_fetch_of (api_of env) fetched))"

definition complete_with ::
  "('u, 'n, 'd) penv \<Rightarrow> handles \<Rightarrow> queued_run \<Rightarrow> string document \<Rightarrow> 'u fetch_result \<Rightarrow> candidate_decision list
   \<Rightarrow> resolution_step list \<Rightarrow> ('u, unit) act" where
  "complete_with env h run document fetched cs steps =
     pbind (store_ir env (h_store h) document) (\<lambda>ir_blob.
     pbind (on_db env (\<lambda>k. complete_document (px_event env) (px_cx env k) (px_fate env k) run document ir_blob
                             (completed_fetch_of (api_of env) fetched) cs steps))
       (\<lambda>_. preturn ()))"

definition parse_html ::
  "('u, 'n, 'd) penv \<Rightarrow> handles \<Rightarrow> queued_run \<Rightarrow> blob_ref \<Rightarrow> string \<Rightarrow> string
   \<Rightarrow> ('u, (document_ir_error, string html_extraction) res) act" where
  "parse_html env h run blob address bytes =
     blocking env bytes
       (from_html (pv_ir (px_provider env)) (pv_html (px_provider env))
          \<lparr>input_owner = qr_owner run, input_address = address, input_blob = blob, input_bytes = bytes\<rparr>
          \<lparr>max_input_bytes = parser_max_input_bytes (h_parser h), max_dom_nodes = parser_max_dom_nodes (h_parser h)\<rparr>)"

text \<open>A step of the resolution of a source.\<close>

definition step_of ::
  "nat \<Rightarrow> string \<Rightarrow> string \<Rightarrow> string option \<Rightarrow> string option \<Rightarrow> resolution_step" where
  "step_of n kind result class url =
     \<lparr>st_ordinal = int n, st_kind = kind, st_outcome = Some result, st_failure_class = class, st_resolved_url = url\<rparr>"

section \<open>Rendering\<close>

definition is_empty_shell :: "('u, 'n, 'd) penv \<Rightarrow> string \<Rightarrow> bool" where
  "is_empty_shell env raw_html =
     list_ex (\<lambda>marker. contains_str marker (utf8_lossy (pv_ir (px_provider env)) raw_html))
       [''id='' @ [CHR 0x22] @ ''root'' @ [CHR 0x22], ''id='' @ [CHR 0x22] @ ''app'' @ [CHR 0x22], ''__NEXT_DATA__'']"

datatype escalation_step = EscalationCompleted | WorkerTerminal | BudgetExhausted

definition record_policy_denial ::
  "('u, 'n, 'd) penv \<Rightarrow> queued_run \<Rightarrow> 'u fetch_result \<Rightarrow> candidate_decision list \<Rightarrow> escalation_denial \<Rightarrow> ('u, unit) act"
where
  "record_policy_denial env run fetched cs denial =
     reject_with env run fetched cs ''quality'' [step_of 0 ''render_policy'' (denial_str denial) None None]"

definition render_command_of ::
  "('u, 'n, 'd) penv \<Rightarrow> render_config \<Rightarrow> queued_run \<Rightarrow> nat \<Rightarrow> render_command" where
  "render_command_of env rc run k =
     \<lparr>rc_render_id = new_id (px_cx env k) 0, rc_operation_id = new_id (px_cx env k) 1,
      rc_correlation_id = ''run:'' @ uuid_text (px_event env) (qr_run_id run), rc_tenant_user_id = nil_uuid,
      rc_url = qr_url run,
      rc_budgets = \<lparr>navigation_timeout_ms = render_navigation_timeout_ms rc,
                    total_timeout_ms = render_total_timeout_ms rc, max_dom_bytes = render_max_dom_bytes rc\<rparr>\<rparr>"

definition ask_render ::
  "('u, 'n, 'd) penv \<Rightarrow> handles \<Rightarrow> queued_run \<Rightarrow> ('u, (render_request_error, render_outcome) res) act" where
  "ask_render env h run = effect env (\<lambda>k s.
     case request_render (px_render_completed env) (px_render_failed env) (px_published env k) (px_consumer env k)
            (px_pass env k) (clock (ps_world s)) (render_command_of env (h_render h) run k) of
       (r, now) \<Rightarrow> (Ok r, s\<lparr>ps_world := (ps_world s)\<lparr>clock := now\<rparr>,
                           ps_trace := ps_trace s @ [RenderAsked (render_command_of env (h_render h) run k)]\<rparr>))"

text \<open>The components of a path; the root of the worker's store is configured as one string.\<close>

definition path_of :: "string \<Rightarrow> path" where
  "path_of p = filter (\<lambda>c. c \<noteq> [] \<and> c \<noteq> ''.'') (split_on (\<lambda>c. c = CHR ''/'') p)"

definition render_answer ::
  "('u, 'n, 'd) penv \<Rightarrow> handles \<Rightarrow> queued_run \<Rightarrow> 'u fetch_result \<Rightarrow> (render_request_error, render_outcome) res
   \<Rightarrow> ('u, string html_extraction option) act" where
  "render_answer env h run fetched answer =
     (case answer of
       Ok (RenderCompleted completed) \<Rightarrow>
         pbind (lift (map_err BlobFailed
                  (with_owner (px_blob env) (new (path_of (render_worker_blobs_root (h_render h))))
                     ''ratatoskr-browser-worker''))) (\<lambda>worker_store.
         pbind (verified env worker_store (rd_dom completed)) (\<lambda>path.
         pbind (lift (map_err BlobFailed path)) (\<lambda>path.
         pbind (read_or_fail env path) (\<lambda>rendered.
         pbind (document_address env (rd_final_url completed)) (\<lambda>address.
         pbind (parse_html env h run (rd_dom completed) address rendered) (\<lambda>parsed.
         case parsed of
           Ok extraction \<Rightarrow> preturn (Some extraction)
         | Err (LowQuality cs) \<Rightarrow> pbind (reject_with env run fetched cs ''quality'' []) (\<lambda>_. preturn None)
         | Err _ \<Rightarrow> pbind (fail_with env run ''parse'' False []) (\<lambda>_. preturn None)))))))
     | Ok (RenderFailed failed) \<Rightarrow>
         pbind (fail_with env run (render_class_str (rf_class failed)) False []) (\<lambda>_. preturn None)
     | Err RenderTimeout \<Rightarrow> pbind (fail_with env run ''navigation_timeout'' False []) (\<lambda>_. preturn None)
     | Err RenderTransport \<Rightarrow> pbind (fail_with env run ''fetch'' True []) (\<lambda>_. preturn None))"

definition escalate_to_render ::
  "('u, 'n, 'd) penv \<Rightarrow> handles \<Rightarrow> queued_run \<Rightarrow> 'u fetch_result \<Rightarrow> ('u, string html_extraction option) act" where
  "escalate_to_render env h run fetched = pbind (ask_render env h run) (render_answer env h run fetched)"

definition complete_escalated ::
  "('u, 'n, 'd) penv \<Rightarrow> handles \<Rightarrow> queued_run \<Rightarrow> 'u fetch_result \<Rightarrow> string html_extraction \<Rightarrow> ('u, unit) act" where
  "complete_escalated env h run fetched extraction =
     complete_with env h run (ext_document extraction) fetched (ext_candidates extraction) []"

definition spend_slot :: "('u, 'n, 'd) penv \<Rightarrow> handles \<Rightarrow> ('u, render_budget) act" where
  "spend_slot env h = effect env (\<lambda>k s.
     case consume_render_budget (px_fate env k) (px_day env k) (render_max_escalations_per_day (h_render h)) (ps_db s) of
       (r, d) \<Rightarrow> (map_err EventingFailed r,
                  s\<lparr>ps_db := d, ps_trace := ps_trace s @ (case r of Ok (Consumed _) \<Rightarrow> [BudgetSpent] | _ \<Rightarrow> [])\<rparr>))"

definition spend_budget_and_escalate ::
  "('u, 'n, 'd) penv \<Rightarrow> handles \<Rightarrow> queued_run \<Rightarrow> 'u fetch_result \<Rightarrow> ('u, escalation_step) act" where
  "spend_budget_and_escalate env h run fetched =
     pbind (spend_slot env h) (\<lambda>budget.
     case budget of
       Consumed _ \<Rightarrow>
         pbind (escalate_to_render env h run fetched) (\<lambda>rendered.
         case rendered of
           Some extraction \<Rightarrow>
             pbind (complete_escalated env h run fetched extraction) (\<lambda>_. preturn EscalationCompleted)
         | None \<Rightarrow> preturn WorkerTerminal)
     | Exhausted \<Rightarrow> preturn BudgetExhausted)"

section \<open>HTML\<close>

definition escalation_of ::
  "('u, 'n, 'd) penv \<Rightarrow> handles \<Rightarrow> 'u fetch_result \<Rightarrow> string \<Rightarrow> candidate_decision list \<Rightarrow> escalation_inputs" where
  "escalation_of env h fetched raw_html cs =
     \<lparr>ei_quality_rejected = True,
      ei_empty_shell_evidence = (is_empty_shell env raw_html \<and> list_all (\<lambda>c. text_characters (metrics c) < 120) cs),
      ei_host = u_host_str (api_of env) (final_url fetched), ei_config = h_render h, ei_budget_remaining = True\<rparr>"

definition escalated_run ::
  "('u, 'n, 'd) penv \<Rightarrow> handles \<Rightarrow> queued_run \<Rightarrow> 'u fetch_result \<Rightarrow> candidate_decision list \<Rightarrow> ('u, unit) act" where
  "escalated_run env h run fetched cs =
     pbind (spend_budget_and_escalate env h run fetched) (\<lambda>escalated.
     case escalated of
       EscalationCompleted \<Rightarrow> preturn ()
     | WorkerTerminal \<Rightarrow> reject_with env run fetched cs ''quality'' []
     | BudgetExhausted \<Rightarrow> record_policy_denial env run fetched cs DailyBudgetExhausted)"

definition complete_html ::
  "('u, 'n, 'd) penv \<Rightarrow> handles \<Rightarrow> queued_run \<Rightarrow> 'u fetch_result \<Rightarrow> ('u, unit) act" where
  "complete_html env h run fetched =
     pbind (verified env (h_store h) (artifact fetched)) (\<lambda>source_path.
     case source_path of
       Err _ \<Rightarrow> fail_with env run ''artifact'' False []
     | Ok source_path \<Rightarrow>
         pbind (read_or_fail env source_path) (\<lambda>bytes.
         pbind (document_address env (u_as_str (api_of env) (final_url fetched))) (\<lambda>address.
         pbind (parse_html env h run (artifact fetched) address bytes) (\<lambda>parsed.
         case parsed of
           Ok extraction \<Rightarrow>
             complete_with env h run (ext_document extraction) fetched (ext_candidates extraction) []
         | Err (LowQuality cs) \<Rightarrow>
             (case decide (escalation_of env h fetched bytes cs) of
                Escalate \<Rightarrow> escalated_run env h run fetched cs
              | Denied denial \<Rightarrow> record_policy_denial env run fetched cs denial)
         | Err _ \<Rightarrow> fail_with env run ''parse'' False []))))"

section \<open>PDF\<close>

record pdf_run_input =
  pr_raw :: blob_ref
  pr_address :: string
  pr_bytes :: string

definition reject_no_text_layer ::
  "('u, 'n, 'd) penv \<Rightarrow> queued_run \<Rightarrow> blob_ref \<Rightarrow> 'u fetch_result option \<Rightarrow> candidate_decision list \<Rightarrow> ('u, unit) act"
where
  "reject_no_text_layer env run raw fetched cs =
     (case fetched of
        Some fetched \<Rightarrow> reject_with env run fetched cs ''pdf_no_text_layer'' []
      | None \<Rightarrow>
          pbind (on_db env (\<lambda>k. reject_blob_quality (px_event env) (px_cx env k) (px_fate env k) (qr_run_id run)
                                  raw cs ''pdf_no_text_layer'' []))
            (\<lambda>_. preturn ()))"

definition complete_blob_with ::
  "('u, 'n, 'd) penv \<Rightarrow> handles \<Rightarrow> queued_run \<Rightarrow> string document \<Rightarrow> blob_ref \<Rightarrow> candidate_decision list \<Rightarrow> ('u, unit) act"
where
  "complete_blob_with env h run document raw cs =
     pbind (store_ir env (h_store h) document) (\<lambda>ir_blob.
     pbind (on_db env (\<lambda>k. complete_blob_document (px_event env) (px_cx env k) (px_fate env k) run document ir_blob
                             raw cs []))
       (\<lambda>_. preturn ()))"

definition finish_pdf ::
  "('u, 'n, 'd) penv \<Rightarrow> handles \<Rightarrow> queued_run \<Rightarrow> pdf_run_input \<Rightarrow> 'u fetch_result option \<Rightarrow> ('u, unit) act" where
  "finish_pdf env h run input fetched =
     pbind (blocking env (pr_bytes input)
              (from_pdf (pv_ir (px_provider env)) (px_pdf env)
                 \<lparr>pdf_owner = qr_owner run, pdf_address = pr_address input, pdf_blob = pr_raw input,
                  pdf_bytes = pr_bytes input\<rparr>
                 \<lparr>pdf_parse_limits.pdf_max_input_bytes = pdf_config.pdf_max_input_bytes (h_pdf h),
                  pdf_parse_limits.pdf_max_pages = pdf_config.pdf_max_pages (h_pdf h),
                  pdf_parse_limits.pdf_max_text_bytes = pdf_config.pdf_max_text_bytes (h_pdf h)\<rparr>)) (\<lambda>parsed.
     case parsed of
       Err (PdfNoTextLayer cs) \<Rightarrow> reject_no_text_layer env run (pr_raw input) fetched cs
     | Err PdfEncrypted \<Rightarrow> fail_with env run ''pdf_encrypted'' False []
     | Err _ \<Rightarrow> fail_with env run ''parse'' False []
     | Ok extraction \<Rightarrow>
         (case fetched of
            Some fetched \<Rightarrow>
              complete_with env h run (pdf_document extraction) fetched (pdf_candidates extraction) []
          | None \<Rightarrow>
              complete_blob_with env h run (pdf_document extraction) (pr_raw input) (pdf_candidates extraction)))"

definition complete_pdf ::
  "('u, 'n, 'd) penv \<Rightarrow> handles \<Rightarrow> queued_run \<Rightarrow> 'u fetch_result \<Rightarrow> ('u, unit) act" where
  "complete_pdf env h run fetched =
     pbind (verified env (h_store h) (artifact fetched)) (\<lambda>source_path.
     case source_path of
       Err _ \<Rightarrow> fail_with env run ''artifact'' False []
     | Ok source_path \<Rightarrow>
         pbind (read_or_fail env source_path) (\<lambda>bytes.
         pbind (document_address env (u_as_str (api_of env) (final_url fetched))) (\<lambda>address.
           finish_pdf env h run \<lparr>pr_raw = artifact fetched, pr_address = address, pr_bytes = bytes\<rparr> (Some fetched))))"

definition blob_failure_class :: "blob_store_error \<Rightarrow> string" where
  "blob_failure_class e =
     (case e of
        WrongOwner \<Rightarrow> ''blob_owner''
      | Missing \<Rightarrow> ''blob_missing''
      | Io _ \<Rightarrow> ''blob_unreadable''
      | _ \<Rightarrow> ''blob_mismatch'')"

definition complete_blob_pdf ::
  "('u, 'n, 'd) penv \<Rightarrow> handles \<Rightarrow> queued_run \<Rightarrow> blob_ref \<Rightarrow> ('u, unit) act" where
  "complete_blob_pdf env h run blob =
     (if media_type blob \<noteq> ''application/pdf'' then fail_with env run ''unsupported_media'' False []
      else
        pbind (verified env (h_telegram h) blob) (\<lambda>peer_path.
        case peer_path of
          Err e \<Rightarrow> fail_with env run (blob_failure_class e) False []
        | Ok peer_path \<Rightarrow>
            if length_bytes blob > usize_max \<or> length_bytes blob > pdf_config.pdf_max_input_bytes (h_pdf h)
            then fail_with env run ''parse'' False []
            else
              pbind (read_file env peer_path) (\<lambda>bytes.
              case bytes of
                Err _ \<Rightarrow> fail_with env run ''blob_unreadable'' False []
              | Ok bytes \<Rightarrow>
                  pbind (store_bytes env (h_store h) ''application/pdf'' bytes) (\<lambda>raw.
                  if digest_algorithm raw \<noteq> digest_algorithm blob \<or> digest_hex raw \<noteq> digest_hex blob
                     \<or> length_bytes raw \<noteq> length_bytes blob
                  then fail_with env run ''blob_mismatch'' False []
                  else
                    pbind (document_address env (qr_url run)) (\<lambda>address.
                      finish_pdf env h run \<lparr>pr_raw = raw, pr_address = address, pr_bytes = bytes\<rparr> None)))))"

section \<open>Continuations of a provider run\<close>

definition registrable_domain :: "string \<Rightarrow> string" where
  "registrable_domain host =
     (case rev (split_on (\<lambda>c. c = CHR ''.'') (to_ascii_lowercase (rev (dropWhile (\<lambda>c. c = CHR ''.'') (rev host))))) of
        tld # second # _ \<Rightarrow> second @ ''.'' @ tld
      | [tld] \<Rightarrow> tld
      | [] \<Rightarrow> [])"

definition points_back_to_source :: "'u url_api \<Rightarrow> string \<Rightarrow> string \<Rightarrow> bool" where
  "points_back_to_source api source_url target_url =
     (case (u_parse api source_url, u_parse api target_url) of
        (Some u, Some v) \<Rightarrow>
          (case (u_host_str api u, u_host_str api v) of
             (Some source_host, Some target_host) \<Rightarrow> registrable_domain source_host = registrable_domain target_host
           | _ \<Rightarrow> True)
      | _ \<Rightarrow> True)"

definition resolve_external_article ::
  "('u, 'n, 'd) penv \<Rightarrow> handles \<Rightarrow> queued_run \<Rightarrow> provider_extraction \<Rightarrow> string \<Rightarrow> ('u, unit) act" where
  "resolve_external_article env h run extraction target =
     (let attempt = step_of 0 ''provider_attempt'' ''ok'' None None;
          target_failed = (\<lambda>class url. [attempt, step_of 1 ''resolved_target'' ''failed'' (Some class) (Some url)]) in
      pbind (safe_fetch env target) (\<lambda>fetched.
      case fetched of
        Err e \<Rightarrow>
          (case (case e of
                   safe_fetch_error.Url _ \<Rightarrow> (''policy'', False)
                 | AddressPolicy \<Rightarrow> (''policy'', False)
                 | _ \<Rightarrow> (''fetch'', fetch_retryable e)) of
             (class, retryable) \<Rightarrow> fail_with env run class retryable (target_failed class target))
      | Ok fetched \<Rightarrow>
          let final = u_as_str (api_of env) (final_url fetched) in
          if result_media_type fetched \<noteq> ''text/html''
          then fail_with env run ''unsupported_media'' False (target_failed ''unsupported_media'' final)
          else
            pbind (verified env (h_store h) (artifact fetched)) (\<lambda>source_path.
            case source_path of
              Err _ \<Rightarrow> fail_with env run ''artifact'' False (target_failed ''artifact'' final)
            | Ok source_path \<Rightarrow>
                pbind (read_or_fail env source_path) (\<lambda>bytes.
                pbind (document_address env final) (\<lambda>address.
                pbind (parse_html env h run (artifact fetched) address bytes) (\<lambda>parsed.
                case parsed of
                  Err _ \<Rightarrow> fail_with env run ''parse'' False (target_failed ''parse'' final)
                | Ok article \<Rightarrow>
                    complete_with env h run (ext_document article) fetched (pe_candidates extraction)
                      [attempt, step_of 1 ''resolved_target'' ''ok'' None (Some final)]))))))"

definition fallback_to_generic_html ::
  "('u, 'n, 'd) penv \<Rightarrow> handles \<Rightarrow> queued_run \<Rightarrow> string \<Rightarrow> ('u, unit) act" where
  "fallback_to_generic_html env h run provider_class =
     (let attempt = step_of 0 ''provider_attempt'' ''failed'' (Some provider_class) None;
          fallback_failed = (\<lambda>class. [attempt, step_of 1 ''html_fallback'' ''failed'' (Some class) None]) in
      pbind (safe_fetch env (qr_url run)) (\<lambda>fetched.
      case fetched of
        Err e \<Rightarrow> fail_with env run ''fetch'' (fetch_retryable e) (fallback_failed ''fetch'')
      | Ok fetched \<Rightarrow>
          if result_media_type fetched \<noteq> ''text/html''
          then fail_with env run ''unsupported_media'' False (fallback_failed ''unsupported_media'')
          else
            pbind (verified env (h_store h) (artifact fetched)) (\<lambda>source_path.
            case source_path of
              Err _ \<Rightarrow> fail_with env run ''artifact'' False (fallback_failed ''artifact'')
            | Ok source_path \<Rightarrow>
                pbind (read_or_fail env source_path) (\<lambda>bytes.
                pbind (document_address env (u_as_str (api_of env) (final_url fetched))) (\<lambda>address.
                pbind (parse_html env h run (artifact fetched) address bytes) (\<lambda>parsed.
                case parsed of
                  Err (LowQuality cs) \<Rightarrow> reject_with env run fetched cs ''quality'' (fallback_failed ''quality'')
                | Err _ \<Rightarrow> fail_with env run ''parse'' False (fallback_failed ''parse'')
                | Ok extraction \<Rightarrow>
                    complete_with env h run (ext_document extraction) fetched (ext_candidates extraction)
                      [attempt, step_of 1 ''html_fallback'' ''ok'' None None]))))))"

definition complete_provider ::
  "('u, 'n, 'd) penv \<Rightarrow> handles \<Rightarrow> provider_route \<Rightarrow> string \<Rightarrow> queued_run \<Rightarrow> ('u, unit) act" where
  "complete_provider env h route address run =
     pbind (safe_fetch env address) (\<lambda>fetched.
     case fetched of
       Err e \<Rightarrow> fail_with env run ''fetch'' (fetch_retryable e) []
     | Ok fetched \<Rightarrow>
         if result_media_type fetched \<noteq> ''application/json''
         then pbind (note_fetch env run fetched) (\<lambda>_. fallback_to_generic_html env h run ''provider_response'')
         else
           pbind (verified env (h_store h) (artifact fetched)) (\<lambda>source_path.
           case source_path of
             Err _ \<Rightarrow> fail_with env run ''artifact'' False []
           | Ok source_path \<Rightarrow>
               pbind (read_or_fail env source_path) (\<lambda>bytes.
               pbind (document_address env (u_as_str (api_of env) (final_url fetched))) (\<lambda>payload_address.
               pbind (blocking env bytes
                        (from_provider (px_provider env)
                           \<lparr>pi_owner = qr_owner run, pi_address = payload_address, pi_blob = artifact fetched,
                            pi_route = route, pi_bytes = bytes\<rparr>
                           \<lparr>pl_max_input_bytes = providers_max_input_bytes (h_providers h),
                            pl_max_blocks = providers_max_blocks (h_providers h)\<rparr>)) (\<lambda>parsed.
               case parsed of
                 Err (ProviderLowQuality cs) \<Rightarrow> reject_with env run fetched cs ''provider_low_quality'' []
               | Err ProviderResourceLimit \<Rightarrow> fail_with env run ''parse'' False []
               | Err _ \<Rightarrow>
                   pbind (note_fetch env run fetched) (\<lambda>_. fallback_to_generic_html env h run ''provider_schema'')
               | Ok extraction \<Rightarrow>
                   (case pe_external_url extraction of
                      Some target \<Rightarrow>
                        if points_back_to_source (api_of env) (qr_url run) target
                        then complete_with env h run (pe_document extraction) fetched (pe_candidates extraction) []
                        else pbind (note_fetch env run fetched)
                               (\<lambda>_. resolve_external_article env h run extraction target)
                    | None \<Rightarrow>
                        complete_with env h run (pe_document extraction) fetched (pe_candidates extraction) []))))))"

section \<open>Every branch settles the run\<close>

lemma settles_fail_with [settles_intros]: "steady env \<Longrightarrow> settles (qr_run_id run) (fail_with env run class retryable steps)"
  unfolding fail_with_def by (erule settles_ending) (rule failing.run_ender_axioms)

lemma settles_reject_with [settles_intros]: "steady env \<Longrightarrow> settles (qr_run_id run) (reject_with env run x cs class steps)"
  unfolding reject_with_def reject_quality_def by (erule settles_ending) (rule rejecting.run_ender_axioms)

lemma settles_reject_no_text_layer [settles_intros]:
  "steady env \<Longrightarrow> settles (qr_run_id run) (reject_no_text_layer env run raw x cs)"
  unfolding reject_no_text_layer_def reject_blob_quality_def
  by (cases x) (auto intro: settles_intros settles_ending rejecting.run_ender_axioms)

lemma settles_complete_with [settles_intros]:
  "steady env \<Longrightarrow> settles (qr_run_id run) (complete_with env h run document x cs steps)"
  unfolding complete_with_def complete_document_def
  by (intro ends_when_bind settles_ending careful_intros completing.run_ender_axioms)

lemma settles_complete_blob_with [settles_intros]:
  "steady env \<Longrightarrow> settles (qr_run_id run) (complete_blob_with env h run document raw cs)"
  unfolding complete_blob_with_def complete_blob_document_def
  by (intro ends_when_bind settles_ending careful_intros completing.run_ender_axioms)

lemma careful_note_fetch [careful_intros]: "steady env \<Longrightarrow> careful (note_fetch env run x)"
  unfolding note_fetch_def by (rule careful_on_db) (auto intro: db_step_keeps db_step.record_fetch)

lemma careful_parse_html [careful_intros]: "steady env \<Longrightarrow> careful (parse_html env h run blob address bytes)"
  unfolding parse_html_def by (rule careful_effects)

lemma careful_ask_render [careful_intros]: "steady env \<Longrightarrow> careful (ask_render env h run)"
  unfolding ask_render_def by (rule careful_effect) (auto split: prod.splits)

lemma careful_spend_slot [careful_intros]: "steady env \<Longrightarrow> careful (spend_slot env h)"
  unfolding spend_slot_def
  by (rule careful_effect) (auto split: prod.splits intro: db_step_keeps db_step.budget)

lemmas careful_ends [careful_intros] =
  ends_when_careful [OF settles_fail_with] ends_when_careful [OF settles_reject_with]
  ends_when_careful [OF settles_complete_with] ends_when_careful [OF settles_reject_no_text_layer]
  ends_when_careful [OF settles_complete_blob_with]

lemma careful_escalate [careful_intros]: "steady env \<Longrightarrow> careful (escalate_to_render env h run x)"
  unfolding escalate_to_render_def render_answer_def
  by (auto intro!: careful_intros split: sum.split render_outcome.split render_request_error.split document_ir_error.split)

lemma ends_spend_budget:
  assumes "steady env"
  shows "ends_when (qr_run_id run) (\<lambda>e. e = EscalationCompleted) (spend_budget_and_escalate env h run x)"
proof -
  have "ends_when (qr_run_id run) (\<lambda>e. e = EscalationCompleted)
      (pbind (complete_escalated env h run x y) (\<lambda>_. preturn EscalationCompleted))" for y
    unfolding complete_escalated_def using assms by (intro settles_then settles_intros careful_intros)
  then show ?thesis unfolding spend_budget_and_escalate_def using assms
    by (auto intro!: ends_when_bind careful_intros ends_when_return split: render_budget.split option.split)
qed

lemma settles_escalated_run [settles_intros]:
  assumes "steady env"
  shows "settles (qr_run_id run) (escalated_run env h run x cs)"
  unfolding escalated_run_def record_policy_denial_def using ends_spend_budget [OF assms]
  by (rule ends_when_then) (auto intro!: careful_intros settles_intros assms split: escalation_step.split)

lemma settles_complete_html [settles_intros]: "steady env \<Longrightarrow> settles (qr_run_id run) (complete_html env h run x)"
  unfolding complete_html_def record_policy_denial_def
  by (auto intro!: settles_intros careful_intros
      split: sum.split document_ir_error.split escalation_decision.split)

lemma settles_finish_pdf [settles_intros]: "steady env \<Longrightarrow> settles (qr_run_id run) (finish_pdf env h run input x)"
  unfolding finish_pdf_def
  by (auto intro!: settles_intros careful_intros split: sum.split pdf_error.split option.split)

lemma settles_complete_pdf [settles_intros]: "steady env \<Longrightarrow> settles (qr_run_id run) (complete_pdf env h run x)"
  unfolding complete_pdf_def by (auto intro!: settles_intros careful_intros split: sum.split)

lemma settles_complete_blob_pdf [settles_intros]:
  "steady env \<Longrightarrow> settles (qr_run_id run) (complete_blob_pdf env h run blob)"
  unfolding complete_blob_pdf_def by (auto intro!: settles_intros careful_intros split: sum.split)

lemma settles_resolve_external_article [settles_intros]:
  "steady env \<Longrightarrow> settles (qr_run_id run) (resolve_external_article env h run e target)"
  unfolding resolve_external_article_def Let_def
  by (auto intro!: settles_intros careful_intros split: sum.split prod.split)

lemma settles_fallback [settles_intros]:
  "steady env \<Longrightarrow> settles (qr_run_id run) (fallback_to_generic_html env h run class)"
  unfolding fallback_to_generic_html_def Let_def
  by (auto intro!: settles_intros careful_intros split: sum.split document_ir_error.split)

lemma settles_complete_provider [settles_intros]:
  "steady env \<Longrightarrow> settles (qr_run_id run) (complete_provider env h route address run)"
  unfolding complete_provider_def
  by (auto intro!: settles_intros careful_intros split: sum.split provider_error.split option.split)

section \<open>What the branches do to the outside\<close>

context graded_trace
begin

lemma emits_ends:
  "emits n (fail_with env run class retryable steps)" "emits n (reject_with env run x cs class steps)"
  "emits n (complete_with env h run document x cs steps)" "emits n (note_fetch env run x)"
  "emits n (reject_no_text_layer env run raw y cs)" "emits n (complete_blob_with env h run document raw cs)"
  unfolding fail_with_def reject_with_def complete_with_def note_fetch_def reject_no_text_layer_def complete_blob_with_def
  by (auto intro!: emits_then emits_rules split: option.split)

lemma emits_parse_html: "P n [Parsed bytes] \<Longrightarrow> emits n (parse_html env h run blob address bytes)"
  unfolding parse_html_def by (rule emits_blocking)

lemma ask_render_trace:
  assumes "ask_render env h run s = (r, s')"
  obtains k where "ps_trace s' = ps_trace s @ [RenderAsked (render_command_of env (h_render h) run k)]" "is_ok r"
  using assms unfolding ask_render_def effect_def
  by (intro that [of "ps_tick s"]) (auto simp: disturbed_def split: prod.splits)

lemma spend_slot_trace:
  assumes "spend_slot env h s = (r, s')"
  obtains "ps_trace s' = ps_trace s" "\<And>n. r \<noteq> Ok (Consumed n)" | n where "ps_trace s' = ps_trace s @ [BudgetSpent]" "r = Ok (Consumed n)"
  using assms unfolding spend_slot_def effect_def
  by (auto simp: disturbed_def split: prod.splits sum.splits render_budget.splits)

text \<open>The answer of a render request: at most the rendered page is parsed.\<close>

lemma emits_render_answer:
  assumes "\<And>b. P 0 [Parsed b]" "escalate_to_render env h run x s = (r, s')"
  obtains k t where "ps_trace s' = ps_trace s @ [RenderAsked (render_command_of env (h_render h) run k)] @ t" "P 0 t"
proof -
  have f: "emits 0 (render_answer env h run x y)" for y
    unfolding render_answer_def
    by (auto intro!: emits_then emits_rules emits_ends emits_parse_html assms(1)
        split: sum.split render_outcome.split render_request_error.split document_ir_error.split)
  obtain a u where a: "ask_render env h run s = (a, u)" by force
  have "is_ok a" using a by (rule ask_render_trace)
  then obtain y where "a = Ok y" by (auto simp: is_ok_iff)
  with a have u: "ask_render env h run s = (Ok y, u)" "render_answer env h run x y u = (r, s')"
    using assms(2) by (simp_all add: escalate_to_render_def pbind_Ok)
  from u(1) obtain k where "ps_trace u = ps_trace s @ [RenderAsked (render_command_of env (h_render h) run k)]"
    by (rule ask_render_trace)
  moreover obtain t where "ps_trace s' = ps_trace u @ t" "P 0 t" using f u(2) unfolding emits_def by blast
  ultimately show thesis using that by simp
qed

lemma emits_spend_budget:
  assumes parse: "\<And>b. P 0 [Parsed b]"
    and asked: "\<And>k. P n [BudgetSpent, RenderAsked (render_command_of env (h_render h) run k)]"
  shows "emits n (spend_budget_and_escalate env h run x)"
  unfolding emits_def
proof (intro allI impI)
  fix s r s' assume run: "spend_budget_and_escalate env h run x s = (r, s')"
  obtain b u where b: "spend_slot env h s = (b, u)" by force
  then show "\<exists>t. ps_trace s' = ps_trace s @ t \<and> P n t"
  proof (cases rule: spend_slot_trace)
    case 1
    then have "ps_trace s' = ps_trace s" using run b unfolding spend_budget_and_escalate_def pbind_def preturn_def
      by (auto split: sum.splits render_budget.splits)
    then show ?thesis using silent by simp
  next
    case (2 j)
    obtain e v where e: "escalate_to_render env h run x u = (e, v)" by force
    then obtain k t where t: "ps_trace v = ps_trace u @ [RenderAsked (render_command_of env (h_render h) run k)] @ t" "P 0 t"
      using emits_render_answer [OF parse] by blast
    have rest: "emits 0 (case rendered of
        Some extraction \<Rightarrow> pbind (complete_escalated env h run x extraction) (\<lambda>_. preturn EscalationCompleted)
      | None \<Rightarrow> preturn WorkerTerminal)" for rendered
      unfolding complete_escalated_def by (auto intro!: emits_then emits_rules emits_ends split: option.split)
    have "\<exists>w. ps_trace s' = ps_trace v @ w \<and> P 0 w"
    proof (cases e)
      case (Inl a)
      then have "s' = v" using run b e 2 by (simp add: spend_budget_and_escalate_def pbind_Ok pbind_Err)
      then show ?thesis using silent by simp
    next
      case (Inr y)
      then show ?thesis using run b e 2 rest [of y] unfolding emits_def
        by (simp add: spend_budget_and_escalate_def pbind_Ok)
    qed
    then obtain w where w: "ps_trace s' = ps_trace v @ w" "P 0 w" by blast
    from together [OF together [OF asked t(2)] w(2)] show ?thesis using 2 t w by (intro exI) auto
  qed
qed

lemma emits_complete_html:
  assumes "\<And>b. P 0 [Parsed b]"
    and "\<And>k. render_enabled (h_render h) \<Longrightarrow> P n [BudgetSpent, RenderAsked (render_command_of env (h_render h) run k)]"
  shows "emits n (complete_html env h run x)"
proof -
  have "emits n (escalated_run env h run x cs)" if "decide (escalation_of env h x bytes cs) = Escalate" for bytes cs
  proof -
    have "emits n (spend_budget_and_escalate env h run x)"
      using that assms by (intro emits_spend_budget) (auto simp: decide_Escalate escalation_of_def)
    then show ?thesis unfolding escalated_run_def record_policy_denial_def
      by (rule emits_bind [of n _ 0, simplified]) (auto intro!: emits_rules emits_ends split: escalation_step.split)
  qed
  then show ?thesis unfolding complete_html_def record_policy_denial_def
    by (auto intro!: emits_then emits_rules emits_ends emits_parse_html assms(1)
        split: sum.split document_ir_error.split escalation_decision.split)
qed

lemma emits_finish_pdf:
  assumes "P n [Parsed (pr_bytes input)]"
  shows "emits n (finish_pdf env h run input x)"
  unfolding finish_pdf_def
  by (rule emits_bind [OF emits_blocking [OF assms], of 0, simplified])
    (auto intro!: emits_ends split: sum.split pdf_error.split option.split)

lemma store_bytes_value:
  assumes "store_bytes env bs media bytes s = (Ok raw, u)"
  shows "parse_digest_hex (px_blob env) (hex_string (sha256 (px_blob env) bytes)) = Some (digest_hex raw)
    \<and> length_bytes raw = length bytes"
  using assms unfolding store_bytes_def effect_def
  by (auto split: prod.splits elim!: store_Ok)

lemma emits_complete_blob_pdf:
  assumes "\<And>b. parse_digest_hex (px_blob env) (hex_string (sha256 (px_blob env) b)) = Some (digest_hex blob)
    \<Longrightarrow> length b = length_bytes blob \<Longrightarrow> P n [Parsed b]"
  shows "emits n (complete_blob_pdf env h run blob)"
proof -
  have "emits n (pbind (store_bytes env (h_store h) ''application/pdf'' bytes) (\<lambda>raw.
      if digest_algorithm raw \<noteq> digest_algorithm blob \<or> digest_hex raw \<noteq> digest_hex blob
         \<or> length_bytes raw \<noteq> length_bytes blob
      then fail_with env run ''blob_mismatch'' False []
      else pbind (document_address env (qr_url run)) (\<lambda>address.
             finish_pdf env h run \<lparr>pr_raw = raw, pr_address = address, pr_bytes = bytes\<rparr> None)))" for bytes
    by (rule emits_bind_value [of 0 _ n, simplified])
      (auto intro!: emits_then emits_rules emits_ends emits_finish_pdf assms dest!: store_bytes_value)
  then show ?thesis unfolding complete_blob_pdf_def
    by (auto intro!: emits_then [OF emits_quiet(2)] emits_then [OF emits_quiet(3)] emits_ends split: sum.split)
qed

lemma emits_complete_pdf: "(\<And>b. P n [Parsed b]) \<Longrightarrow> emits n (complete_pdf env h run x)"
  unfolding complete_pdf_def by (auto intro!: emits_then emits_rules emits_ends emits_finish_pdf split: sum.split)

lemma emits_resolve_external_article:
  assumes "\<And>b. P 0 [Parsed b]" "P k [Fetched target]"
  shows "emits k (resolve_external_article env h run e target)"
  unfolding resolve_external_article_def Let_def
  by (rule emits_fetch_once)
    (auto intro!: emits_then emits_rules emits_ends emits_parse_html assms split: sum.split prod.split)

lemma emits_fallback:
  assumes "\<And>b. P 0 [Parsed b]" "P k [Fetched (qr_url run)]"
  shows "emits k (fallback_to_generic_html env h run class)"
  unfolding fallback_to_generic_html_def Let_def
  by (rule emits_fetch_once)
    (auto intro!: emits_then emits_rules emits_ends emits_parse_html assms split: sum.split document_ir_error.split)

lemma emits_complete_provider:
  assumes "\<And>b. P 0 [Parsed b]" "P k [Fetched (qr_url run)]" "P k [Fetched address]"
    and "\<And>u. \<not> points_back_to_source (api_of env) (qr_url run) u \<Longrightarrow> P k [Fetched u]"
  shows "emits (k + k) (complete_provider env h route address run)"
  unfolding complete_provider_def
  by (rule emits_fetch_bind)
    (auto intro!: emits_then emits_rules emits_ends emits_blocking emits_resolve_external_article emits_fallback assms
      split: sum.split provider_error.split option.split)

end

end
