(* ===== verification/YoutubePipeline.thy ===== *)
theory YoutubePipeline
  imports Pipeline
begin

text \<open>
  The YouTube completion flow, \<open>youtube_pipeline.rs\<close> of \<open>services/extractor\<close>: the watch page, one validated
  timed-text fetch, the transcript document, then the gated archival and the timing diagnostics.
\<close>

section \<open>Definitions\<close>

definition adapter_limits :: "parser_config \<Rightarrow> youtube_limits" where
  "adapter_limits p =
     \<lparr>yl_max_page_bytes = parser_max_input_bytes p, yl_max_track_bytes = parser_max_input_bytes p,
      yl_max_blocks = 2000, yl_max_segments = 8000, yl_max_segment_characters = 2000\<rparr>"

definition rejected_transcript_decision :: "string option \<Rightarrow> candidate_decision" where
  "rejected_transcript_decision title = (evaluate_plain_text YOUTUBE_STRATEGY [] title)\<lparr>selected := False\<rparr>"

definition archive_media ::
  "('u, 'n, 'd) penv \<Rightarrow> handles \<Rightarrow> queued_run \<Rightarrow> string \<Rightarrow> ('u, (io_kind, archival_outcome) res) act" where
  "archive_media env h run video_id = effect env (\<lambda>k s.
     let media = youtube_media (h_youtube h);
         downloader = from_parts (media_binary_path media) (media_timeout_secs media) (media_max_height media) in
     case archive_video (px_archive env k) (h_store h) media downloader (qr_run_id run) video_id
            (ps_db s, ps_media s) (files (ps_world s)) of
       (r, (d, m), f) \<Rightarrow> (Ok r, s\<lparr>ps_db := d, ps_media := m, ps_world := (ps_world s)\<lparr>files := f\<rparr>\<rparr>))"

definition archival_label :: "(io_kind, archival_outcome) res \<Rightarrow> string" where
  "archival_label r =
     (case r of
        Err _ \<Rightarrow> ''error''
      | Ok Disabled \<Rightarrow> ''disabled''
      | Ok SkippedDuplicate \<Rightarrow> ''skipped_duplicate''
      | Ok SkippedBudgetExhausted \<Rightarrow> ''skipped_budget''
      | Ok SkippedBudgetRace \<Rightarrow> ''skipped_budget''
      | Ok (FailedDownload class) \<Rightarrow> if class = ''media_over_item_cap'' then ''skipped_budget'' else ''failed''
      | Ok (Stored _ _) \<Rightarrow> ''stored'')"

definition owner_of_run :: "('u, 'n, 'd) penv \<Rightarrow> uuid \<Rightarrow> ('u, uuid) act" where
  "owner_of_run env i = effect env (\<lambda>k s.
     (if \<not> px_query_up env k then Err (IoFailed OtherIo)
      else case List.find (\<lambda>r. run_id r = i) (runs (ps_db s)) of
        None \<Rightarrow> Err DocumentIdentity
      | Some r \<Rightarrow> Ok (run_owner r), s))"

definition record_diagnostics :: "('u, 'n, 'd) penv \<Rightarrow> uuid \<Rightarrow> uuid \<Rightarrow> blob_ref \<Rightarrow> ('u, unit) act" where
  "record_diagnostics env i own reference = effect env (\<lambda>k s.
     case record_artifact (px_cx env k) (px_fate env k) i own Diagnostics reference (ps_db s) of
       (r, d) \<Rightarrow> (map_err DatabaseFailed r, s\<lparr>ps_db := d\<rparr>))"

definition write_timing_diagnostics ::
  "('u, 'n, 'd) penv \<Rightarrow> handles \<Rightarrow> uuid \<Rightarrow> timing_sidecar \<Rightarrow> string \<Rightarrow> ('u, unit) act" where
  "write_timing_diagnostics env h i sidecar archival =
     pbind (lift (ok_or DocumentIdentity (px_diagnostics_json env sidecar archival))) (\<lambda>payload.
     pbind (store_bytes env (h_store h) ''application/json'' payload) (\<lambda>reference.
     pbind (owner_of_run env i) (\<lambda>own. record_diagnostics env i own reference)))"

text \<open>The part after the watch page has been read: choose a track, fetch it, convert and complete.\<close>

definition complete_transcript ::
  "('u, 'n, 'd) penv \<Rightarrow> handles \<Rightarrow> queued_run \<Rightarrow> string \<Rightarrow> string \<Rightarrow> 'u fetch_result \<Rightarrow> player_meta \<Rightarrow> caption_track
   \<Rightarrow> 'u fetch_result \<Rightarrow> segment list \<Rightarrow> ('u, unit) act" where
  "complete_transcript env h run watch_address video_id fetched meta track track_fetch segments =
     pbind (document_address env watch_address) (\<lambda>address.
     case from_transcript (pv_ir (px_provider env))
            \<lparr>ti_owner = qr_owner run, ti_address = address, ti_blob = artifact fetched, ti_meta = meta,
             ti_segments = segments, ti_language = ct_language_code track\<rparr>
            (adapter_limits (h_parser h)) of
       Err YSerialization \<Rightarrow> pfail (IoFailed OtherIo)
     | Err _ \<Rightarrow> fail_with env run ''parse'' False []
     | Ok extraction \<Rightarrow>
         pbind (complete_with env h run (te_document extraction) track_fetch [te_candidate extraction] []) (\<lambda>_.
         pbind (archive_media env h run video_id) (\<lambda>archival.
           write_timing_diagnostics env h (qr_run_id run) (te_sidecar extraction) (archival_label archival))))"

definition fetch_track ::
  "('u, 'n, 'd) penv \<Rightarrow> handles \<Rightarrow> queued_run \<Rightarrow> string \<Rightarrow> string \<Rightarrow> 'u fetch_result \<Rightarrow> player_meta \<Rightarrow> caption_track
   \<Rightarrow> string \<Rightarrow> ('u, unit) act" where
  "fetch_track env h run watch_address video_id fetched meta track track_address =
     pbind (safe_fetch env track_address) (\<lambda>answer.
     case answer of
       Err e \<Rightarrow> fail_with env run ''fetch'' (fetch_retryable e) []
     | Ok track_fetch \<Rightarrow>
         if \<not> starts_with ''text/'' (result_media_type track_fetch) \<and> result_media_type track_fetch \<noteq> ''application/json''
         then fail_with env run ''parse'' False []
         else
           pbind (verified env (h_store h) (artifact track_fetch)) (\<lambda>track_path.
           case track_path of
             Err _ \<Rightarrow> fail_with env run ''artifact'' False []
           | Ok track_path \<Rightarrow>
               pbind (read_or_fail env track_path) (\<lambda>track_bytes.
               case parse_timedtext (px_json3 env) track_bytes (adapter_limits (h_parser h)) of
                 Err _ \<Rightarrow> fail_with env run ''parse'' False []
               | Ok segments \<Rightarrow>
                   complete_transcript env h run watch_address video_id fetched meta track track_fetch segments)))"

definition complete_youtube_flow ::
  "('u, 'n, 'd) penv \<Rightarrow> handles \<Rightarrow> queued_run \<Rightarrow> string \<Rightarrow> string \<Rightarrow> string option \<Rightarrow> ('u, unit) act" where
  "complete_youtube_flow env h run watch_address video_id track_override =
     pbind (safe_fetch env watch_address) (\<lambda>answer.
     case answer of
       Err e \<Rightarrow> fail_with env run ''fetch'' (fetch_retryable e) []
     | Ok fetched \<Rightarrow>
         if result_media_type fetched \<noteq> ''text/html''
         then pbind (note_fetch env run fetched) (\<lambda>_. fallback_to_generic_html env h run ''youtube_player_schema'')
         else
           pbind (verified env (h_store h) (artifact fetched)) (\<lambda>source_path.
           case source_path of
             Err _ \<Rightarrow> fail_with env run ''artifact'' False []
           | Ok source_path \<Rightarrow>
               pbind (read_or_fail env source_path) (\<lambda>bytes.
               pbind (blocking env bytes
                        (extract_player_response (px_player env) (utf8_lossy (pv_ir (px_provider env)) bytes)
                           (adapter_limits (h_parser h)))) (\<lambda>meta.
               case meta of
                 Err YResourceLimit \<Rightarrow> fail_with env run ''parse'' False []
               | Err _ \<Rightarrow>
                   pbind (note_fetch env run fetched)
                     (\<lambda>_. fallback_to_generic_html env h run ''youtube_player_schema'')
               | Ok meta \<Rightarrow>
                   (case select_track (api_of env) (pm_tracks meta) (transcript_languages (youtube_transcript (h_youtube h))) of
                      Err e \<Rightarrow>
                        reject_with env run fetched [rejected_transcript_decision (pm_title meta)]
                          (if e = YNoLanguageMatch then ''youtube_no_language_match'' else ''youtube_no_transcript'') []
                    | Ok track \<Rightarrow>
                        pbind (note_fetch env run fetched) (\<lambda>_.
                          fetch_track env h run watch_address video_id fetched meta track
                            (case track_override of Some address \<Rightarrow> address | None \<Rightarrow> ct_base_url track)))))))"

definition complete_youtube ::
  "('u, 'n, 'd) penv \<Rightarrow> handles \<Rightarrow> queued_run \<Rightarrow> string \<times> string \<Rightarrow> ('u, unit) act" where
  "complete_youtube env h run identity = complete_youtube_flow env h run (snd identity) (fst identity) None"

section \<open>Every branch settles the run\<close>

lemma same_core_keeps: "same_core d e \<Longrightarrow> keeps d e"
  using same_core_inv [of d e]
  by (auto simp: keeps_def same_core_def later_def has_command_def run_later_in event_later_in)

lemma insert_artifacts_core: "insert_artifacts rows d = Ok e \<Longrightarrow> same_core d e"
  by (auto simp: same_core_def dest: insert_artifacts_Ok)

lemma record_artifact_core: "record_artifact cx fate i own kind reference d = (r, e) \<Longrightarrow> same_core d e"
  by (auto simp: record_artifact_def Let_def split: sum.splits prod.splits elim!: commit_cases
      intro: insert_artifacts_core)

lemma reserve_media_core:
  assumes "reserve_media_archive cx fate rec budget t = (r, t')"
  shows "same_core (fst t) (fst t')"
proof -
  have "same_core (fst t) d" if "reserve_body cx rec len budget t = Ok (b, d, m)" for len b d m
    using that by (cases t) (auto simp: reserve_body_def Let_def split: if_splits elim: insert_artifacts_core)
  then show ?thesis using assms
    by (cases t') (auto simp: reserve_media_archive_def split: sum.splits elim!: commit_cases)
qed

lemma archive_video_keeps:
  assumes "\<And>t. keeps (fst t) (fst (av_others v t))" "archive_video v bs media dl i video t f = (r, t', f')"
  shows "keeps (fst t) (fst t')"
proof -
  have "keeps (fst t) (fst u)" if "reserve_media_archive cx fate rec budget (av_others v t) = (x, u)" for cx fate rec budget x u
    using assms(1) same_core_keeps [OF reserve_media_core [OF that]] by (rule keeps_trans)
  then show ?thesis using assms(2) unfolding archive_video_def store_media_def Let_def
    by (auto split: if_splits sum.splits prod.splits bool.splits blob_store_error.splits)
qed

lemma careful_youtube_effects [careful_intros]:
  assumes "steady env"
  shows "careful (archive_media env h run video)" "careful (owner_of_run env i)"
    "careful (record_diagnostics env i own reference)"
proof -
  have "keeps (fst t) (fst (av_others (px_archive env k) t))" for k t using assms unfolding steady_def by blast
  then show "careful (archive_media env h run video)" unfolding archive_media_def Let_def
    by (intro careful_effect [OF assms]) (auto split: prod.splits dest!: archive_video_keeps [rotated])
  show "careful (owner_of_run env i)" "careful (record_diagnostics env i own reference)"
    unfolding owner_of_run_def record_diagnostics_def
    by (auto intro!: careful_effect [OF assms] same_core_keeps dest: record_artifact_core split: prod.splits)
qed

lemma careful_write_timing_diagnostics [careful_intros]:
  "steady env \<Longrightarrow> careful (write_timing_diagnostics env h i sidecar label)"
  unfolding write_timing_diagnostics_def by (intro careful_intros)

lemma settles_complete_transcript [settles_intros]:
  assumes "steady env"
  shows "settles (qr_run_id run) (complete_transcript env h run watch video x meta track y segments)"
proof -
  have "settles (qr_run_id run)
      (pbind (complete_with env h run doc y cs []) (\<lambda>_. pbind (archive_media env h run video)
        (\<lambda>a. write_timing_diagnostics env h (qr_run_id run) sidecar (archival_label a))))" for doc cs sidecar
    using settles_complete_with [OF assms] by (rule settles_then) (intro careful_intros assms)
  then show ?thesis unfolding complete_transcript_def
    by (auto intro!: ends_when_bind settles_fail_with ends_when_fail careful_intros assms split: sum.split youtube_error.split)
qed

lemma settles_fetch_track [settles_intros]:
  "steady env \<Longrightarrow> settles (qr_run_id run) (fetch_track env h run watch video x meta track url)"
  unfolding fetch_track_def by (auto intro!: settles_intros careful_intros split: sum.split)

lemma settles_complete_youtube_flow [settles_intros]:
  "steady env \<Longrightarrow> settles (qr_run_id run) (complete_youtube_flow env h run watch video track)"
  unfolding complete_youtube_flow_def
  by (auto intro!: settles_intros careful_intros split: sum.split youtube_error.split)

lemma settles_complete_youtube [settles_intros]: "steady env \<Longrightarrow> settles (qr_run_id run) (complete_youtube env h run identity)"
  unfolding complete_youtube_def by (rule settles_complete_youtube_flow)

section \<open>What the branches do to the outside\<close>

lemma select_track_usable: "select_track api tracks languages = Ok t \<Longrightarrow> has_usable_location api (ct_base_url t)"
  using preferred_track_spec [of "filter (\<lambda>t. has_usable_location api (ct_base_url t)) tracks" languages]
  by (auto simp: select_track_def Let_def split: if_splits)

context graded_trace
begin

lemma emits_youtube_effects:
  "emits n (archive_media env h run video)" "emits n (owner_of_run env i)" "emits n (record_diagnostics env i own reference)"
  unfolding archive_media_def owner_of_run_def record_diagnostics_def Let_def
  by (rule emits_effect, auto simp: silent split: prod.splits)+

lemma emits_complete_transcript: "emits n (complete_transcript env h run watch video x meta track y segments)"
  unfolding complete_transcript_def write_timing_diagnostics_def
  by (auto intro!: emits_then emits_rules emits_ends emits_youtube_effects split: sum.split youtube_error.split)

lemma emits_fetch_track:
  assumes "P k [Fetched url]"
  shows "emits k (fetch_track env h run watch video x meta track url)"
  unfolding fetch_track_def
  by (rule emits_fetch_once [OF assms])
    (auto intro!: emits_then emits_rules emits_ends emits_complete_transcript split: sum.split)

lemma emits_complete_youtube:
  assumes "\<And>b. P 0 [Parsed b]" "P k [Fetched (qr_url run)]" "P k [Fetched (snd identity)]"
    and "\<And>u. has_usable_location (api_of env) u \<Longrightarrow> P k [Fetched u]"
  shows "emits (k + k) (complete_youtube env h run identity)"
proof -
  have track: "P k [Fetched (ct_base_url t)]" if "select_track (api_of env) ts ls = Ok t" for ts ls t
    using that by (intro assms(4) select_track_usable)
  show ?thesis unfolding complete_youtube_def complete_youtube_flow_def
    by (rule emits_fetch_bind [OF assms(3)])
      (auto intro!: emits_then emits_rules emits_ends emits_blocking emits_fetch_track emits_fallback assms(1,2)
        dest!: track split: sum.split youtube_error.split)
qed

end

end
