(* ===== verification/ProcessRun.thy ===== *)
theory ProcessRun
  imports YoutubePipeline
begin

text \<open>
  One run from claim to terminal state: \<open>process_run\<close> of \<open>pipeline.rs\<close> and the pass of the worker loop of
  \<open>main.rs\<close>, over the branches of the sibling theories. The forced cancellation of a drained process and the
  pacing of the loop are not modelled.
\<close>

section \<open>Definitions\<close>

definition provider_route_of :: "string \<Rightarrow> provider_route option" where
  "provider_route_of classification =
     (if classification = ''hacker_news'' then Some HackerNewsItem
      else if classification = ''reddit'' then Some RedditPost
      else None)"

definition process_page :: "('u, 'n, 'd) penv \<Rightarrow> handles \<Rightarrow> queued_run \<Rightarrow> ('u, unit) act" where
  "process_page env h run =
     pbind (safe_fetch env (qr_url run)) (\<lambda>answer.
     case answer of
       Err e \<Rightarrow> fail_with env run ''fetch'' (fetch_retryable e) []
     | Ok fetched \<Rightarrow>
         if result_media_type fetched = ''text/html'' then complete_html env h run fetched
         else if result_media_type fetched = ''application/pdf'' then complete_pdf env h run fetched
         else fail_with env run ''unsupported_media'' False [])"

definition provider_address ::
  "('u, 'n, 'd) penv \<Rightarrow> queued_run \<Rightarrow> (process_error, (provider_route \<times> string) option) res" where
  "provider_address env run =
     (case provider_route_of (qr_classification run) of
        None \<Rightarrow> Ok None
      | Some route \<Rightarrow>
          rbind (map_err ProviderFailed (provider_request (px_provider env) route (qr_url run)))
            (\<lambda>address. Ok (map_option (Pair route) address)))"

definition process_url ::
  "('u, 'n, 'd) penv \<Rightarrow> handles \<Rightarrow> queued_run \<Rightarrow> (provider_route \<times> string) option \<Rightarrow> ('u, unit) act" where
  "process_url env h run mapped =
     (case mapped of
        Some (route, address) \<Rightarrow> complete_provider env h route address run
      | None \<Rightarrow>
          if qr_classification run = ''youtube''
          then (case resolve_identity (api_of env) (qr_url run) of
                  Ok identity \<Rightarrow> complete_youtube env h run identity
                | Err _ \<Rightarrow> fallback_to_generic_html env h run ''youtube_no_video_id'')
          else process_page env h run)"

definition process_run :: "('u, 'n, 'd) penv \<Rightarrow> handles \<Rightarrow> queued_run \<Rightarrow> ('u, unit) act" where
  "process_run env h run =
     (case qr_blob run of
        Some blob \<Rightarrow> complete_blob_pdf env h run blob
      | None \<Rightarrow> pbind (lift (provider_address env run)) (process_url env h run))"

text \<open>One pass of the worker: claim a run, and process it when there is one. The answer is the claimed run.\<close>

definition worker_pass ::
  "('u, 'n, 'd) penv \<Rightarrow> handles \<Rightarrow> (nat \<Rightarrow> uuid \<Rightarrow> bool) \<Rightarrow> int \<Rightarrow> nat \<Rightarrow> ('u, queued_run option) act" where
  "worker_pass env h locked lease_seconds max_event_bytes =
     pbind (on_db env (\<lambda>k. claim_queued_run (px_event env) (px_cx env k) (px_fate env k) (locked k) ''extractor''
                             lease_seconds max_event_bytes)) (\<lambda>claimed.
     case claimed of
       None \<Rightarrow> preturn None
     | Some run \<Rightarrow> pbind (process_run env h run) (\<lambda>_. preturn (Some run)))"

section \<open>Every processed run is settled\<close>

lemma settles_process_run [settles_intros]: "steady env \<Longrightarrow> settles (qr_run_id run) (process_run env h run)"
  unfolding process_run_def process_url_def process_page_def
  by (auto intro!: settles_intros careful_intros split: option.split sum.split)

text \<open>A claimed run was not settled before the claim and is started by it.\<close>

lemma claimed_run_is_started:
  assumes "claim_queued_run env cx fate locked w l m d = (Ok (Some q), e)" "db_inv d"
  shows "run_started e (qr_run_id q)" "\<not> run_settled d (qr_run_id q)"
proof -
  obtain r src where t: "transact fate d (lease_next cx locked w l) = (Ok (Some (r, src)), e)"
    and q: "queued_run_of env m r src = Ok q"
    using assms(1) unfolding claim_queued_run_def by (auto split: sum.splits option.splits prod.splits)
  from transact_Ok [OF t] have n: "lease_next cx locked w l d = Ok (Some (r, src), e)" .
  have i: "qr_run_id q = run_id r" using q by (auto simp: queued_run_of_def Let_def split: option.splits if_splits)
  from assms(2) n obtain r0 where r: "r = take_lease cx w l r0" "r0 \<in> set (runs d)" "claimable (now_us cx) r0"
    "e = d\<lparr>runs := update_where (\<lambda>q. run_id q = run_id r0) (take_lease cx w l) (runs d)\<rparr>"
    by (cases rule: lease_next_cases) auto
  from r have "r \<in> set (runs e)" by (force simp: update_where_def)
  moreover have "run_status r \<noteq> Queued" using r(1) by (simp add: take_lease_def)
  ultimately show "run_started e (qr_run_id q)" unfolding run_started_def i by blast
  have same: "q0 = r0" if "q0 \<in> set (runs d)" "run_id q0 = run_id r0" for q0
    using assms(2) that r(2) by (auto simp: db_inv_def keys_ok_def distinct_map inj_on_def)
  have "run_id r = run_id r0" "run_status r0 \<notin> {Succeeded, Failed}"
    using r(1,3) by (auto simp: claimable_def take_lease_def)
  with same show "\<not> run_settled d (qr_run_id q)"
    unfolding run_settled_def i terminal_def by metis
qed

text \<open>A pass keeps the history, and when it answers with a claimed run, that run was open and is now settled.\<close>

lemma worker_pass_settles:
  assumes "steady env" "worker_pass env h locked lease_seconds max_event_bytes s = (r, s')" and inv: "db_inv (ps_db s)"
  shows "db_inv (ps_db s') \<and> later (ps_db s) (ps_db s')"
    and "r = Ok (Some run) \<Longrightarrow> run_settled (ps_db s') (qr_run_id run) \<and> \<not> run_settled (ps_db s) (qr_run_id run)"
proof -
  let ?claim = "on_db env (\<lambda>k. claim_queued_run (px_event env) (px_cx env k) (px_fate env k) (locked k) ''extractor''
      lease_seconds max_event_bytes)"
  have c: "careful ?claim" using assms(1) by (rule careful_on_db) (auto intro: db_step_keeps db_step.claim)
  have p: "careful (process_run env h q)" for q using settles_process_run [OF assms(1)] by (rule ends_when_careful)
  have "careful (worker_pass env h locked lease_seconds max_event_bytes)"
    unfolding worker_pass_def by (auto intro!: careful_bind c p careful_return split: option.split)
  then show "db_inv (ps_db s') \<and> later (ps_db s) (ps_db s')"
    using assms(2) inv by (auto simp: careful_def keeps_def)
  show "run_settled (ps_db s') (qr_run_id run) \<and> \<not> run_settled (ps_db s) (qr_run_id run)" if r: "r = Ok (Some run)"
  proof -
    obtain u where u: "?claim s = (Ok (Some run), u)" "process_run env h run u = (Ok (), s')"
      using assms(2) r unfolding worker_pass_def pbind_def preturn_def by (auto split: prod.splits sum.splits option.splits)
    have d: "db_inv (ps_db (disturbed env s)) \<and> later (ps_db s) (ps_db (disturbed env s))"
      using disturbed_keeps [OF assms(1), of s] inv by (simp add: keeps_def)
    then have "run_started (ps_db u) (qr_run_id run) \<and> \<not> run_settled (ps_db (disturbed env s)) (qr_run_id run)"
      using u(1) claimed_run_is_started unfolding on_db_def effect_def by (fastforce split: prod.splits)
    moreover have "db_inv (ps_db u)" using c u(1) inv by (auto simp: careful_def keeps_def)
    ultimately show ?thesis
      using settles_process_run [OF assms(1)] u(2) settled_later d by (auto simp: ends_when_def)
  qed
qed

section \<open>What a run does to the outside\<close>

definition is_fetch :: "pipeline_event \<Rightarrow> bool" where
  "is_fetch e = (case e of Fetched _ \<Rightarrow> True | _ \<Rightarrow> False)"

definition concerns_render :: "pipeline_event \<Rightarrow> bool" where
  "concerns_render e = (case e of BudgetSpent \<Rightarrow> True | RenderAsked _ \<Rightarrow> True | _ \<Rightarrow> False)"

text \<open>The addresses a run may ask for.\<close>

definition may_fetch :: "('u, 'n, 'd) penv \<Rightarrow> queued_run \<Rightarrow> string \<Rightarrow> bool" where
  "may_fetch env run u =
     (u = qr_url run
      \<or> (\<exists>route. provider_route_of (qr_classification run) = Some route
           \<and> (provider_request (px_provider env) route (qr_url run) = Ok (Some u)
              \<or> \<not> points_back_to_source (api_of env) (qr_url run) u))
      \<or> qr_classification run = ''youtube''
         \<and> ((\<exists>v. resolve_identity (api_of env) (qr_url run) = Ok (v, u)) \<or> has_usable_location (api_of env) u))"

definition fetch_grade :: "('u, 'n, 'd) penv \<Rightarrow> queued_run \<Rightarrow> nat \<Rightarrow> pipeline_event list \<Rightarrow> bool" where
  "fetch_grade env run n t =
     (length (filter is_fetch t) \<le> n \<and> list_all (\<lambda>e. case e of Fetched u \<Rightarrow> may_fetch env run u | _ \<Rightarrow> True) t)"

definition render_block :: "('u, 'n, 'd) penv \<Rightarrow> handles \<Rightarrow> queued_run \<Rightarrow> pipeline_event list \<Rightarrow> bool" where
  "render_block env h run b =
     (render_enabled (h_render h) \<and> (\<exists>k. b = [BudgetSpent, RenderAsked (render_command_of env (h_render h) run k)]))"

definition render_grade :: "('u, 'n, 'd) penv \<Rightarrow> handles \<Rightarrow> queued_run \<Rightarrow> nat \<Rightarrow> pipeline_event list \<Rightarrow> bool" where
  "render_grade env h run n t =
     (\<exists>bs. length bs \<le> n \<and> filter concerns_render t = concat bs \<and> list_all (render_block env h run) bs)"

definition copy_grade :: "('u, 'n, 'd) penv \<Rightarrow> blob_ref \<Rightarrow> nat \<Rightarrow> pipeline_event list \<Rightarrow> bool" where
  "copy_grade env blob n t =
     list_all (\<lambda>e. case e of
        Parsed b \<Rightarrow> parse_digest_hex (px_blob env) (hex_string (sha256 (px_blob env) b)) = Some (digest_hex blob)
                    \<and> length b = length_bytes blob
      | _ \<Rightarrow> False) t"

interpretation fetching: graded_trace "fetch_grade env run" for env run
  by unfold_locales (auto simp: fetch_grade_def)

interpretation copying: graded_trace "copy_grade env blob" for env blob
  by unfold_locales (auto simp: copy_grade_def)

interpretation rendering: graded_trace "render_grade env h run" for env h run
proof
  show "render_grade env h run 0 []" by (simp add: render_grade_def)
next
  fix m a n b assume "render_grade env h run m a" "render_grade env h run n b"
  then obtain bs cs where "length bs \<le> m" "filter concerns_render a = concat bs" "list_all (render_block env h run) bs"
    "length cs \<le> n" "filter concerns_render b = concat cs" "list_all (render_block env h run) cs"
    unfolding render_grade_def by blast
  then show "render_grade env h run (m + n) (a @ b)" unfolding render_grade_def by (intro exI [of _ "bs @ cs"]) simp
next
  fix m a n assume "render_grade env h run m a" "m \<le> n"
  then show "render_grade env h run n a" unfolding render_grade_def using order_trans by blast
qed

lemma render_grade_other: "\<not> concerns_render e \<Longrightarrow> render_grade env h run n [e]"
  unfolding render_grade_def by (intro exI [of _ "[]"]) simp

lemma render_grade_block:
  assumes "render_enabled (h_render h)"
  shows "render_grade env h run (Suc 0) [BudgetSpent, RenderAsked (render_command_of env (h_render h) run k)]"
  unfolding render_grade_def using assms
  by (intro exI [of _ "[[BudgetSpent, RenderAsked (render_command_of env (h_render h) run k)]]"])
    (auto simp: concerns_render_def render_block_def)

context graded_trace
begin

text \<open>The shape of a whole run: \<open>k\<close> bounds a fetch of an address the run may ask for, \<open>n\<close> an escalation.\<close>

lemma emits_process_run:
  assumes parsed: "\<And>b. P 0 [Parsed b]" and fetched: "\<And>u. may_fetch env run u \<Longrightarrow> P k [Fetched u]"
    and rendered: "\<And>i. render_enabled (h_render h) \<Longrightarrow> P n [BudgetSpent, RenderAsked (render_command_of env (h_render h) run i)]"
  shows "emits (k + max k n) (process_run env h run)"
proof -
  have own: "P k [Fetched (qr_url run)]" by (rule fetched) (simp add: may_fetch_def)
  have any: "P m [Parsed b]" for m b using parsed by (rule weaker) simp
  have provider: "emits (k + max k n) (complete_provider env h route address run)"
    if "provider_route_of (qr_classification run) = Some route" "provider_request (px_provider env) route (qr_url run) = Ok (Some address)"
    for route address
    by (rule emits_mono [OF emits_complete_provider])
      (use that in \<open>auto intro!: parsed own fetched simp: may_fetch_def\<close>)
  have youtube: "emits (k + max k n) (complete_youtube env h run identity)"
    if "qr_classification run = ''youtube''" "resolve_identity (api_of env) (qr_url run) = Ok identity" for identity
    by (rule emits_mono [OF emits_complete_youtube])
      (use that in \<open>auto intro!: parsed own fetched simp: may_fetch_def\<close>, metis prod.collapse)
  have fallback: "emits (k + max k n) (fallback_to_generic_html env h run c)" for c
    by (rule emits_mono [OF emits_fallback [OF parsed own]]) simp
  have blob: "emits (k + max k n) (complete_blob_pdf env h run blob)" for blob
    by (rule emits_complete_blob_pdf) (rule any)
  have html: "emits (max k n) (complete_html env h run x)" for x
    by (rule emits_mono [OF emits_complete_html [OF parsed rendered]]) simp_all
  have page: "emits (k + max k n) (process_page env h run)"
    unfolding process_page_def using html emits_complete_pdf [OF any] emits_ends
    by (intro emits_fetch_bind [OF own]) (auto split: sum.split)
  have "emits (k + max k n) (pbind (lift (provider_address env run)) (process_url env h run))"
  proof (rule emits_bind_value [of 0 _ "k + max k n", simplified])
    fix mapped s u assume "lift (provider_address env run) s = (Ok mapped, u)"
    then have "case mapped of None \<Rightarrow> True | Some (route, address) \<Rightarrow>
        provider_route_of (qr_classification run) = Some route
        \<and> provider_request (px_provider env) route (qr_url run) = Ok (Some address)"
      by (auto simp: provider_address_def preturn_def lift_def pfail_def split: option.splits sum.splits)
    then show "emits (k + max k n) (process_url env h run mapped)" unfolding process_url_def
      using provider youtube fallback page by (auto split: option.splits sum.split prod.split)
  qed (rule emits_lift)
  then show ?thesis unfolding process_run_def using blob by (auto split: option.split)
qed

end

lemma trace_of_emits:
  assumes "graded_trace P" "graded_trace.emits P n m"
  shows "\<exists>t. ps_trace (snd (m s)) = ps_trace s @ t \<and> P n t"
  using assms(2) graded_trace.emits_def [OF assms(1)] by (metis prod.collapse)

text \<open>C9. A run performs at most two fetches, and only of addresses it has a reason for: its own URL; for a
  provider run the native address its URL maps to, or a linked article outside the registrable domain of its
  URL; for a YouTube run the canonical watch address of its video, or a caption track on a documented
  host.\<close>

theorem runs_fetch_at_most_twice:
  "\<exists>t. ps_trace (snd (process_run env h run s)) = ps_trace s @ t \<and> length (filter is_fetch t) \<le> 2
     \<and> list_all (\<lambda>e. case e of Fetched u \<Rightarrow> may_fetch env run u | _ \<Rightarrow> True) t"
proof -
  have "graded_trace.emits (fetch_grade env run) (1 + max 1 0) (process_run env h run)"
    by (rule fetching.emits_process_run) (auto simp: fetch_grade_def is_fetch_def)
  from trace_of_emits [OF fetching.graded_trace_axioms this] show ?thesis
    unfolding fetch_grade_def by (simp add: numeral_2_eq_2)
qed

text \<open>C7. The browser is asked at most once per run, only when rendering is enabled, and only right after the
  run has taken a slot of the daily budget; what it is asked for is the run's own URL under the configured
  limits. A run that takes a slot always uses it.\<close>

theorem rendering_needs_policy_and_budget:
  "\<exists>t. ps_trace (snd (process_run env h run s)) = ps_trace s @ t
     \<and> (filter concerns_render t = [] \<or> render_block env h run (filter concerns_render t))"
proof -
  have "graded_trace.emits (render_grade env h run) (0 + max 0 (Suc 0)) (process_run env h run)"
    by (rule rendering.emits_process_run) (auto intro!: render_grade_other render_grade_block simp: concerns_render_def)
  from trace_of_emits [OF rendering.graded_trace_axioms this, of s]
  obtain t bs where t: "ps_trace (snd (process_run env h run s)) = ps_trace s @ t" "length bs \<le> Suc 0"
    "filter concerns_render t = concat bs" "list_all (render_block env h run) bs"
    unfolding render_grade_def by auto
  then show ?thesis by (cases bs) auto
qed

text \<open>C8. A run on a stored document touches nothing but the bytes its reference names: it fetches nothing and
  asks no browser, and what it hands to the parser has exactly the length and the digest of the reference,
  even when the peer's file changes between its verification and its reading.\<close>

theorem blob_runs_parse_the_named_bytes:
  assumes "qr_blob run = Some blob" "\<forall>d d'. parse_digest_hex (px_blob env) d = Some d' \<longrightarrow> d' = d"
  shows "\<exists>t. ps_trace (snd (process_run env h run s)) = ps_trace s @ t
    \<and> list_all (\<lambda>e. case e of
        Parsed b \<Rightarrow> hex_string (sha256 (px_blob env) b) = digest_hex blob \<and> length b = length_bytes blob
      | _ \<Rightarrow> False) t"
proof -
  have "graded_trace.emits (copy_grade env blob) 0 (process_run env h run)"
    unfolding process_run_def assms(1) option.case
    by (rule copying.emits_complete_blob_pdf) (simp add: copy_grade_def)
  from trace_of_emits [OF copying.graded_trace_axioms this, of s]
  obtain t where "ps_trace (snd (process_run env h run s)) = ps_trace s @ t" "copy_grade env blob 0 t" by blast
  moreover have "hex_string (sha256 (px_blob env) b) = digest_hex blob"
    if "parse_digest_hex (px_blob env) (hex_string (sha256 (px_blob env) b)) = Some (digest_hex blob)" for b
    using assms(2) that by metis
  then have "list_all (\<lambda>e. case e of
        Parsed b \<Rightarrow> hex_string (sha256 (px_blob env) b) = digest_hex blob \<and> length b = length_bytes blob
      | _ \<Rightarrow> False) t"
    using calculation(2) by (auto simp: copy_grade_def list_all_iff split: pipeline_event.splits)
  ultimately show ?thesis by blast
qed

section \<open>Witnesses\<close>

definition sample_penv :: "(sample_url, nat, string) penv" where
  "sample_penv =
     \<lparr>px_event = sample_event_env, px_provider = sample_provider_env, px_pdf = sample_pdf_lib, px_player = (\<lambda>_. None),
      px_json3 = (\<lambda>_. None), px_document_json = (\<lambda>_. Some ''{}''), px_diagnostics_json = (\<lambda>_ _. Some ''{}''),
      px_render_completed = (\<lambda>_. None), px_render_failed = (\<lambda>_. None), px_blob = sample_env,
      px_fetcher = sample_fetcher, px_others = (\<lambda>_ x. x), px_cx = (\<lambda>k. sample_cx (20 + k)), px_fate = (\<lambda>_. Commits),
      px_query_up = (\<lambda>_. True), px_day = (\<lambda>_. 1), px_net = (\<lambda>_. sample_net), px_io = (\<lambda>_. calm_io),
      px_staging = (\<lambda>_. ''u9''), px_read = (\<lambda>_. None), px_joined = (\<lambda>_. True), px_published = (\<lambda>_. True),
      px_consumer = (\<lambda>_. True), px_pass = (\<lambda>_. quiet_pass), px_archive = (\<lambda>_. sample_archive)\<rparr>"

definition sample_handles :: handles where
  "sample_handles =
     \<lparr>h_store = sample_store, h_telegram = sample_store,
      h_parser = \<lparr>parser_max_input_bytes = 100, parser_max_dom_nodes = 50\<rparr>,
      h_pdf = \<lparr>pdf_config.pdf_max_input_bytes = 100, pdf_config.pdf_max_pages = 5, pdf_config.pdf_max_text_bytes = 100\<rparr>,
      h_providers = \<lparr>providers_max_input_bytes = 100, providers_max_blocks = 9\<rparr>,
      h_render = \<lparr>render_enabled = True, render_navigation_timeout_ms = 5, render_total_timeout_ms = 9,
        render_max_dom_bytes = 100, render_allowed_hosts = [], render_max_escalations_per_day = 3,
        render_worker_blobs_root = ''/worker''\<rparr>,
      h_youtube = \<lparr>youtube_transcript = \<lparr>transcript_languages = [''en'']\<rparr>, youtube_media = sample_media_config\<rparr>\<rparr>"

definition sample_pstate :: "db \<Rightarrow> sample_url pstate" where
  "sample_pstate d = \<lparr>ps_db = d, ps_media = [], ps_world = sample_world, ps_tick = 0, ps_trace = []\<rparr>"

lemma sample_steady: "steady sample_penv"
  by (simp add: steady_def sample_penv_def sample_archive_def)

definition sample_claim :: "(consume_error, queued_run option) res \<times> db" where
  "sample_claim = claim_queued_run sample_event_env (sample_cx 20) Commits (\<lambda>_. False) ''extractor'' 60 500 received_db"

definition sample_claimed_run :: queued_run where
  "sample_claimed_run = sample_run\<lparr>qr_url := ''urn:ratatoskr:blob:sha256:'' @ replicate 64 (CHR ''a'')\<rparr>"

lemma sample_pass_steps:
  "fst sample_claim = Ok (Some sample_claimed_run)"
  "verify sample_env calm_io sample_store sample_blob (files sample_world) = Err Missing"
  "fst (fail_run sample_event_env (sample_cx 22) Commits [10, 1] ''blob_missing'' False [] (snd sample_claim)) = Ok Completed"
  by code_simp+

lemma sample_pass:
  "fst (worker_pass sample_penv sample_handles (\<lambda>_ _. False) 60 500 (sample_pstate received_db)) = Ok (Some sample_claimed_run)"
proof -
  obtain d where claim: "claim_queued_run sample_event_env (sample_cx 20) Commits (\<lambda>_. False) ''extractor'' 60 500 received_db
      = (Ok (Some sample_claimed_run), d)" and d: "snd sample_claim = d"
    using sample_pass_steps(1) by (metis prod.collapse sample_claim_def)
  obtain e where failed: "fail_run sample_event_env (sample_cx 22) Commits [10, 1] ''blob_missing'' False [] d = (Ok Completed, e)"
    using sample_pass_steps(3) d by (metis prod.collapse)
  have run: "qr_blob sample_claimed_run = Some sample_blob" "qr_run_id sample_claimed_run = [10, 1]"
    "media_type sample_blob = ''application/pdf''"
    by (simp_all add: sample_claimed_run_def sample_run_def sample_blob_def)
  show ?thesis
    by (simp add: worker_pass_def process_run_def complete_blob_pdf_def fail_with_def blob_failure_class_def pbind_def
        on_db_def effect_def disturbed_def verified_def preturn_def sample_penv_def sample_handles_def sample_pstate_def
        sample_pass_steps(2) claim failed run)
qed

definition copied_blob :: blob_ref where
  "copied_blob = sample_ref\<lparr>media_type := ''application/pdf''\<rparr>"

definition panicking_penv :: "(sample_url, nat, string) penv" where
  "panicking_penv = sample_penv\<lparr>px_joined := (\<lambda>_. False)\<rparr>"

lemma sample_copy_steps:
  "verify sample_env calm_io sample_store copied_blob (files sample_world) = Ok sample_path"
  "fst (store sample_env calm_io sample_store ''u9'' ''application/pdf'' [Ok ''abc''] (files sample_world)) = Ok copied_blob"
  "fs_open sample_path (files sample_world) = Ok ''abc''"
  "media_type copied_blob = ''application/pdf''" "length_bytes copied_blob = 3"
  by code_simp+

lemma sample_copy:
  "ps_trace (snd (process_run panicking_penv sample_handles (sample_run\<lparr>qr_blob := Some copied_blob\<rparr>) (sample_pstate empty_db)))
     = [Parsed ''abc'']"
proof -
  obtain f where st: "store sample_env calm_io sample_store ''u9'' ''application/pdf'' [Ok ''abc''] (files sample_world)
      = (Ok copied_blob, f)"
    using sample_copy_steps(2) by (metis prod.collapse)
  show ?thesis
    by (simp add: process_run_def complete_blob_pdf_def finish_pdf_def pbind_def effect_def disturbed_def verified_def
        read_file_def store_bytes_def document_address_def lift_def preturn_def blocking_def panicking_penv_def
        sample_penv_def sample_handles_def sample_pstate_def sample_provider_env_def sample_copy_steps st
        usize_max_def Let_def)
qed

text \<open>A document address the contract refuses ends the pass with an error and leaves the run as it was claimed.\<close>

lemma refused_address_leaves_the_run_running:
  "case process_run (sample_penv\<lparr>px_provider := sample_provider_env\<lparr>pv_address := (\<lambda>_. None)\<rparr>\<rparr>) sample_handles
          (sample_run\<lparr>qr_blob := Some copied_blob\<rparr>) (sample_pstate d) of
     (r, s) \<Rightarrow> r = Err DocumentIdentity \<and> ps_db s = d"
proof -
  obtain f where st: "store sample_env calm_io sample_store ''u9'' ''application/pdf'' [Ok ''abc''] (files sample_world)
      = (Ok copied_blob, f)"
    using sample_copy_steps(2) by (metis prod.collapse)
  show ?thesis
    by (simp add: process_run_def complete_blob_pdf_def pbind_def effect_def disturbed_def verified_def
        read_file_def store_bytes_def document_address_def lift_def pfail_def sample_penv_def sample_handles_def
        sample_pstate_def sample_copy_steps st usize_max_def Let_def)
qed

theorem blob_runs_parse_the_named_bytes_witness:
  "hex_string (sha256 sample_env ''abc'') = digest_hex copied_blob \<and> length_bytes copied_blob = 3"
proof -
  have "\<forall>d d'. parse_digest_hex (px_blob panicking_penv) d = Some d' \<longrightarrow> d' = d"
    by (simp add: panicking_penv_def sample_penv_def sample_env_def)
  from blob_runs_parse_the_named_bytes [OF _ this, of "sample_run\<lparr>qr_blob := Some copied_blob\<rparr>" copied_blob
      sample_handles "sample_pstate empty_db", unfolded sample_copy]
  show ?thesis by (auto simp: sample_pstate_def panicking_penv_def sample_penv_def)
qed

end
