(* ===== verification/ServiceMain.thy ===== *)
theory ServiceMain
  imports ProcessRun Lifecycle
begin

text \<open>
  The process of the service, \<open>services/extractor/src/main.rs\<close>: the command line and the exit status, the order
  of start-up and shutdown, and the loops that relay the outbox, probe the dependencies and process runs. A
  loop reads a list of the wake-ups it meets; it is still running when the list is used up. How the signal
  arrives and how the first loop to stop is noticed are arguments. A run that is dropped by a forced shutdown
  is not modelled: its lease expires and it is claimed again.
\<close>

section \<open>Command line\<close>

datatype main_command = RunService | CheckConfig

definition command_of :: "string list \<Rightarrow> main_command option" where
  "command_of arguments =
     (case arguments of
        [] \<Rightarrow> Some RunService
      | [value] \<Rightarrow> if value = ''check-config'' then Some CheckConfig else None
      | _ \<Rightarrow> None)"

section \<open>Start-up and shutdown\<close>

datatype startup_call =
    PrepareStore | OwnTelegramStore | BuildFetcher | ConnectDatabase | ApplySchema | ConnectBus
  | EnsureCommandStream | EnsureEventStream | VerifyTopology | BindAdmin

datatype task_exit = Panicked | Returned "(process_error, unit) res"

datatype process_step =
    Called startup_call | MarkedReady | BackgroundCancelled | ShutDown | ServerCancelled | Joined task_exit
  | DatabaseClosed | TelemetryInit | TelemetryShutdown

definition startup_calls :: "bool \<Rightarrow> startup_call list" where
  "startup_calls provision =
     [PrepareStore, OwnTelegramStore, BuildFetcher, ConnectDatabase, ApplySchema, ConnectBus]
     @ (if provision then [EnsureCommandStream, EnsureEventStream] else [VerifyTopology]) @ [BindAdmin]"

fun start_up :: "(startup_call \<Rightarrow> process_error option) \<Rightarrow> startup_call list \<Rightarrow> (process_error, unit) res \<times> process_step list" where
  "start_up answer [] = (Ok (), [])"
| "start_up answer (c # cs) =
     (case answer c of
        Some e \<Rightarrow> (Err e, [Called c])
      | None \<Rightarrow> (case start_up answer cs of (r, steps) \<Rightarrow> (r, Called c # steps)))"

text \<open>\<open>result??\<close> on every remaining task, in the order they finish.\<close>

fun join_rest :: "task_exit list \<Rightarrow> (process_error, unit) res \<times> process_step list" where
  "join_rest [] = (Ok (), [])"
| "join_rest (t # ts) =
     (case t of
        Panicked \<Rightarrow> (Err JoinFailed, [Joined t])
      | Returned (Err e) \<Rightarrow> (Err e, [Joined t])
      | Returned (Ok _) \<Rightarrow> (case join_rest ts of (r, steps) \<Rightarrow> (r, Joined t # steps)))"

text \<open>\<open>first\<close> is the task that ended before a signal arrived, if one did.\<close>

definition run_initialized ::
  "bool \<Rightarrow> (startup_call \<Rightarrow> process_error option) \<Rightarrow> task_exit option \<Rightarrow> task_exit list
   \<Rightarrow> (process_error, unit) res \<times> process_step list" where
  "run_initialized provision answer first rest =
     (case start_up answer (startup_calls provision) of
        (Err e, steps) \<Rightarrow> (Err e, steps)
      | (Ok _, steps) \<Rightarrow>
          let steps = steps @ [MarkedReady, BackgroundCancelled, ShutDown, ServerCancelled] in
          (case first of
             Some Panicked \<Rightarrow> (Err JoinFailed, steps)
           | _ \<Rightarrow>
               (case join_rest rest of
                  (Err e, joined) \<Rightarrow> (Err e, steps @ joined)
                | (Ok _, joined) \<Rightarrow>
                    (case first of
                       Some (Returned (Ok _)) \<Rightarrow> Err BackgroundStopped
                     | Some (Returned (Err e)) \<Rightarrow> Err e
                     | _ \<Rightarrow> Ok (),
                     steps @ joined @ [DatabaseClosed]))))"

definition run_service ::
  "bool \<Rightarrow> bool \<Rightarrow> (startup_call \<Rightarrow> process_error option) \<Rightarrow> task_exit option \<Rightarrow> task_exit list
   \<Rightarrow> (process_error, unit) res \<times> process_step list" where
  "run_service traced provision answer first rest =
     (if \<not> traced then (Err TelemetryFailed, [TelemetryInit])
      else case run_initialized provision answer first rest of
        (r, steps) \<Rightarrow> (r, TelemetryInit # steps @ [TelemetryShutdown]))"

definition main_status ::
  "('s config_error, 'u extractor_config) res \<Rightarrow> string list \<Rightarrow> ('u extractor_config \<Rightarrow> (process_error, unit) res) \<Rightarrow> nat" where
  "main_status loaded arguments serve =
     (case loaded of
        Err e \<Rightarrow> exit_code e
      | Ok c \<Rightarrow>
          (case command_of arguments of
             Some CheckConfig \<Rightarrow> 0
           | Some RunService \<Rightarrow> if is_ok (serve c) then 0 else 1
           | None \<Rightarrow> 64))"

section \<open>Loops\<close>

text \<open>A wake-up of the relay: what the others did to the database, the circumstances of the pass, and the
  instant of the health query or its failure.\<close>

record outbox_wake =
  ow_others :: "db \<Rightarrow> db"
  ow_now :: nat
  ow_fate :: tx_fate
  ow_locked :: "uuid \<Rightarrow> bool"
  ow_rows :: "nat \<Rightarrow> row_event"
  ow_observed :: "nat option"

datatype outbox_tick = OutboxCancelled | OutboxTick outbox_wake

fun outbox_loop ::
  "int \<Rightarrow> outbox_tick list \<Rightarrow> bool \<Rightarrow> runtime_health \<times> db \<Rightarrow> (process_error, unit) res option \<times> runtime_health \<times> db" where
  "outbox_loop batch_size [] healthy s = (None, s)"
| "outbox_loop batch_size (OutboxCancelled # ts) healthy s = (Some (Ok ()), s)"
| "outbox_loop batch_size (OutboxTick w # ts) healthy (h, d) =
     (case run_outbox_once (ow_now w) (ow_fate w) (ow_locked w) ''extractor'' batch_size (ow_rows w) (ow_others w d) of
        (Err e, d) \<Rightarrow> (Some (Err (DatabaseFailed PQuery)), h, d)
      | (Ok report, d) \<Rightarrow>
          (case ow_observed w of
             None \<Rightarrow> (Some (Err (DatabaseFailed PQuery)), h, d)
           | Some now \<Rightarrow>
               let healthy = observe now d report healthy
               in outbox_loop batch_size ts healthy (mark_publisher_healthy healthy h, d)))"

datatype dependency_tick = DependencyCancelled | DependencyTick bool bool

fun dependency_loop :: "dependency_tick list \<Rightarrow> runtime_health \<Rightarrow> (process_error, unit) res option \<times> runtime_health" where
  "dependency_loop [] h = (None, h)"
| "dependency_loop (DependencyCancelled # ts) h = (Some (Ok ()), h)"
| "dependency_loop (DependencyTick db_answers bus_up # ts) h =
     dependency_loop ts (mark_dependencies_healthy (db_answers \<and> bus_up) h)"

text \<open>A wake-up of the worker says whether the admission gate lets it in. The answer lists the runs its passes
  claimed.\<close>

datatype worker_tick = WorkerCancelled | WorkerTick bool

fun worker_loop ::
  "('u, 'n, 'd) penv \<Rightarrow> handles \<Rightarrow> (nat \<Rightarrow> uuid \<Rightarrow> bool) \<Rightarrow> int \<Rightarrow> nat \<Rightarrow> worker_tick list \<Rightarrow> 'u pstate
   \<Rightarrow> queued_run list \<times> (process_error, unit) res option \<times> 'u pstate" where
  "worker_loop env h locked lease_seconds max_event_bytes [] s = ([], None, s)"
| "worker_loop env h locked lease_seconds max_event_bytes (WorkerCancelled # ts) s = ([], Some (Ok ()), s)"
| "worker_loop env h locked lease_seconds max_event_bytes (WorkerTick admitted # ts) s =
     (if \<not> admitted then ([], Some (Ok ()), s)
      else case worker_pass env h locked lease_seconds max_event_bytes s of
        (Err e, s) \<Rightarrow> ([], Some (Err e), s)
      | (Ok claimed, s) \<Rightarrow>
          (case worker_loop env h locked lease_seconds max_event_bytes ts s of
             (more_runs, r, s) \<Rightarrow> (case claimed of None \<Rightarrow> more_runs | Some run \<Rightarrow> run # more_runs, r, s)))"

section \<open>The worker settles what it claims\<close>

lemma worker_loop_settles:
  assumes "steady env" "worker_loop env h locked l m ts s = (claimed, r, s')" "db_inv (ps_db s)"
  shows "db_inv (ps_db s') \<and> later (ps_db s) (ps_db s')
    \<and> list_all (\<lambda>run. run_settled (ps_db s') (qr_run_id run) \<and> \<not> run_settled (ps_db s) (qr_run_id run)) claimed
    \<and> distinct (map qr_run_id claimed)"
  using assms
proof (induction env h locked l m ts s arbitrary: claimed r s' rule: worker_loop.induct)
  case (3 env h locked l m admitted ts s)
  show ?case
  proof (cases admitted)
    case True
    obtain x u where pass: "worker_pass env h locked l m s = (x, u)" by fastforce
    note one = worker_pass_settles [OF 3(2) pass 3(4)]
    show ?thesis
    proof (cases x)
      case (Inl e)
      with True pass one 3(3) show ?thesis by auto
    next
      case (Inr c)
      obtain more_runs where rest: "worker_loop env h locked l m ts u = (more_runs, r, s')"
        and claimed: "claimed = (case c of None \<Rightarrow> more_runs | Some run \<Rightarrow> run # more_runs)"
        using 3(3) True pass Inr by (auto split: prod.splits)
      have ih: "db_inv (ps_db s') \<and> later (ps_db u) (ps_db s')
        \<and> list_all (\<lambda>run. run_settled (ps_db s') (qr_run_id run) \<and> \<not> run_settled (ps_db u) (qr_run_id run)) more_runs
        \<and> distinct (map qr_run_id more_runs)"
        using 3(1) [OF _ pass [symmetric] Inr 3(2) rest] True one by simp
      have "later (ps_db s) (ps_db s')" using one(1) ih later_trans by blast
      moreover have "run_settled (ps_db s) i \<Longrightarrow> run_settled (ps_db u) i" for i
        using one(1) settled_later by blast
      moreover have "run_settled (ps_db u) i \<Longrightarrow> run_settled (ps_db s') i" for i
        using ih settled_later by blast
      ultimately show ?thesis
        using ih one(2) Inr claimed by (cases c) (auto simp: list_all_iff)
    qed
  qed (use 3 in auto)
qed auto

text \<open>C6. No claimed run is forgotten and none is processed twice. Every run that the passes of the worker loop
  claim and answer for is terminal when the loop is observed: completed, failed or rejected by its pass, or
  settled meanwhile by another worker. It was open when the loop began, and the loop claims each run at most once. This holds for
  any number of passes, whatever the network, the parsers, the browser and the broker answered and
  whatever the rest of the system did between any two effects, as long as it keeps the recorded history, which
  the loop keeps itself.\<close>

theorem claimed_runs_are_settled:
  assumes "steady env" "reachable (px_event env) (ps_db s)"
    and "worker_loop env h locked lease_seconds max_event_bytes ticks s = (claimed, r, s')"
  shows "later (ps_db s) (ps_db s')
    \<and> list_all (\<lambda>run. run_settled (ps_db s') (qr_run_id run) \<and> \<not> run_settled (ps_db s) (qr_run_id run)) claimed
    \<and> distinct (map qr_run_id claimed)"
  using worker_loop_settles [OF assms(1,3) reachable_inv [OF assms(2)]] by blast

theorem claimed_runs_are_settled_witness:
  "run_settled (ps_db (snd (snd (worker_loop sample_penv sample_handles (\<lambda>_ _. False) 60 500 [WorkerTick True, WorkerCancelled]
     (sample_pstate received_db))))) [10, 1]"
proof -
  let ?s = "sample_pstate received_db :: sample_url pstate"
  obtain u where pass: "worker_pass sample_penv sample_handles (\<lambda>_ _. False) 60 500 ?s = (Ok (Some sample_claimed_run), u)"
    using sample_pass by (metis prod.collapse)
  then have loop: "worker_loop sample_penv sample_handles (\<lambda>_ _. False) 60 500 [WorkerTick True, WorkerCancelled] ?s
      = ([sample_claimed_run], Some (Ok ()), u)"
    by simp
  have "reachable (px_event sample_penv) (ps_db ?s)"
    using received_reachable by (simp add: sample_penv_def sample_pstate_def)
  from claimed_runs_are_settled [OF sample_steady this loop] loop show ?thesis
    by (simp add: sample_claimed_run_def sample_run_def)
qed

section \<open>Start-up, shutdown and exit\<close>

lemma start_up_Ok: "start_up answer cs = (Ok u, steps) \<Longrightarrow> list_all (\<lambda>c. answer c = None) cs \<and> steps = map Called cs"
  by (induction cs arbitrary: steps) (auto split: option.splits prod.splits)

lemma start_up_Err:
  assumes "start_up answer cs = (Err e, steps)"
  shows "\<exists>done_calls c. steps = map Called (done_calls @ [c]) \<and> answer c = Some e \<and> list_all (\<lambda>c. answer c = None) done_calls"
  using assms
proof (induction cs arbitrary: steps)
  case (Cons c cs)
  show ?case
  proof (cases "answer c")
    case None
    with Cons(2) obtain rest where rest: "start_up answer cs = (Err e, rest)" "steps = Called c # rest"
      by (auto split: prod.splits)
    from Cons(1) [OF rest(1)] obtain ds x where "rest = map Called (ds @ [x])" "answer x = Some e"
      "list_all (\<lambda>c. answer c = None) ds" by blast
    with None rest(2) show ?thesis by (intro exI [of _ "c # ds"] exI [of _ x]) simp
  next
    case (Some e')
    with Cons(2) show ?thesis by (intro exI [of _ "[]"] exI [of _ c]) simp
  qed
qed simp

lemma join_rest_Ok: "join_rest ts = (Ok u, steps) \<Longrightarrow> list_all (\<lambda>t. t = Returned (Ok ())) ts"
  by (induction ts arbitrary: steps) (auto split: task_exit.splits sum.splits prod.splits)

text \<open>The service becomes ready only after every start-up call has succeeded, in the order of the code, and
  exits with status 0 only when a signal asked it to and no task failed.\<close>

lemma ready_only_when_started:
  assumes "MarkedReady \<in> set (snd (run_initialized provision answer first rest))"
  shows "list_all (\<lambda>c. answer c = None) (startup_calls provision)"
    and "take (length (startup_calls provision)) (snd (run_initialized provision answer first rest))
      = map Called (startup_calls provision)"
proof -
  obtain r steps where s: "start_up answer (startup_calls provision) = (r, steps)" by fastforce
  have "\<exists>u. r = Ok u"
  proof (cases r)
    case (Inl e)
    with s have "start_up answer (startup_calls provision) = (Err e, steps)" by simp
    from start_up_Err [OF this] assms s Inl show ?thesis by (auto simp: run_initialized_def)
  qed simp
  with s obtain u where ok: "start_up answer (startup_calls provision) = (Ok u, steps)" by blast
  from start_up_Ok [OF ok] show "list_all (\<lambda>c. answer c = None) (startup_calls provision)" by simp
  show "take (length (startup_calls provision)) (snd (run_initialized provision answer first rest))
      = map Called (startup_calls provision)"
    using start_up_Ok [OF ok] ok
    by (simp add: run_initialized_def Let_def split: option.split task_exit.split prod.split sum.split)
qed

lemma clean_exit:
  assumes "fst (run_initialized provision answer first rest) = Ok u"
  shows "first = None \<and> list_all (\<lambda>t. t = Returned (Ok ())) rest \<and> list_all (\<lambda>c. answer c = None) (startup_calls provision)"
  using assms start_up_Ok [of answer "startup_calls provision"] join_rest_Ok [of rest]
  by (auto simp: run_initialized_def Let_def split: option.splits task_exit.splits prod.splits sum.splits)

section \<open>The relay drains the outbox\<close>

text \<open>A wake-up at \<open>now\<close> or later that goes well: the statements commit, the broker acknowledges every
  publication and the health query answers, while the other processes only enqueue new events.\<close>

definition working_wake :: "'u event_env \<Rightarrow> nat \<Rightarrow> outbox_wake \<Rightarrow> bool" where
  "working_wake env now w =
     (now \<le> ow_now w \<and> ow_fate w = Commits \<and> ow_locked w = (\<lambda>_. False) \<and> ow_observed w \<noteq> None
      \<and> only_enqueues env now (ow_others w)
      \<and> (\<forall>k. \<exists>t f. ow_rows w k = (Some (Ok ()), t, Commits, f) \<and> only_enqueues env now f))"

lemma outbox_loop_drains:
  "db_inv d \<Longrightarrow> list_all (working_wake env now) ws
   \<Longrightarrow> \<exists>h' e. outbox_loop limit (map OutboxTick ws) healthy (h, d) = (None, h', e) \<and> db_inv e \<and> later d e
     \<and> (card (backlog now d) \<le> length ws * nat (max 1 (min 1000 limit))
          \<longrightarrow> (\<forall>r\<in>set (outbox d). due now r \<longrightarrow> is_published_in e r))"
proof (induction ws arbitrary: d healthy h)
  case Nil
  have "backlog now d = {}" if "card (backlog now d) \<le> 0" using that by (simp add: backlog_def)
  then have "\<not> due now r" if "card (backlog now d) \<le> 0" "r \<in> set (outbox d)" for r
    using that by (auto simp: backlog_def due_def)
  with Nil show ?case by simp
next
  case (Cons w ws)
  let ?k = "nat (max 1 (min 1000 limit))"
  have w: "now \<le> ow_now w" "ow_fate w = Commits" "ow_locked w = (\<lambda>_. False)" "harmless now (ow_others w)"
    using Cons.prems(2) only_enqueues_harmless by (auto simp: working_wake_def)
  have ack: "all_acknowledged now (ow_rows w)" and obs: "ow_observed w \<noteq> None" and ws: "list_all (working_wake env now) ws"
    using Cons.prems(2) only_enqueues_harmless unfolding working_wake_def all_acknowledged_def by fastforce+
  let ?d = "ow_others w d"
  have d: "db_inv ?d" "later d ?d" "enqueues_after now d ?d" using w(4) Cons.prems(1) by (auto simp: harmless_def)
  have name: "between_chars 1 64 ''extractor''" by code_simp
  from pass_progress [OF d(1) name ack w(1), of limit] obtain rep d1 where
    p: "run_outbox_once (ow_now w) Commits (\<lambda>_. False) ''extractor'' limit (ow_rows w) ?d = (Ok rep, d1)"
    "db_inv d1" "later ?d d1"
    "\<forall>r\<in>set (outbox ?d). due now r \<longrightarrow> is_published_in d1 r
        \<or> r \<in> set (outbox d1) \<and> card (backlog now d1) + ?k \<le> card (backlog now ?d)" by blast
  from obs obtain t where t: "ow_observed w = Some t" by blast
  obtain h' e where e: "outbox_loop limit (map OutboxTick ws) (observe t d1 rep healthy)
      (mark_publisher_healthy (observe t d1 rep healthy) h, d1) = (None, h', e)" "db_inv e" "later d1 e"
    "card (backlog now d1) \<le> length ws * ?k \<longrightarrow> (\<forall>r\<in>set (outbox d1). due now r \<longrightarrow> is_published_in e r)"
    using Cons.IH [OF p(2) ws] by blast
  have "is_published_in e r" if "card (backlog now d) \<le> Suc (length ws) * ?k" "r \<in> set (outbox d)" "due now r" for r
  proof -
    have "r \<in> set (outbox ?d)" using d(3) that(2) by (auto simp: enqueues_after_def)
    with p(4) that(3) consider "is_published_in d1 r"
      | "r \<in> set (outbox d1)" "card (backlog now d1) + ?k \<le> card (backlog now ?d)" by blast
    then show ?thesis
    proof cases
      case 2
      then have "card (backlog now d1) \<le> length ws * ?k" using that(1) by (simp add: backlog_enqueue [OF d(3)])
      with e(4) 2(1) that(3) show ?thesis by blast
    qed (use e(3) is_published_in_later in blast)
  qed
  moreover have "later d e" using later_trans [OF later_trans [OF d(2) p(3)] e(3)] .
  ultimately show ?case using e(1,2) p(1) t w(2,3) by (simp add: Let_def)
qed

text \<open>C14. A working broker drains the outbox. From a reachable database, let the relay wake up any number of
  times at or after \<open>now\<close>, every statement commit, every publication be acknowledged and every health query
  answer, while no second relay runs and the other processes do what they like but enqueue only events due after
  \<open>now\<close>. If the wake-ups times the batch size (held between 1 and 1000) are at least the number of undecided
  events with a next attempt by \<open>now\<close>, the loop goes on through all of them and every event that was due at
  \<open>now\<close> ends published, its content unchanged: new events do not starve old ones.\<close>

theorem working_broker_drains_the_outbox:
  assumes "reachable env d" "list_all (working_wake env now) ws"
    and "card {r \<in> set (outbox d). ob_published_at r = None \<and> ob_dead_at r = None \<and> ob_next_attempt r \<le> now}
      \<le> length ws * nat (max 1 (min 1000 batch_size))"
  shows "\<exists>h' e. outbox_loop batch_size (map OutboxTick ws) healthy (h, d) = (None, h', e)
    \<and> list_all (\<lambda>r. \<exists>q\<in>set (outbox e). ob_id q = ob_id r \<and> ob_payload q = ob_payload r \<and> ob_published_at q \<noteq> None)
        (filter (due now) (outbox d))"
  using outbox_loop_drains [OF reachable_inv [OF assms(1)] assms(2), of batch_size healthy h] assms(3)
  unfolding backlog_def [symmetric] is_published_in_def by (fastforce simp: list_all_iff)

text \<open>While the relay publishes, the consumer receives another command.\<close>

definition busy_wake :: outbox_wake where
  "busy_wake = \<lparr>ow_others = id, ow_now = seconds 13, ow_fate = Commits, ow_locked = (\<lambda>_. False),
     ow_rows = (\<lambda>_. (Some (Ok ()), seconds 15, Commits,
       \<lambda>d. snd (consume_capture sample_event_env (sample_cx 14) Commits CAPTURE_SUBJECT ''go2'' d))),
     ow_observed = Some (seconds 16)\<rparr>"

theorem working_broker_drains_the_outbox_witness:
  "\<exists>h' e. outbox_loop 1 (map OutboxTick [busy_wake]) True (health_new, received_db) = (None, h', e)
     \<and> list_all (\<lambda>r. \<exists>q\<in>set (outbox e). ob_id q = ob_id r \<and> ob_payload q = ob_payload r \<and> ob_published_at q \<noteq> None)
        (filter (due (seconds 13)) (outbox received_db))"
proof -
  have "only_enqueues sample_event_env (seconds 13) id"
    unfolding only_enqueues_def enqueues_after_def by (auto intro: evolves.none)
  then have w: "list_all (working_wake sample_event_env (seconds 13)) [busy_wake]"
    using consume_capture_only_enqueues [of "seconds 13" "sample_cx 14" sample_event_env]
    by (simp add: working_wake_def busy_wake_def sample_cx_def seconds_def)
  have "length (outbox received_db) = 1" by code_simp
  then have "card (set (outbox received_db)) \<le> 1" by (metis card_length)
  moreover have "card {r \<in> set (outbox received_db). ob_published_at r = None \<and> ob_dead_at r = None
      \<and> ob_next_attempt r \<le> seconds 13} \<le> card (set (outbox received_db))" by (rule card_mono) auto
  ultimately have "card {r \<in> set (outbox received_db). ob_published_at r = None \<and> ob_dead_at r = None
      \<and> ob_next_attempt r \<le> seconds 13} \<le> 1" by linarith
  then show ?thesis by (intro working_broker_drains_the_outbox [OF received_reachable w]) simp
qed

text \<open>The relay tells the health flag its last verdict, and a probe tells it the last state of the dependencies.\<close>

lemma dependency_loop_health:
  "dependency_loop ts h = (r, h') \<Longrightarrow> rh_state h' = rh_state h \<and> publisher_healthy h' = publisher_healthy h"
  by (induction ts h rule: dependency_loop.induct) (auto simp: mark_dependencies_healthy_def)

lemma outbox_loop_health:
  "outbox_loop n ts b (h, d) = (r, h', d') \<Longrightarrow> rh_state h' = rh_state h \<and> dependencies_healthy h' = dependencies_healthy h"
  by (induction n ts b "(h, d)" arbitrary: h d rule: outbox_loop.induct)
    (auto simp: mark_publisher_healthy_def Let_def split: prod.splits sum.splits option.splits)

end
