(* ===== verification/BrowserWorker.thy ===== *)
theory BrowserWorker
  imports UrlRouting BlobStore Rendering Consumer
begin

text \<open>
  The browser worker, \<open>services/browser-worker/src/lib.rs\<close> and \<open>executor.rs\<close>: settings, the navigation policy,
  the interception of a page's requests, one render job under its budgets, the handling of one delivery and
  the consumer loop. Chromium is third-party code: what it does during one job is the record
  \<open>chromium_session\<close>. Waiting times are in milliseconds. Log messages, the connection to the broker and the
  development set-up of streams are not modelled.
\<close>

section \<open>Settings and topology\<close>

record worker_settings =
  wk_nats_url :: string
  wk_chrome_bin :: "string option"
  wk_blobs_root :: path
  wk_durable_name :: string
  wk_completions_bucket :: string
  wk_max_jobs_per_process :: nat
  wk_nkey_seed_path :: "path option"
  wk_provision_topology :: bool

definition default_worker_settings :: worker_settings where
  "default_worker_settings =
     \<lparr>wk_nats_url = ''nats://127.0.0.1:4222'', wk_chrome_bin = None, wk_blobs_root = [],
      wk_durable_name = ''ratatoskr_browser_worker'', wk_completions_bucket = ''browser_worker_completions'',
      wk_max_jobs_per_process = 500, wk_nkey_seed_path = None, wk_provision_topology = False\<rparr>"

text \<open>\<open>extracted\<close> is what the environment yields, or the reason it does not.\<close>

definition load_settings :: "(string, worker_settings) res \<Rightarrow> (string, worker_settings) res" where
  "load_settings extracted =
     rbind extracted (\<lambda>s.
     if wk_provision_topology s \<and> wk_nkey_seed_path s \<noteq> None
     then Err (''BROWSER_PROVISION_TOPOLOGY is for unauthenticated development brokers and must ''
               @ ''not be combined with BROWSER_NKEY_SEED_PATH'')
     else Ok s)"

definition render_consumer_config :: "consumer_config \<Rightarrow> worker_settings \<Rightarrow> consumer_config" where
  "render_consumer_config defaults s =
     defaults\<lparr>durable_name := Some (wk_durable_name s), filter_subject := RENDER_REQUESTED_SUBJECT,
       ack_policy := AckExplicit, ack_wait := 300, max_deliver := 12\<rparr>"

definition verified_consumer ::
  "consumer_config \<Rightarrow> consumer_config option \<Rightarrow> worker_settings \<Rightarrow> (string, consumer_config) res" where
  "verified_consumer defaults found s =
     (case found of
        None \<Rightarrow> Err (wk_durable_name s)
      | Some actual \<Rightarrow>
          let expected = render_consumer_config defaults s in
          if durable_name actual = durable_name expected \<and> filter_subject actual = filter_subject expected
             \<and> ack_policy actual = ack_policy expected \<and> ack_wait actual = ack_wait expected
             \<and> max_deliver actual = max_deliver expected
          then Ok actual else Err (wk_durable_name s))"

section \<open>The navigation policy\<close>

record navigation_policy =
  nav_routing :: routing_policy
  nav_allow_loopback :: bool

definition default_navigation_policy :: navigation_policy where
  "default_navigation_policy =
     \<lparr>nav_routing = \<lparr>max_url_length = 8192, allowed_ports = [80, 443]\<rparr>, nav_allow_loopback = False\<rparr>"

type_synonym dns_lookup = "string \<Rightarrow> (unit, socket_addr list) res"

definition navigation_allowed ::
  "'u url_api \<Rightarrow> (string \<Rightarrow> 8 word list) \<Rightarrow> dns_lookup \<Rightarrow> string \<Rightarrow> navigation_policy \<Rightarrow> bool" where
  "navigation_allowed api sha lookup url policy =
     (case normalize api sha url (nav_routing policy) of
        Err _ \<Rightarrow> False
      | Ok n \<Rightarrow>
          (case u_host_str api (normalized n) of
             None \<Rightarrow> False
           | Some host \<Rightarrow>
               nav_allow_loopback policy \<and> host \<in> {''localhost'', ''127.0.0.1'', ''[::1]''}
               \<or> (case resolve_host lookup host of
                    Err _ \<Rightarrow> False
                  | Ok addresses \<Rightarrow> list_all (\<lambda>a. is_ok (validate_address (fst a))) addresses)))"

section \<open>Interception\<close>

datatype resource_type = Document | Image | Font | MediaResource | OtherResource

text \<open>A paused request, with the DNS answer at its check and whether the browser accepts the commands that
  fail and continue it.\<close>

record paused_request =
  rq_url :: string
  rq_resource :: resource_type
  rq_lookup :: dns_lookup
  rq_denied :: bool
  rq_continued :: bool

definition is_heavy :: "paused_request \<Rightarrow> bool" where
  "is_heavy r = (rq_resource r \<in> {Image, Font, MediaResource})"

record interception =
  ic_blocked :: nat
  ic_violated :: bool
  ic_released :: "paused_request list"

definition intercept ::
  "'u url_api \<Rightarrow> (string \<Rightarrow> 8 word list) \<Rightarrow> navigation_policy \<Rightarrow> paused_request \<Rightarrow> interception \<Rightarrow> interception" where
  "intercept api sha policy r i =
     (if \<not> navigation_allowed api sha (rq_lookup r) (rq_url r) policy then i\<lparr>ic_violated := True\<rparr>
      else
        let i = (if is_heavy r \<and> rq_denied r then i\<lparr>ic_blocked := ic_blocked i + 1\<rparr> else i)
        in (if rq_continued r then i\<lparr>ic_released := ic_released i @ [r]\<rparr> else i))"

definition no_interception :: interception where
  "no_interception = \<lparr>ic_blocked = 0, ic_violated = False, ic_released = []\<rparr>"

definition install_interception ::
  "'u url_api \<Rightarrow> (string \<Rightarrow> 8 word list) \<Rightarrow> navigation_policy \<Rightarrow> paused_request list \<Rightarrow> interception" where
  "install_interception api sha policy rs = fold (intercept api sha policy) rs no_interception"

section \<open>One render job\<close>

datatype executor_error =
    ExecBrowserUnavailable | ExecBudget render_failure_class | ExecPolicyBlocked | ExecInvalidLaunchConfig

datatype worker_error = WorkerFailed render_failure_class | WorkerInfrastructure | WorkerStorage blob_store_error

fun worker_error_of :: "executor_error \<Rightarrow> worker_error" where
  "worker_error_of ExecBrowserUnavailable = WorkerFailed BrowserUnavailable"
| "worker_error_of (ExecBudget c) = WorkerFailed c"
| "worker_error_of ExecPolicyBlocked = WorkerFailed PolicyBlocked"
| "worker_error_of ExecInvalidLaunchConfig = WorkerFailed BrowserUnavailable"

record rendered =
  ro_dom :: string
  ro_final_url :: string
  ro_evidence :: network_evidence

text \<open>What Chromium does during one job: which of its commands succeed, how long they take, the requests it
  pauses until the navigation is judged and those it pauses later.\<close>

record chromium_session =
  cs_lookup :: dns_lookup
  cs_lock_ms :: nat
  cs_check_ms :: nat
  cs_context :: bool
  cs_target :: bool
  cs_page :: bool
  cs_interception :: bool
  cs_setup_ms :: nat
  cs_goto_ms :: nat
  cs_requests :: "paused_request list"
  cs_late_requests :: "paused_request list"
  cs_responses :: "redirect_hop list"
  cs_content :: "string option"
  cs_page_url :: "string option"
  cs_content_ms :: nat
  cs_dispose_ms :: nat

definition SETTLE_MS :: nat where
  "SETTLE_MS = 750"

definition render_in_context ::
  "'u url_api \<Rightarrow> (string \<Rightarrow> 8 word list) \<Rightarrow> navigation_policy \<Rightarrow> chromium_session \<Rightarrow> render_command
   \<Rightarrow> (executor_error, rendered) res \<times> nat" where
  "render_in_context api sha policy c command =
     (if \<not> cs_target c then (Err ExecInvalidLaunchConfig, 0)
      else if \<not> cs_page c then (Err ExecBrowserUnavailable, cs_setup_ms c)
      else if \<not> cs_interception c then (Err ExecInvalidLaunchConfig, cs_setup_ms c)
      else
        let budgets = rc_budgets command;
            watched = install_interception api sha policy (cs_requests c) in
        if cs_goto_ms c + SETTLE_MS > navigation_timeout_ms budgets
        then (Err (ExecBudget NavigationTimeout), cs_setup_ms c + navigation_timeout_ms budgets)
        else
          let reached = cs_setup_ms c + cs_goto_ms c + SETTLE_MS in
          if ic_violated watched then (Err ExecPolicyBlocked, reached)
          else case cs_content c of
            None \<Rightarrow> (Err ExecBrowserUnavailable, reached + cs_content_ms c)
          | Some page \<Rightarrow>
              if length page > max_dom_bytes budgets then (Err (ExecBudget SizeLimit), reached + cs_content_ms c)
              else
                (Ok \<lparr>ro_dom = page,
                     ro_final_url = (case cs_page_url c of Some u \<Rightarrow> u | None \<Rightarrow> rc_url command),
                     ro_evidence = \<lparr>ne_hops = cs_responses c,
                       ne_blocked_requests = ic_blocked (install_interception api sha policy
                                                           (cs_requests c @ cs_late_requests c))\<rparr>\<rparr>,
                 reached + cs_content_ms c))"

definition render_once ::
  "'u url_api \<Rightarrow> (string \<Rightarrow> 8 word list) \<Rightarrow> navigation_policy \<Rightarrow> chromium_session \<Rightarrow> render_command
   \<Rightarrow> (executor_error, rendered) res \<times> nat" where
  "render_once api sha policy c command =
     (if \<not> navigation_allowed api sha (cs_lookup c) (rc_url command) policy then (Err ExecPolicyBlocked, cs_check_ms c)
      else if \<not> cs_context c then (Err ExecBrowserUnavailable, cs_check_ms c)
      else case render_in_context api sha policy c command of
        (r, ms) \<Rightarrow> (r, cs_check_ms c + ms + cs_dispose_ms c))"

text \<open>The time spent waiting for the browser is not part of the total budget.\<close>

definition render_job ::
  "'u url_api \<Rightarrow> (string \<Rightarrow> 8 word list) \<Rightarrow> navigation_policy \<Rightarrow> chromium_session \<Rightarrow> render_command
   \<Rightarrow> (executor_error, rendered) res \<times> nat" where
  "render_job api sha policy c command =
     (let total_ms = total_timeout_ms (rc_budgets command) in
      case render_once api sha policy c command of
        (r, ms) \<Rightarrow>
          if ms > total_ms then (Err (ExecBudget TotalTimeout), cs_lock_ms c + total_ms) else (r, cs_lock_ms c + ms))"

section \<open>Deliveries\<close>

datatype render_event = CompletedEvent render_completed | FailedEvent render_failed

fun event_render_id :: "render_event \<Rightarrow> uuid" where
  "event_render_id (CompletedEvent c) = rd_render_id c"
| "event_render_id (FailedEvent f) = rf_render_id f"

record worker_state =
  ws_files :: fs
  ws_completions :: "string list"
  ws_events :: "render_event list"

record 'u worker_env =
  we_api :: "'u url_api"
  we_sha256 :: "string \<Rightarrow> 8 word list"
  we_policy :: navigation_policy
  we_decode :: "string \<Rightarrow> render_command option"
  we_uuid_text :: "uuid \<Rightarrow> string"
  we_blob :: store_env
  we_store :: blob_store

text \<open>The surroundings of one delivery: what others do before it, the session, the fate of the publication
  and of the marker, and whether the bucket and the acknowledgement go through.\<close>

record delivery_env =
  de_others :: "worker_state \<Rightarrow> worker_state"
  de_get_ok :: bool
  de_session :: chromium_session
  de_io :: io_faults
  de_staging :: string
  de_encodes :: bool
  de_publish :: tx_fate
  de_put :: tx_fate
  de_ack :: bool

datatype delivery_outcome = Terminal | Skipped

definition publish_event :: "delivery_env \<Rightarrow> render_event \<Rightarrow> worker_state \<Rightarrow> bool \<times> worker_state" where
  "publish_event v e s =
     (if \<not> de_encodes v then (False, s)
      else case de_publish v of
        Commits \<Rightarrow> (True, s\<lparr>ws_events := ws_events s @ [e]\<rparr>)
      | Aborts \<Rightarrow> (False, s)
      | CommitUnacknowledged \<Rightarrow> (False, s\<lparr>ws_events := ws_events s @ [e]\<rparr>))"

definition put_marker :: "delivery_env \<Rightarrow> string \<Rightarrow> worker_state \<Rightarrow> worker_state" where
  "put_marker v key s = (if de_put v = Aborts then s else s\<lparr>ws_completions := key # ws_completions s\<rparr>)"

text \<open>What a rendered or refused command is answered with: no event when the page could not be stored or the
  infrastructure failed.\<close>

definition rendered_event ::
  "'u worker_env \<Rightarrow> delivery_env \<Rightarrow> render_command \<Rightarrow> worker_state \<Rightarrow> render_event option \<times> worker_state" where
  "rendered_event env v command s =
     (case map_err worker_error_of
             (fst (render_job (we_api env) (we_sha256 env) (we_policy env) (de_session v) command)) of
        Ok page \<Rightarrow>
          (case store (we_blob env) (de_io v) (we_store env) (de_staging v) ''text/html'' [Ok (ro_dom page)]
                  (ws_files s) of
             (Err _, f) \<Rightarrow> (None, s\<lparr>ws_files := f\<rparr>)
           | (Ok blob, f) \<Rightarrow>
               (Some (CompletedEvent
                  \<lparr>rd_render_id = rc_render_id command, rd_final_url = ro_final_url page, rd_dom = blob,
                   rd_evidence = ro_evidence page\<rparr>), s\<lparr>ws_files := f\<rparr>))
      | Err (WorkerFailed cause) \<Rightarrow>
          (Some (FailedEvent \<lparr>rf_render_id = rc_render_id command, rf_class = cause\<rparr>), s)
      | Err _ \<Rightarrow> (None, s))"

text \<open>The answer is the outcome and whether the message was acknowledged.\<close>

definition handle_delivery ::
  "'u worker_env \<Rightarrow> delivery_env \<Rightarrow> string \<Rightarrow> worker_state \<Rightarrow> (delivery_outcome \<times> bool) \<times> worker_state" where
  "handle_delivery env v payload s =
     (case we_decode env payload of
        None \<Rightarrow> ((Skipped, de_ack v), s)
      | Some command \<Rightarrow>
          let key = we_uuid_text env (rc_render_id command) in
          if de_get_ok v \<and> key \<in> set (ws_completions s) then ((Skipped, de_ack v), s)
          else case rendered_event env v command s of
            (None, s) \<Rightarrow> ((Skipped, False), s)
          | (Some e, s) \<Rightarrow>
              (case publish_event v e s of
                 (False, s) \<Rightarrow> ((Skipped, False), s)
               | (True, s) \<Rightarrow> ((Terminal, de_ack v), put_marker v key s)))"

datatype render_delivery_step =
    RenderCancelled
  | RenderStreamEnd
  | RenderReceiveError
  | RenderMessage string delivery_env

text \<open>The loop returns the log of its messages with their outcomes, the jobs it counted and the state.\<close>

fun consume_renders ::
  "'u worker_env \<Rightarrow> nat \<Rightarrow> render_delivery_step list \<Rightarrow> nat \<Rightarrow> worker_state
   \<Rightarrow> (string \<times> delivery_outcome \<times> bool) list \<times> nat \<times> worker_state" where
  "consume_renders env max_jobs [] handled s = ([], handled, s)"
| "consume_renders env max_jobs (RenderCancelled # ms) handled s = ([], handled, s)"
| "consume_renders env max_jobs (RenderStreamEnd # ms) handled s = ([], handled, s)"
| "consume_renders env max_jobs (RenderReceiveError # ms) handled s = consume_renders env max_jobs ms handled s"
| "consume_renders env max_jobs (RenderMessage payload v # ms) handled s =
     (case handle_delivery env v payload (de_others v s) of ((outcome, acked), s) \<Rightarrow>
        let handled = (if outcome = Terminal then handled + 1 else handled) in
        if outcome = Terminal \<and> handled \<ge> max_jobs then ([(payload, outcome, acked)], handled, s)
        else case consume_renders env max_jobs ms handled s of
          (log, handled, s) \<Rightarrow> ((payload, outcome, acked) # log, handled, s))"

text \<open>The answers of the broker at start-up.\<close>

record topology_env =
  te_command_stream :: bool
  te_events_stream :: bool
  te_bucket_created :: bool
  te_durable_created :: bool
  te_durable :: "consumer_config option"
  te_bucket :: bool
  te_messages :: bool

definition ensure_render_stream :: "topology_env \<Rightarrow> (worker_error, unit) res" where
  "ensure_render_stream t =
     (if \<not> te_command_stream t then Err WorkerInfrastructure
      else if \<not> te_events_stream t then Err WorkerInfrastructure
      else if \<not> te_bucket_created t then Err WorkerInfrastructure
      else Ok ())"

definition run_render_consumer ::
  "'u worker_env \<Rightarrow> consumer_config \<Rightarrow> topology_env \<Rightarrow> worker_settings \<Rightarrow> render_delivery_step list \<Rightarrow> worker_state
   \<Rightarrow> (worker_error, (string \<times> delivery_outcome \<times> bool) list \<times> nat) res \<times> worker_state" where
  "run_render_consumer env defaults t settings ms s =
     (case (if wk_provision_topology settings
            then rbind (ensure_render_stream t) (\<lambda>_.
                 if te_durable_created t then Ok () else Err WorkerInfrastructure)
            else map_err (\<lambda>_. WorkerInfrastructure)
                   (rbind (verified_consumer defaults (te_durable t) settings) (\<lambda>_. Ok ()))) of
        Err e \<Rightarrow> (Err e, s)
      | Ok _ \<Rightarrow>
          (case with_owner (we_blob env) (new (wk_blobs_root settings)) ''ratatoskr-browser-worker'' of
             Err e \<Rightarrow> (Err (WorkerStorage e), s)
           | Ok blobs \<Rightarrow>
               if \<not> te_bucket t \<or> \<not> te_messages t then (Err WorkerInfrastructure, s)
               else case consume_renders (env\<lparr>we_store := blobs\<rparr>) (wk_max_jobs_per_process settings) ms 0 s of
                 (log, handled, s) \<Rightarrow> (Ok (log, handled), s)))"

section \<open>What the page may load\<close>

definition allowed_request :: "'u url_api \<Rightarrow> (string \<Rightarrow> 8 word list) \<Rightarrow> navigation_policy \<Rightarrow> paused_request \<Rightarrow> bool" where
  "allowed_request api sha policy r = navigation_allowed api sha (rq_lookup r) (rq_url r) policy"

lemma intercept_fields:
  "ic_violated (intercept api sha policy r i) \<longleftrightarrow> ic_violated i \<or> \<not> allowed_request api sha policy r"
  "list_all (allowed_request api sha policy) (ic_released i)
     \<Longrightarrow> list_all (allowed_request api sha policy) (ic_released (intercept api sha policy r i))"
  "ic_blocked (intercept api sha policy r i) =
     ic_blocked i + (if allowed_request api sha policy r \<and> is_heavy r \<and> rq_denied r then 1 else 0)"
  by (auto simp: intercept_def allowed_request_def Let_def)

lemma install_interception_fields:
  "ic_violated (install_interception api sha policy rs) \<longleftrightarrow> \<not> list_all (allowed_request api sha policy) rs"
  "list_all (allowed_request api sha policy) (ic_released (install_interception api sha policy rs))"
  "ic_blocked (install_interception api sha policy rs) =
     length (filter (\<lambda>r. allowed_request api sha policy r \<and> is_heavy r \<and> rq_denied r) rs)"
proof -
  have "ic_violated (fold (intercept api sha policy) rs i)
          \<longleftrightarrow> ic_violated i \<or> \<not> list_all (allowed_request api sha policy) rs" for i
    by (induction rs arbitrary: i) (auto simp: intercept_fields)
  then show "ic_violated (install_interception api sha policy rs) \<longleftrightarrow> \<not> list_all (allowed_request api sha policy) rs"
    by (simp add: install_interception_def no_interception_def)
  have "list_all (allowed_request api sha policy) (ic_released i)
          \<Longrightarrow> list_all (allowed_request api sha policy) (ic_released (fold (intercept api sha policy) rs i))" for i
    by (induction rs arbitrary: i) (auto simp: intercept_fields)
  then show "list_all (allowed_request api sha policy) (ic_released (install_interception api sha policy rs))"
    by (simp add: install_interception_def no_interception_def)
  have "ic_blocked (fold (intercept api sha policy) rs i) = ic_blocked i
          + length (filter (\<lambda>r. allowed_request api sha policy r \<and> is_heavy r \<and> rq_denied r) rs)" for i
    by (induction rs arbitrary: i) (auto simp: intercept_fields)
  then show "ic_blocked (install_interception api sha policy rs) =
     length (filter (\<lambda>r. allowed_request api sha policy r \<and> is_heavy r \<and> rq_denied r) rs)"
    by (simp add: install_interception_def no_interception_def)
qed

text \<open>Without the loopback escape, an allowed address normalises under the routing policy to a URL whose host
  resolves, at the check, to public addresses only.\<close>

definition public_target :: "'u url_api \<Rightarrow> (string \<Rightarrow> 8 word list) \<Rightarrow> dns_lookup \<Rightarrow> string \<Rightarrow> routing_policy \<Rightarrow> bool" where
  "public_target api sha lookup url policy =
     (case normalize api sha url policy of
        Err _ \<Rightarrow> False
      | Ok n \<Rightarrow>
          (case u_host_str api (normalized n) of
             None \<Rightarrow> False
           | Some host \<Rightarrow>
               (case lookup host of
                  Err _ \<Rightarrow> False
                | Ok as \<Rightarrow> as \<noteq> [] \<and> list_all (\<lambda>a. validate_address (fst a) = Ok ()) as)))"

lemma resolves_public:
  "(case resolve_host lookup h of
      Err _ \<Rightarrow> False
    | Ok as \<Rightarrow> list_all (\<lambda>a. is_ok (validate_address (fst a))) as)
   \<longleftrightarrow> (case lookup h of
         Err _ \<Rightarrow> False
       | Ok as \<Rightarrow> as \<noteq> [] \<and> list_all (\<lambda>a. validate_address (fst a) = Ok ()) as)"
proof (cases "resolve_host lookup h")
  case (Inl e)
  then have "\<nexists>as. lookup h = Ok as \<and> as \<noteq> [] \<and> list_all (\<lambda>a. validate_address (fst a) = Ok ()) as"
    using resolve_host_Ok [of lookup h] by auto
  with Inl show ?thesis by (auto split: sum.splits)
next
  case (Inr as)
  then show ?thesis
    using resolve_host_Ok [of lookup h as] by (auto simp: list_all_iff is_ok_iff)
qed

lemma allowed_is_public:
  assumes "\<not> nav_allow_loopback policy"
  shows "navigation_allowed api sha lookup url policy \<longleftrightarrow> public_target api sha lookup url (nav_routing policy)"
  using assms unfolding navigation_allowed_def public_target_def resolves_public
  by (auto split: sum.splits option.splits)

text \<open>The outcomes of one job, before its total budget is applied.\<close>

lemma render_once_Ok:
  assumes "render_once api sha policy c command = (Ok r, ms)"
  shows "navigation_allowed api sha (cs_lookup c) (rc_url command) policy"
    and "list_all (allowed_request api sha policy) (cs_requests c)"
    and "length (ro_dom r) \<le> max_dom_bytes (rc_budgets command)"
    and "cs_goto_ms c + SETTLE_MS \<le> navigation_timeout_ms (rc_budgets command)"
    and "cs_content c = Some (ro_dom r)"
    and "ne_blocked_requests (ro_evidence r) =
           length (filter (\<lambda>q. allowed_request api sha policy q \<and> is_heavy q \<and> rq_denied q)
                     (cs_requests c @ cs_late_requests c))"
  using assms
  by (auto simp: render_once_def render_in_context_def Let_def install_interception_fields
      split: if_splits prod.splits option.splits)

lemma render_job_Ok:
  assumes "render_job api sha policy c command = (Ok r, ms)"
  obtains ms' where "render_once api sha policy c command = (Ok r, ms')"
    "ms' \<le> total_timeout_ms (rc_budgets command)" "ms = cs_lock_ms c + ms'"
  using assms by (auto simp: render_job_def Let_def split: if_splits prod.splits)

lemma render_job_time:
  "snd (render_job api sha policy c command) \<le> cs_lock_ms c + total_timeout_ms (rc_budgets command)"
  by (auto simp: render_job_def Let_def split: prod.splits)

text \<open>C18. Once it holds the browser, a job ends within its total budget, whatever Chromium does. When it
  yields a page, the command's address and every request seen before the verdict passed the policy, so did every request
  that was ever released, early or late; navigation with its settling time fitted its budget, the page is
  Chromium's and within the size budget, and the evidence counts exactly the heavy requests that were denied.
  Under the default policy a passed address is a normalised URL whose host resolved, at the check, to public
  addresses only.\<close>

theorem rendered_pages_are_within_policy:
  "(case render_job api sha policy c command of
      (result, ms) \<Rightarrow>
        ms \<le> cs_lock_ms c + total_timeout_ms (rc_budgets command)
        \<and> (case result of
             Err _ \<Rightarrow> True
           | Ok r \<Rightarrow>
               navigation_allowed api sha (cs_lookup c) (rc_url command) policy
               \<and> list_all (allowed_request api sha policy)
                    (cs_requests c
                     @ ic_released (install_interception api sha policy (cs_requests c @ cs_late_requests c)))
               \<and> cs_goto_ms c + SETTLE_MS \<le> navigation_timeout_ms (rc_budgets command)
               \<and> cs_content c = Some (ro_dom r) \<and> length (ro_dom r) \<le> max_dom_bytes (rc_budgets command)
               \<and> ne_blocked_requests (ro_evidence r) =
                    length (filter (\<lambda>q. allowed_request api sha policy q \<and> is_heavy q \<and> rq_denied q)
                              (cs_requests c @ cs_late_requests c))))
   \<and> (navigation_allowed api sha lookup url default_navigation_policy
        = public_target api sha lookup url (nav_routing default_navigation_policy))"
proof -
  have "\<not> nav_allow_loopback default_navigation_policy"
    by (simp add: default_navigation_policy_def)
  then have public: "navigation_allowed api sha lookup url default_navigation_policy
      = public_target api sha lookup url (nav_routing default_navigation_policy)"
    by (rule allowed_is_public)
  show ?thesis
  proof (cases "render_job api sha policy c command")
    case (Pair result ms)
    then have time: "ms \<le> cs_lock_ms c + total_timeout_ms (rc_budgets command)"
      using render_job_time [of api sha policy c command] by simp
    show ?thesis
    proof (cases result)
      case (Inl e)
      with Pair time public show ?thesis by simp
    next
      case (Inr r)
      with Pair have "render_job api sha policy c command = (Ok r, ms)" by simp
      then obtain ms' where "render_once api sha policy c command = (Ok r, ms')"
        by (rule render_job_Ok)
      from render_once_Ok [OF this] Pair Inr time public show ?thesis
        by (simp add: install_interception_fields)
    qed
  qed
qed

section \<open>Every acknowledged command is answered\<close>

definition answered :: "'u worker_env \<Rightarrow> worker_state \<Rightarrow> string \<Rightarrow> bool" where
  "answered env s key \<longleftrightarrow> key \<in> set (map (we_uuid_text env \<circ> event_render_id) (ws_events s))"

definition markers_honest :: "'u worker_env \<Rightarrow> worker_state \<Rightarrow> bool" where
  "markers_honest env s = list_all (answered env s) (ws_completions s)"

text \<open>What the other users of the bucket and the event stream may do between two deliveries: add events, and
  set markers only for renders with an event.\<close>

definition fair_step :: "'u worker_env \<Rightarrow> render_delivery_step \<Rightarrow> bool" where
  "fair_step env m =
     (case m of
        RenderMessage payload v \<Rightarrow>
          (\<forall>s. markers_honest env s
             \<longrightarrow> markers_honest env (de_others v s) \<and> set (ws_events s) \<subseteq> set (ws_events (de_others v s)))
      | _ \<Rightarrow> True)"

definition answered_delivery :: "'u worker_env \<Rightarrow> worker_state \<Rightarrow> string \<times> delivery_outcome \<times> bool \<Rightarrow> bool" where
  "answered_delivery env s entry =
     (case entry of (payload, outcome, acked) \<Rightarrow>
        case we_decode env payload of
          None \<Rightarrow> outcome = Skipped
        | Some command \<Rightarrow>
            acked \<or> outcome = Terminal \<longrightarrow> answered env s (we_uuid_text env (rc_render_id command)))"

lemma answered_mono:
  "set (ws_events s) \<subseteq> set (ws_events s') \<Longrightarrow> answered env s key \<Longrightarrow> answered env s' key"
  by (auto simp: answered_def)

lemma answered_delivery_mono:
  "set (ws_events s) \<subseteq> set (ws_events s') \<Longrightarrow> answered_delivery env s d \<Longrightarrow> answered_delivery env s' d"
  by (auto simp: answered_delivery_def split: option.splits dest: answered_mono)

lemma rendered_event_state:
  assumes "rendered_event env v command s = (e, s')"
  shows "ws_events s' = ws_events s" "ws_completions s' = ws_completions s"
    and "e = Some x \<Longrightarrow> event_render_id x = rc_render_id command"
  using assms
  by (auto simp: rendered_event_def split: sum.splits prod.splits worker_error.splits)

lemma publish_event_state:
  assumes "publish_event v e s = (ok, s')"
  shows "set (ws_events s) \<subseteq> set (ws_events s')" "ws_completions s' = ws_completions s"
    and "ok \<Longrightarrow> e \<in> set (ws_events s')" "ws_files s' = ws_files s"
    and "set (ws_events s') \<subseteq> insert e (set (ws_events s))"
  using assms by (auto simp: publish_event_def split: if_splits tx_fate.splits)

lemma put_marker_state:
  "ws_events (put_marker v key s) = ws_events s"
  "set (ws_completions (put_marker v key s)) \<subseteq> insert key (set (ws_completions s))"
  "ws_files (put_marker v key s) = ws_files s"
  by (auto simp: put_marker_def)

lemma handle_delivery_cases:
  assumes "handle_delivery env v payload s = ((outcome, acked), s')"
  obtains
    (malformed) "we_decode env payload = None" "outcome = Skipped" "s' = s"
  | (repeated) command where "we_decode env payload = Some command"
      "we_uuid_text env (rc_render_id command) \<in> set (ws_completions s)" "outcome = Skipped" "s' = s"
  | (unanswered) command s1 where "we_decode env payload = Some command"
      "rendered_event env v command s = (None, s1)" "outcome = Skipped" "\<not> acked" "s' = s1"
  | (unpublished) command e s1 where "we_decode env payload = Some command"
      "rendered_event env v command s = (Some e, s1)" "publish_event v e s1 = (False, s')"
      "outcome = Skipped" "\<not> acked"
  | (published) command e s1 s2 where "we_decode env payload = Some command"
      "rendered_event env v command s = (Some e, s1)" "publish_event v e s1 = (True, s2)"
      "outcome = Terminal" "s' = put_marker v (we_uuid_text env (rc_render_id command)) s2"
  using assms
  by (auto simp: handle_delivery_def Let_def split: option.splits if_splits prod.splits bool.splits)

lemma handle_delivery_answers:
  assumes "handle_delivery env v payload s = ((outcome, acked), s')" and honest: "markers_honest env s"
  shows "markers_honest env s' \<and> set (ws_events s) \<subseteq> set (ws_events s')
    \<and> answered_delivery env s' (payload, outcome, acked)"
  using assms(1)
proof (cases rule: handle_delivery_cases)
  case malformed
  with honest show ?thesis by (simp add: answered_delivery_def)
next
  case (repeated command)
  with honest show ?thesis by (simp add: answered_delivery_def markers_honest_def list_all_iff)
next
  case (unanswered command s1)
  with honest rendered_event_state [OF unanswered(2)] show ?thesis
    by (simp add: answered_delivery_def markers_honest_def answered_def list_all_iff)
next
  case (unpublished command e s1)
  with honest rendered_event_state [OF unpublished(2)] publish_event_state [OF unpublished(3)] show ?thesis
    by (auto simp: answered_delivery_def markers_honest_def list_all_iff dest: answered_mono [rotated])
next
  case (published command e s1 s2)
  note facts = rendered_event_state [OF published(2)] publish_event_state [OF published(3)]
  have "answered env s' (we_uuid_text env (rc_render_id command))"
    using facts published(5) by (auto simp: answered_def put_marker_state intro!: rev_image_eqI [of e])
  moreover have "set (ws_events s) \<subseteq> set (ws_events s')"
    using facts published(5) by (auto simp: put_marker_state)
  moreover have "set (ws_completions s') \<subseteq> insert (we_uuid_text env (rc_render_id command)) (set (ws_completions s))"
    using facts published(5) put_marker_state(2) by metis
  ultimately show ?thesis
    using honest published(1)
    by (simp add: answered_delivery_def markers_honest_def list_all_iff) (use answered_mono in blast)
qed

lemma consume_renders_answers:
  assumes "consume_renders env max_jobs ms handled s = (log, handled', s')" "markers_honest env s"
    and "list_all (fair_step env) ms"
  shows "markers_honest env s' \<and> set (ws_events s) \<subseteq> set (ws_events s') \<and> list_all (answered_delivery env s') log"
  using assms
proof (induction env max_jobs ms handled s arbitrary: log handled' s' rule: consume_renders.induct)
  case (5 env max_jobs payload v ms handled s)
  obtain outcome acked s1 where h: "handle_delivery env v payload (de_others v s) = ((outcome, acked), s1)"
    by (metis prod.exhaust)
  have others: "markers_honest env (de_others v s)" "set (ws_events s) \<subseteq> set (ws_events (de_others v s))"
    using 5(3,4) by (auto simp: fair_step_def)
  note one = handle_delivery_answers [OF h others(1)]
  let ?n = "if outcome = Terminal then handled + 1 else handled"
  show ?case
  proof (cases "outcome = Terminal \<and> ?n \<ge> max_jobs")
    case True
    with 5(2) h one others show ?thesis by (auto simp: Let_def)
  next
    case False
    obtain log1 where rest: "consume_renders env max_jobs ms ?n s1 = (log1, handled', s')"
      and log: "log = (payload, outcome, acked) # log1"
      using 5(2) h False by (auto simp: Let_def split: prod.splits if_splits)
    have "markers_honest env s' \<and> set (ws_events s1) \<subseteq> set (ws_events s') \<and> list_all (answered_delivery env s') log1"
      using 5(1) [OF h [symmetric] refl _ False] rest one 5(4) by auto
    then show ?thesis
      using one others log by (auto dest: answered_delivery_mono)
  qed
qed auto

lemma consume_renders_counts:
  assumes "consume_renders env max_jobs ms handled s = (log, handled', s')" "handled < max 1 max_jobs"
  shows "handled' = handled + length (filter (\<lambda>(_, outcome, _). outcome = Terminal) log) \<and> handled' \<le> max 1 max_jobs"
  using assms
proof (induction env max_jobs ms handled s arbitrary: log handled' s' rule: consume_renders.induct)
  case (5 env max_jobs payload v ms handled s)
  obtain outcome acked s1 where h: "handle_delivery env v payload (de_others v s) = ((outcome, acked), s1)"
    by (metis prod.exhaust)
  let ?n = "if outcome = Terminal then handled + 1 else handled"
  show ?case
  proof (cases "outcome = Terminal \<and> ?n \<ge> max_jobs")
    case True
    with 5(2,3) h show ?thesis by (auto simp: Let_def)
  next
    case False
    obtain log1 where rest: "consume_renders env max_jobs ms ?n s1 = (log1, handled', s')"
      and log: "log = (payload, outcome, acked) # log1"
      using 5(2) h False by (auto simp: Let_def split: prod.splits if_splits)
    have "?n < max 1 max_jobs" using False 5(3) by auto
    with 5(1) [OF h [symmetric] refl _ False] rest show ?thesis using log by auto
  qed
qed auto

text \<open>C17. Every render command the loop acknowledged, or counted as handled, has a published event of that
  render in the final state, as long as the other users of the completions bucket set markers only for renders with an event;
  a command whose page could not be stored or whose event was not confirmed is left for redelivery. The
  loop counts exactly the terminal deliveries and stops at the job budget of the process.\<close>

theorem acknowledged_renders_are_answered:
  assumes "consume_renders env max_jobs ms 0 s = (log, handled, s')" "markers_honest env s"
    and "list_all (fair_step env) ms"
  shows "list_all (answered_delivery env s') log \<and> markers_honest env s'
    \<and> handled = length (filter (\<lambda>(_, outcome, _). outcome = Terminal) log) \<and> handled \<le> max 1 max_jobs"
  using consume_renders_answers [OF assms] consume_renders_counts [OF assms(1)]
  by (simp add: less_max_iff_disj)

text \<open>A worker with small instances of its library parameters, and one delivery of a page with one image.\<close>

definition sample_lookup :: dns_lookup where
  "sample_lookup h = Ok [(V4 (8, 8, 8, 8), 443)]"

definition sample_command :: render_command where
  "sample_command = sample_render\<lparr>rc_budgets :=
     \<lparr>navigation_timeout_ms = 800, total_timeout_ms = 900, max_dom_bytes = 10\<rparr>\<rparr>"

definition sample_session :: chromium_session where
  "sample_session = \<lparr>cs_lookup = sample_lookup, cs_lock_ms = 1, cs_check_ms = 1, cs_context = True, cs_target = True,
     cs_page = True, cs_interception = True, cs_setup_ms = 1, cs_goto_ms = 1,
     cs_requests = [\<lparr>rq_url = ''https://a.io/x'', rq_resource = Image, rq_lookup = sample_lookup, rq_denied = True,
                     rq_continued = False\<rparr>],
     cs_late_requests = [], cs_responses = [], cs_content = Some ''abc'', cs_page_url = None, cs_content_ms = 1,
     cs_dispose_ms = 1\<rparr>"

definition sample_worker :: "sample_url worker_env" where
  "sample_worker = \<lparr>we_api = sample_api, we_sha256 = sample_sha256, we_policy = default_navigation_policy,
     we_decode = (\<lambda>p. if p = ''r'' then Some sample_command else None),
     we_uuid_text = map (\<lambda>w. char_of (unat w)), we_blob = sample_env, we_store = sample_store\<rparr>"

definition sample_delivery :: delivery_env where
  "sample_delivery = \<lparr>de_others = id, de_get_ok = True, de_session = sample_session, de_io = calm_io,
     de_staging = ''u1'', de_encodes = True, de_publish = Commits, de_put = Commits, de_ack = True\<rparr>"

definition idle_worker :: worker_state where
  "idle_worker = \<lparr>ws_files = Map.empty, ws_completions = [], ws_events = []\<rparr>"

definition sample_consumed :: "(string \<times> delivery_outcome \<times> bool) list \<times> nat \<times> worker_state" where
  "sample_consumed = consume_renders sample_worker 2
     [RenderMessage ''?'' sample_delivery, RenderMessage ''r'' sample_delivery, RenderMessage ''r'' sample_delivery]
     0 idle_worker"

lemma sample_consumed_log:
  "fst sample_consumed = [(''?'', Skipped, True), (''r'', Terminal, True), (''r'', Skipped, True)]"
  by code_simp

theorem acknowledged_renders_are_answered_witness:
  "answered sample_worker (snd (snd sample_consumed)) [char_of (1 :: nat)] \<and> fst (snd sample_consumed) = 1"
proof -
  obtain handled s where run: "sample_consumed
      = ([(''?'', Skipped, True), (''r'', Terminal, True), (''r'', Skipped, True)], handled, s)"
    using sample_consumed_log by (metis prod.collapse)
  have "markers_honest sample_worker idle_worker"
    by (simp add: markers_honest_def idle_worker_def)
  moreover have "fair_step sample_worker (RenderMessage p sample_delivery)" for p
    by (simp add: fair_step_def sample_delivery_def)
  ultimately have "list_all (answered_delivery sample_worker s) (fst sample_consumed)
      \<and> handled = length (filter (\<lambda>(_, outcome, _). outcome = Terminal) (fst sample_consumed))"
    using acknowledged_renders_are_answered [OF run [unfolded sample_consumed_def]] unfolding sample_consumed_log
    by simp
  then have "answered_delivery sample_worker s (''r'', Terminal, True) \<and> handled = 1"
    unfolding sample_consumed_log by simp
  moreover have "we_decode sample_worker ''r'' = Some sample_command"
    "we_uuid_text sample_worker (rc_render_id sample_command) = [char_of (1 :: nat)]"
    by (simp_all add: sample_worker_def sample_command_def sample_render_def)
  ultimately show ?thesis
    unfolding run by (simp add: answered_delivery_def)
qed

lemma rendered_event_completes:
  assumes "rendered_event env v command s = (Some (CompletedEvent d), s1)"
  obtains page where
    "fst (render_job (we_api env) (we_sha256 env) (we_policy env) (de_session v) command) = Ok page"
    "store (we_blob env) (de_io v) (we_store env) (de_staging v) ''text/html'' [Ok (ro_dom page)] (ws_files s)
       = (Ok (rd_dom d), ws_files s1)"
    "rd_render_id d = rc_render_id command"
  using assms
  by (auto simp: rendered_event_def map_err_iff split: sum.splits prod.splits worker_error.splits)

lemma handle_delivery_completes:
  assumes "handle_delivery env v payload s = (r, s')" "CompletedEvent d \<in> set (ws_events s')"
    and "CompletedEvent d \<notin> set (ws_events s)"
  obtains command s1 where "we_decode env payload = Some command"
    "rendered_event env v command s = (Some (CompletedEvent d), s1)" "ws_files s' = ws_files s1"
proof -
  obtain outcome acked where "handle_delivery env v payload s = ((outcome, acked), s')"
    using assms(1) by (metis prod.exhaust)
  then show thesis
  proof (cases rule: handle_delivery_cases)
    case (unanswered command s1)
    then show thesis
      using assms(2,3) rendered_event_state(1) [OF unanswered(2)] by simp
  next
    case (unpublished command e s1)
    then show thesis
      using assms(2,3) rendered_event_state(1) [OF unpublished(2)] publish_event_state [OF unpublished(3)] that
      by auto
  next
    case (published command e s1 s2)
    then show thesis
      using assms(2,3) rendered_event_state(1) [OF published(2)] publish_event_state [OF published(3)] that
      by (auto simp: put_marker_state)
  qed (use assms(2,3) in auto)
qed

text \<open>C19. A completion the worker publishes can be redeemed: its blob has the length and the digest of the page
  Chromium produced, the page is within the size budget of its command, and a fault-free \<open>verify\<close> of the
  worker's store on the files the delivery left behind finds it.\<close>

theorem published_completion_verifies:
  assumes "handle_delivery env v payload s = (r, s')" "CompletedEvent d \<in> set (ws_events s')"
    and "CompletedEvent d \<notin> set (ws_events s)"
    and "parse_owner (we_blob env) (owner (we_store env)) = Some (owner (we_store env))"
    and "\<forall>m m'. parse_media_type (we_blob env) m = Some m' \<longrightarrow> parse_media_type (we_blob env) m' \<noteq> None"
    and "\<forall>x x'. parse_digest_hex (we_blob env) x = Some x' \<longrightarrow> x' = x"
    and "no_faults io"
  shows "\<exists>command page p. we_decode env payload = Some command \<and> rd_render_id d = rc_render_id command
    \<and> cs_content (de_session v) = Some page \<and> length page \<le> max_dom_bytes (rc_budgets command)
    \<and> length_bytes (rd_dom d) = length page
    \<and> digest_hex (rd_dom d) = hex_string (sha256 (we_blob env) page)
    \<and> verify (we_blob env) io (we_store env) (rd_dom d) (ws_files s') = Ok p"
proof -
  obtain command s1 where dec: "we_decode env payload = Some command"
    and e: "rendered_event env v command s = (Some (CompletedEvent d), s1)" and f: "ws_files s' = ws_files s1"
    using assms(1-3) by (rule handle_delivery_completes)
  obtain page where job: "fst (render_job (we_api env) (we_sha256 env) (we_policy env) (de_session v) command) = Ok page"
    and stored: "store (we_blob env) (de_io v) (we_store env) (de_staging v) ''text/html'' [Ok (ro_dom page)] (ws_files s)
                   = (Ok (rd_dom d), ws_files s1)"
    and id: "rd_render_id d = rc_render_id command"
    using e by (rule rendered_event_completes)
  obtain ms where "render_once (we_api env) (we_sha256 env) (we_policy env) (de_session v) command = (Ok page, ms)"
    using job by (metis prod.collapse render_job_Ok)
  then have "cs_content (de_session v) = Some (ro_dom page)" "length (ro_dom page) \<le> max_dom_bytes (rc_budgets command)"
    using render_once_Ok(3,5) by blast+
  moreover have "\<exists>p. length_bytes (rd_dom d) = length (ro_dom page)
      \<and> digest_hex (rd_dom d) = hex_string (sha256 (we_blob env) (ro_dom page))
      \<and> verify (we_blob env) io (we_store env) (rd_dom d) (ws_files s1) = Ok p"
    using stored_blob_verifies [OF stored assms(4-7)] by (auto simp: Cons_eq_map_conv)
  ultimately show ?thesis
    using dec f id by auto
qed

lemma sample_handled:
  "map (\<lambda>e. case e of CompletedEvent d \<Rightarrow> Some (rd_dom d) | FailedEvent f \<Rightarrow> None)
     (ws_events (snd (handle_delivery sample_worker sample_delivery ''r'' idle_worker))) = [Some sample_ref]"
  by code_simp

theorem published_completion_verifies_witness:
  "\<exists>p. verify sample_env calm_io sample_store sample_ref
         (ws_files (snd (handle_delivery sample_worker sample_delivery ''r'' idle_worker))) = Ok p"
proof -
  obtain e where e: "e \<in> set (ws_events (snd (handle_delivery sample_worker sample_delivery ''r'' idle_worker)))"
    "(case e of CompletedEvent d \<Rightarrow> Some (rd_dom d) | FailedEvent f \<Rightarrow> None) = Some sample_ref"
    using sample_handled by (auto simp: map_eq_Cons_conv)
  obtain d where "e = CompletedEvent d" and ref: "rd_dom d = sample_ref"
    using e(2) by (cases e) simp_all
  with e(1) have d: "CompletedEvent d \<in> set (ws_events (snd (handle_delivery sample_worker sample_delivery ''r'' idle_worker)))"
    by simp
  have run: "handle_delivery sample_worker sample_delivery ''r'' idle_worker
      = (fst (handle_delivery sample_worker sample_delivery ''r'' idle_worker),
         snd (handle_delivery sample_worker sample_delivery ''r'' idle_worker))"
    by simp
  have fresh: "CompletedEvent d \<notin> set (ws_events idle_worker)"
    by (simp add: idle_worker_def)
  have parts: "we_blob sample_worker = sample_env" "we_store sample_worker = sample_store"
    by (simp_all add: sample_worker_def)
  have laws: "parse_owner sample_env x = Some x"
    "\<forall>m m'. parse_media_type sample_env m = Some m' \<longrightarrow> parse_media_type sample_env m' \<noteq> None"
    "\<forall>y y'. parse_digest_hex sample_env y = Some y' \<longrightarrow> y' = y" "no_faults calm_io" for x
    by (simp_all add: sample_env_def no_faults_def calm_io_def)
  from published_completion_verifies [OF run d fresh, unfolded parts, OF laws] show ?thesis
    unfolding ref by blast
qed

end
