(* ===== verification/Provisioning.thy ===== *)
theory Provisioning
  imports Config BrowserWorker
begin

text \<open>
  How the processes come up around their loops: the connections to the broker and the streams a development
  process creates (\<open>crates/eventing/src/outbox.rs\<close>, \<open>topology.rs\<close>, \<open>services/browser-worker/src/lib.rs\<close>), the
  installation of telemetry (\<open>crates/telemetry\<close>) and the entry point of the browser worker
  (\<open>services/browser-worker/src/main.rs\<close>). The broker's client and the telemetry crates are parameters:
  \<open>bus_client\<close> and \<open>telemetry_libs\<close>.
\<close>

section \<open>Connections\<close>

definition INBOX_PREFIX :: string where "INBOX_PREFIX = ''_INBOX_extractor''"
definition WORKER_INBOX_PREFIX :: string where "WORKER_INBOX_PREFIX = ''_INBOX_extractor_browser_worker''"

datatype credentials = Anonymous | Nkey string

record connect_options =
  co_credentials :: credentials
  co_inbox_prefix :: "string option"

text \<open>What the client library does with the broker's state \<open>'b\<close>: \<open>dial\<close> connects with options to an address,
  \<open>get_or_create_stream\<close> answers whether the stream is there afterwards, \<open>stream_of\<close> reads a stream's
  configuration.\<close>

datatype discard_policy = DiscardOld | DiscardNew
datatype retention_policy = RetainLimits | RetainOther
datatype storage_type = StoreFile | StoreMemory

record stream_config =
  sc_name :: string
  sc_subjects :: "string list"
  sc_retention :: retention_policy
  sc_storage :: storage_type
  sc_discard :: discard_policy
  sc_max_messages :: int
  sc_max_bytes :: int
  sc_max_age :: nat
  sc_duplicate_window :: nat
  sc_replicas :: nat

record 'b bus_client =
  dial :: "connect_options \<Rightarrow> string \<Rightarrow> bool"
  read_seed :: "string \<Rightarrow> string option"
  get_or_create_stream :: "stream_config \<Rightarrow> 'b \<Rightarrow> bool \<times> 'b"
  stream_of :: "'b \<Rightarrow> string \<Rightarrow> stream_config option"

record nats_publisher =
  np_url :: string
  np_options :: connect_options

definition connect_with_options :: "'b bus_client \<Rightarrow> string \<Rightarrow> connect_options \<Rightarrow> (publish_error, nats_publisher) res" where
  "connect_with_options cl url options =
     (let options = options\<lparr>co_inbox_prefix := Some INBOX_PREFIX\<rparr> in
      if dial cl options url then Ok \<lparr>np_url = url, np_options = options\<rparr> else Err Transient)"

definition connect_bus :: "'b bus_client \<Rightarrow> string \<Rightarrow> (publish_error, nats_publisher) res" where
  "connect_bus cl url = connect_with_options cl url \<lparr>co_credentials = Anonymous, co_inbox_prefix = None\<rparr>"

definition connect_with_nkey :: "'b bus_client \<Rightarrow> string \<Rightarrow> string \<Rightarrow> (publish_error, nats_publisher) res" where
  "connect_with_nkey cl url seed_path =
     (case read_seed cl seed_path of
        None \<Rightarrow> Err Transient
      | Some seed \<Rightarrow> connect_with_options cl url \<lparr>co_credentials = Nkey (trim seed), co_inbox_prefix = None\<rparr>)"

definition connect_publisher :: "'b bus_client \<Rightarrow> bus_config \<Rightarrow> (publish_error, nats_publisher) res" where
  "connect_publisher cl c =
     (case bus_nkey_seed_path c of
        Some path \<Rightarrow> connect_with_nkey cl (bus_url c) path
      | None \<Rightarrow> connect_bus cl (bus_url c))"

definition connect_worker :: "'b bus_client \<Rightarrow> (path \<Rightarrow> string option) \<Rightarrow> worker_settings \<Rightarrow> (worker_error, connect_options) res" where
  "connect_worker cl read_to_string settings =
     rbind (case wk_nkey_seed_path settings of
              Some path \<Rightarrow> map_err (\<lambda>_. WorkerInfrastructure)
                (ok_or () (map_option (\<lambda>seed. \<lparr>co_credentials = Nkey (trim seed), co_inbox_prefix = None\<rparr>) (read_to_string path)))
            | None \<Rightarrow> Ok \<lparr>co_credentials = Anonymous, co_inbox_prefix = None\<rparr>)
       (\<lambda>options.
          let options = options\<lparr>co_inbox_prefix := Some WORKER_INBOX_PREFIX\<rparr> in
          if dial cl options (wk_nats_url settings) then Ok options else Err WorkerInfrastructure)"

section \<open>Streams\<close>

definition COMMAND_STREAM :: string where "COMMAND_STREAM = ''ratatoskr_commands''"
definition EVENT_STREAM :: string where "EVENT_STREAM = ''ratatoskr_events''"

definition hours :: "nat \<Rightarrow> nat" where
  "hours n = n * 3600"

definition ensure_stream ::
  "'b bus_client \<Rightarrow> string \<Rightarrow> string \<Rightarrow> discard_policy \<Rightarrow> 'b \<Rightarrow> (publish_error, unit) res \<times> 'b" where
  "ensure_stream cl name subject discard b =
     (case get_or_create_stream cl
             \<lparr>sc_name = name, sc_subjects = [subject], sc_retention = RetainLimits, sc_storage = StoreFile,
              sc_discard = discard, sc_max_messages = 1000000, sc_max_bytes = 1024 * 1024 * 1024, sc_max_age = hours 168,
              sc_duplicate_window = 120, sc_replicas = 1\<rparr> b of
        (True, b') \<Rightarrow> (Ok (), b')
      | (False, b') \<Rightarrow> (Err Transient, b'))"

definition ensure_command_stream :: "'b bus_client \<Rightarrow> 'b \<Rightarrow> (publish_error, unit) res \<times> 'b" where
  "ensure_command_stream cl b = ensure_stream cl COMMAND_STREAM ''cmd.>'' DiscardNew b"

definition event_stream_config :: stream_config where
  "event_stream_config =
     \<lparr>sc_name = EVENT_STREAM, sc_subjects = [''evt.>''], sc_retention = RetainLimits, sc_storage = StoreFile,
      sc_discard = DiscardOld, sc_max_messages = 1000000, sc_max_bytes = 1024 * 1024 * 1024, sc_max_age = hours 168,
      sc_duplicate_window = 120, sc_replicas = 1\<rparr>"

definition ensure_event_stream :: "'b bus_client \<Rightarrow> 'b \<Rightarrow> (publish_error, unit) res \<times> 'b" where
  "ensure_event_stream cl b =
     (case get_or_create_stream cl event_stream_config b of
        (True, b') \<Rightarrow> (Ok (), b')
      | (False, b') \<Rightarrow> (Err Transient, b'))"

text \<open>The consumer a development process makes for the render results, on top of the library's defaults; the
  inactive threshold has no part in the verification.\<close>

definition render_awaits_config :: "consumer_config \<Rightarrow> consumer_config" where
  "render_awaits_config defaults =
     defaults\<lparr>durable_name := None, filter_subject := RENDER_AWAITS_FILTER, ack_policy := AckNone\<rparr>"

datatype bus_failure = PublishFailed publish_error | TopologyFailed string

text \<open>The bus part of \<open>run_initialized\<close>: a development process creates the streams, a production process only
  verifies the durables; \<open>capture\<close> and \<open>awaits\<close> are what the broker reports for them.\<close>

definition prepare_bus ::
  "'b bus_client \<Rightarrow> bus_config \<Rightarrow> consumer_config option \<Rightarrow> consumer_config option \<Rightarrow> 'b
   \<Rightarrow> (bus_failure, nats_publisher) res \<times> 'b" where
  "prepare_bus cl c capture awaits b =
     (case connect_publisher cl c of
        Err e \<Rightarrow> (Err (PublishFailed e), b)
      | Ok publisher \<Rightarrow>
          if bus_provision_topology c then
            (case ensure_command_stream cl b of
               (Err e, b) \<Rightarrow> (Err (PublishFailed e), b)
             | (Ok _, b) \<Rightarrow>
                 (case ensure_event_stream cl b of
                    (Err e, b) \<Rightarrow> (Err (PublishFailed e), b)
                  | (Ok _, b) \<Rightarrow> (Ok publisher, b)))
          else
            (case verify_bus_topology capture awaits (bus_durable_name c) of
               Err durable \<Rightarrow> (Err (TopologyFailed durable), b)
             | Ok _ \<Rightarrow> (Ok publisher, b)))"

section \<open>Telemetry\<close>

datatype fetch_failure_class =
    FailurePolicyDenied | FailureDns | FailureTransport | FailureTimeout | FailureResourceLimit | FailureCacheIntegrity
  | FailureArtifact

fun class_str :: "fetch_failure_class \<Rightarrow> string" where
  "class_str FailurePolicyDenied = ''policy_denied''"
| "class_str FailureDns = ''dns''"
| "class_str FailureTransport = ''transport''"
| "class_str FailureTimeout = ''timeout''"
| "class_str FailureResourceLimit = ''resource_limit''"
| "class_str FailureCacheIntegrity = ''cache_integrity''"
| "class_str FailureArtifact = ''artifact''"

text \<open>A counter family with its label; the log line has the same class.\<close>

definition record_fetch_failure :: "fetch_failure_class \<Rightarrow> (string \<Rightarrow> nat) \<Rightarrow> (string \<Rightarrow> nat)" where
  "record_fetch_failure c counters = counters(class_str c := counters (class_str c) + 1)"

datatype telemetry_error = FilterInvalid | ExporterFailed | AlreadyInstalled

datatype recorder_error = GlobalRecorderSet | OtherBuildError

text \<open>\<open>'g\<close> is the state global to the process: the recorder of metrics and the subscriber of spans. \<open>set_buckets\<close>
  answers whether the buckets are accepted, in thousandths of a second; \<open>build_exporter\<close> gets the endpoint, the
  timeout and whether TLS is enabled.\<close>

record ('u, 'g) telemetry_libs =
  parse_filter :: "string \<Rightarrow> bool"
  build_exporter :: "'u \<Rightarrow> nat \<Rightarrow> bool \<Rightarrow> bool"
  set_buckets :: "nat list \<Rightarrow> bool"
  set_recorder :: "'g \<Rightarrow> recorder_error option \<times> 'g"
  try_init :: "log_format \<Rightarrow> 'g \<Rightarrow> bool \<times> 'g"

definition DURATION_BUCKETS :: "nat list" where
  "DURATION_BUCKETS = [5, 10, 25, 50, 100, 250, 500, 1000, 2500, 10000, 30000]"

definition span_exporter :: "'u url_api \<Rightarrow> ('u, 'g) telemetry_libs \<Rightarrow> 'u otlp_config \<Rightarrow> (telemetry_error, unit) res" where
  "span_exporter api libs c =
     (if build_exporter libs (otlp_endpoint c) (otlp_timeout_seconds c) (u_scheme api (otlp_endpoint c) = ''https'')
      then Ok () else Err ExporterFailed)"

text \<open>Whether the provider exports.\<close>

definition tracer_provider :: "'u url_api \<Rightarrow> ('u, 'g) telemetry_libs \<Rightarrow> 'u telemetry_config \<Rightarrow> (telemetry_error, bool) res" where
  "tracer_provider api libs c =
     (case telemetry_otlp c of
        Some otlp \<Rightarrow> rbind (span_exporter api libs otlp) (\<lambda>_. Ok True)
      | None \<Rightarrow> Ok False)"

definition install_recorder :: "('u, 'g) telemetry_libs \<Rightarrow> 'g \<Rightarrow> (telemetry_error, unit) res \<times> 'g" where
  "install_recorder libs g =
     (if \<not> set_buckets libs DURATION_BUCKETS then (Err ExporterFailed, g)
      else case set_recorder libs g of
        (None, g) \<Rightarrow> (Ok (), g)
      | (Some GlobalRecorderSet, g) \<Rightarrow> (Err AlreadyInstalled, g)
      | (Some OtherBuildError, g) \<Rightarrow> (Err ExporterFailed, g))"

definition telemetry_init ::
  "'u url_api \<Rightarrow> ('u, 'g) telemetry_libs \<Rightarrow> 'u telemetry_config \<Rightarrow> 'g \<Rightarrow> (telemetry_error, bool) res \<times> 'g" where
  "telemetry_init api libs c g =
     (if \<not> parse_filter libs (telemetry_log_filter c) then (Err FilterInvalid, g)
      else case tracer_provider api libs c of
        Err e \<Rightarrow> (Err e, g)
      | Ok exports \<Rightarrow>
          (case install_recorder libs g of
             (Err e, g) \<Rightarrow> (Err e, g)
           | (Ok _, g) \<Rightarrow>
               (case try_init libs (telemetry_log_format c) g of
                  (False, g) \<Rightarrow> (Err AlreadyInstalled, g)
                | (True, g) \<Rightarrow> (Ok exports, g))))"

section \<open>The browser worker's process\<close>

definition worker_main ::
  "(string, worker_settings) res \<Rightarrow> (string option \<Rightarrow> bool) \<Rightarrow> (worker_settings \<Rightarrow> (worker_error, 'c) res)
   \<Rightarrow> (worker_settings \<Rightarrow> 'c \<Rightarrow> (worker_error, 'r) res) \<Rightarrow> nat" where
  "worker_main loaded launches connects consumes =
     (case load_settings loaded of
        Err e \<Rightarrow> 78
      | Ok settings \<Rightarrow>
          if \<not> launches (wk_chrome_bin settings) then 1
          else case connects settings of
            Err e \<Rightarrow> 1
          | Ok client \<Rightarrow> (case consumes settings client of Err e \<Rightarrow> 1 | Ok _ \<Rightarrow> 0))"

section \<open>Only missing streams are created\<close>

text \<open>The documented behaviour of the client: \<open>get_or_create_stream\<close> keeps every stream there is, touches no other
  name, creates the stream as asked when it is missing, and answers only when the stream is there.\<close>

definition stream_laws :: "'b bus_client \<Rightarrow> bool" where
  "stream_laws cl \<longleftrightarrow>
     (\<forall>cfg b there b'. get_or_create_stream cl cfg b = (there, b') \<longrightarrow>
        (\<forall>n. stream_of cl b' n = stream_of cl b n \<or>
             (n = sc_name cfg \<and> stream_of cl b n = None \<and> stream_of cl b' n = Some cfg))
        \<and> (there \<longrightarrow> stream_of cl b' (sc_name cfg) \<noteq> None))"

text \<open>How the streams of a broker may have changed: those that were there are kept, a new one is one of \<open>cfgs\<close>.\<close>

definition only_creates :: "'b bus_client \<Rightarrow> stream_config set \<Rightarrow> 'b \<Rightarrow> 'b \<Rightarrow> bool" where
  "only_creates cl cfgs b b' =
     (\<forall>n. stream_of cl b' n = stream_of cl b n \<or>
        (stream_of cl b n = None \<and> (\<exists>cfg\<in>cfgs. n = sc_name cfg \<and> stream_of cl b' n = Some cfg)))"

definition command_stream_config :: stream_config where
  "command_stream_config = event_stream_config\<lparr>sc_name := COMMAND_STREAM, sc_subjects := [''cmd.>''], sc_discard := DiscardNew\<rparr>"

lemma only_creates_refl: "only_creates cl cfgs b b"
  by (simp add: only_creates_def)

lemma only_creates_trans:
  assumes "only_creates cl A b c" "only_creates cl B c d"
  shows "only_creates cl (A \<union> B) b d"
  using assms unfolding only_creates_def by (metis UnCI)

lemma get_or_create_only:
  assumes "stream_laws cl" "get_or_create_stream cl cfg b = (there, b')"
  shows "only_creates cl {cfg} b b'" "there \<Longrightarrow> stream_of cl b' (sc_name cfg) \<noteq> None"
  using assms unfolding stream_laws_def only_creates_def by blast+

lemma ensure_only:
  assumes "stream_laws cl"
  shows "ensure_command_stream cl b = (r, b') \<Longrightarrow>
      only_creates cl {command_stream_config} b b' \<and> (r = Ok () \<longrightarrow> stream_of cl b' COMMAND_STREAM \<noteq> None)"
    and "ensure_event_stream cl b = (r, b') \<Longrightarrow>
      only_creates cl {event_stream_config} b b' \<and> (r = Ok () \<longrightarrow> stream_of cl b' EVENT_STREAM \<noteq> None)"
proof -
  have "sc_name command_stream_config = COMMAND_STREAM" "sc_name event_stream_config = EVENT_STREAM"
    by (simp_all add: command_stream_config_def event_stream_config_def)
  note names = this
  have "ensure_command_stream cl b = (case get_or_create_stream cl command_stream_config b of
        (True, b') \<Rightarrow> (Ok (), b') | (False, b') \<Rightarrow> (Err Transient, b'))"
    by (simp add: ensure_command_stream_def ensure_stream_def command_stream_config_def event_stream_config_def)
  then show "ensure_command_stream cl b = (r, b') \<Longrightarrow>
      only_creates cl {command_stream_config} b b' \<and> (r = Ok () \<longrightarrow> stream_of cl b' COMMAND_STREAM \<noteq> None)"
    using get_or_create_only [OF assms, of command_stream_config b] names
    by (auto split: prod.splits bool.splits)
  show "ensure_event_stream cl b = (r, b') \<Longrightarrow>
      only_creates cl {event_stream_config} b b' \<and> (r = Ok () \<longrightarrow> stream_of cl b' EVENT_STREAM \<noteq> None)"
    using get_or_create_only [OF assms, of event_stream_config b] names
    by (auto simp: ensure_event_stream_def split: prod.splits bool.splits)
qed

lemma connect_publisher_inbox:
  "connect_publisher cl c = Ok p \<Longrightarrow> co_inbox_prefix (np_options p) = Some INBOX_PREFIX
     \<and> (bus_nkey_seed_path c = None) = (co_credentials (np_options p) = Anonymous)"
  by (auto simp: connect_publisher_def connect_bus_def connect_with_nkey_def connect_with_options_def Let_def
      split: option.splits if_splits)

lemma accepted_provisioning:
  assumes "load_from api filter_ok extracted = Ok c"
  shows "bus_provision_topology (bus c) \<Longrightarrow> bus_nkey_seed_path (bus c) = None"
  using accepted_is_valid [OF assms] by (simp add: validate_bus_def Let_def)

text \<open>Coming up never disturbs a broker. With any accepted configuration, connecting and preparing the bus keeps
  every stream that exists as it is and creates at most the command and the event stream, with their
  fixed configuration; a process with credentials, and every process that does not provision, changes nothing at all.
  A process that comes up replies on its own inbox prefix, has credentials exactly when a seed is configured, and
  found its durables verified or both streams in place.\<close>

theorem prepared_bus_keeps_existing_streams:
  assumes "stream_laws cl" "load_from api filter_ok extracted = Ok c" "prepare_bus cl (bus c) capture awaits b = (r, b')"
  shows "only_creates cl {command_stream_config, event_stream_config} b b'
    \<and> (\<not> bus_provision_topology (bus c) \<or> bus_nkey_seed_path (bus c) \<noteq> None \<longrightarrow> b' = b)
    \<and> (\<forall>p. r = Ok p \<longrightarrow>
         co_inbox_prefix (np_options p) = Some INBOX_PREFIX
         \<and> (bus_nkey_seed_path (bus c) = None \<longleftrightarrow> co_credentials (np_options p) = Anonymous)
         \<and> (if bus_provision_topology (bus c) then stream_of cl b' COMMAND_STREAM \<noteq> None \<and> stream_of cl b' EVENT_STREAM \<noteq> None
            else verify_bus_topology capture awaits (bus_durable_name (bus c)) = Ok ()))"
proof (cases "connect_publisher cl (bus c)")
  case (Inl e)
  with assms(3) show ?thesis by (auto simp: prepare_bus_def only_creates_refl)
next
  case (Inr p)
  note inbox = connect_publisher_inbox [OF Inr]
  show ?thesis
  proof (cases "bus_provision_topology (bus c)")
    case False
    with assms(3) Inr inbox show ?thesis by (auto simp: prepare_bus_def only_creates_refl split: sum.splits)
  next
    case True
    obtain r1 b1 where one: "ensure_command_stream cl b = (r1, b1)" by fastforce
    obtain r2 b2 where two: "ensure_event_stream cl b1 = (r2, b2)" by fastforce
    note first = ensure_only(1) [OF assms(1) one] and second = ensure_only(2) [OF assms(1) two]
    have both: "only_creates cl {command_stream_config, event_stream_config} b b2"
      using only_creates_trans [OF conjunct1 [OF first] conjunct1 [OF second]] by (simp add: insert_commute)
    have half: "only_creates cl {command_stream_config, event_stream_config} b b1"
      using first unfolding only_creates_def by blast
    have kept: "stream_of cl b2 COMMAND_STREAM \<noteq> None" if "stream_of cl b1 COMMAND_STREAM \<noteq> None"
      using second that unfolding only_creates_def by (metis option.distinct(1))
    from True assms(3) Inr one two both half kept first second inbox accepted_provisioning [OF assms(2)] show ?thesis
      by (cases r1; cases r2) (auto simp: prepare_bus_def)
  qed
qed

text \<open>A concrete client: the broker is the list of its streams.\<close>

definition sample_client :: "stream_config list bus_client" where
  "sample_client =
     \<lparr>dial = (\<lambda>_ _. True), read_seed = (\<lambda>_. Some ''SU''),
      get_or_create_stream = (\<lambda>cfg b. (True, if sc_name cfg \<in> sc_name ` set b then b else b @ [cfg])),
      stream_of = (\<lambda>b n. List.find (\<lambda>cfg. sc_name cfg = n) b)\<rparr>"

lemma find_appended:
  "List.find P (xs @ [x]) = (case List.find P xs of Some y \<Rightarrow> Some y | None \<Rightarrow> if P x then Some x else None)"
  by (induction xs) auto

lemma find_name: "sc_name cfg \<in> sc_name ` set b \<longleftrightarrow> List.find (\<lambda>c. sc_name c = sc_name cfg) b \<noteq> None"
  by (induction b) auto

lemma sample_client_laws: "stream_laws sample_client"
proof -
  have "(\<forall>n. stream_of sample_client b' n = stream_of sample_client b n \<or>
             (n = sc_name cfg \<and> stream_of sample_client b n = None \<and> stream_of sample_client b' n = Some cfg))
        \<and> (there \<longrightarrow> stream_of sample_client b' (sc_name cfg) \<noteq> None)"
    if "get_or_create_stream sample_client cfg b = (there, b')" for cfg b there b'
  proof (cases "List.find (\<lambda>c. sc_name c = sc_name cfg) b")
    case None
    with that show ?thesis by (auto simp: sample_client_def find_name find_appended split: option.splits if_splits)
  next
    case (Some x)
    with that show ?thesis by (simp add: sample_client_def find_name)
  qed
  then show ?thesis unfolding stream_laws_def by blast
qed

definition development_config :: "sample_url extractor_config" where
  "development_config =
     postgres_config\<lparr>bus := (bus postgres_config)\<lparr>bus_provision_topology := True\<rparr>\<rparr>"

theorem prepared_bus_keeps_existing_streams_witness:
  "\<exists>p b'. prepare_bus sample_client (bus development_config) None None [] = (Ok p, b')
     \<and> only_creates sample_client {command_stream_config, event_stream_config} [] b'
     \<and> stream_of sample_client b' COMMAND_STREAM \<noteq> None"
proof -
  have ok: "load_from sample_api (\<lambda>_. True) (Ok development_config :: (unit, _) res) = Ok development_config"
    by code_simp
  have b: "bus_nkey_seed_path (bus development_config) = None" "bus_provision_topology (bus development_config)"
    by (simp_all add: development_config_def postgres_config_def built_in_def Let_def)
  then obtain p b' where r: "prepare_bus sample_client (bus development_config) None None [] = (Ok p, b')"
    by (simp add: prepare_bus_def connect_publisher_def connect_bus_def connect_with_options_def sample_client_def
        ensure_command_stream_def ensure_stream_def ensure_event_stream_def)
  from prepared_bus_keeps_existing_streams [OF sample_client_laws ok r] b r show ?thesis by auto
qed

section \<open>Retries and duplicates\<close>

text \<open>The broker drops a repeated message for two minutes. A row whose acknowledgement was lost is published again
  inside that window as long as it has failed at most six times; a later retry may store its event twice, which the
  at-least-once contract leaves to the reader.\<close>

lemma duplicate_window_covers_six_retries:
  "backoff_us attempts \<le> seconds (sc_duplicate_window event_stream_config) \<longleftrightarrow> attempts \<le> 6"
proof (cases "attempts \<le> 6")
  case True
  then have "2 ^ min attempts 20 \<le> (2::nat) ^ 6" by (intro power_increasing) auto
  with True show ?thesis by (simp add: backoff_us_def seconds_def event_stream_config_def)
next
  case False
  then have "(2::nat) ^ 7 \<le> 2 ^ min attempts 20" by (intro power_increasing) auto
  with False show ?thesis by (simp add: backoff_us_def seconds_def event_stream_config_def min_def)
qed

section \<open>Telemetry is installed once\<close>

text \<open>The documented behaviour: a recorder or subscriber is set at most once, \<open>has\<close> tells that a process
  has one.\<close>

definition recorder_laws :: "('u, 'g) telemetry_libs \<Rightarrow> ('g \<Rightarrow> bool) \<Rightarrow> bool" where
  "recorder_laws libs has \<longleftrightarrow>
     (\<forall>g e g'. set_recorder libs g = (e, g') \<longrightarrow> (e = None \<longrightarrow> \<not> has g \<and> has g') \<and> (has g \<longrightarrow> has g'))
     \<and> (\<forall>f g ok g'. try_init libs f g = (ok, g') \<longrightarrow> has g \<longrightarrow> has g')"

lemma telemetry_installs_once:
  assumes "recorder_laws libs has" "telemetry_init api libs c g = (Ok exports, g')"
  shows "\<not> has g" "has g'" "\<exists>e. fst (telemetry_init api libs c' g') = Err e"
    "exports \<longleftrightarrow> telemetry_otlp c \<noteq> None"
proof -
  obtain g1 where one: "set_recorder libs g = (None, g1)" "try_init libs (telemetry_log_format c) g1 = (True, g')"
    and otlp: "tracer_provider api libs c = Ok exports"
    using assms(2) by (auto simp: telemetry_init_def install_recorder_def
        split: if_splits sum.splits prod.splits option.splits recorder_error.splits bool.splits)
  show "\<not> has g" and has: "has g'" using assms(1) one unfolding recorder_laws_def by blast+
  have "\<exists>e. fst (install_recorder libs g') = Err e"
    using assms(1) has unfolding recorder_laws_def
    by (auto simp: install_recorder_def split: prod.splits option.splits recorder_error.splits)
  then show "\<exists>e. fst (telemetry_init api libs c' g') = Err e"
    by (auto simp: telemetry_init_def split: sum.splits prod.splits)
  show "exports \<longleftrightarrow> telemetry_otlp c \<noteq> None"
    using otlp by (auto simp: tracer_provider_def split: option.splits)
qed

lemma class_str_inj: "class_str a = class_str b \<Longrightarrow> a = b"
  by (cases a; cases b) simp_all

text \<open>The worker's exit status tells a configuration error from a failure.\<close>

lemma worker_main_status:
  "worker_main loaded launches connects consumes = 78 \<longleftrightarrow> (\<exists>e. load_settings loaded = Err e)"
  "worker_main loaded launches connects consumes = 0 \<Longrightarrow>
     \<exists>s client r. load_settings loaded = Ok s \<and> connects s = Ok client \<and> consumes s client = Ok r
       \<and> \<not> (wk_provision_topology s \<and> wk_nkey_seed_path s \<noteq> None)"
  by (auto simp: worker_main_def load_settings_def split: sum.splits if_splits)

end
