(* ===== verification/Corpus.thy ===== *)
theory Corpus
  imports Pdf Providers Transcript
begin

text \<open>
  The golden corpus, \<open>tools/corpus/src/lib.rs\<close>, and its performance thresholds,
  \<open>tools/corpus/src/performance.rs\<close>: the five committed cases run through the adapters of the library, the
  comparison with the committed expectations, their regeneration, and the measured percentiles. The fixture
  files, the parsers of the contract crates and the JSON codec are fields of \<open>corpus_env\<close>; the type of JSON
  values is a parameter. The rendered text of an adapter error is kept as the error.
\<close>

section \<open>Cases\<close>

definition CASE_NAMES :: "string list" where
  "CASE_NAMES = [''html-semantic'', ''pdf-direct'', ''hacker-news'', ''reddit'', ''youtube-transcript'']"

datatype corpus_failure =
    HtmlFailure document_ir_error
  | PdfFailure pdf_error
  | ProviderFailure provider_error
  | TranscriptFailure youtube_error
  | IdentityFailure

datatype corpus_error =
    UnknownCase string
  | CorpusRead string path io_kind
  | CorpusExtraction string corpus_failure
  | ExpectedJson string
  | ActualJson string
  | CorpusMismatch string string string

record transcript_segment_fixture =
  tf_start_ms :: nat
  tf_duration_ms :: nat
  tf_text :: string

record transcript_fixture =
  tx_title :: string
  tx_channel :: string
  tx_duration_seconds :: nat
  tx_segments :: "transcript_segment_fixture list"

record ('u, 'n, 'd, 'j) corpus_env =
  co_providers :: "('u, 'n) provider_env"
  co_pdf :: "'d pdf_lib"
  co_store :: store_env
  co_parse_user :: "string \<Rightarrow> uuid option"
  co_HTML_SEMANTIC :: string
  co_PDF_TEXT :: string
  co_HACKER_NEWS :: string
  co_REDDIT :: string
  co_TRANSCRIPT :: string
  co_transcript :: "string \<Rightarrow> transcript_fixture option"
  co_canonical :: "string document \<Rightarrow> string option"
  co_json :: "string \<Rightarrow> 'j option"
  co_pretty :: "'j \<Rightarrow> string option"

abbreviation co_ir :: "('u, 'n, 'd, 'j) corpus_env \<Rightarrow> ir_env" where
  "co_ir env \<equiv> pv_ir (co_providers env)"

definition identity_error :: corpus_error where
  "identity_error = CorpusExtraction ''identity'' IdentityFailure"

definition corpus_owner :: "('u, 'n, 'd, 'j) corpus_env \<Rightarrow> (corpus_error, uuid) res" where
  "corpus_owner env = ok_or identity_error (co_parse_user env ''018f0000-0000-7000-8000-000000000100'')"

definition corpus_address :: "('u, 'n, 'd, 'j) corpus_env \<Rightarrow> string \<Rightarrow> (corpus_error, string) res" where
  "corpus_address env s = ok_or identity_error (pv_address (co_providers env) s)"

definition corpus_blob :: "('u, 'n, 'd, 'j) corpus_env \<Rightarrow> nat \<Rightarrow> string \<Rightarrow> (corpus_error, blob_ref) res" where
  "corpus_blob env len media =
     rbind (ok_or identity_error (parse_owner (co_store env) ''ratatoskr-extractor'')) (\<lambda>own.
     rbind (ok_or identity_error (parse_digest_hex (co_store env) (concat (replicate 32 ''ab'')))) (\<lambda>hex.
     rbind (ok_or identity_error (parse_media_type (co_store env) media)) (\<lambda>mt.
     if len \<le> u64_max
     then Ok \<lparr>owner_service = own, digest_algorithm = Sha256, digest_hex = hex, media_type = mt, length_bytes = len\<rparr>
     else Err identity_error)))"

definition corpus_html_document :: "('u, 'n, 'd, 'j) corpus_env \<Rightarrow> (corpus_error, string document) res" where
  "corpus_html_document env =
     rbind (corpus_owner env) (\<lambda>own.
     rbind (corpus_address env ''https://corpus.example/html-semantic'') (\<lambda>addr.
     rbind (corpus_blob env (length (co_HTML_SEMANTIC env)) ''text/html'') (\<lambda>blob.
     case from_html (co_ir env) (pv_html (co_providers env))
            \<lparr>input_owner = own, input_address = addr, input_blob = blob, input_bytes = co_HTML_SEMANTIC env\<rparr>
            \<lparr>max_input_bytes = 65536, max_dom_nodes = 2000\<rparr> of
       Err e \<Rightarrow> Err (CorpusExtraction ''html-semantic'' (HtmlFailure e))
     | Ok x \<Rightarrow> Ok (ext_document x))))"

definition corpus_pdf_document :: "('u, 'n, 'd, 'j) corpus_env \<Rightarrow> (corpus_error, string document) res" where
  "corpus_pdf_document env =
     rbind (corpus_owner env) (\<lambda>own.
     rbind (corpus_address env ''https://corpus.example/direct.pdf'') (\<lambda>addr.
     rbind (corpus_blob env (length (co_PDF_TEXT env)) ''application/pdf'') (\<lambda>blob.
     case from_pdf (co_ir env) (co_pdf env)
            \<lparr>pdf_owner = own, pdf_address = addr, pdf_blob = blob, pdf_bytes = co_PDF_TEXT env\<rparr>
            \<lparr>pdf_max_input_bytes = 65536, pdf_max_pages = 16, pdf_max_text_bytes = 1048576\<rparr> of
       Err e \<Rightarrow> Err (CorpusExtraction ''pdf-direct'' (PdfFailure e))
     | Ok x \<Rightarrow> Ok (pdf_document x))))"

definition corpus_provider_document ::
  "('u, 'n, 'd, 'j) corpus_env \<Rightarrow> provider_route \<Rightarrow> string \<Rightarrow> string \<Rightarrow> (corpus_error, string document) res" where
  "corpus_provider_document env route bytes name =
     rbind (corpus_owner env) (\<lambda>own.
     rbind (corpus_address env
              (if route = HackerNewsItem then ''https://hn.algolia.com/api/v1/items/424242''
               else ''https://www.reddit.com/r/corpus/comments/abc123/post/.json'')) (\<lambda>addr.
     rbind (corpus_blob env (length bytes) ''application/json'') (\<lambda>blob.
     case from_provider (co_providers env)
            \<lparr>pi_owner = own, pi_address = addr, pi_blob = blob, pi_route = route, pi_bytes = bytes\<rparr>
            \<lparr>pl_max_input_bytes = 65536, pl_max_blocks = 2000\<rparr> of
       Err e \<Rightarrow> Err (CorpusExtraction name (ProviderFailure e))
     | Ok x \<Rightarrow> Ok (pe_document x))))"

definition corpus_transcript_document :: "('u, 'n, 'd, 'j) corpus_env \<Rightarrow> (corpus_error, string document) res" where
  "corpus_transcript_document env =
     rbind (ok_or (ExpectedJson ''youtube-transcript'') (co_transcript env (co_TRANSCRIPT env))) (\<lambda>fixture.
     rbind (corpus_owner env) (\<lambda>own.
     rbind (corpus_address env ''https://www.youtube.com/watch?v=dQw4w9WgXcQ'') (\<lambda>addr.
     rbind (corpus_blob env (length (co_TRANSCRIPT env)) ''application/json'') (\<lambda>blob.
     case from_transcript (co_ir env)
            \<lparr>ti_owner = own, ti_address = addr, ti_blob = blob,
             ti_meta = \<lparr>pm_title = Some (tx_title fixture), pm_channel = Some (tx_channel fixture),
                        pm_duration_seconds = Some (tx_duration_seconds fixture), pm_tracks = []\<rparr>,
             ti_segments = map (\<lambda>s. \<lparr>start_ms = tf_start_ms s, duration_ms = tf_duration_ms s, seg_text = tf_text s\<rparr>)
                             (tx_segments fixture),
             ti_language = ''en''\<rparr>
            \<lparr>yl_max_page_bytes = 65536, yl_max_track_bytes = 65536, yl_max_blocks = 32, yl_max_segments = 1000,
             yl_max_segment_characters = 1000\<rparr> of
       Err e \<Rightarrow> Err (CorpusExtraction ''youtube-transcript'' (TranscriptFailure e))
     | Ok x \<Rightarrow> Ok (te_document x)))))"

definition document_for_case :: "('u, 'n, 'd, 'j) corpus_env \<Rightarrow> string \<Rightarrow> (corpus_error, string document) res" where
  "document_for_case env name =
     (if name = ''html-semantic'' then corpus_html_document env
      else if name = ''pdf-direct'' then corpus_pdf_document env
      else if name = ''hacker-news'' then corpus_provider_document env HackerNewsItem (co_HACKER_NEWS env) name
      else if name = ''reddit'' then corpus_provider_document env RedditPost (co_REDDIT env) name
      else if name = ''youtube-transcript'' then corpus_transcript_document env
      else Err (UnknownCase name))"

section \<open>Verifying and blessing\<close>

text \<open>The faults of the three file operations; a failed \<open>fs::write\<close> leaves the file as it was or truncated to
  a prefix of the new content.\<close>

record corpus_io =
  ci_read :: "io_kind option"
  ci_mkdir :: "io_kind option"
  ci_write :: "(io_kind \<times> nat option) option"

definition expected_path :: "path \<Rightarrow> string \<Rightarrow> (corpus_error, path) res" where
  "expected_path base name =
     (if name \<in> set CASE_NAMES then Ok (base @ [''expected'', name @ ''.json'']) else Err (UnknownCase name))"

definition pretty_document :: "('u, 'n, 'd, 'j) corpus_env \<Rightarrow> string \<Rightarrow> string document \<Rightarrow> (corpus_error, string) res" where
  "pretty_document env name d = ok_or (ActualJson name) (co_canonical env d)"

definition verify_case_at ::
  "('u, 'n, 'd, 'j) corpus_env \<Rightarrow> corpus_io \<Rightarrow> path \<Rightarrow> fs \<Rightarrow> string \<Rightarrow> (corpus_error, unit) res" where
  "verify_case_at env io base files name =
     rbind (document_for_case env name) (\<lambda>document.
     rbind (pretty_document env name document) (\<lambda>actual.
     rbind (expected_path base name) (\<lambda>p.
     rbind (map_err (CorpusRead name p) (case ci_read io of Some e \<Rightarrow> Err e | None \<Rightarrow> fs_open p files)) (\<lambda>expected.
     rbind (ok_or (ExpectedJson name) (co_json env expected)) (\<lambda>expected_value.
     rbind (ok_or (ActualJson name) (co_json env actual)) (\<lambda>actual_value.
     if expected_value = actual_value then Ok ()
     else rbind (ok_or (ActualJson name) (co_pretty env expected_value)) (\<lambda>shown.
            Err (CorpusMismatch name shown actual))))))))"

fun verify_cases ::
  "('u, 'n, 'd, 'j) corpus_env \<Rightarrow> corpus_io \<Rightarrow> path \<Rightarrow> fs \<Rightarrow> string list \<Rightarrow> (corpus_error, unit) res" where
  "verify_cases env io base files [] = Ok ()"
| "verify_cases env io base files (name # names) =
     rbind (verify_case_at env io base files name) (\<lambda>_. verify_cases env io base files names)"

definition verify_at :: "('u, 'n, 'd, 'j) corpus_env \<Rightarrow> corpus_io \<Rightarrow> path \<Rightarrow> fs \<Rightarrow> (corpus_error, unit) res" where
  "verify_at env io base files = verify_cases env io base files CASE_NAMES"

definition fs_write :: "(io_kind \<times> nat option) option \<Rightarrow> path \<Rightarrow> string \<Rightarrow> fs \<Rightarrow> (io_kind, unit) res \<times> fs" where
  "fs_write failed p content files =
     (case fs_create_file p files of
        Err e \<Rightarrow> (Err e, files)
      | Ok opened \<Rightarrow>
          (case failed of
             None \<Rightarrow> (Ok (), opened(p \<mapsto> RegFile content))
           | Some (e, None) \<Rightarrow> (Err e, files)
           | Some (e, Some n) \<Rightarrow> (Err e, opened(p \<mapsto> RegFile (take n content)))))"

definition bless_case_at ::
  "('u, 'n, 'd, 'j) corpus_env \<Rightarrow> corpus_io \<Rightarrow> path \<Rightarrow> string \<Rightarrow> fs \<Rightarrow> (corpus_error, path) res \<times> fs" where
  "bless_case_at env io base name files =
     (case rbind (document_for_case env name) (\<lambda>document.
           rbind (pretty_document env name document) (\<lambda>expected.
           rbind (expected_path base name) (\<lambda>p.
           rbind (map_err (CorpusRead name p)
                    (case ci_mkdir io of Some e \<Rightarrow> Err e | None \<Rightarrow> fs_create_dir_all (butlast p) files)) (\<lambda>made.
           Ok (p, expected, made))))) of
        Err e \<Rightarrow> (Err e, files)
      | Ok (p, expected, made) \<Rightarrow>
          (case fs_write (ci_write io) p expected made of
             (Err e, files) \<Rightarrow> (Err (CorpusRead name p e), files)
           | (Ok _, files) \<Rightarrow> (Ok p, files)))"

section \<open>Performance\<close>

record performance_report =
  pr_case_count :: nat
  pr_iterations :: nat
  pr_throughput :: f64_value
  pr_p50_microseconds :: nat
  pr_p95_microseconds :: nat
  pr_max_rss_kib :: nat

record performance_baseline =
  pb_report :: performance_report
  pb_min_throughput :: rat
  pb_max_p95_microseconds :: nat
  pb_max_rss_kib :: nat

datatype performance_error =
    PerfExtraction string corpus_error
  | ZeroIterations
  | TooManyDocuments
  | Throughput f64_value rat
  | P95 nat nat
  | Memory nat nat

definition percentile :: "nat list \<Rightarrow> nat \<Rightarrow> nat" where
  "percentile samples p =
     (let index = (length samples - 1) * p div 100 in if index < length samples then samples ! index else 0)"

fun convert_all :: "('u, 'n, 'd, 'j) corpus_env \<Rightarrow> string list \<Rightarrow> (performance_error, unit) res" where
  "convert_all env [] = Ok ()"
| "convert_all env (name # names) =
     rbind (map_err (PerfExtraction name) (document_for_case env name)) (\<lambda>_. convert_all env names)"

text \<open>\<open>took k\<close> is the time of conversion number \<open>k\<close> in microseconds and \<open>elapsed\<close> the double that is the elapsed
  time in seconds. Division by zero is infinite. The buffer of the samples is assumed to be allocated.\<close>

definition measure_corpus ::
  "('u, 'n, 'd, 'j) corpus_env \<Rightarrow> (nat \<Rightarrow> nat) \<Rightarrow> rat \<Rightarrow> nat \<Rightarrow> nat \<Rightarrow> (performance_error, performance_report) res" where
  "measure_corpus env took elapsed iterations max_rss_kib =
     (if iterations = 0 then Err ZeroIterations
      else rbind (convert_all env CASE_NAMES) (\<lambda>_.
           rbind (convert_all env (concat (replicate iterations CASE_NAMES))) (\<lambda>_.
           let samples = sort (map took [0..<iterations * length CASE_NAMES]) in
           if length samples > 2 ^ 32 - 1 then Err TooManyDocuments
           else Ok \<lparr>pr_case_count = length CASE_NAMES, pr_iterations = iterations,
                    pr_throughput = (if elapsed = 0 then NonFinite
                                     else f64_of False (of_nat (length samples) / elapsed)),
                    pr_p50_microseconds = percentile samples 50, pr_p95_microseconds = percentile samples 95,
                    pr_max_rss_kib = max_rss_kib\<rparr>)))"

text \<open>A throughput that is not finite is above every floor.\<close>

definition check_report :: "performance_report \<Rightarrow> performance_baseline \<Rightarrow> (performance_error, unit) res" where
  "check_report r b =
     (if (case pr_throughput r of Finite x \<Rightarrow> x < pb_min_throughput b | NonFinite \<Rightarrow> False)
      then Err (Throughput (pr_throughput r) (pb_min_throughput b))
      else if pr_p95_microseconds r > pb_max_p95_microseconds b
      then Err (P95 (pr_p95_microseconds r) (pb_max_p95_microseconds b))
      else if pr_max_rss_kib r > pb_max_rss_kib b
      then Err (Memory (pr_max_rss_kib r) (pb_max_rss_kib b))
      else Ok ())"

section \<open>A blessed case verifies\<close>

lemma fs_write_Ok:
  "fs_write failed p content files = (Ok u, files') \<Longrightarrow> files' p = Some (RegFile content)"
  by (auto simp: fs_write_def split: sum.splits option.splits)

text \<open>Blessing a case and verifying it right away succeeds, whatever was committed before, as long as the
  canonical text is JSON and the read does not fail.\<close>

lemma blessed_case_verifies:
  assumes "bless_case_at env io base name files = (Ok p, files')" "ci_read io' = None"
    and "\<forall>d t. co_canonical env d = Some t \<longrightarrow> co_json env t \<noteq> None"
  shows "verify_case_at env io' base files' name = Ok ()"
proof -
  obtain d t where "document_for_case env name = Ok d" "co_canonical env d = Some t" "expected_path base name = Ok p"
    "files' p = Some (RegFile t)"
    using assms(1)
    by (auto simp: bless_case_at_def pretty_document_def ok_or_def dest!: fs_write_Ok
        split: sum.splits option.splits prod.splits)
  moreover obtain j where "co_json env t = Some j" using calculation(2) assms(3) by auto
  ultimately show ?thesis
    using assms(2) by (simp add: verify_case_at_def pretty_document_def ok_or_def fs_open_def)
qed

text \<open>Blessing one case leaves every other case as it was.\<close>

lemma bless_keeps_other_cases:
  assumes "bless_case_at env io base name files = (r, files')" "other \<noteq> name"
    and "files (base @ [''expected'', other @ ''.json'']) = Some (RegFile c)"
  shows "files' (base @ [''expected'', other @ ''.json'']) = Some (RegFile c)"
proof -
  have keep: "made (base @ [''expected'', other @ ''.json'']) = Some (RegFile c)"
    if "fs_create_dir_all q files = Ok made" for q made
    using create_dir_all_keeps [OF that assms(3)] .
  have "fs_write f p t made = (u, files'') \<Longrightarrow> p \<noteq> q \<Longrightarrow> files'' q = made q" for f p t made u files'' q
    by (auto simp: fs_write_def fs_create_file_def split: sum.splits option.splits if_splits)
  then have wrote: "fs_write f (base @ [''expected'', name @ ''.json'']) t made = (u, files'')
      \<Longrightarrow> files'' (base @ [''expected'', other @ ''.json'']) = made (base @ [''expected'', other @ ''.json''])"
    for f t made u files''
    using assms(2) by auto
  show ?thesis
    using assms(1,3) keep wrote
    by (auto simp: bless_case_at_def expected_path_def split: sum.splits option.splits prod.splits if_splits)
qed

section \<open>Percentiles\<close>

lemma percentile_index:
  assumes "samples \<noteq> []" "p \<le> 100"
  shows "(length samples - 1) * p div 100 < length samples"
proof -
  have "(length samples - 1) * p div 100 \<le> (length samples - 1) * 100 div 100"
    using assms(2) by (intro div_le_mono mult_le_mono2)
  then show ?thesis using assms(1) by (cases samples) simp_all
qed

lemma percentile_mono:
  assumes "sorted samples" "p \<le> q" "q \<le> 100"
  shows "percentile samples p \<le> percentile samples q"
proof (cases "samples = []")
  case False
  have "(length samples - 1) * p div 100 \<le> (length samples - 1) * q div 100"
    using assms(2) by (intro div_le_mono mult_le_mono2)
  moreover have "(length samples - 1) * q div 100 < length samples"
    using percentile_index [OF False assms(3)] .
  ultimately show ?thesis
    using assms(1) by (simp add: percentile_def sorted_nth_mono)
qed (simp add: percentile_def)

text \<open>A percentile is a sample, and its rank is what its name says: more than \<open>p\<close> per cent of the way from the
  first to the last sample lie at or below it.\<close>

lemma percentile_rank:
  assumes "sorted samples" "samples \<noteq> []" "p \<le> 100"
  shows "percentile samples p \<in> set samples"
    and "(length samples - 1) * p < length (filter (\<lambda>x. x \<le> percentile samples p) samples) * 100"
proof -
  let ?i = "(length samples - 1) * p div 100"
  have i: "?i < length samples" by (rule percentile_index [OF assms(2,3)])
  then show "percentile samples p \<in> set samples"
    by (simp add: percentile_def)
  have "list_all (\<lambda>x. x \<le> percentile samples p) (take (?i + 1) samples)"
    using i assms(1) by (auto simp: list_all_length percentile_def intro: sorted_nth_mono)
  then have "filter (\<lambda>x. x \<le> percentile samples p) (take (?i + 1) samples) = take (?i + 1) samples"
    by (simp add: list_all_iff)
  then have "filter (\<lambda>x. x \<le> percentile samples p) samples
      = take (?i + 1) samples @ filter (\<lambda>x. x \<le> percentile samples p) (drop (?i + 1) samples)"
    by (metis append_take_drop_id filter_append)
  then have "?i + 1 \<le> length (filter (\<lambda>x. x \<le> percentile samples p) samples)"
    using i by simp
  moreover have "(length samples - 1) * p < (?i + 1) * 100"
    by (simp add: dividend_less_div_times mult.commute)
  ultimately show "(length samples - 1) * p < length (filter (\<lambda>x. x \<le> percentile samples p) samples) * 100"
    by (meson less_le_trans mult_le_mono1)
qed

lemma measured_percentiles_are_ordered:
  assumes "measure_corpus env took elapsed iterations rss = Ok r"
  shows "pr_p50_microseconds r \<le> pr_p95_microseconds r"
    and "pr_p95_microseconds r \<in> took ` {0..<iterations * length CASE_NAMES}"
    and "convert_all env CASE_NAMES = Ok ()"
proof -
  let ?s = "sort (map took [0..<iterations * length CASE_NAMES])"
  have r: "pr_p50_microseconds r = percentile ?s 50" "pr_p95_microseconds r = percentile ?s 95"
    "convert_all env CASE_NAMES = Ok ()" "iterations \<noteq> 0"
    using assms by (auto simp: measure_corpus_def Let_def split: if_splits)
  then show "pr_p50_microseconds r \<le> pr_p95_microseconds r" "convert_all env CASE_NAMES = Ok ()"
    by (simp_all add: percentile_mono)
  have "length ?s \<noteq> 0" using r(4) by (simp add: CASE_NAMES_def)
  then have "?s \<noteq> []" by force
  then show "pr_p95_microseconds r \<in> took ` {0..<iterations * length CASE_NAMES}"
    using percentile_rank(1) [of ?s 95] r(2) by simp
qed

end
