(* ===== verification/Shadow.thy ===== *)
theory Shadow
  imports Corpus "HOL-Library.List_Lexorder" "HOL-Library.Char_ord"
begin

text \<open>
  The offline comparison of legacy observations with the current documents, \<open>tools/corpus/src/shadow.rs\<close>: the
  overlap of two texts, the verdict on a source class and its reason, the report and the check of the committed report. A
  \<open>BTreeMap\<close> is a list of pairs in increasing key order. Overlaps and percentages are doubles as in \<open>TimedText\<close>. The
  Unicode tables behind the splitting and lower-casing of text, and the JSON decoder, are parameters.
\<close>

section \<open>Inputs\<close>

datatype source_class = WebArticle | YoutubeTranscript | XPost

fun source_class_str :: "source_class \<Rightarrow> string" where
  "source_class_str WebArticle = ''web_article''"
| "source_class_str YoutubeTranscript = ''youtube_transcript''"
| "source_class_str XPost = ''x_post''"

text \<open>The classes in the order the derived \<open>Ord\<close> gives them.\<close>

definition source_classes :: "source_class list" where
  "source_classes = [WebArticle, YoutubeTranscript, XPost]"

type_synonym block_counts = "(string \<times> nat) list"

record legacy_archive =
  la_repository :: string
  la_revision :: string
  la_read_only :: bool

record legacy_observation =
  lo_capture_path :: string
  lo_success :: bool
  lo_text :: string
  lo_block_kinds :: block_counts

record shadow_case =
  sc_name :: string
  sc_source_class :: source_class
  sc_source_address :: string
  sc_current_case :: "string option"
  sc_legacy :: legacy_observation

text \<open>The only criterion of a class is its minimum overlap, a finite double since it comes from JSON.\<close>

record shadow_fixture =
  sf_legacy_archive :: legacy_archive
  sf_criteria :: "source_class \<rightharpoonup> rat"
  sf_cases :: "shadow_case list"

datatype shadow_error =
    ShadowRead path io_kind
  | InvalidFixture path
  | MissingCriteria string string
  | CurrentExtraction string corpus_error
  | MetricSize string
  | ShadowMismatch string string

record ('u, 'n, 'd, 'j) shadow_env =
  sh_corpus :: "('u, 'n, 'd, 'j) corpus_env"
  sh_split :: "string \<Rightarrow> string list"
  sh_lowercase :: "string \<Rightarrow> string"
  sh_decode :: "string \<Rightarrow> shadow_fixture option"

section \<open>Metrics\<close>

text \<open>\<open>*total.entry(kind).or_default() += count\<close>, with the wrap-around of \<open>usize\<close> in a release build.\<close>

fun entry_add :: "string \<Rightarrow> nat \<Rightarrow> block_counts \<Rightarrow> block_counts" where
  "entry_add k n [] = [(k, n)]"
| "entry_add k n ((j, m) # r) =
     (if k = j then (j, (m + n) mod 2 ^ 64) # r
      else if k < j then (k, n) # (j, m) # r
      else (j, m) # entry_add k n r)"

definition aggregate_blocks :: "block_counts list \<Rightarrow> block_counts" where
  "aggregate_blocks statistics = fold (\<lambda>(k, n). entry_add k n) (concat statistics) []"

definition count_as_f64 :: "nat \<Rightarrow> string \<Rightarrow> (shadow_error, rat) res" where
  "count_as_f64 n metric = (if n \<le> 2 ^ 32 - 1 then Ok (of_nat n) else Err (MetricSize metric))"

definition tokens :: "('u, 'n, 'd, 'j) shadow_env \<Rightarrow> string \<Rightarrow> string list" where
  "tokens env s = remdups (map (sh_lowercase env) (filter (\<lambda>t. t \<noteq> []) (sh_split env s)))"

definition content_overlap :: "('u, 'n, 'd, 'j) shadow_env \<Rightarrow> string \<Rightarrow> string \<Rightarrow> (shadow_error, rat) res" where
  "content_overlap env legacy current =
     (let old = tokens env legacy in
      if old = [] then Ok 1
      else
        let covered = filter (\<lambda>t. t \<in> set (tokens env current)) old in
        rbind (count_as_f64 (length covered) ''content-overlap tokens'') (\<lambda>a.
        rbind (count_as_f64 (length old) ''content-overlap tokens'') (\<lambda>b.
        Ok (round_f64 (a / b)))))"

definition percent :: "nat \<Rightarrow> nat \<Rightarrow> (shadow_error, rat) res" where
  "percent numerator denominator =
     (if denominator = 0 then Ok 0
      else rbind (count_as_f64 numerator ''success-rate samples'') (\<lambda>a.
           rbind (count_as_f64 denominator ''success-rate samples'') (\<lambda>b.
           Ok (round_f64 (round_f64 (a * 100) / b)))))"

section \<open>Cases\<close>

record current_document =
  cd_text :: string
  cd_block_kinds :: block_counts

datatype current_outcome = CurrentSuccess current_document | Unsupported

fun is_success :: "current_outcome \<Rightarrow> bool" where
  "is_success (CurrentSuccess d) = True"
| "is_success Unsupported = False"

fun block_kind :: "document_block \<Rightarrow> (string \<times> string) option" where
  "block_kind (Heading i level s) = Some (''heading'', s)"
| "block_kind (Paragraph i s) = Some (''paragraph'', s)"
| "block_kind OtherBlock = None"

definition current_of_document :: "string document \<Rightarrow> current_document" where
  "current_of_document d =
     (let kinds = List.map_filter block_kind (doc_blocks d) in
      \<lparr>cd_text = join_with '' '' (map snd kinds), cd_block_kinds = fold (\<lambda>(k, _). entry_add k 1) kinds []\<rparr>)"

record case_report =
  cr_name :: string
  cr_source_address :: string
  cr_legacy :: legacy_observation
  cr_current :: current_outcome
  cr_overlap :: "rat option"

definition current_of_case :: "('u, 'n, 'd, 'j) shadow_env \<Rightarrow> shadow_case \<Rightarrow> (shadow_error, current_outcome) res" where
  "current_of_case env c =
     (case sc_current_case c of
        Some name \<Rightarrow>
          rbind (map_err (CurrentExtraction (sc_name c)) (document_for_case (sh_corpus env) name)) (\<lambda>d.
          Ok (CurrentSuccess (current_of_document d)))
      | None \<Rightarrow> Ok Unsupported)"

definition overlap_of_case ::
  "('u, 'n, 'd, 'j) shadow_env \<Rightarrow> shadow_case \<Rightarrow> current_outcome \<Rightarrow> (shadow_error, rat option) res" where
  "overlap_of_case env c current =
     (case current of
        CurrentSuccess d \<Rightarrow>
          if lo_success (sc_legacy c)
          then rbind (content_overlap env (lo_text (sc_legacy c)) (cd_text d)) (\<lambda>v. Ok (Some v)) else Ok None
      | Unsupported \<Rightarrow> Ok None)"

definition case_report_of :: "('u, 'n, 'd, 'j) shadow_env \<Rightarrow> shadow_case \<Rightarrow> (shadow_error, case_report) res" where
  "case_report_of env c =
     rbind (current_of_case env c) (\<lambda>current.
     rbind (overlap_of_case env c current) (\<lambda>overlap.
     Ok \<lparr>cr_name = sc_name c, cr_source_address = sc_source_address c, cr_legacy = sc_legacy c,
         cr_current = current, cr_overlap = overlap\<rparr>))"

section \<open>Text\<close>

fun decimal :: "nat \<Rightarrow> string" where
  "decimal n = (if n < 10 then [char_of (48 + n)] else decimal (n div 10) @ [char_of (48 + n mod 10)])"

text \<open>\<open>{:.k}\<close> of a double: the exact value rounded to \<open>k\<close> decimals, ties to even. The sign of a zero is not
  represented.\<close>

definition fixed :: "nat \<Rightarrow> rat \<Rightarrow> string" where
  "fixed k q =
     (let n = nat (round_half_even (\<bar>q\<bar> * 10 ^ k));
          frac = decimal (n mod 10 ^ k)
      in (if q < 0 then ''-'' else []) @ decimal (n div 10 ^ k) @ ''.''
         @ replicate (k - length frac) (CHR ''0'') @ frac)"

definition line :: "string \<Rightarrow> string" where
  "line s = s @ [CHR 0x0A]"

definition render_statistics :: "block_counts \<Rightarrow> string" where
  "render_statistics statistics =
     (if statistics = [] then line ''  - none''
      else concat (map (\<lambda>(kind, count). line (''  - '' @ kind @ '': '' @ decimal count)) statistics))"

definition render_case :: "case_report \<Rightarrow> string" where
  "render_case c =
     ''- `'' @ cr_name c @ ''` ('' @ cr_source_address c @ '') '' @ [CHR 0xE2, CHR 0x80, CHR 0x94] @ '' legacy ''
     @ (if lo_success (cr_legacy c) then ''success'' else ''failure'')
     @ '' via `'' @ lo_capture_path (cr_legacy c) @ ''`, current ''
     @ (case cr_current c of CurrentSuccess _ \<Rightarrow> ''success'' | Unsupported \<Rightarrow> ''unsupported'')
     @ (case cr_overlap c of Some v \<Rightarrow> '', overlap '' @ fixed 3 v | None \<Rightarrow> [])"

definition hold_reason :: "rat \<Rightarrow> case_report \<Rightarrow> string option" where
  "hold_reason minimum c =
     (case cr_current c of
        Unsupported \<Rightarrow>
          if lo_success (cr_legacy c) then Some (''current extraction is unsupported: '' @ cr_name c) else None
      | CurrentSuccess _ \<Rightarrow>
          (case cr_overlap c of
             Some v \<Rightarrow>
               if lo_success (cr_legacy c) \<and> v < minimum
               then Some (''content overlap below '' @ fixed 3 minimum @ '': '' @ cr_name c @ '' ('' @ fixed 3 v @ '')'')
               else None
           | None \<Rightarrow> None))"

section \<open>Classes\<close>

datatype verdict = Approve | Hold | InsufficientEvidence

fun verdict_str :: "verdict \<Rightarrow> string" where
  "verdict_str Approve = ''approve''"
| "verdict_str Hold = ''hold''"
| "verdict_str InsufficientEvidence = ''insufficient-evidence''"

record class_report =
  kr_minimum_overlap :: rat
  kr_cases :: "case_report list"

definition legacy_successes :: "class_report \<Rightarrow> nat" where
  "legacy_successes r = length (filter (\<lambda>c. lo_success (cr_legacy c)) (kr_cases r))"

definition current_successes :: "class_report \<Rightarrow> nat" where
  "current_successes r = length (filter (\<lambda>c. is_success (cr_current c)) (kr_cases r))"

definition verdict_of :: "class_report \<Rightarrow> verdict" where
  "verdict_of r =
     (if legacy_successes r = 0 then InsufficientEvidence
      else if current_successes r < legacy_successes r
         \<or> list_ex (\<lambda>c. lo_success (cr_legacy c) \<and> \<not> is_success (cr_current c)) (kr_cases r)
         \<or> list_ex (\<lambda>c. case cr_overlap c of Some v \<Rightarrow> v < kr_minimum_overlap r | None \<Rightarrow> False) (kr_cases r)
      then Hold else Approve)"

definition verdict_reason :: "class_report \<Rightarrow> string" where
  "verdict_reason r =
     (case verdict_of r of
        Approve \<Rightarrow> ''all committed criteria pass''
      | InsufficientEvidence \<Rightarrow> ''no legacy-success sample is committed''
      | Hold \<Rightarrow>
          (case List.map_filter (hold_reason (kr_minimum_overlap r)) (kr_cases r) of
             reason # _ \<Rightarrow> reason
           | [] \<Rightarrow> ''current success rate is below legacy''))"

definition legacy_blocks :: "class_report \<Rightarrow> block_counts" where
  "legacy_blocks r = aggregate_blocks (map (lo_block_kinds \<circ> cr_legacy) (kr_cases r))"

definition current_blocks :: "class_report \<Rightarrow> block_counts" where
  "current_blocks r =
     aggregate_blocks (List.map_filter
       (\<lambda>c. case cr_current c of CurrentSuccess d \<Rightarrow> Some (cd_block_kinds d) | Unsupported \<Rightarrow> None) (kr_cases r))"

definition render_class :: "source_class \<Rightarrow> class_report \<Rightarrow> (shadow_error, string) res" where
  "render_class cls r =
     rbind (percent (legacy_successes r) (length (kr_cases r))) (\<lambda>old.
     rbind (percent (current_successes r) (length (kr_cases r))) (\<lambda>cur.
     Ok (line [] @ line (''## '' @ source_class_str cls @ '': '' @ verdict_str (verdict_of r)) @ line []
       @ line (''- samples: '' @ decimal (length (kr_cases r)))
       @ line (''- success rate: legacy '' @ decimal (legacy_successes r) @ ''/'' @ decimal (length (kr_cases r))
               @ '' ('' @ fixed 1 old @ ''%), current '' @ decimal (current_successes r) @ ''/''
               @ decimal (length (kr_cases r)) @ '' ('' @ fixed 1 cur @ ''%)'')
       @ line (''- minimum content overlap: '' @ fixed 3 (kr_minimum_overlap r))
       @ line ''- legacy block statistics:'' @ render_statistics (legacy_blocks r)
       @ line ''- current IR block statistics:'' @ render_statistics (current_blocks r)
       @ line (''- verdict: '' @ verdict_reason r) @ line [] @ line ''### Cases''
       @ concat (map (line \<circ> render_case) (kr_cases r)))))"

section \<open>The report\<close>

record shadow_report =
  sr_archive :: legacy_archive
  sr_classes :: "source_class \<rightharpoonup> class_report"

fun add_cases ::
  "('u, 'n, 'd, 'j) shadow_env \<Rightarrow> (source_class \<rightharpoonup> rat) \<Rightarrow> shadow_case list \<Rightarrow> (source_class \<rightharpoonup> class_report)
   \<Rightarrow> (shadow_error, source_class \<rightharpoonup> class_report) res" where
  "add_cases env criteria [] classes = Ok classes"
| "add_cases env criteria (c # cs) classes =
     rbind (ok_or (MissingCriteria (sc_name c) (source_class_str (sc_source_class c))) (criteria (sc_source_class c)))
       (\<lambda>minimum.
     rbind (case_report_of env c) (\<lambda>r.
       let entry = (case classes (sc_source_class c) of
                      Some k \<Rightarrow> k | None \<Rightarrow> \<lparr>kr_minimum_overlap = minimum, kr_cases = []\<rparr>)
       in add_cases env criteria cs (classes(sc_source_class c \<mapsto> entry\<lparr>kr_cases := kr_cases entry @ [r]\<rparr>))))"

definition from_fixture :: "('u, 'n, 'd, 'j) shadow_env \<Rightarrow> shadow_fixture \<Rightarrow> (shadow_error, shadow_report) res" where
  "from_fixture env f =
     rbind (add_cases env (sf_criteria f) (sf_cases f) Map.empty) (\<lambda>classes.
     Ok \<lparr>sr_archive = sf_legacy_archive f,
         sr_classes = (\<lambda>k. case classes k of
           Some r \<Rightarrow> Some r
         | None \<Rightarrow> map_option (\<lambda>m. \<lparr>kr_minimum_overlap = m, kr_cases = []\<rparr>) (sf_criteria f k))\<rparr>)"

fun render_classes :: "source_class list \<Rightarrow> shadow_report \<Rightarrow> (shadow_error, string) res" where
  "render_classes [] r = Ok []"
| "render_classes (k # ks) r =
     (case sr_classes r k of
        None \<Rightarrow> render_classes ks r
      | Some c \<Rightarrow> rbind (render_class k c) (\<lambda>a. rbind (render_classes ks r) (\<lambda>b. Ok (a @ b))))"

definition render_shadow_report :: "shadow_report \<Rightarrow> (shadow_error, string) res" where
  "render_shadow_report r =
     rbind (render_classes source_classes r) (\<lambda>classes.
     Ok (line ''# Legacy shadow comparison report'' @ line []
       @ line (''Legacy archive: `'' @ la_repository (sr_archive r) @ ''` at `'' @ la_revision (sr_archive r)
               @ ''` (read-only: '' @ (if la_read_only (sr_archive r) then ''true'' else ''false'') @ '').'')
       @ line (''This is an offline measurement only. Owner approval and a separate cutover change are ''
               @ ''required before any traffic switch.'')
       @ classes))"

definition render_report_at ::
  "('u, 'n, 'd, 'j) shadow_env \<Rightarrow> io_kind option \<Rightarrow> path \<Rightarrow> fs \<Rightarrow> (shadow_error, string) res" where
  "render_report_at env failed base files =
     (let p = base @ [''shadow'', ''cases.json''] in
      rbind (map_err (ShadowRead p) (case failed of Some e \<Rightarrow> Err e | None \<Rightarrow> fs_open p files)) (\<lambda>source.
      rbind (ok_or (InvalidFixture p) (sh_decode env source)) (\<lambda>f.
      rbind (from_fixture env f) render_shadow_report)))"

text \<open>The two arguments for failures are those of the two reads; the committed report is read as text and has
  to be UTF-8.\<close>

definition verify_report_at ::
  "('u, 'n, 'd, 'j) shadow_env \<Rightarrow> (string \<Rightarrow> bool) \<Rightarrow> io_kind option \<Rightarrow> io_kind option \<Rightarrow> path \<Rightarrow> fs
   \<Rightarrow> (shadow_error, unit) res" where
  "verify_report_at env utf8 failed1 failed2 base files =
     rbind (render_report_at env failed1 base files) (\<lambda>actual.
     let p = base @ [''shadow'', ''report.md''] in
     rbind (map_err (ShadowRead p)
              (case failed2 of
                 Some e \<Rightarrow> Err e
               | None \<Rightarrow> rbind (fs_open p files) (\<lambda>t. if utf8 t then Ok t else Err OtherIo))) (\<lambda>expected.
     if expected = actual then Ok () else Err (ShadowMismatch expected actual)))"

section \<open>Statistics\<close>

lemma entry_add_keys: "fst ` set (entry_add k n r) = insert k (fst ` set r)"
  by (induction k n r rule: entry_add.induct) auto

lemma entry_add_ordered:
  "sorted_wrt (<) (map fst r) \<Longrightarrow> sorted_wrt (<) (map fst (entry_add k n r))"
proof (induction k n r rule: entry_add.induct)
  case (2 k n j m r)
  then show ?case
    using entry_add_keys [of k n r] by (auto simp: image_iff)
qed simp

lemma entry_add_lookup:
  assumes "sorted_wrt (<) (map fst r)"
  shows "map_of (entry_add k n r) =
    (map_of r)(k \<mapsto> (case map_of r k of None \<Rightarrow> n | Some m \<Rightarrow> (m + n) mod 2 ^ 64))"
  using assms
proof (induction k n r rule: entry_add.induct)
  case (2 k n j m r)
  have "map_of r k = None" if "k < j"
    using that 2(2) by (force simp: map_of_eq_None_iff)
  with 2 show ?case by (auto simp: fun_eq_iff)
qed simp

definition tally :: "string \<Rightarrow> (string \<times> nat) list \<Rightarrow> nat" where
  "tally k xs = sum_list (map snd (filter (\<lambda>x. fst x = k) xs))"

lemma tally_Cons: "tally k (x # xs) = (if fst x = k then snd x + tally k xs else tally k xs)"
  by (simp add: tally_def)

lemma fold_entry_add:
  assumes "sorted_wrt (<) (map fst r)" "list_all (\<lambda>x. snd x < 2 ^ 64) xs"
  shows "sorted_wrt (<) (map fst (fold (\<lambda>(k, n). entry_add k n) xs r))
    \<and> map_of (fold (\<lambda>(k, n). entry_add k n) xs r) k =
        (case map_of r k of
           Some m \<Rightarrow> Some (if k \<in> fst ` set xs then (m + tally k xs) mod 2 ^ 64 else m)
         | None \<Rightarrow> if k \<in> fst ` set xs then Some (tally k xs mod 2 ^ 64) else None)"
  using assms
proof (induction xs arbitrary: r)
  case (Cons x xs)
  obtain j n where x: "x = (j, n)" by (cases x)
  have n: "n < 2 ^ 64" using Cons(3) x by simp
  have "sorted_wrt (<) (map fst (entry_add j n r))" using Cons(2) by (rule entry_add_ordered)
  from Cons(1) [OF this] Cons(3) have ih: "sorted_wrt (<) (map fst (fold (\<lambda>(k, n). entry_add k n) xs (entry_add j n r)))
    \<and> map_of (fold (\<lambda>(k, n). entry_add k n) xs (entry_add j n r)) k =
        (case map_of (entry_add j n r) k of
           Some m \<Rightarrow> Some (if k \<in> fst ` set xs then (m + tally k xs) mod 2 ^ 64 else m)
         | None \<Rightarrow> if k \<in> fst ` set xs then Some (tally k xs mod 2 ^ 64) else None)"
    by simp
  have none: "k \<notin> fst ` set xs \<Longrightarrow> tally k xs = 0"
    by (induction xs) (auto simp: tally_Cons tally_def)
  have "((m + n) mod 2 ^ 64 + c) mod 2 ^ 64 = (m + (n + c)) mod 2 ^ 64" for m c :: nat
    by (simp add: mod_add_left_eq add.assoc)
  with ih none n entry_add_lookup [OF Cons(2), of j n] show ?case
    by (auto simp: x tally_Cons split: option.splits)
qed (simp add: option.case_eq_if)

text \<open>The statistics of a class list every kind once, in order, with its total modulo \<open>2 ^ 64\<close>.\<close>

lemma aggregate_blocks_totals:
  assumes "list_all (\<lambda>x. snd x < 2 ^ 64) (concat statistics)"
  shows "sorted_wrt (<) (map fst (aggregate_blocks statistics))"
    and "map_of (aggregate_blocks statistics) k =
      (if k \<in> fst ` set (concat statistics) then Some (tally k (concat statistics) mod 2 ^ 64) else None)"
  using fold_entry_add [OF _ assms, of "[]"] by (simp_all add: aggregate_blocks_def)

section \<open>Overlaps\<close>

lemma rounding_keeps_side:
  assumes "1 / 4294967296 \<le> q"
  shows "0 < round_f64 q" and "q \<le> 1 - 1 / 4294967296 \<Longrightarrow> round_f64 q < 1"
proof -
  have "1 / 2 ^ 100 \<le> (1 / 4294967296 :: rat)" by simp
  from order_trans [OF this assms] have close: "\<bar>round_f64 q - q\<bar> \<le> q / 2 ^ 53"
    by (rule round_f64_error)
  have "(2 :: rat) ^ 53 = 9007199254740992" by simp
  with close have "round_f64 q - q \<le> q / 9007199254740992" "q - round_f64 q \<le> q / 9007199254740992"
    by (simp_all only: abs_le_iff) linarith+
  then show "0 < round_f64 q" and "q \<le> 1 - 1 / 4294967296 \<Longrightarrow> round_f64 q < 1"
    using assms by linarith+
qed

lemma rounded_ratio:
  assumes "0 < c" "c \<le> n" "n < 2 ^ 32"
  shows "0 < round_f64 (of_nat c / of_nat n)" "round_f64 (of_nat c / of_nat n) \<le> 1"
    and "round_f64 (of_nat c / of_nat n) = 1 \<longleftrightarrow> c = n"
proof -
  let ?q = "of_nat c / of_nat n :: rat"
  have n: "0 < (of_nat n :: rat)" using assms by simp
  have "(of_nat n :: rat) \<le> of_nat 4294967296"
    using assms(3) unfolding of_nat_le_iff by simp
  then have unit: "1 / 4294967296 \<le> 1 / (of_nat n :: rat)"
    using n by (intro divide_left_mono) simp_all
  also have "\<dots> \<le> ?q"
    using assms(1) n by (intro divide_right_mono) simp_all
  finally have low: "1 / 4294967296 \<le> ?q" .
  show "0 < round_f64 ?q" by (rule rounding_keeps_side [OF low])
  have one: "round_f64 1 = 1" by code_simp
  have less: "round_f64 ?q < 1" if "c \<noteq> n"
  proof -
    have "of_nat (c + 1) \<le> (of_nat n :: rat)"
      using that assms(2) unfolding of_nat_le_iff by simp
    then have "(of_nat c :: rat) \<le> of_nat n - 1" by simp
    then have "?q \<le> (of_nat n - 1) / of_nat n"
      using n by (intro divide_right_mono) simp_all
    also have "\<dots> = 1 - 1 / of_nat n" using n by (simp add: field_simps)
    finally have "?q \<le> 1 - 1 / 4294967296" using unit by linarith
    then show ?thesis by (rule rounding_keeps_side [OF low])
  qed
  show "round_f64 ?q \<le> 1" "round_f64 ?q = 1 \<longleftrightarrow> c = n"
    using less one n by (cases "c = n"; force)+
qed

text \<open>An overlap lies between 0 and 1 and, although it is a rounded quotient, is 1 exactly when no token of the
  legacy text is missing.\<close>

lemma content_overlap_bounds:
  assumes "content_overlap env legacy current = Ok v"
  shows "0 \<le> v \<and> v \<le> 1 \<and> (v = 1 \<longleftrightarrow> set (tokens env legacy) \<subseteq> set (tokens env current))"
proof (cases "tokens env legacy = []")
  case True
  with assms show ?thesis by (simp add: content_overlap_def)
next
  case False
  let ?old = "tokens env legacy"
  let ?c = "filter (\<lambda>t. t \<in> set (tokens env current)) ?old"
  have n: "length ?old < 2 ^ 32" and v: "v = round_f64 (of_nat (length ?c) / of_nat (length ?old))"
    using assms False by (auto simp: content_overlap_def count_as_f64_def Let_def split: if_splits)
  have all: "length ?c = length ?old \<longleftrightarrow> set ?old \<subseteq> set (tokens env current)"
    by (metis filter_id_conv length_filter_less nat_less_le subset_iff)
  show ?thesis
  proof (cases "length ?c = 0")
    case True
    then show ?thesis using v False all by (auto simp: round_f64_def)
  next
    case nonempty: False
    have "0 < length ?c" using nonempty by blast
    from rounded_ratio [OF this length_filter_le n] show ?thesis
      unfolding v using all by (simp add: less_imp_le)
  qed
qed

section \<open>Verdicts\<close>

definition passes :: "rat \<Rightarrow> case_report \<Rightarrow> bool" where
  "passes minimum c = (case cr_overlap c of Some v \<Rightarrow> minimum \<le> v | None \<Rightarrow> False)"

definition sound_case :: "case_report \<Rightarrow> bool" where
  "sound_case c = ((cr_overlap c \<noteq> None) = (lo_success (cr_legacy c) \<and> is_success (cr_current c)))"

lemma case_report_of_sound: "case_report_of env c = Ok r \<Longrightarrow> sound_case r"
proof -
  assume "case_report_of env c = Ok r"
  then obtain current overlap where o: "overlap_of_case env c current = Ok overlap"
    and r: "cr_legacy r = sc_legacy c" "cr_current r = current" "cr_overlap r = overlap"
    by (auto simp: case_report_of_def)
  show ?thesis
    using o unfolding sound_case_def r by (cases current) (auto simp: overlap_of_case_def split: if_splits)
qed

lemma hold_reason_iff:
  "sound_case c \<Longrightarrow> hold_reason m c \<noteq> None \<longleftrightarrow> lo_success (cr_legacy c) \<and> \<not> passes m c"
  by (auto simp: hold_reason_def passes_def sound_case_def split: current_outcome.splits option.splits)

lemma filter_success_le:
  "list_all (\<lambda>c. P c \<longrightarrow> Q c) xs \<Longrightarrow> length (filter P xs) \<le> length (filter Q xs)"
  by (induction xs) auto

lemma verdict_of_sound:
  assumes "list_all sound_case (kr_cases r)"
  shows "verdict_of r =
     (let old = filter (\<lambda>c. lo_success (cr_legacy c)) (kr_cases r) in
      if old = [] then InsufficientEvidence
      else if list_all (passes (kr_minimum_overlap r)) old then Approve else Hold)"
proof -
  have "list_all (\<lambda>c. lo_success (cr_legacy c) \<longrightarrow> is_success (cr_current c)) (kr_cases r)
      \<Longrightarrow> legacy_successes r \<le> current_successes r"
    unfolding legacy_successes_def current_successes_def by (rule filter_success_le)
  then have "current_successes r < legacy_successes r
         \<or> list_ex (\<lambda>c. lo_success (cr_legacy c) \<and> \<not> is_success (cr_current c)) (kr_cases r)
         \<or> list_ex (\<lambda>c. case cr_overlap c of Some v \<Rightarrow> v < kr_minimum_overlap r | None \<Rightarrow> False) (kr_cases r)
     \<longleftrightarrow> \<not> list_all (passes (kr_minimum_overlap r)) (filter (\<lambda>c. lo_success (cr_legacy c)) (kr_cases r))"
    using assms
    by (fastforce simp: list_all_iff list_ex_iff passes_def sound_case_def not_le split: option.splits)
  then show ?thesis
    by (simp add: verdict_of_def legacy_successes_def Let_def)
qed

lemma map_filter_first:
  assumes "list_all (\<lambda>x. (g x \<noteq> None) = (P x \<and> Q x)) xs"
  shows "List.map_filter g xs = [] \<longleftrightarrow> List.find Q (filter P xs) = None"
    and "List.map_filter g xs = y # ys \<Longrightarrow> \<exists>x. List.find Q (filter P xs) = Some x \<and> g x = Some y"
  using assms by (induction xs) (auto simp: map_filter_simps split: option.splits if_splits)

lemma find_None_list_all: "List.find (\<lambda>x. \<not> P x) xs = None \<longleftrightarrow> list_all P xs"
  by (auto simp: find_None_iff list_all_iff)

text \<open>A class is held for a named case: the fallback reason is never given.\<close>

lemma held_for_a_case:
  assumes "list_all sound_case (kr_cases r)" "verdict_of r = Hold"
  shows "\<exists>c. List.find (\<lambda>c. \<not> passes (kr_minimum_overlap r) c) (filter (\<lambda>c. lo_success (cr_legacy c)) (kr_cases r)) = Some c
    \<and> hold_reason (kr_minimum_overlap r) c = Some (verdict_reason r)"
proof -
  let ?m = "kr_minimum_overlap r"
  have all: "list_all (\<lambda>c. (hold_reason ?m c \<noteq> None) = (lo_success (cr_legacy c) \<and> \<not> passes ?m c)) (kr_cases r)"
    using assms(1) hold_reason_iff by (simp add: list_all_iff)
  have "\<not> list_all (passes ?m) (filter (\<lambda>c. lo_success (cr_legacy c)) (kr_cases r))"
    using assms verdict_of_sound [OF assms(1)] by (auto simp: Let_def split: if_splits)
  then have "List.map_filter (hold_reason ?m) (kr_cases r) \<noteq> []"
    using map_filter_first(1) [OF all] find_None_list_all [of "passes ?m"] by auto
  then obtain y ys where "List.map_filter (hold_reason ?m) (kr_cases r) = y # ys" by (meson list.exhaust)
  with map_filter_first(2) [OF all this] assms(2) show ?thesis by (auto simp: verdict_reason_def)
qed

definition reports_of :: "(source_class \<rightharpoonup> class_report) \<Rightarrow> source_class \<Rightarrow> case_report list" where
  "reports_of classes k = (case classes k of None \<Rightarrow> [] | Some r \<Rightarrow> kr_cases r)"

lemma add_cases_reports:
  assumes "add_cases env criteria cs classes = Ok classes'"
    and "\<forall>k r. classes k = Some r \<longrightarrow> criteria k = Some (kr_minimum_overlap r)"
  shows "map Ok (reports_of classes' k)
       = map Ok (reports_of classes k) @ map (case_report_of env) (filter (\<lambda>c. sc_source_class c = k) cs)"
    and "\<forall>k r. classes' k = Some r \<longrightarrow> criteria k = Some (kr_minimum_overlap r)"
proof -
  have "map Ok (reports_of classes' k)
       = map Ok (reports_of classes k) @ map (case_report_of env) (filter (\<lambda>c. sc_source_class c = k) cs)
     \<and> (\<forall>k r. classes' k = Some r \<longrightarrow> criteria k = Some (kr_minimum_overlap r))"
    using assms
  proof (induction cs arbitrary: classes)
    case (Cons c cs)
    then obtain m r where m: "criteria (sc_source_class c) = Some m" and r: "case_report_of env c = Ok r"
      by (auto simp: ok_or_def split: option.splits)
    let ?e = "case classes (sc_source_class c) of
                 Some k \<Rightarrow> k | None \<Rightarrow> \<lparr>kr_minimum_overlap = m, kr_cases = []\<rparr>"
    let ?n = "classes(sc_source_class c \<mapsto> ?e\<lparr>kr_cases := kr_cases ?e @ [r]\<rparr>)"
    have "add_cases env criteria cs ?n = Ok classes'"
      using Cons(2) m r by (simp add: ok_or_def Let_def)
    moreover have "\<forall>k r. ?n k = Some r \<longrightarrow> criteria k = Some (kr_minimum_overlap r)"
      using Cons(3) m by (simp split: option.splits) auto
    ultimately have ih: "map Ok (reports_of classes' k)
       = map Ok (reports_of ?n k) @ map (case_report_of env) (filter (\<lambda>c. sc_source_class c = k) cs)
     \<and> (\<forall>k r. classes' k = Some r \<longrightarrow> criteria k = Some (kr_minimum_overlap r))"
      by (rule Cons(1))
    moreover have "map Ok (reports_of ?n k)
        = map Ok (reports_of classes k) @ map (case_report_of env) (filter (\<lambda>c. sc_source_class c = k) [c])"
      using r by (simp add: reports_of_def split: option.splits)
    ultimately show ?case by simp
  qed simp
  then show "map Ok (reports_of classes' k)
       = map Ok (reports_of classes k) @ map (case_report_of env) (filter (\<lambda>c. sc_source_class c = k) cs)"
    "\<forall>k r. classes' k = Some r \<longrightarrow> criteria k = Some (kr_minimum_overlap r)"
    by blast+
qed

lemma reported_cases_sound:
  assumes "map Ok rs = map (case_report_of env) cs"
  shows "list_all sound_case rs"
proof -
  have "\<exists>c. case_report_of env c = Ok r" if "r \<in> set rs" for r
  proof -
    have "Ok r \<in> set (map (case_report_of env) cs)" using that by (simp flip: assms)
    then show ?thesis by auto
  qed
  then show ?thesis using case_report_of_sound by (fastforce simp: list_all_iff)
qed

text \<open>C38. The verdict on every source class of the report is the one its committed criterion implies. The report
  has exactly the classes with a criterion, and under each class the cases of the fixture in order. With no
  successful legacy sample there is no evidence; otherwise the class is approved exactly when every sample the
  legacy system captured is captured now with at least the minimum overlap. A held class names as
  its reason the first sample that fails, so the fallback about success rates is never given.\<close>

theorem shadow_verdicts_are_explained:
  "(case from_fixture env f of
      Err _ \<Rightarrow> True
    | Ok report \<Rightarrow>
        (\<forall>k. case sr_classes report k of
           None \<Rightarrow> sf_criteria f k = None
         | Some r \<Rightarrow>
             (let old = filter (\<lambda>c. lo_success (cr_legacy c)) (kr_cases r); m = kr_minimum_overlap r in
              sf_criteria f k = Some m
              \<and> map Ok (kr_cases r) = map (case_report_of env) (filter (\<lambda>c. sc_source_class c = k) (sf_cases f))
              \<and> verdict_of r = (if old = [] then InsufficientEvidence
                                else if list_all (passes m) old then Approve else Hold)
              \<and> (case List.find (\<lambda>c. \<not> passes m c) old of
                   None \<Rightarrow> verdict_of r \<noteq> Hold
                 | Some c \<Rightarrow> hold_reason m c = Some (verdict_reason r)))))"
proof (cases "from_fixture env f")
  case (Inr report)
  then obtain classes where added: "add_cases env (sf_criteria f) (sf_cases f) Map.empty = Ok classes"
    and report: "sr_classes report = (\<lambda>k. case classes k of
           Some r \<Rightarrow> Some r
         | None \<Rightarrow> map_option (\<lambda>m. \<lparr>kr_minimum_overlap = m, kr_cases = []\<rparr>) (sf_criteria f k))"
    by (auto simp: from_fixture_def)
  have reports: "map Ok (reports_of classes k) = map (case_report_of env) (filter (\<lambda>c. sc_source_class c = k) (sf_cases f))"
    for k
    using add_cases_reports(1) [OF added, of k] by (simp add: reports_of_def)
  have minima: "classes k = Some r \<Longrightarrow> sf_criteria f k = Some (kr_minimum_overlap r)" for k r
    using add_cases_reports(2) [OF added] by simp
  show ?thesis
    unfolding Inr sum.case
  proof (intro allI)
    fix k
    show "case sr_classes report k of
        None \<Rightarrow> sf_criteria f k = None
      | Some r \<Rightarrow> (let old = filter (\<lambda>c. lo_success (cr_legacy c)) (kr_cases r); m = kr_minimum_overlap r in
          sf_criteria f k = Some m
          \<and> map Ok (kr_cases r) = map (case_report_of env) (filter (\<lambda>c. sc_source_class c = k) (sf_cases f))
          \<and> verdict_of r = (if old = [] then InsufficientEvidence
                            else if list_all (passes m) old then Approve else Hold)
          \<and> (case List.find (\<lambda>c. \<not> passes m c) old of
               None \<Rightarrow> verdict_of r \<noteq> Hold
             | Some c \<Rightarrow> hold_reason m c = Some (verdict_reason r)))"
    proof (cases "sr_classes report k")
      case (Some r)
      have r: "sf_criteria f k = Some (kr_minimum_overlap r)" "reports_of classes k = kr_cases r"
        using Some minima by (auto simp: report reports_of_def split: option.splits)
      then have cases: "map Ok (kr_cases r) = map (case_report_of env) (filter (\<lambda>c. sc_source_class c = k) (sf_cases f))"
        using reports [of k] by simp
      have "list_all sound_case (kr_cases r)" by (rule reported_cases_sound [OF cases])
      from verdict_of_sound [OF this] held_for_a_case [OF this] Some r(1) cases
        find_None_list_all [of "passes (kr_minimum_overlap r)" "filter (\<lambda>c. lo_success (cr_legacy c)) (kr_cases r)"]
      show ?thesis
        by (cases "filter (\<lambda>c. lo_success (cr_legacy c)) (kr_cases r) = []";
            cases "list_all (passes (kr_minimum_overlap r)) (filter (\<lambda>c. lo_success (cr_legacy c)) (kr_cases r))")
          (auto simp: Let_def)
    qed (use report in \<open>auto split: option.splits\<close>)
  qed
qed simp

end
