(* ===== verification/Spec2Isabelle.thy ===== *)
theory Spec2Isabelle
  imports Prelude UrlRouting Config BlobStore Admission SafeFetch DocumentIr DomSink
    EventStore Capture Completion Outbox Rendering Consumer Eventing
    Pdf Providers Lifecycle Media Records Youtube TimedText Transcript
    PipelineCore Pipeline YoutubePipeline ProcessRun ServiceMain BrowserWorker Provisioning Corpus Shadow
begin

text \<open>
  Verification library of the Ratatoskr extractor.

  \<^bold>\<open>The program.\<close> The extractor takes capture commands from a message bus, fetches the document a command
  names under a strict network policy, converts it into the shared Document IR and reports the outcome as
  events. A command becomes a queued run in one database transaction; a worker claims a run under a lease
  (\<open>services/extractor/src/main.rs\<close>) and drives it through the pipeline
  (\<open>services/extractor/src/pipeline.rs\<close>): safe fetch, raw bytes into the content-addressed store, parsing,
  a terminal transition whose events wait in the outbox until the relay publishes them. Pages that need
  scripting are escalated, under a policy and a daily budget, to a separate browser worker
  (\<open>services/browser-worker\<close>). Hacker News, Reddit, YouTube and PDF documents have adapters of their own.

  \<^bold>\<open>Theories and sources.\<close>
  \<^item> \<open>Prelude\<close>: \<open>Result\<close> as a sum with \<open>?\<close> as \<open>rbind\<close>, saturating and checked machine arithmetic, string
    functions of the standard library, tables as lists of rows, and the lemmas shared below.
  \<^item> \<open>UrlRouting\<close>: \<open>crates/url-routing\<close>. \<open>normalize\<close>, \<open>classify\<close>, the address policy \<open>validate_address\<close> on the
    octets and segments of addresses, and \<open>resolve_host\<close>.
  \<^item> \<open>Config\<close>: \<open>crates/core/src/config.rs\<close>. The typed configuration, \<open>load_from\<close>, its violations and reports.
  \<^item> \<open>BlobStore\<close>: \<open>crates/blob-store\<close>. \<open>store\<close>, \<open>verify\<close>, \<open>remove\<close>, \<open>prepare\<close> over a file system
    \<open>path \<rightharpoonup> node\<close> with an I/O fault at every call.
  \<^item> \<open>Admission\<close>, \<open>SafeFetch\<close>: \<open>crates/safe-fetch\<close>. Host and global slots, pacing and retry timing; the redirect
    and retry loops with the clock, the deadline, the response limits and the cache.
  \<^item> \<open>DocumentIr\<close>: \<open>crates/document-ir\<close>. Candidates, scoring, selection, identity and assembly.
    \<open>DomSink\<close>: the callbacks of \<open>dom.rs\<close> through which the parser builds the tree.
  \<^item> \<open>EventStore\<close>, \<open>Capture\<close>, \<open>Completion\<close>, \<open>Outbox\<close>, \<open>Rendering\<close>, \<open>Consumer\<close>: \<open>crates/eventing\<close> and
    \<open>crates/render-job\<close>. The tables of \<open>schema.sql\<close> with their constraints, intake and leases, terminal
    transitions, the relay, render requests with their budget, and the consumer loop.
    \<open>Eventing\<close> composes their transactions into the step relation \<open>db_step\<close>.
  \<^item> \<open>Pdf\<close>, \<open>Providers\<close>, \<open>Youtube\<close>, \<open>TimedText\<close>, \<open>Transcript\<close>: the adapters \<open>crates/pdf\<close>, \<open>crates/providers\<close>
    and \<open>crates/youtube\<close>. \<open>Media\<close>: artifacts and media of \<open>crates/persistence/src/records.rs\<close> and
    \<open>services/extractor/src/youtube_media.rs\<close>. \<open>Records\<close>: the rest of \<open>records.rs\<close>, and \<open>apply_schema\<close> of
    \<open>crates/persistence/src/lib.rs\<close> as interleaved starts of several processes.
  \<^item> \<open>PipelineCore\<close>, \<open>Pipeline\<close>, \<open>YoutubePipeline\<close>, \<open>ProcessRun\<close>: \<open>pipeline.rs\<close>, \<open>escalation.rs\<close>, \<open>pdf_run.rs\<close>,
    \<open>provider_continuation.rs\<close> and \<open>youtube_pipeline.rs\<close>. \<open>ServiceMain\<close>: the loops of \<open>main.rs\<close>, its start-up,
    shutdown and exit status.
  \<^item> \<open>Lifecycle\<close>: \<open>services/extractor/src/lib.rs\<close>. Health, operator routes, and drain gate and
    shutdown as interleaved steps.
  \<^item> \<open>BrowserWorker\<close>: \<open>services/browser-worker/src\<close>. Policy, interception, one render, deliveries, the loop.
  \<^item> \<open>Provisioning\<close>: the connections and streams of \<open>outbox.rs\<close>, \<open>topology.rs\<close> and the browser worker, the
    worker's entry point, and \<open>crates/telemetry\<close>.
  \<^item> \<open>Corpus\<close>, \<open>Shadow\<close>: \<open>tools/corpus/src\<close>. The golden corpus with its performance thresholds, and the offline
    comparison with the legacy system whose verdicts guard the cutover.

  \<^bold>\<open>How the code is represented.\<close> A struct is a record, an enum a datatype, an operation one definition with
  every early return as a branch. Rust errors are values of sum types. A transaction maps the database to a
  result and a database; its fate (commits, aborts, commits without the confirmation arriving) is an argument.
  Code that awaits is cut at its awaits: in \<open>db_step\<close>, the relay, \<open>Lifecycle\<close> and the pipeline every other
  process may act between two steps. Atomics act at once except the release store that closes the drain gate, whose
  visibility is a step of its own, since the code goes on to load another variable. The pipeline runs in a state
  monad whose \<open>effect\<close> lets the environment act and numbers
  the awaited calls; its trace is ghost state. Third-party code (the URL type, SHA-256, DNS, HTTP client,
  HTML and PDF parsers, the tree library, JSON codecs, contract crates, PostgreSQL's clock, the broker, Chromium, the
  downloader) is a field of an environment record or a parameter; what a theorem needs of it is a named
  hypothesis, and each such theorem has a witness at a concrete instance.

  \<^bold>\<open>What is shown.\<close>
  \<^item> Event log: every reachable database has, for each run, exactly the evidence and the events its status
    requires; recorded history is permanent; a command changes the database at most once, whatever its deliveries
    were answered, and is acknowledged only when durable; leases are exclusive; a relay pass settles its rows in
    order, and however it ends every undecided event is due again within five minutes; with a working broker and
    a single relay, enough wake-ups publish whatever was due;
    what leaves the system is bounded in size and carries public failure codes only.
  \<^item> Runs: the worker loop leaves every run it claimed and answered for terminal, and claims it once, whatever
    the rest of the system does meanwhile; a run fetches at most twice; rendering needs the policy and a budget slot;
    a run on a stored document parses exactly the bytes it names; a fetch that starts while more than
    its deadline is left of the lease keeps the run (this theory).
  \<^item> Network: the address policy equals the table of special-purpose blocks; every request of a fetch was
    checked; a fetch ends by its deadline, returns its slots and delivers no body over the limits; the limits of
    admission hold in every reachable state.
  \<^item> Storage: only content-addressed files are ever visible, a stored blob verifies and is retained, media
    stays within its budget; processes that start together apply the schema once; facts are recorded for the owner
    of a run only, and recording a candidate again changes nothing.
  \<^item> Documents: building the tree never rewrites a recorded node or attribute and keeps appended text in order; the
    selected candidate is the best one; assembled documents are well formed; provider, PDF and
    transcript conversions keep order and content within their bounds; timed text survives its round trip.
  \<^item> Browser: an acknowledged render has an event, a rendered page and all its released requests passed the
    policy within the budgets, a published page verifies.
  \<^item> Start and shutdown: coming up keeps every stream of the broker and creates only missing ones, without credentials;
    telemetry is installed once; a drained shutdown is final unless its reading of the counter overtook its own
    closing store, which the orderings of the code allow, and no wake-up of the drain is lost; readiness needs
    every start-up call.
  \<^item> Tools: a shadow verdict is the one its criterion implies and a held class names the failing sample; blessing
    a case makes it verify and leaves the others; reported percentiles have the rank they name.

  \<^bold>\<open>Interfaces.\<close> \<open>slot_limiter\<close> (\<open>Admission\<close>), \<open>content_store\<close> (\<open>BlobStore\<close>), \<open>deduplicating\<close> (\<open>Consumer\<close>),
  \<open>daily_budget\<close> (\<open>Rendering\<close>), \<open>run_ender\<close> and \<open>graded_trace\<close> (\<open>PipelineCore\<close>) state what a client may rely on;
  each is interpreted on the definitions of the component that provides it, \<open>deduplicating\<close> in \<open>Eventing\<close>, where
  the steps of the other processes are known.

  \<^bold>\<open>Loops and bounds.\<close> Recursion is structural on the data (rows, chunks, messages) or has a termination
  proof on the count that bounds the loop in the code: redirects and retries in \<open>SafeFetch\<close>, remaining input in
  the scanners. A wait of the environment (a broker that answers late, a poll) is a list or a function of the
  poll number, and the loop that polls it ends by the deadline the code computes; there is no
  fuel that could run out before the code stops. Counters whose overflow the code guards against are kept at their
  width or checked against \<open>u64_max\<close>.

  \<^bold>\<open>Not modelled.\<close> Log lines, spans and the text of metrics; reading the environment; the connection pool of the
  database, launching Chromium, the wait for signals, serving the admin routes, the drop of a run at a forced
  shutdown (its lease expires and it is claimed again); the JSON wire formats beyond timed text; test support, fuzz
  targets and the command-line wrappers of the corpus tools.
\<close>

section \<open>The worker: a claim, its lease and its fetch\<close>

text \<open>C5. A worker keeps its run through a fetch that starts in time. Take any accepted configuration, a claim
  made with its lease and a fetch made with its limits that starts while more than the fetch deadline of the lease is
  left; the configuration leaves room for such a start, since its lease exceeds the deadline. Whatever else
  happens to the database until the fetch returns, no claim made meanwhile hands the same run to another worker.
  A fetch that starts later, as the second fetch of a run may, is not covered: no code renews a lease.\<close>

theorem timely_fetch_keeps_its_run:
  assumes "load_from api filter_ok extracted = Ok c" "reachable env d"
    and "claim_queued_run env cx fate locked worker (bus_worker_lease_seconds (bus c)) limit d = (Ok (Some q), d1)"
    and "fetch_url n f request w = (r, w')" "config f = fetch c"
    and "slack_ms = nat (bus_worker_lease_seconds (bus c)) * 1000 - fetch_total_timeout_ms (fetch c)"
    and "now_us cx \<le> start_us" "start_us < now_us cx + slack_ms * 1000"
    and "end_us = start_us + (clock w' - clock w) * 1000"
    and "evolves env (Suc end_us) d1 d2"
    and "claim_queued_run env cx' fate' locked' worker' lease' limit' d2 = (Ok (Some q'), d3)" "now_us cx' \<le> end_us"
  shows "0 < slack_ms \<and> qr_run_id q' \<noteq> qr_run_id q"
proof -
  let ?lease = "bus_worker_lease_seconds (bus c)"
  note lease = accepted_lease [OF assms(1)]
  have us: "lease_us ?lease = nat ?lease * 1000 * 1000"
    using lease by (simp add: lease_us_def seconds_def)
  have "clock w' - clock w \<le> fetch_total_timeout_ms (fetch c)" using fetch_clock [OF assms(4)] assms(5) by auto
  then have "end_us < now_us cx + (slack_ms + fetch_total_timeout_ms (fetch c)) * 1000"
    using assms(8,9) by (simp add: algebra_simps)
  then have fits: "end_us < now_us cx + lease_us ?lease"
    using assms(6) lease(3) us by simp
  have "evolves env (now_us cx + lease_us ?lease) d1 d2" by (rule evolves_mono [OF assms(10)]) (use fits in simp)
  from lease_excludes [OF assms(2,3) this assms(11)] fits assms(12) have "qr_run_id q' \<noteq> qr_run_id q" by simp
  with lease(3) assms(6) show ?thesis by simp
qed

theorem timely_fetch_keeps_its_run_witness:
  "\<exists>q d. claim_queued_run sample_event_env (sample_cx 21) Commits (\<lambda>_. False) ''v'' 60 500 two_runs_db = (Ok (Some q), d)
     \<and> qr_run_id q \<noteq> [10, 1]"
proof -
  let ?f = "sample_fetcher\<lparr>config := fetch postgres_config\<rparr>"
  let ?w' = "snd (fetch_url sample_net ?f sample_request sample_world)"
  let ?finish = "seconds 31 + (clock ?w' - clock sample_world) * 1000"
  have a: "load_from sample_api (\<lambda>_. True) (Ok postgres_config :: (unit, _) res) = Ok postgres_config" by code_simp
  have l: "bus_worker_lease_seconds (bus postgres_config) = 60" "fetch_total_timeout_ms (fetch postgres_config) = 30000"
    by (simp_all add: postgres_config_def built_in_def Let_def)
  have b: "claim_queued_run sample_event_env (sample_cx 11) Commits (\<lambda>_. False) ''w''
      (bus_worker_lease_seconds (bus postgres_config)) 500 received_db
      = (Ok (Some (sample_run\<lparr>qr_url := ''urn:ratatoskr:blob:sha256:'' @ replicate 64 (CHR ''a'')\<rparr>)), claimed_db)"
    using sample_claimed unfolding claimed_db_def l by (simp add: prod_eq_iff)
  obtain q d where s: "claim_queued_run sample_event_env (sample_cx 21) Commits (\<lambda>_. False) ''v'' 60 500 two_runs_db
      = (Ok (Some q), d)" by (rule second_claim)
  have e: "evolves sample_event_env (Suc ?finish) claimed_db two_runs_db"
    by (rule evolves_mono [OF two_runs_evolve]) (simp add: sample_cx_def seconds_def)
  have "qr_run_id q \<noteq> qr_run_id (sample_run\<lparr>qr_url := ''urn:ratatoskr:blob:sha256:'' @ replicate 64 (CHR ''a'')\<rparr>)"
    using timely_fetch_keeps_its_run [OF a received_reachable b surjective_pairing, of ?f
        "nat 60 * 1000 - 30000" "seconds 31" ?finish, OF _ _ _ _ _ e s] l
    by (simp add: sample_cx_def seconds_def)
  then have "qr_run_id q \<noteq> [10, 1]" by (simp add: sample_run_def)
  with s show ?thesis by blast
qed

end
